(* ===== verification/Go_Prelude.thy ===== *)
theory Go_Prelude
  imports Main "HOL-Library.Word" "HOL-Library.Signed_Division"
begin

unbundle bit_operations_syntax

text \<open>
  Shared vocabulary of the development: the machine types of Go, the little-endian and
  base-128 bit arithmetic the trace protocol is built from, the part of package \<open>time\<close>
  that the protocol uses, and the fact collections that carry the component proofs.

  Go's fixed-width integers are words; a signed type and its unsigned partner are the same
  word type and differ in the operations applied (\<open>sint\<close>, \<open><s\<close> for signed ones). Go's
  \<open>string\<close> and \<open>[]byte\<close> are byte lists, the nil slice being the empty list.
\<close>

type_synonym byte = "8 word"
type_synonym bytes = "8 word list"
type_synonym uint32 = "32 word"
type_synonym int32 = "32 word"
type_synonym uint64 = "64 word"
type_synonym int64 = "64 word"

text \<open>Fact collections: \<open>tb_append\<close> rewrites every write on an event buffer to an append,
  \<open>parses_intros\<close> and \<open>reader_intros\<close> build up facts about readers from their parts.\<close>

named_theorems tb_append
named_theorems parses_intros
named_theorems reader_intros


section \<open>Bits of words\<close>

lemma bit_0x80 [simp]: "bit (0x80 :: byte) n \<longleftrightarrow> n = 7"
proof -
  have "(0x80 :: byte) = push_bit 7 1" by simp
  then have "bit (0x80 :: byte) n \<longleftrightarrow> bit (push_bit 7 (1 :: byte)) n" by (rule arg_cong)
  then show ?thesis by (simp only: bit_push_bit_iff bit_1_iff) auto
qed

lemmas bit_byte_simps = bit_simps bit_0x80

lemma sless_0_iff_bit: "(i :: 'a::len word) <s 0 \<longleftrightarrow> bit i (LENGTH('a) - 1)"
  by (simp add: word_sless_alt bit_last_iff)

lemma and_1_eq_0_iff_bit: "(u :: 'a::len word) AND 1 = 0 \<longleftrightarrow> \<not> bit u 0"
  by (metis and_one_eq bit_0 even_iff_mod_2_eq_zero)

lemma and_0x80_eq_0_iff [simp]: "(b :: byte) AND 0x80 = 0 \<longleftrightarrow> \<not> bit b 7"
proof -
  have "bit (b AND 0x80) n \<longleftrightarrow> n = 7 \<and> bit b 7" for n
    by (auto simp: bit_and_iff simp del: bit_numeral_word_iff)
  then show ?thesis
    by (metis bit_0_eq bit_word_eqI bot_apply bot_bool_def)
qed

lemma and_not_0x80: "(b :: byte) AND NOT 0x80 = take_bit 7 b"
  by (rule bit_word_eqI) (auto simp: bit_simps simp del: bit_numeral_word_iff not_numeral_eq)

lemmas and_not_0x80' [simp] = and_not_0x80 [simplified]

lemma less_0x80_bit: "x < 0x80 \<Longrightarrow> bit (x :: uint64) n \<Longrightarrow> n < 7"
proof -
  assume "x < 0x80" "bit x n"
  then have "unat x < 2 ^ 7" "bit (unat x) n"
    by (simp_all add: word_less_nat_alt bit_unsigned_iff)
  then show ?thesis by (metis bit_take_bit_iff take_bit_nat_eq_self)
qed

text \<open>Shifting left by one loses the sign bit only; these are the two halves of zigzag
  encoding.\<close>

lemma drop_push_nonneg:
  fixes i :: "'a::len word"
  assumes "\<not> bit i (LENGTH('a) - 1)"
  shows "drop_bit 1 (push_bit 1 i) = i"
proof (rule bit_word_eqI)
  fix n assume "n < LENGTH('a)"
  then show "bit (drop_bit 1 (push_bit 1 i)) n \<longleftrightarrow> bit i n"
    using assms by (cases "n = LENGTH('a) - 1")
      (auto simp: bit_simps simp del: push_bit_Suc drop_bit_Suc One_nat_def)
qed

lemma drop_push_neg:
  fixes i :: "'a::len word"
  assumes "bit i (LENGTH('a) - 1)"
  shows "NOT (drop_bit 1 (push_bit 1 (NOT i) OR 1)) = i"
proof (rule bit_word_eqI)
  fix n assume "n < LENGTH('a)"
  then show "bit (NOT (drop_bit 1 (push_bit 1 (NOT i) OR 1))) n \<longleftrightarrow> bit i n"
    using assms by (cases "n = LENGTH('a) - 1")
      (auto simp: bit_simps simp del: push_bit_Suc drop_bit_Suc One_nat_def)
qed

text \<open>The seven low bits of a word and the rest of it, put back together.\<close>

lemma base128_split:
  "push_bit i (ucast (take_bit 7 (ucast (x :: uint64) :: byte))) OR push_bit (i + 7) (drop_bit 7 x)
     = (push_bit i x :: uint64)"
proof (rule bit_word_eqI)
  fix n assume "n < LENGTH(64)"
  then show "bit (push_bit i (ucast (take_bit 7 (ucast x :: byte))) OR push_bit (i + 7) (drop_bit 7 x)) n
      \<longleftrightarrow> bit (push_bit i x) n"
    by (cases "n < i + 7") (auto simp: bit_simps)
qed

lemma base128_last:
  assumes "x < 0x80"
  shows "\<not> bit (ucast (x :: uint64) :: byte) 7" "ucast (take_bit 7 (ucast x :: byte)) = x"
proof -
  show "\<not> bit (ucast x :: byte) 7"
    using less_0x80_bit [OF assms] by (auto simp: bit_simps)
  show "ucast (take_bit 7 (ucast x :: byte)) = x"
    using less_0x80_bit [OF assms] by (intro bit_word_eqI) (fastforce simp: bit_simps)
qed

lemma base128_more: "bit (ucast (x :: uint64) OR (0x80 :: byte)) 7"
  by (simp add: bit_simps del: bit_numeral_word_iff)


section \<open>Little-endian integers (encoding/binary)\<close>

definition le_bytes64 :: "uint64 \<Rightarrow> bytes" where
  "le_bytes64 x = [ucast x, ucast (drop_bit 8 x), ucast (drop_bit 16 x), ucast (drop_bit 24 x),
     ucast (drop_bit 32 x), ucast (drop_bit 40 x), ucast (drop_bit 48 x), ucast (drop_bit 56 x)]"

definition le_bytes32 :: "uint32 \<Rightarrow> bytes" where
  "le_bytes32 x = [ucast x, ucast (drop_bit 8 x), ucast (drop_bit 16 x), ucast (drop_bit 24 x)]"

definition le_Uint64 :: "bytes \<Rightarrow> uint64" where
  "le_Uint64 b = ucast (b ! 0) OR push_bit 8 (ucast (b ! 1)) OR push_bit 16 (ucast (b ! 2))
     OR push_bit 24 (ucast (b ! 3)) OR push_bit 32 (ucast (b ! 4)) OR push_bit 40 (ucast (b ! 5))
     OR push_bit 48 (ucast (b ! 6)) OR push_bit 56 (ucast (b ! 7))"

definition le_Uint32 :: "bytes \<Rightarrow> uint32" where
  "le_Uint32 b = ucast (b ! 0) OR push_bit 8 (ucast (b ! 1)) OR push_bit 16 (ucast (b ! 2))
     OR push_bit 24 (ucast (b ! 3))"

lemma length_le_bytes [simp]: "length (le_bytes64 x) = 8" "length (le_bytes32 y) = 4"
  by (simp_all add: le_bytes64_def le_bytes32_def)

lemma bit_le_byte:
  fixes x :: "'a::len word"
  assumes "n < LENGTH('a)"
  shows "bit (push_bit i (ucast (ucast (drop_bit i x) :: byte)) :: 'a word) n \<longleftrightarrow> i \<le> n \<and> n < i + 8 \<and> bit x n"
    and "bit (ucast (ucast x :: byte) :: 'a word) n \<longleftrightarrow> n < 8 \<and> bit x n"
  using assms by (auto simp: bit_simps)

lemma le_Uint64_bytes [simp]: "le_Uint64 (le_bytes64 x) = x"
proof (rule bit_word_eqI)
  fix n assume "n < LENGTH(64)"
  then show "bit (le_Uint64 (le_bytes64 x)) n \<longleftrightarrow> bit x n"
    unfolding le_Uint64_def le_bytes64_def
    by (simp add: bit_or_iff bit_le_byte) arith
qed

lemma le_Uint32_bytes [simp]: "le_Uint32 (le_bytes32 x) = x"
proof (rule bit_word_eqI)
  fix n assume "n < LENGTH(32)"
  then show "bit (le_Uint32 (le_bytes32 x)) n \<longleftrightarrow> bit x n"
    unfolding le_Uint32_def le_bytes32_def
    by (simp add: bit_or_iff bit_le_byte) arith
qed


section \<open>Lengths and counts\<close>

text \<open>
  \<open>for i := 0; i < int(n); i++\<close> runs the body this often: a count whose sign bit is set
  is negative as an \<open>int\<close> and the loop does not run at all.
\<close>

definition loop_count :: "uint64 \<Rightarrow> nat" where
  "loop_count n = nat (sint n)"

lemma loop_count_of_nat: "n < 2 ^ 63 \<Longrightarrow> loop_count (of_nat n) = n"
proof -
  assume "n < 2 ^ 63"
  then have "int n < 2 ^ 63" by simp
  then have "signed_take_bit 63 (int n) = int n"
    by (intro signed_take_bit_int_eq_self) auto
  moreover have "sint (word_of_int (int n) :: int64) = signed_take_bit 63 (int n)"
    by (subst sint_sbintrunc') simp
  ultimately show ?thesis
    by (simp add: loop_count_def)
qed

end
