(* ===== verification/Go_Stdlib.thy ===== *)
theory Go_Stdlib
  imports Go_Prelude
begin

text \<open>
  The parts of Go's standard library that the trace protocol leans on: \<open>utf8\<close> decoding as
  far as \<open>strings.ToValidUTF8\<close> needs it, and \<open>time.Time\<close> (without a monotonic reading, which
  is how times arrive from the wire) with \<open>Unix\<close>, \<open>Nanosecond\<close> and \<open>Add\<close>.
\<close>


section \<open>UTF-8\<close>

definition in_range :: "byte \<Rightarrow> byte \<Rightarrow> byte \<Rightarrow> bool" where
  "in_range lo hi b \<longleftrightarrow> lo \<le> b \<and> b \<le> hi"

text \<open>The table of leading bytes: the length of the sequence a byte starts (0 for none), and
  the range its second byte must fall in, which rules out overlong forms, surrogates and
  values above U+10FFFF.\<close>

definition seq_len :: "byte \<Rightarrow> nat" where
  "seq_len b = (if b < 0x80 then 1 else if in_range 0xC2 0xDF b then 2
     else if in_range 0xE0 0xEF b then 3 else if in_range 0xF0 0xF4 b then 4 else 0)"

definition accept :: "byte \<Rightarrow> byte \<Rightarrow> bool" where
  "accept b0 = in_range (if b0 = 0xE0 then 0xA0 else if b0 = 0xF0 then 0x90 else 0x80)
     (if b0 = 0xED then 0x9F else if b0 = 0xF4 then 0x8F else 0xBF)"

text \<open>
  The width of the well-formed UTF-8 sequence at the head of a byte list, 0 when there is none
  (\<open>DecodeRuneInString\<close> then reports \<open>RuneError\<close> and width 1).
\<close>

fun rune_width :: "bytes \<Rightarrow> nat" where
  "rune_width [] = 0"
| "rune_width (b0 # t) =
     (let n = seq_len b0
      in if n = 0 \<or> length t < n - 1 then 0
         else if n = 1 then 1
         else if accept b0 (hd t) \<and> list_all (in_range 0x80 0xBF) (take (n - 2) (tl t)) then n
         else 0)"

lemma rune_width_le_length: "rune_width bs \<le> length bs"
  by (cases bs) (auto simp: Let_def)

text \<open>The replacement \<open>string(utf8.RuneError)\<close>, U+FFFD in UTF-8.\<close>

definition rune_error :: bytes where
  "rune_error = [0xEF, 0xBF, 0xBD]"

lemma rune_width_error: "rune_width (rune_error @ bs) = 3"
  by (simp add: rune_error_def seq_len_def accept_def in_range_def)

text \<open>
  \<open>strings.ToValidUTF8\<close> with that replacement: each maximal run of invalid bytes becomes one replacement.
  The flag says whether the previous byte belonged to such a run.
\<close>

function to_valid_utf8 :: "bool \<Rightarrow> bytes \<Rightarrow> bytes" where
  "to_valid_utf8 invalid bs =
     (if bs = [] then []
      else if rune_width bs = 0
        then (if invalid then [] else rune_error) @ to_valid_utf8 True (tl bs)
      else take (rune_width bs) bs @ to_valid_utf8 False (drop (rune_width bs) bs))"
  by pat_completeness auto
termination
  by (relation "measure (\<lambda>(_, bs). length bs)") auto

declare to_valid_utf8.simps [simp del]

abbreviation ToValidUTF8 :: "bytes \<Rightarrow> bytes" where
  "ToValidUTF8 \<equiv> to_valid_utf8 False"

function valid_utf8 :: "bytes \<Rightarrow> bool" where
  "valid_utf8 bs =
     (if bs = [] then True
      else if rune_width bs = 0 then False
      else valid_utf8 (drop (rune_width bs) bs))"
  by pat_completeness auto
termination
  by (relation "measure length") auto

declare valid_utf8.simps [simp del]

lemma valid_utf8_Nil [simp]: "valid_utf8 []"
  by (simp add: valid_utf8.simps)

lemma to_valid_utf8_Nil [simp]: "to_valid_utf8 i [] = []"
  by (simp add: to_valid_utf8.simps)

lemma to_valid_utf8_id: "valid_utf8 bs \<Longrightarrow> to_valid_utf8 i bs = bs"
proof (induction bs arbitrary: i rule: valid_utf8.induct)
  case (1 bs)
  show ?case
  proof (cases "bs = []")
    case False
    with "1.prems" have "0 < rune_width bs" "valid_utf8 (drop (rune_width bs) bs)"
      by (auto simp: valid_utf8.simps [of bs] split: if_splits)
    with "1.IH" [of False] False show ?thesis by (simp add: to_valid_utf8.simps [of i bs])
  qed simp
qed

lemma ToValidUTF8_eq_Nil [simp]: "ToValidUTF8 bs = [] \<longleftrightarrow> bs = []"
  by (subst to_valid_utf8.simps) (auto simp: rune_error_def)

text \<open>The head of a well-formed sequence decides its width: what follows it does not matter.\<close>

lemma rune_width_take:
  assumes "0 < rune_width bs"
  shows "rune_width (take (rune_width bs) bs @ cs) = rune_width bs"
proof (cases bs)
  case (Cons b0 t)
  with assms have n: "rune_width bs = seq_len b0" "0 < seq_len b0" "seq_len b0 - 1 \<le> length t"
    by (auto simp: Let_def split: if_splits)
  show ?thesis
  proof (cases "seq_len b0 = 1")
    case False
    with n obtain m where m: "seq_len b0 = Suc (Suc m)"
      by (metis One_nat_def gr0_conv_Suc not0_implies_Suc)
    with n obtain b1 u where "t = b1 # u" "m \<le> length u"
      by (cases t) auto
    with n m assms Cons show ?thesis
      by (auto simp: Let_def split: if_splits)
  qed (use Cons n in \<open>simp add: Let_def\<close>)
qed (use assms in simp)

lemma valid_utf8_step:
  "0 < rune_width bs \<Longrightarrow> valid_utf8 cs \<Longrightarrow> valid_utf8 (take (rune_width bs) bs @ cs)"
  by (subst valid_utf8.simps)
    (auto simp: rune_width_take rune_width_le_length min_absorb2)

lemma valid_utf8_to_valid: "valid_utf8 (to_valid_utf8 i bs)"
proof (induction i bs rule: to_valid_utf8.induct)
  case (1 i bs)
  consider "bs = []" | "bs \<noteq> []" "rune_width bs = 0" | "bs \<noteq> []" "0 < rune_width bs"
    by fastforce
  then show ?case
  proof cases
    case 2
    then have "valid_utf8 (to_valid_utf8 True (tl bs))" by (rule "1.IH")
    with 2 show ?thesis
      using valid_utf8_step [of rune_error "to_valid_utf8 True (tl bs)"] rune_width_error [of "[]"]
      by (simp add: to_valid_utf8.simps [of i bs] rune_error_def)
  next
    case 3
    then have "valid_utf8 (to_valid_utf8 False (drop (rune_width bs) bs))"
      by (intro "1.IH"(2)) auto
    with 3 show ?thesis
      by (simp add: to_valid_utf8.simps [of i bs] valid_utf8_step)
  qed simp
qed


section \<open>Time\<close>

text \<open>
  A \<open>time.Time\<close> without monotonic reading: nanoseconds within the second (in \<open>wall\<close>) and the
  seconds since 1 January of year 1 (in \<open>ext\<close>).
\<close>

record go_time =
  t_nsec :: int
  t_ext :: int64

definition go_time_ok :: "go_time \<Rightarrow> bool" where
  "go_time_ok t \<longleftrightarrow> 0 \<le> t_nsec t \<and> t_nsec t < 1000000000"

definition unixToInternal :: int64 where
  "unixToInternal = 62135596800"

definition time_Unix :: "int64 \<Rightarrow> int64 \<Rightarrow> go_time" where
  "time_Unix sec nsec =
     (let (sec, nsec) =
        (if nsec <s 0 \<or> 1000000000 \<le>s nsec then
           let n = word_of_int (sint nsec sdiv 1000000000);
               sec = sec + n;
               nsec = nsec - n * 1000000000
           in if nsec <s 0 then (sec - 1, nsec + 1000000000) else (sec, nsec)
         else (sec, nsec))
      in \<lparr>t_nsec = sint nsec, t_ext = sec + unixToInternal\<rparr>)"

text \<open>The methods \<open>t.Unix()\<close> and \<open>t.Nanosecond()\<close>.\<close>

definition t_Unix :: "go_time \<Rightarrow> int64" where
  "t_Unix t = t_ext t - unixToInternal"

definition t_Nanosecond :: "go_time \<Rightarrow> int" where
  "t_Nanosecond t = t_nsec t"

text \<open>\<open>addSec\<close> saturates instead of wrapping around.\<close>

definition t_addSec :: "go_time \<Rightarrow> int64 \<Rightarrow> go_time" where
  "t_addSec t d =
     (let sum = t_ext t + d
      in if (t_ext t <s sum) = (0 <s d) then t\<lparr>t_ext := sum\<rparr>
         else if 0 <s d then t\<lparr>t_ext := 2 ^ 63 - 1\<rparr>
         else t\<lparr>t_ext := - (2 ^ 63 - 1)\<rparr>)"

definition t_Add :: "go_time \<Rightarrow> int64 \<Rightarrow> go_time" where
  "t_Add t d =
     (let dsec = sint d sdiv 1000000000;
          nsec = t_nsec t + sint d smod 1000000000;
          (dsec, nsec) =
            (if 1000000000 \<le> nsec then (dsec + 1, nsec - 1000000000)
             else if nsec < 0 then (dsec - 1, nsec + 1000000000)
             else (dsec, nsec))
      in t_addSec (t\<lparr>t_nsec := nsec\<rparr>) (word_of_int dsec))"

text \<open>The instant as a number of nanoseconds since year 1.\<close>

definition t_nanos :: "go_time \<Rightarrow> int" where
  "t_nanos t = sint (t_ext t) * 1000000000 + t_nsec t"

lemma sint_small: "- (2 ^ 63) \<le> n \<Longrightarrow> n < 2 ^ 63 \<Longrightarrow> sint (word_of_int n :: int64) = n"
  by (subst sint_sbintrunc') (simp add: signed_take_bit_int_eq_self)

lemma sint_scast_small:
  assumes "- (2 ^ 31) \<le> n" "n < 2 ^ 31"
  shows "sint (scast (word_of_int n :: int32) :: int64) = n"
proof -
  have "sint (word_of_int n :: int32) = n"
    using assms by (subst sint_sbintrunc') (simp add: signed_take_bit_int_eq_self)
  then show ?thesis using assms by (simp add: scast_eq sint_small)
qed

lemma time_Unix_id:
  assumes "go_time_ok t"
  shows "time_Unix (t_Unix t) (scast (word_of_int (t_Nanosecond t) :: int32)) = t"
proof -
  have n: "sint (scast (word_of_int (t_nsec t) :: int32) :: int64) = t_nsec t"
    using assms by (intro sint_scast_small) (auto simp: go_time_ok_def)
  have "\<not> scast (word_of_int (t_nsec t) :: int32) <s (0 :: int64)"
    "\<not> (1000000000 :: int64) \<le>s scast (word_of_int (t_nsec t) :: int32)"
    using assms by (auto simp: word_sless_alt word_sle_eq n go_time_ok_def)
  then show ?thesis
    by (simp add: time_Unix_def t_Unix_def t_Nanosecond_def n)
qed


text \<open>Adding a duration to a time is exact as long as the seconds stay in range.\<close>

lemma sdiv_smod_bounds:
  fixes d :: int
  shows "d = (d sdiv 1000000000) * 1000000000 + d smod 1000000000" "\<bar>d smod 1000000000\<bar> < 1000000000"
    "\<bar>d sdiv 1000000000\<bar> * 1000000000 \<le> \<bar>d\<bar>"
proof -
  show eq: "d = (d sdiv 1000000000) * 1000000000 + d smod 1000000000"
    using mult_sdiv_smod_eq [of 1000000000 d] by simp
  show "\<bar>d smod 1000000000\<bar> < 1000000000"
    by (simp add: signed_modulo_int_def abs_mult sgn_if)
  have "x div 1000000000 * 1000000000 \<le> x" for x :: int
    using div_mult_mod_eq [of x 1000000000] pos_mod_sign [of 1000000000 x] by linarith
  then show "\<bar>d sdiv 1000000000\<bar> * 1000000000 \<le> \<bar>d\<bar>"
    by (simp add: signed_divide_int_def abs_mult sgn_if)
qed

lemma sint_plus_small:
  fixes a b :: int64
  assumes "- (2 ^ 63) \<le> sint a + sint b" "sint a + sint b < 2 ^ 63"
  shows "sint (a + b) = sint a + sint b"
proof -
  have "a + b = word_of_int (sint a + sint b)" by simp
  then show ?thesis using sint_small [OF assms] by metis
qed

lemma t_Add_exact:
  assumes "go_time_ok t" "\<bar>sint (t_ext t)\<bar> < 2 ^ 62"
  shows "t_nanos (t_Add t d) = t_nanos t + sint d" "go_time_ok (t_Add t d)"
proof -
  define q where "q = sint d sdiv 1000000000"
  define m where "m = sint d smod 1000000000"
  define k where "k = (if 1000000000 \<le> t_nsec t + m then 1 else if t_nsec t + m < 0 then - 1 else (0 :: int))"
  note qm = sdiv_smod_bounds [of "sint d", folded q_def m_def]
  have d: "\<bar>sint d\<bar> \<le> 2 ^ 63" using sint_ge [of d] sint_lt [of d] by (simp add: abs_le_iff)
  have q: "\<bar>q\<bar> < 2 ^ 40" using qm(3) d by simp
  have k: "\<bar>k\<bar> \<le> 1" by (simp add: k_def)
  have s: "sint (word_of_int (q + k) :: int64) = q + k" using q k by (intro sint_small) auto
  have sum: "sint (t_ext t + word_of_int (q + k)) = sint (t_ext t) + (q + k)"
    using q k assms(2) s by (subst sint_plus_small) auto
  have "t_Add t d = t_addSec (t\<lparr>t_nsec := t_nsec t + m - k * 1000000000\<rparr>) (word_of_int (q + k))"
    by (simp add: t_Add_def q_def [symmetric] m_def [symmetric] k_def Let_def)
  also have "\<dots> = t\<lparr>t_nsec := t_nsec t + m - k * 1000000000, t_ext := t_ext t + word_of_int (q + k)\<rparr>"
    using s sum by (simp add: t_addSec_def Let_def word_sless_alt del: of_int_add)
  finally have add: "t_Add t d = t\<lparr>t_nsec := t_nsec t + m - k * 1000000000, t_ext := t_ext t + word_of_int (q + k)\<rparr>" .
  show "t_nanos (t_Add t d) = t_nanos t + sint d"
    using sum qm(1) by (simp add: add t_nanos_def algebra_simps del: of_int_add)
  show "go_time_ok (t_Add t d)"
    using qm(2) assms(1) by (auto simp: add go_time_ok_def k_def)
qed

end
