(* ===== verification/Trace_Reader.thy ===== *)
theory Trace_Reader
  imports Go_Stdlib
begin

text \<open>
  The binary reader of the trace parser (pkg/traceparser/binreader.go): primitive values read
  off a buffered stream, with a sticky error. A read that hits the end of the stream records
  the first error and hands out zero values; parsing goes on and the error is looked at later.

  A reader maps the reader state to a value and a new state, or to a panic. The stream is the
  list of bytes it will deliver, followed by the error of the source.
\<close>

datatype read_error = EOF | ErrUnexpectedEOF | ErrSource string

record traceReader =
  tr_buf :: bytes
  tr_src_err :: read_error
  tr_version :: int
  tr_bytesRead :: nat
  tr_err :: "read_error option"

text \<open>The panics that \<open>parseEvent\<close> recovers from: a bailout on an unknown event type, and the
  runtime's refusal of an impossible slice length.\<close>

datatype panic_value = Bailout byte | MakeSliceOutOfRange

datatype 'a outcome = Ret 'a traceReader | Panic panic_value traceReader

type_synonym 'a reader = "traceReader \<Rightarrow> 'a outcome"

definition rd_return :: "'a \<Rightarrow> 'a reader" where
  "rd_return x r = Ret x r"

definition rd_bind :: "'a reader \<Rightarrow> ('a \<Rightarrow> 'b reader) \<Rightarrow> 'b reader" where
  "rd_bind p f r = (case p r of Ret x r' \<Rightarrow> f x r' | Panic v r' \<Rightarrow> Panic v r')"

definition rd_panic :: "panic_value \<Rightarrow> 'a reader" where
  "rd_panic v r = Panic v r"

definition rd_map :: "('a \<Rightarrow> 'b) \<Rightarrow> 'a reader \<Rightarrow> 'b reader" where
  "rd_map f p = rd_bind p (\<lambda>x. rd_return (f x))"

text \<open>A counted loop that collects what its body reads.\<close>

fun rd_repeat :: "nat \<Rightarrow> 'a reader \<Rightarrow> 'a list reader" where
  "rd_repeat 0 p = rd_return []"
| "rd_repeat (Suc n) p = rd_bind p (\<lambda>x. rd_map ((#) x) (rd_repeat n p))"

text \<open>
  \<open>make([]T, n)\<close> with elements of \<open>elem_size\<close> bytes: the runtime panics when the allocation would
  exceed its address space (48 bits on the supported 64-bit platforms); lengths that are
  negative as an \<open>int\<close> are above that bound as well.
\<close>

definition maxAlloc :: nat where
  "maxAlloc = 2 ^ 48"

definition makeslice :: "nat \<Rightarrow> nat \<Rightarrow> unit reader" where
  "makeslice elem_size n = (if maxAlloc < elem_size * n then rd_panic MakeSliceOutOfRange else rd_return ())"


section \<open>Primitive reads\<close>

definition tr_setErr :: "read_error option \<Rightarrow> traceReader \<Rightarrow> traceReader" where
  "tr_setErr err tr = (if tr_err tr = None then tr\<lparr>tr_err := err\<rparr> else tr)"

text \<open>
  \<open>io.ReadFull\<close> into a zeroed slice of length \<open>n\<close>: what the stream still has fills its front,
  and a short read is \<open>EOF\<close> when nothing was read and \<open>ErrUnexpectedEOF\<close> otherwise (other
  errors of the source pass through).
\<close>

definition read_full_err :: "read_error \<Rightarrow> nat \<Rightarrow> nat \<Rightarrow> read_error option" where
  "read_full_err src got n =
     (if n \<le> got then None
      else if 0 < got \<and> src = EOF then Some ErrUnexpectedEOF
      else Some src)"

definition tr_Bytes :: "nat \<Rightarrow> bytes reader" where
  "tr_Bytes n tr =
     (let got = min n (length (tr_buf tr));
          b = take n (tr_buf tr) @ replicate (n - got) 0;
          err = read_full_err (tr_src_err tr) got n
      in Ret b (tr_setErr err (tr\<lparr>tr_buf := drop n (tr_buf tr),
                                 tr_bytesRead := tr_bytesRead tr + got\<rparr>)))"

definition tr_Skip :: "nat \<Rightarrow> unit reader" where
  "tr_Skip n tr =
     (let discarded = min n (length (tr_buf tr));
          err = (if n \<le> discarded then None else Some (tr_src_err tr))
      in Ret () (tr_setErr err (tr\<lparr>tr_buf := drop n (tr_buf tr),
                                  tr_bytesRead := tr_bytesRead tr + discarded\<rparr>)))"

definition tr_Byte :: "byte reader" where
  "tr_Byte tr =
     (case tr_buf tr of
        [] \<Rightarrow> Ret 0 (tr_setErr (Some (tr_src_err tr)) tr)
      | b # bs \<Rightarrow> Ret b (tr\<lparr>tr_buf := bs, tr_bytesRead := tr_bytesRead tr + 1\<rparr>))"

definition tr_Bool :: "bool reader" where
  "tr_Bool = rd_map (\<lambda>b. b \<noteq> 0) tr_Byte"

function tr_UVarint_loop :: "nat \<Rightarrow> uint64 \<Rightarrow> uint64 reader" where
  "tr_UVarint_loop i u tr =
     (case tr_buf tr of
        [] \<Rightarrow> Ret 0 (tr_setErr (Some (tr_src_err tr)) tr)
      | b # bs \<Rightarrow>
          (let tr = tr\<lparr>tr_buf := bs, tr_bytesRead := tr_bytesRead tr + 1\<rparr>;
               u = u OR push_bit i (ucast (b AND NOT 0x80))
           in if b AND 0x80 = 0 then Ret u tr else tr_UVarint_loop (i + 7) u tr))"
  by pat_completeness auto
termination
  by (relation "measure (\<lambda>(_, _, tr). length (tr_buf tr))") auto

declare tr_UVarint_loop.simps [simp del]

definition tr_UVarint :: "uint64 reader" where
  "tr_UVarint = tr_UVarint_loop 0 0"

definition tr_ByteString :: "bytes reader" where
  "tr_ByteString =
     rd_bind tr_UVarint (\<lambda>size.
       if size = 0 then rd_return []
       else rd_bind (makeslice 1 (unat size)) (\<lambda>_. tr_Bytes (unat size)))"

definition tr_String :: "bytes reader" where
  "tr_String = rd_map ToValidUTF8 tr_ByteString"

text \<open>\<open>ptrOrNil\<close>: a zero value becomes nil.\<close>

definition ptrOrNil :: "'a \<Rightarrow> 'a \<Rightarrow> 'a option" where
  "ptrOrNil zero val = (if val = zero then None else Some val)"

definition tr_OptString :: "bytes option reader" where
  "tr_OptString = rd_map (ptrOrNil []) tr_String"

definition tr_OptUVarint :: "uint64 option reader" where
  "tr_OptUVarint = rd_map (ptrOrNil 0) tr_UVarint"

definition tr_Uint32 :: "uint32 reader" where
  "tr_Uint32 = rd_map le_Uint32 (tr_Bytes 4)"

definition tr_Int32 :: "int32 reader" where
  "tr_Int32 = rd_map (\<lambda>u. if u AND 1 = 0 then drop_bit 1 u else NOT (drop_bit 1 u)) tr_Uint32"

definition tr_Uint64 :: "uint64 reader" where
  "tr_Uint64 = rd_map le_Uint64 (tr_Bytes 8)"

definition unsignedToSigned :: "uint64 \<Rightarrow> int64" where
  "unsignedToSigned u = (if u AND 1 = 0 then drop_bit 1 u else NOT (drop_bit 1 u))"

definition tr_Int64 :: "int64 reader" where
  "tr_Int64 = rd_map unsignedToSigned tr_Uint64"

definition tr_Nanotime :: "int64 reader" where
  "tr_Nanotime = tr_Int64"

text \<open>The protobuf timestamp that \<open>timestamppb.New\<close> makes of a time.\<close>

datatype Timestamp = timestamppb_New go_time

definition tr_Time :: "Timestamp reader" where
  "tr_Time =
     rd_bind tr_Int64 (\<lambda>sec.
     rd_bind tr_Int32 (\<lambda>nsec.
     rd_return (timestamppb_New (time_Unix sec (scast nsec)))))"

definition tr_Varint :: "int64 reader" where
  "tr_Varint = rd_map (\<lambda>u. if u AND 1 = 0 then drop_bit 1 u else NOT (drop_bit 1 u)) tr_UVarint"

text \<open>Floating-point values as bit patterns.\<close>

definition tr_Float32 :: "uint32 reader" where
  "tr_Float32 = tr_Uint32"

definition tr_Float64 :: "uint64 reader" where
  "tr_Float64 = tr_Uint64"

definition tr_EventID :: "uint64 reader" where
  "tr_EventID = tr_UVarint"

definition tr_Duration :: "int64 reader" where
  "tr_Duration = tr_Varint"

text \<open>\<open>tp.FromVer(v).Bool(default)\<close>: a field that older versions of the protocol do not write.\<close>

definition tr_FromVer_Bool :: "int \<Rightarrow> bool \<Rightarrow> bool reader" where
  "tr_FromVer_Bool version dflt tr =
     (if tr_version tr < version then Ret dflt tr else tr_Bool tr)"


section \<open>Well-behaved readers\<close>

text \<open>
  What every reader keeps, whatever the stream: it consumes a prefix of the stream and counts
  its length in \<open>bytesRead\<close>, and it changes neither the source nor the version.
\<close>

definition consumes :: "traceReader \<Rightarrow> traceReader \<Rightarrow> bool" where
  "consumes r r' \<longleftrightarrow>
     tr_src_err r' = tr_src_err r \<and> tr_version r' = tr_version r
     \<and> (\<exists>c. tr_buf r = c @ tr_buf r' \<and> tr_bytesRead r' = tr_bytesRead r + length c)"

definition more_input :: "bytes \<Rightarrow> traceReader \<Rightarrow> traceReader" where
  "more_input ext r = r\<lparr>tr_buf := tr_buf r @ ext\<rparr>"

text \<open>
  A reader is well-behaved when in addition an error that is recorded stays recorded, and a run
  that ends without error does not depend on what the stream holds beyond the bytes it read.
\<close>

definition reader_ok :: "'a reader \<Rightarrow> bool" where
  "reader_ok p \<longleftrightarrow>
     (\<forall>r v r'. p r = Ret v r' \<longrightarrow> consumes r r'
        \<and> (tr_err r' = None \<longrightarrow> tr_err r = None
            \<and> (\<forall>ext. p (more_input ext r) = Ret v (more_input ext r'))))
     \<and> (\<forall>r x r'. p r = Panic x r' \<longrightarrow> consumes r r')"

lemma consumes_refl [simp]: "consumes r r"
  by (auto simp: consumes_def)

lemma consumes_trans: "consumes r s \<Longrightarrow> consumes s t \<Longrightarrow> consumes r t"
  by (auto simp: consumes_def)

lemma consumes_setErr [simp]: "consumes r (tr_setErr e r') \<longleftrightarrow> consumes r r'"
  by (auto simp: consumes_def tr_setErr_def)

lemma reader_okD:
  assumes "reader_ok p" "p r = Ret v r'"
  shows "consumes r r'"
    and "tr_err r' = None \<Longrightarrow> tr_err r = None"
    and "tr_err r' = None \<Longrightarrow> p (more_input ext r) = Ret v (more_input ext r')"
  using assms by (auto simp: reader_ok_def)

lemma reader_ok_panicD: "reader_ok p \<Longrightarrow> p r = Panic x r' \<Longrightarrow> consumes r r'"
  by (auto simp: reader_ok_def)

lemma reader_ok_return [reader_intros]: "reader_ok (rd_return x)"
  by (auto simp: reader_ok_def rd_return_def)

lemma reader_ok_panic [reader_intros]: "reader_ok (rd_panic x)"
  by (auto simp: reader_ok_def rd_panic_def)

lemma reader_ok_bind [reader_intros]:
  assumes p: "reader_ok p" and f: "\<And>x. reader_ok (f x)"
  shows "reader_ok (rd_bind p f)"
  unfolding reader_ok_def
proof (intro conjI allI impI)
  fix r v r' assume run: "rd_bind p f r = Ret v r'"
  then obtain x s where x: "p r = Ret x s" "f x s = Ret v r'"
    by (auto simp: rd_bind_def split: outcome.splits)
  show "consumes r r'"
    using reader_okD(1) [OF p x(1)] reader_okD(1) [OF f x(2)] by (rule consumes_trans)
  assume "tr_err r' = None"
  then have s: "tr_err s = None" by (rule reader_okD(2) [OF f x(2)])
  then show "tr_err r = None" by (rule reader_okD(2) [OF p x(1)])
  show "rd_bind p f (more_input ext r) = Ret v (more_input ext r')" for ext
    using reader_okD(3) [OF p x(1) s] reader_okD(3) [OF f x(2) \<open>tr_err r' = None\<close>]
    by (simp add: rd_bind_def)
next
  fix r x r' assume "rd_bind p f r = Panic x r'"
  then show "consumes r r'"
    using p f by (auto simp: rd_bind_def split: outcome.splits
        dest: reader_okD(1) reader_ok_panicD intro: consumes_trans)
qed

lemma reader_ok_map [reader_intros]: "reader_ok p \<Longrightarrow> reader_ok (rd_map f p)"
  unfolding rd_map_def by (intro reader_intros)

lemma reader_ok_repeat [reader_intros]: "reader_ok p \<Longrightarrow> reader_ok (rd_repeat n p)"
  by (induction n) (auto intro: reader_intros)

lemma reader_ok_if [reader_intros]:
  "(b \<Longrightarrow> reader_ok p) \<Longrightarrow> (\<not> b \<Longrightarrow> reader_ok q) \<Longrightarrow> reader_ok (if b then p else q)"
  by simp

lemma reader_ok_makeslice [reader_intros]: "reader_ok (makeslice k n)"
  unfolding makeslice_def by (intro reader_intros)

lemma reader_ok_Byte [reader_intros]: "reader_ok tr_Byte"
  by (auto simp: reader_ok_def tr_Byte_def consumes_def more_input_def tr_setErr_def split: list.splits)

lemma reader_ok_Bytes [reader_intros]: "reader_ok (tr_Bytes n)"
  unfolding reader_ok_def
proof (intro conjI allI impI)
  fix r v r' assume run: "tr_Bytes n r = Ret v r'"
  have "\<exists>c. tr_buf r = c @ drop n (tr_buf r) \<and> min n (length (tr_buf r)) = length c"
    by (rule exI [of _ "take n (tr_buf r)"]) (simp add: min.commute)
  with run show "consumes r r'"
    by (auto simp: tr_Bytes_def consumes_def tr_setErr_def Let_def)
  assume "tr_err r' = None"
  with run have "tr_err r = None" "n \<le> length (tr_buf r)"
    by (auto simp: tr_Bytes_def tr_setErr_def Let_def read_full_err_def split: if_splits)
  with run show "tr_err r = None"
    "tr_Bytes n (more_input ext r) = Ret v (more_input ext r')" for ext
    by (auto simp: tr_Bytes_def tr_setErr_def Let_def read_full_err_def more_input_def)
qed (simp add: tr_Bytes_def Let_def)

lemma tr_UVarint_loop_ok:
  assumes "tr_UVarint_loop i u r = Ret v r'"
  shows "consumes r r' \<and> (tr_err r' = None \<longrightarrow> tr_err r = None
      \<and> tr_UVarint_loop i u (more_input ext r) = Ret v (more_input ext r'))"
  using assms
proof (induction i u r rule: tr_UVarint_loop.induct)
  case (1 i u r)
  show ?case
  proof (cases "tr_buf r")
    case Nil
    with "1.prems" show ?thesis
      by (auto simp: tr_UVarint_loop.simps [of _ _ r] tr_setErr_def consumes_def split: if_splits)
  next
    case (Cons b bs)
    define s where "s = r\<lparr>tr_buf := bs, tr_bytesRead := tr_bytesRead r + 1\<rparr>"
    have s: "consumes r s" "tr_err s = tr_err r" using Cons by (auto simp: s_def consumes_def)
    have e: "tr_UVarint_loop i u (more_input ext r) =
        (let u = u OR push_bit i (ucast (b AND NOT 0x80))
         in if b AND 0x80 = 0 then Ret u (more_input ext s) else tr_UVarint_loop (i + 7) u (more_input ext s))"
      using Cons by (cases r, subst tr_UVarint_loop.simps) (simp add: more_input_def s_def Let_def)
    show ?thesis
    proof (cases "b AND 0x80 = 0")
      case True
      with "1.prems" Cons s e show ?thesis
        by (auto simp: tr_UVarint_loop.simps [of _ _ r] s_def Let_def)
    next
      case False
      with "1.prems" Cons have "tr_UVarint_loop (i + 7) (u OR push_bit i (ucast (b AND NOT 0x80))) s = Ret v r'"
        by (simp add: tr_UVarint_loop.simps [of _ _ r] s_def Let_def)
      with "1.IH" [OF Cons refl refl False] s e False show ?thesis
        by (auto simp: s_def Let_def intro: consumes_trans)
    qed
  qed
qed

lemma tr_UVarint_loop_no_panic: "tr_UVarint_loop i u r \<noteq> Panic x r'"
  by (induction i u r rule: tr_UVarint_loop.induct)
    (subst tr_UVarint_loop.simps, auto simp: Let_def split: list.splits)

lemma reader_ok_UVarint [reader_intros]: "reader_ok tr_UVarint"
  unfolding reader_ok_def tr_UVarint_def
  using tr_UVarint_loop_ok tr_UVarint_loop_no_panic by blast

lemma reader_ok_prims [reader_intros]:
  "reader_ok tr_Bool" "reader_ok tr_ByteString" "reader_ok tr_String" "reader_ok tr_OptString"
  "reader_ok tr_OptUVarint" "reader_ok tr_Uint32" "reader_ok tr_Int32" "reader_ok tr_Uint64"
  "reader_ok tr_Int64" "reader_ok tr_Nanotime" "reader_ok tr_Time" "reader_ok tr_Varint"
  "reader_ok tr_Float32" "reader_ok tr_Float64" "reader_ok tr_EventID" "reader_ok tr_Duration"
  unfolding tr_Bool_def tr_ByteString_def tr_String_def tr_OptString_def tr_OptUVarint_def
    tr_Uint32_def tr_Int32_def tr_Uint64_def tr_Int64_def tr_Nanotime_def tr_Time_def tr_Varint_def
    tr_Float32_def tr_Float64_def tr_EventID_def tr_Duration_def
  by (intro reader_intros)+

lemma reader_ok_FromVer [reader_intros]: "reader_ok (tr_FromVer_Bool v d)"
  using reader_ok_prims(1)
  by (auto simp: reader_ok_def tr_FromVer_Bool_def more_input_def)

end
