(* ===== verification/Trace_Proto.thy ===== *)
theory Trace_Proto
  imports Trace_Reader
begin

text \<open>
  The trace events the parser produces: the messages of
  proto/afterpiece/engine/trace2/trace2.proto as the generated Go types have them. A message
  becomes a record or a constructor with its fields, a \<open>oneof\<close> a datatype, an optional or
  pointer field an option. An absent byte field is the empty list, a nil map the empty map.
\<close>

record pb_TraceID =
  High :: uint64
  Low :: uint64

text \<open>\<open>IsZero\<close> (trace_util.go); \<open>None\<close> is a nil pointer.\<close>

definition TraceID_IsZero :: "pb_TraceID option \<Rightarrow> bool" where
  "TraceID_IsZero tid = (case tid of None \<Rightarrow> True | Some t \<Rightarrow> Low t = 0 \<and> High t = 0)"

record StackFrame =
  sf_filename :: bytes
  sf_func :: bytes
  sf_line :: int32

record StackTrace =
  st_pcs :: "int64 list"
  st_frames :: "StackFrame list"

record pb_Error =
  er_msg :: bytes
  er_stack :: "StackTrace option"

datatype (plugins only: size code) SpanStart_Data =
    SpanStart_Request
      (rs_ServiceName: bytes) (rs_EndpointName: bytes) (rs_HttpMethod: bytes) (rs_Path: bytes)
      (rs_PathParams: "bytes list") (rs_RequestHeaders: "bytes \<rightharpoonup> bytes") (rs_RequestPayload: bytes)
      (rs_ExtCorrelationId: "bytes option") (rs_Uid: "bytes option") (rs_Mocked: bool)
  | SpanStart_Auth (as_ServiceName: bytes) (as_EndpointName: bytes) (as_AuthPayload: bytes)
  | SpanStart_PubsubMessage
      (ps_ServiceName: bytes) (ps_TopicName: bytes) (ps_SubscriptionName: bytes) (ps_MessageId: bytes)
      (ps_Attempt: uint32) (ps_PublishTime: Timestamp) (ps_MessagePayload: bytes)
  | SpanStart_Test
      (ts_ServiceName: bytes) (ts_TestName: bytes) (ts_Uid: bytes) (ts_TestFile: bytes) (ts_TestLine: uint32)

record SpanStart =
  ss_Goid :: uint32
  ss_ParentTraceId :: "pb_TraceID option"
  ss_ParentSpanId :: "uint64 option"
  ss_DefLoc :: "uint32 option"
  ss_CallerEventId :: "uint64 option"
  ss_ExternalCorrelationId :: "bytes option"
  ss_Data :: SpanStart_Data

datatype (plugins only: size code) SpanEnd_Data =
    SpanEnd_Request
      (re_ServiceName: bytes) (re_EndpointName: bytes) (re_HttpStatusCode: uint32)
      (re_ResponseHeaders: "bytes \<rightharpoonup> bytes") (re_ResponsePayload: bytes)
  | SpanEnd_Auth (ae_ServiceName: bytes) (ae_EndpointName: bytes) (ae_Uid: bytes) (ae_UserData: bytes)
  | SpanEnd_PubsubMessage (pe_ServiceName: bytes) (pe_TopicName: bytes) (pe_SubscriptionName: bytes)
  | SpanEnd_Test (te_ServiceName: bytes) (te_TestName: bytes) (te_Failed: bool) (te_Skipped: bool)

record SpanEnd =
  se_DurationNanos :: uint64
  se_Error :: "pb_Error option"
  se_PanicStack :: "StackTrace option"
  se_ParentTraceId :: "pb_TraceID option"
  se_ParentSpanId :: "uint64 option"
  se_Data :: SpanEnd_Data

datatype DBTransactionEnd_CompletionType = ROLLBACK | COMMIT

datatype CacheCallEnd_Result = CacheCall_UNKNOWN | CacheCall_OK | CacheCall_NO_SUCH_KEY | CacheCall_CONFLICT | CacheCall_ERR

datatype LogMessage_Level = LogMessage_DEBUG | LogMessage_INFO | LogMessage_ERROR | LogMessage_WARN | LogMessage_TRACE

datatype (plugins only: size code) LogField_Value =
    LogField_Error "pb_Error option"
  | LogField_Str bytes
  | LogField_Bool bool
  | LogField_Time Timestamp
  | LogField_Dur int64
  | LogField_Uuid bytes
  | LogField_Json bytes
  | LogField_Int int64
  | LogField_Uint uint64
  | LogField_Float32 uint32
  | LogField_Float64 uint64

record LogField =
  lf_Key :: bytes
  lf_Value :: LogField_Value

record BucketObjectAttributes =
  boa_Size :: "uint64 option"
  boa_Version :: "bytes option"
  boa_Etag :: "bytes option"
  boa_ContentType :: "bytes option"

record BucketDeleteObjectEntry =
  doe_Object :: bytes
  doe_Version :: "bytes option"

datatype (plugins only: size code) HTTPTraceEvent_Data =
    HTTPTraceEvent_GetConn bytes
  | HTTPTraceEvent_GotConn bool bool int64
  | HTTPTraceEvent_GotFirstResponseByte
  | HTTPTraceEvent_Got_1XxResponse int32
  | HTTPTraceEvent_DnsStart bytes
  | HTTPTraceEvent_DnsDone bytes "bytes list"
  | HTTPTraceEvent_ConnectStart bytes bytes
  | HTTPTraceEvent_ConnectDone bytes bytes bytes
  | HTTPTraceEvent_TlsHandshakeStart
  | HTTPTraceEvent_TlsHandshakeDone bytes uint32 uint32 bytes bytes
  | HTTPTraceEvent_WroteHeaders
  | HTTPTraceEvent_WroteRequest bytes
  | HTTPTraceEvent_Wait_100Continue
  | HTTPTraceEvent_ClosedBody bytes

record HTTPTraceEvent =
  hte_Nanotime :: int64
  hte_Data :: HTTPTraceEvent_Data

text \<open>The arguments of each constructor are the fields of the message, in the order in which the
  parser fills them.\<close>

datatype (plugins only: size code) SpanEvent_Data =
    SpanEvent_RpcCallStart bytes bytes "StackTrace option"
  | SpanEvent_RpcCallEnd "pb_Error option"
  | SpanEvent_DbQueryStart bytes "StackTrace option"
  | SpanEvent_DbQueryEnd "pb_Error option"
  | SpanEvent_DbTransactionStart "StackTrace option"
  | SpanEvent_DbTransactionEnd DBTransactionEnd_CompletionType "StackTrace option" "pb_Error option"
  | SpanEvent_PubsubPublishStart bytes bytes "StackTrace option"
  | SpanEvent_PubsubPublishEnd "bytes option" "pb_Error option"
  | SpanEvent_HttpCallStart uint64 bytes bytes "StackTrace option" int64
  | SpanEvent_HttpCallEnd "uint32 option" "pb_Error option" "HTTPTraceEvent list"
  | SpanEvent_LogMessage LogMessage_Level bytes "LogField option list" "StackTrace option"
  | SpanEvent_ServiceInitStart bytes
  | SpanEvent_ServiceInitEnd "pb_Error option"
  | SpanEvent_CacheCallStart bytes bool "StackTrace option" "bytes list"
  | SpanEvent_CacheCallEnd CacheCallEnd_Result "pb_Error option"
  | SpanEvent_BodyStream bool bool bytes
  | SpanEvent_BucketObjectUploadStart bytes bytes BucketObjectAttributes "StackTrace option"
  | SpanEvent_BucketObjectUploadEnd "uint64 option" "bytes option" "pb_Error option"
  | SpanEvent_BucketObjectDownloadStart bytes bytes "bytes option" "StackTrace option"
  | SpanEvent_BucketObjectDownloadEnd "uint64 option" "pb_Error option"
  | SpanEvent_BucketObjectGetAttrsStart bytes bytes "bytes option" "StackTrace option"
  | SpanEvent_BucketObjectGetAttrsEnd "pb_Error option" "BucketObjectAttributes option"
  | SpanEvent_BucketListObjectsStart bytes "bytes option" "StackTrace option"
  | SpanEvent_BucketListObjectsEnd "pb_Error option" uint64 bool
  | SpanEvent_BucketDeleteObjectsStart bytes "StackTrace option" "BucketDeleteObjectEntry list"
  | SpanEvent_BucketDeleteObjectsEnd "pb_Error option"

record SpanEvent =
  sv_Goid :: uint32
  sv_DefLoc :: "uint32 option"
  sv_CorrelationEventId :: "uint64 option"
  sv_Data :: SpanEvent_Data

datatype TraceEvent_Event =
    TraceEvent_SpanStart SpanStart
  | TraceEvent_SpanEnd SpanEnd
  | TraceEvent_SpanEvent SpanEvent

record TraceEvent =
  te_TraceId :: pb_TraceID
  te_SpanId :: uint64
  te_EventId :: uint64
  te_EventTime :: Timestamp
  te_Event :: TraceEvent_Event

end
