(* ===== verification/Trace_Log.thy ===== *)
theory Trace_Log
  imports Go_Stdlib
begin

text \<open>
  The trace log of the runtime (runtimes/go/appruntime/exported/trace2/log.go): the event
  buffer with its primitive encodings, and the log that events are added to and drained from.
  The errors and stacks that are written come from packages \<open>errs\<close> and \<open>stack\<close>.

  An event buffer is the byte list written so far. The scratch array that \<open>UVarint\<close> fills
  before it appends is modelled separately (\<open>uvarint_scratch\<close>), with the proof that it never
  runs out of its ten bytes and holds exactly what \<open>tb_UVarint\<close> appends.
\<close>


section \<open>Event types and codes\<close>

text \<open>\<open>EventType\<close>, \<open>HTTPEventCode\<close> and \<open>LogFieldType\<close> are bytes with these constants.\<close>

abbreviation "et_RequestSpanStart \<equiv> 0x01 :: byte"
abbreviation "et_RequestSpanEnd \<equiv> 0x02 :: byte"
abbreviation "et_AuthSpanStart \<equiv> 0x03 :: byte"
abbreviation "et_AuthSpanEnd \<equiv> 0x04 :: byte"
abbreviation "et_PubsubMessageSpanStart \<equiv> 0x05 :: byte"
abbreviation "et_PubsubMessageSpanEnd \<equiv> 0x06 :: byte"
abbreviation "et_DBTransactionStart \<equiv> 0x07 :: byte"
abbreviation "et_DBTransactionEnd \<equiv> 0x08 :: byte"
abbreviation "et_DBQueryStart \<equiv> 0x09 :: byte"
abbreviation "et_DBQueryEnd \<equiv> 0x0A :: byte"
abbreviation "et_RPCCallStart \<equiv> 0x0B :: byte"
abbreviation "et_RPCCallEnd \<equiv> 0x0C :: byte"
abbreviation "et_HTTPCallStart \<equiv> 0x0D :: byte"
abbreviation "et_HTTPCallEnd \<equiv> 0x0E :: byte"
abbreviation "et_LogMessage \<equiv> 0x0F :: byte"
abbreviation "et_PubsubPublishStart \<equiv> 0x10 :: byte"
abbreviation "et_PubsubPublishEnd \<equiv> 0x11 :: byte"
abbreviation "et_ServiceInitStart \<equiv> 0x12 :: byte"
abbreviation "et_ServiceInitEnd \<equiv> 0x13 :: byte"
abbreviation "et_CacheCallStart \<equiv> 0x14 :: byte"
abbreviation "et_CacheCallEnd \<equiv> 0x15 :: byte"
abbreviation "et_BodyStream \<equiv> 0x16 :: byte"
abbreviation "et_TestStart \<equiv> 0x17 :: byte"
abbreviation "et_TestEnd \<equiv> 0x18 :: byte"
abbreviation "et_BucketObjectUploadStart \<equiv> 0x19 :: byte"
abbreviation "et_BucketObjectUploadEnd \<equiv> 0x1A :: byte"
abbreviation "et_BucketObjectDownloadStart \<equiv> 0x1B :: byte"
abbreviation "et_BucketObjectDownloadEnd \<equiv> 0x1C :: byte"
abbreviation "et_BucketObjectGetAttrsStart \<equiv> 0x1D :: byte"
abbreviation "et_BucketObjectGetAttrsEnd \<equiv> 0x1E :: byte"
abbreviation "et_BucketListObjectsStart \<equiv> 0x1F :: byte"
abbreviation "et_BucketListObjectsEnd \<equiv> 0x20 :: byte"
abbreviation "et_BucketDeleteObjectsStart \<equiv> 0x21 :: byte"
abbreviation "et_BucketDeleteObjectsEnd \<equiv> 0x22 :: byte"

abbreviation "hc_GetConn \<equiv> 1 :: byte"
abbreviation "hc_GotConn \<equiv> 2 :: byte"
abbreviation "hc_GotFirstResponseByte \<equiv> 3 :: byte"
abbreviation "hc_Got1xxResponse \<equiv> 4 :: byte"
abbreviation "hc_DNSStart \<equiv> 5 :: byte"
abbreviation "hc_DNSDone \<equiv> 6 :: byte"
abbreviation "hc_ConnectStart \<equiv> 7 :: byte"
abbreviation "hc_ConnectDone \<equiv> 8 :: byte"
abbreviation "hc_TLSHandshakeStart \<equiv> 9 :: byte"
abbreviation "hc_TLSHandshakeDone \<equiv> 10 :: byte"
abbreviation "hc_WroteHeaders \<equiv> 11 :: byte"
abbreviation "hc_WroteRequest \<equiv> 12 :: byte"
abbreviation "hc_Wait100Continue \<equiv> 13 :: byte"
abbreviation "hc_ClosedBody \<equiv> 14 :: byte"

abbreviation "lft_ErrField \<equiv> 1 :: byte"
abbreviation "lft_StringField \<equiv> 2 :: byte"
abbreviation "lft_BoolField \<equiv> 3 :: byte"
abbreviation "lft_TimeField \<equiv> 4 :: byte"
abbreviation "lft_DurationField \<equiv> 5 :: byte"
abbreviation "lft_UUIDField \<equiv> 6 :: byte"
abbreviation "lft_JSONField \<equiv> 7 :: byte"
abbreviation "lft_IntField \<equiv> 8 :: byte"
abbreviation "lft_UintField \<equiv> 9 :: byte"
abbreviation "lft_Float32Field \<equiv> 10 :: byte"
abbreviation "lft_Float64Field \<equiv> 11 :: byte"

text \<open>Protocol version this code writes.\<close>

abbreviation CurrentVersion :: int where
  "CurrentVersion \<equiv> 15"


section \<open>Stacks and errors\<close>

record Stack =
  Frames :: "uint64 list"
  Off :: uint64

definition no_stack :: Stack where
  "no_stack = \<lparr>Frames = [], Off = 0\<rparr>"

record FormattedFrame =
  File :: bytes
  Line :: int64
  Func :: bytes

text \<open>
  \<open>stack.Format\<close>. What \<open>runtime.CallersFrames\<close> yields for a list of program counters depends
  on the symbol tables of the running binary and is the parameter \<open>frames_of\<close>.
\<close>

definition stack_Format :: "(uint64 list \<Rightarrow> FormattedFrame list) \<Rightarrow> Stack \<Rightarrow> FormattedFrame list" where
  "stack_Format frames_of s = (if Frames s = [] then [] else frames_of (Frames s))"

text \<open>
  Go errors as the log sees them: an \<open>*errs.Error\<close> (its \<open>Error()\<close> text, its stack, and the
  stack stored under the metadata key \<open>panic_stack\<close>, if any), an error of another type that
  wraps one, or an error of another type that wraps nothing. A nil error is \<open>None\<close>.
\<close>

datatype go_error =
    ErrsError bytes Stack "Stack option"
  | WrapError bytes go_error
  | OtherError bytes

fun Error_text :: "go_error \<Rightarrow> bytes" where
  "Error_text (ErrsError m _ _) = m"
| "Error_text (WrapError m _) = m"
| "Error_text (OtherError m) = m"

text \<open>\<open>errs.Stack\<close> looks at the error itself, \<open>errs.Meta\<close> at the first \<open>*errs.Error\<close> of the chain.\<close>

fun errs_Stack :: "go_error \<Rightarrow> Stack" where
  "errs_Stack (ErrsError _ s _) = s"
| "errs_Stack _ = no_stack"

fun errs_panic_stack :: "go_error \<Rightarrow> Stack option" where
  "errs_panic_stack (ErrsError _ _ p) = p"
| "errs_panic_stack (WrapError _ e) = errs_panic_stack e"
| "errs_panic_stack (OtherError _) = None"


section \<open>The event buffer\<close>

type_synonym EventBuffer = bytes

definition NewEventBuffer :: "nat \<Rightarrow> EventBuffer" where
  "NewEventBuffer size_hint = []"

definition tb_Buf :: "EventBuffer \<Rightarrow> bytes" where
  "tb_Buf tb = tb"

definition tb_Byte :: "EventBuffer \<Rightarrow> byte \<Rightarrow> EventBuffer" where
  "tb_Byte tb b = tb @ [b]"

definition tb_Bytes :: "EventBuffer \<Rightarrow> bytes \<Rightarrow> EventBuffer" where
  "tb_Bytes tb b = tb @ b"

definition signedToUnsigned :: "int64 \<Rightarrow> uint64" where
  "signedToUnsigned i =
     (if i <s 0 then push_bit 1 (NOT i) OR 1 else push_bit 1 i)"

text \<open>\<open>UVarint\<close>: groups of seven bits, least significant first, the top bit marking that more follow.\<close>

function uvarint_bytes :: "uint64 \<Rightarrow> bytes" where
  "uvarint_bytes u =
     (if 0x80 \<le> u then (ucast u OR 0x80) # uvarint_bytes (drop_bit 7 u) else [ucast u])"
  by pat_completeness auto
termination
  by (relation "measure unat")
    (auto simp: unat_drop_bit_eq drop_bit_eq_div [where 'a = nat] word_le_nat_alt)

declare uvarint_bytes.simps [simp del]

definition tb_UVarint :: "EventBuffer \<Rightarrow> uint64 \<Rightarrow> EventBuffer" where
  "tb_UVarint tb u = tb_Bytes tb (uvarint_bytes u)"

text \<open>The same loop over the scratch array; \<open>None\<close> is the index panic of \<open>tb.scratch[i]\<close>.\<close>

function uvarint_scratch :: "bytes \<Rightarrow> nat \<Rightarrow> uint64 \<Rightarrow> (bytes \<times> nat) option" where
  "uvarint_scratch scratch i u =
     (if length scratch \<le> i then None
      else if 0x80 \<le> u
        then uvarint_scratch (scratch[i := ucast u OR 0x80]) (Suc i) (drop_bit 7 u)
      else Some (scratch[i := ucast u], Suc i))"
  by pat_completeness auto
termination
  by (relation "measure (\<lambda>(_, _, u). unat u)")
    (auto simp: unat_drop_bit_eq drop_bit_eq_div [where 'a = nat] word_le_nat_alt)

declare uvarint_scratch.simps [simp del]

definition tb_String :: "EventBuffer \<Rightarrow> bytes \<Rightarrow> EventBuffer" where
  "tb_String tb s = (let tb = tb_UVarint tb (of_nat (length s)) in tb_Bytes tb s)"

definition tb_ByteString :: "EventBuffer \<Rightarrow> bytes \<Rightarrow> EventBuffer" where
  "tb_ByteString tb b = (let tb = tb_UVarint tb (of_nat (length b)) in tb_Bytes tb b)"

definition tb_TruncatedByteString :: "EventBuffer \<Rightarrow> bytes \<Rightarrow> nat \<Rightarrow> bytes \<Rightarrow> EventBuffer" where
  "tb_TruncatedByteString tb b maxLen truncationSuffix =
     (if maxLen < length b then
        let tb = tb_UVarint tb (of_nat (maxLen + length truncationSuffix));
            tb = tb_Bytes tb (take maxLen b)
        in tb_Bytes tb truncationSuffix
      else tb_ByteString tb b)"

definition tb_Bool :: "EventBuffer \<Rightarrow> bool \<Rightarrow> EventBuffer" where
  "tb_Bool tb b = (if b then tb_Bytes tb [1] else tb_Bytes tb [0])"

definition unknown_error :: bytes where
  "unknown_error = map (\<lambda>c. of_nat (of_char c)) ''unknown error''"

text \<open>The message an error is written with: an empty one would read as "no error".\<close>

definition error_message :: "go_error \<Rightarrow> bytes" where
  "error_message e = (let msg = Error_text e in if msg = [] then unknown_error else msg)"

definition tb_Err :: "EventBuffer \<Rightarrow> go_error option \<Rightarrow> EventBuffer" where
  "tb_Err tb err = tb_String tb (case err of None \<Rightarrow> [] | Some e \<Rightarrow> error_message e)"

definition tb_Uint32 :: "EventBuffer \<Rightarrow> uint32 \<Rightarrow> EventBuffer" where
  "tb_Uint32 tb x = tb @ [ucast x, ucast (drop_bit 8 x), ucast (drop_bit 16 x), ucast (drop_bit 24 x)]"

definition tb_Int32 :: "EventBuffer \<Rightarrow> int32 \<Rightarrow> EventBuffer" where
  "tb_Int32 tb x = tb_Uint32 tb (if x <s 0 then push_bit 1 (NOT x) OR 1 else push_bit 1 x)"

definition tb_Uint64 :: "EventBuffer \<Rightarrow> uint64 \<Rightarrow> EventBuffer" where
  "tb_Uint64 tb x = tb @ [ucast x, ucast (drop_bit 8 x), ucast (drop_bit 16 x), ucast (drop_bit 24 x),
     ucast (drop_bit 32 x), ucast (drop_bit 40 x), ucast (drop_bit 48 x), ucast (drop_bit 56 x)]"

definition tb_Int64 :: "EventBuffer \<Rightarrow> int64 \<Rightarrow> EventBuffer" where
  "tb_Int64 tb i = tb_Uint64 tb (signedToUnsigned i)"

definition tb_Time :: "EventBuffer \<Rightarrow> go_time \<Rightarrow> EventBuffer" where
  "tb_Time tb t =
     (let tb = tb_Int64 tb (t_Unix t) in tb_Int32 tb (word_of_int (t_Nanosecond t)))"

text \<open>\<open>Now\<close> with the reading of the clock as an argument.\<close>

definition tb_Now :: "go_time \<Rightarrow> EventBuffer \<Rightarrow> EventBuffer" where
  "tb_Now now tb = tb_Time tb now"

definition tb_EventID :: "EventBuffer \<Rightarrow> uint64 \<Rightarrow> EventBuffer" where
  "tb_EventID tb eid = tb_UVarint tb eid"

definition tb_OptString :: "EventBuffer \<Rightarrow> bytes option \<Rightarrow> EventBuffer" where
  "tb_OptString tb s = (case s of Some s \<Rightarrow> tb_String tb s | None \<Rightarrow> tb_String tb [])"

definition tb_OptUVarint :: "EventBuffer \<Rightarrow> uint64 option \<Rightarrow> EventBuffer" where
  "tb_OptUVarint tb i = (case i of Some i \<Rightarrow> tb_UVarint tb i | None \<Rightarrow> tb_UVarint tb 0)"

definition tb_Varint :: "EventBuffer \<Rightarrow> int64 \<Rightarrow> EventBuffer" where
  "tb_Varint tb i = tb_UVarint tb (signedToUnsigned i)"

text \<open>Floating-point values are given by their bit patterns (\<open>math.Float32bits\<close>, \<open>math.Float64bits\<close>).\<close>

definition tb_Float32 :: "EventBuffer \<Rightarrow> uint32 \<Rightarrow> EventBuffer" where
  "tb_Float32 tb f = tb_Uint32 tb f"

definition tb_Float64 :: "EventBuffer \<Rightarrow> uint64 \<Rightarrow> EventBuffer" where
  "tb_Float64 tb f = tb_Uint64 tb f"

definition tb_Duration :: "EventBuffer \<Rightarrow> int64 \<Rightarrow> EventBuffer" where
  "tb_Duration tb dur = tb_Varint tb dur"

text \<open>
  \<open>Stack\<close> writes the number of frames, capped to fit a byte, and then every frame as the
  difference from the previous one. The loop ranges over all of \<open>s.Frames\<close>, the cap
  notwithstanding.
\<close>

fun tb_Stack_loop :: "EventBuffer \<Rightarrow> uint64 \<Rightarrow> int64 \<Rightarrow> uint64 list \<Rightarrow> EventBuffer" where
  "tb_Stack_loop tb off prev [] = tb"
| "tb_Stack_loop tb off prev (pc # pcs) =
     (let p = pc - off; diff = p - prev in tb_Stack_loop (tb_Varint tb diff) off p pcs)"

definition tb_Stack :: "EventBuffer \<Rightarrow> Stack \<Rightarrow> EventBuffer" where
  "tb_Stack tb s =
     (let n = length (Frames s);
          n = (if 0xFF < n then 0xFF else n);
          tb = tb_Byte tb (of_nat n)
      in if n = 0 then tb else tb_Stack_loop tb (Off s) 0 (Frames s))"

definition tb_ErrWithStack :: "EventBuffer \<Rightarrow> go_error option \<Rightarrow> EventBuffer" where
  "tb_ErrWithStack tb err =
     (case err of
        None \<Rightarrow> tb_String tb []
      | Some e \<Rightarrow> let tb = tb_String tb (error_message e) in tb_Stack tb (errs_Stack e))"

fun tb_FormattedStack_loop :: "EventBuffer \<Rightarrow> FormattedFrame list \<Rightarrow> EventBuffer" where
  "tb_FormattedStack_loop tb [] = tb"
| "tb_FormattedStack_loop tb (f # fs) =
     (let tb = tb_String tb (File f);
          tb = tb_UVarint tb (Line f);
          tb = tb_String tb (Func f)
      in tb_FormattedStack_loop tb fs)"

definition tb_FormattedStack ::
    "(uint64 list \<Rightarrow> FormattedFrame list) \<Rightarrow> EventBuffer \<Rightarrow> Stack \<Rightarrow> EventBuffer" where
  "tb_FormattedStack frames_of tb s =
     (let frames = stack_Format frames_of s;
          n = length frames;
          n = (if 0xFF < n then 0xFF else n);
          tb = tb_Byte tb (of_nat n)
      in if n = 0 then tb else tb_FormattedStack_loop tb (take n frames))"


section \<open>The log\<close>

record Event =
  ev_Type :: byte
  ev_TraceID :: bytes
  ev_SpanID :: bytes
  ev_Data :: EventBuffer

record Log =
  log_data :: bytes
  log_done :: bool

definition NewLog :: Log where
  "NewLog = \<lparr>log_data = [], log_done = False\<rparr>"

text \<open>The state a call on a log acts on: the process-wide event counter and the log, \<open>None\<close> for nil.\<close>

record trace_state =
  nextEventID :: uint64
  the_log :: "Log option"

definition event_header :: "Event \<Rightarrow> uint64 \<Rightarrow> uint64 \<Rightarrow> nat \<Rightarrow> bytes" where
  "event_header e eventID ts ln =
     [ev_Type e,
      ucast eventID, ucast (drop_bit 8 eventID), ucast (drop_bit 16 eventID),
      ucast (drop_bit 24 eventID), ucast (drop_bit 32 eventID), ucast (drop_bit 40 eventID),
      ucast (drop_bit 48 eventID), ucast (drop_bit 56 eventID),
      ucast ts, ucast (drop_bit 8 ts), ucast (drop_bit 16 ts), ucast (drop_bit 24 ts),
      ucast (drop_bit 32 ts), ucast (drop_bit 40 ts), ucast (drop_bit 48 ts), ucast (drop_bit 56 ts)]
     @ map ((!) (ev_TraceID e)) [0..<16]
     @ map ((!) (ev_SpanID e)) [0..<8]
     @ [of_nat ln, of_nat (drop_bit 8 ln), of_nat (drop_bit 16 ln), of_nat (drop_bit 24 ln)]"

text \<open>
  \<open>Add\<close>, with the reading of \<open>nanotime()\<close> as an argument. An event of 4 GiB or more is dropped;
  the counter skips 0, which stands for "no event".
\<close>

definition Log_Add :: "Event \<Rightarrow> int64 \<Rightarrow> trace_state \<Rightarrow> uint64 \<times> trace_state" where
  "Log_Add e nanotime s =
     (case the_log s of
        None \<Rightarrow> (0, s)
      | Some l \<Rightarrow>
          (let eventData = tb_Buf (ev_Data e);
               ln = length eventData
           in if 2 ^ 32 - 1 < ln then (0, s)
              else
                let eventID = nextEventID s + 1;
                    eventID = (if eventID = 0 then eventID + 1 else eventID);
                    ts = signedToUnsigned nanotime;
                    header = event_header e eventID ts ln
                in (eventID,
                    s\<lparr>nextEventID := eventID,
                      the_log := Some (l\<lparr>log_data := log_data l @ (header @ eventData)\<rparr>)\<rparr>)))"

definition Log_MarkDone :: "Log \<Rightarrow> Log" where
  "Log_MarkDone l = l\<lparr>log_done := True\<rparr>"

definition maxBufferSize :: nat where
  "maxBufferSize = 100 * (10 * 2 ^ 20)"

text \<open>\<open>clearDataBuf\<close>; the capacity of the slice is the allocator's business and an argument.\<close>

definition Log_clearDataBuf :: "nat \<Rightarrow> Log \<Rightarrow> Log" where
  "Log_clearDataBuf cap l =
     (if maxBufferSize < cap then l\<lparr>log_data := []\<rparr>
      else l\<lparr>log_data := drop (length (log_data l)) (log_data l)\<rparr>)"

definition Log_GetAndClear :: "nat \<Rightarrow> Log \<Rightarrow> (bytes \<times> bool) \<times> Log" where
  "Log_GetAndClear cap l = ((log_data l, log_done l), Log_clearDataBuf cap l)"

text \<open>The waiting operations: \<open>None\<close> while the condition they wait for does not hold.\<close>

definition Log_WaitUntilDone :: "Log \<Rightarrow> Log option" where
  "Log_WaitUntilDone l = (if log_done l then Some l else None)"

definition Log_WaitAtLeast :: "int \<Rightarrow> int \<Rightarrow> Log \<Rightarrow> bool option" where
  "Log_WaitAtLeast elapsed dur l =
     (if \<not> log_done l \<and> elapsed < dur then None else Some (log_done l))"

definition Log_WaitAndClear :: "nat \<Rightarrow> Log \<Rightarrow> ((bytes \<times> bool) \<times> Log) option" where
  "Log_WaitAndClear cap l =
     (if length (log_data l) = 0 \<and> \<not> log_done l then None
      else Some ((log_data l, log_done l), Log_clearDataBuf cap l))"


section \<open>Names of event types\<close>

text \<open>\<open>%x\<close> of a byte: lower-case hexadecimal digits without leading zeros.\<close>

definition hex_digit :: "nat \<Rightarrow> char" where
  "hex_digit n = (''0123456789abcdef'') ! n"

definition fmt_x :: "byte \<Rightarrow> string" where
  "fmt_x b =
     (let n = unat b in if n < 16 then [hex_digit n] else [hex_digit (n div 16), hex_digit (n mod 16)])"

definition EventType_String :: "byte \<Rightarrow> string" where
  "EventType_String te =
     (if te = et_RequestSpanStart then ''RequestSpanStart''
      else if te = et_RequestSpanEnd then ''RequestSpanEnd''
      else if te = et_AuthSpanStart then ''AuthSpanStart''
      else if te = et_AuthSpanEnd then ''AuthSpanEnd''
      else if te = et_PubsubMessageSpanStart then ''PubsubMessageSpanStart''
      else if te = et_PubsubMessageSpanEnd then ''PubsubMessageSpanEnd''
      else if te = et_DBTransactionStart then ''DBTransactionStart''
      else if te = et_DBTransactionEnd then ''DBTransactionEnd''
      else if te = et_DBQueryStart then ''QueryStart''
      else if te = et_DBQueryEnd then ''QueryEnd''
      else if te = et_RPCCallStart then ''RPCCallStart''
      else if te = et_RPCCallEnd then ''RPCCallEnd''
      else if te = et_HTTPCallStart then ''HTTPCallStart''
      else if te = et_HTTPCallEnd then ''HTTPCallEnd''
      else if te = et_LogMessage then ''LogMessage''
      else if te = et_PubsubPublishStart then ''PubsubPublishStart''
      else if te = et_PubsubPublishEnd then ''PubsubPublishEnd''
      else if te = et_ServiceInitStart then ''ServiceInitStart''
      else if te = et_ServiceInitEnd then ''ServiceInitEnd''
      else if te = et_CacheCallStart then ''CacheCallStart''
      else if te = et_CacheCallEnd then ''CacheCallEnd''
      else if te = et_BodyStream then ''BodyStream''
      else if te = et_TestStart then ''TestStart''
      else if te = et_TestEnd then ''TestEnd''
      else if te = et_BucketObjectUploadStart then ''BucketObjectUploadStart''
      else if te = et_BucketObjectUploadEnd then ''BucketObjectUploadEnd''
      else if te = et_BucketObjectDownloadStart then ''BucketObjectDownloadStart''
      else if te = et_BucketObjectDownloadEnd then ''BucketObjectDownloadEnd''
      else if te = et_BucketObjectGetAttrsStart then ''BucketObjectGetAttrsStart''
      else if te = et_BucketObjectGetAttrsEnd then ''BucketObjectGetAttrsEnd''
      else if te = et_BucketListObjectsStart then ''BucketListObjectsStart''
      else if te = et_BucketListObjectsEnd then ''BucketListObjectsEnd''
      else if te = et_BucketDeleteObjectsStart then ''BucketDeleteObjectsStart''
      else if te = et_BucketDeleteObjectsEnd then ''BucketDeleteObjectsEnd''
      else ''Unknown('' @ fmt_x te @ '')'')"


section \<open>What each write appends\<close>

text \<open>The encodings of the primitive values, and every write as an append of one of them.\<close>

definition enc_string :: "bytes \<Rightarrow> bytes" where
  "enc_string s = uvarint_bytes (of_nat (length s)) @ s"

definition enc_int32 :: "int32 \<Rightarrow> bytes" where
  "enc_int32 x = le_bytes32 (if x <s 0 then push_bit 1 (NOT x) OR 1 else push_bit 1 x)"

definition enc_int64 :: "int64 \<Rightarrow> bytes" where
  "enc_int64 x = le_bytes64 (signedToUnsigned x)"

definition enc_bool :: "bool \<Rightarrow> bytes" where
  "enc_bool b = [if b then 1 else 0]"

definition enc_varint :: "int64 \<Rightarrow> bytes" where
  "enc_varint i = uvarint_bytes (signedToUnsigned i)"

definition enc_time :: "go_time \<Rightarrow> bytes" where
  "enc_time t = enc_int64 (t_Unix t) @ enc_int32 (word_of_int (t_Nanosecond t))"

text \<open>The differences between successive frames, relative to the stack's offset.\<close>

fun stack_diffs :: "uint64 \<Rightarrow> int64 \<Rightarrow> uint64 list \<Rightarrow> int64 list" where
  "stack_diffs off prev [] = []"
| "stack_diffs off prev (pc # pcs) = (pc - off - prev) # stack_diffs off (pc - off) pcs"

abbreviation byte_count :: "nat \<Rightarrow> nat" where
  "byte_count n \<equiv> min 0xFF n"

definition enc_stack :: "Stack \<Rightarrow> bytes" where
  "enc_stack s = [of_nat (byte_count (length (Frames s)))]
     @ concat (map enc_varint (stack_diffs (Off s) 0 (Frames s)))"

definition enc_err :: "go_error option \<Rightarrow> bytes" where
  "enc_err err = (case err of None \<Rightarrow> enc_string []
     | Some e \<Rightarrow> enc_string (error_message e) @ enc_stack (errs_Stack e))"

definition enc_frame :: "FormattedFrame \<Rightarrow> bytes" where
  "enc_frame f = enc_string (File f) @ uvarint_bytes (Line f) @ enc_string (Func f)"

definition enc_frames :: "FormattedFrame list \<Rightarrow> bytes" where
  "enc_frames fs = [of_nat (byte_count (length fs))] @ concat (map enc_frame (take 0xFF fs))"

lemma length_stack_diffs [simp]: "length (stack_diffs off prev pcs) = length pcs"
  by (induction pcs arbitrary: prev) auto

lemma tb_Stack_loop_append:
  "tb_Stack_loop tb off prev pcs = tb @ concat (map enc_varint (stack_diffs off prev pcs))"
  by (induction pcs arbitrary: tb prev)
    (auto simp: Let_def tb_Varint_def tb_UVarint_def tb_Bytes_def enc_varint_def)

lemma tb_FormattedStack_loop_append:
  "tb_FormattedStack_loop tb fs = tb @ concat (map enc_frame fs)"
  by (induction fs arbitrary: tb)
    (auto simp: Let_def tb_UVarint_def tb_Bytes_def tb_String_def enc_frame_def enc_string_def)

lemma tb_prim_append [tb_append]:
  "NewEventBuffer n = []"
  "tb_Byte tb b = tb @ [b]"
  "tb_Bytes tb bs = tb @ bs"
  "tb_UVarint tb u = tb @ uvarint_bytes u"
  "tb_EventID tb u = tb @ uvarint_bytes u"
  "tb_Varint tb i = tb @ enc_varint i"
  "tb_Duration tb i = tb @ enc_varint i"
  "tb_String tb bs = tb @ enc_string bs"
  "tb_ByteString tb bs = tb @ enc_string bs"
  "tb_Bool tb c = tb @ enc_bool c"
  "tb_Uint32 tb w = tb @ le_bytes32 w"
  "tb_Uint64 tb u = tb @ le_bytes64 u"
  "tb_Int32 tb w = tb @ enc_int32 w"
  "tb_Int64 tb i = tb @ enc_int64 i"
  "tb_Float32 tb w = tb @ le_bytes32 w"
  "tb_Float64 tb u = tb @ le_bytes64 u"
  "tb_Time tb t = tb @ enc_time t"
  by (simp_all add: NewEventBuffer_def tb_Byte_def tb_Bytes_def tb_UVarint_def tb_EventID_def
      tb_Varint_def tb_Duration_def tb_String_def tb_ByteString_def tb_Bool_def tb_Uint32_def
      tb_Uint64_def tb_Int32_def tb_Int64_def tb_Float32_def tb_Float64_def tb_Time_def
      le_bytes32_def le_bytes64_def enc_string_def enc_varint_def enc_bool_def enc_int32_def
      enc_int64_def enc_time_def)

lemma tb_composite_append [tb_append]:
  "tb_Err tb err = tb @ enc_string (case err of None \<Rightarrow> [] | Some e \<Rightarrow> error_message e)"
  "tb_OptString tb os = tb @ enc_string (case os of None \<Rightarrow> [] | Some bs \<Rightarrow> bs)"
  "tb_OptUVarint tb ou = tb @ uvarint_bytes (case ou of None \<Rightarrow> 0 | Some u \<Rightarrow> u)"
  "tb_Stack tb s = tb @ enc_stack s"
  "tb_ErrWithStack tb err = tb @ enc_err err"
  "tb_FormattedStack frames_of tb s = tb @ enc_frames (stack_Format frames_of s)"
  by (auto simp: tb_Err_def tb_OptString_def tb_OptUVarint_def tb_Stack_def tb_ErrWithStack_def
      tb_FormattedStack_def tb_prim_append Let_def enc_stack_def enc_err_def enc_frames_def
      tb_Stack_loop_append tb_FormattedStack_loop_append min_def
      split: option.splits)

lemma error_message_neq_Nil [simp]: "error_message e \<noteq> []"
  by (simp add: error_message_def Let_def unknown_error_def)

lemma uvarint_bytes_neq_Nil [simp]: "uvarint_bytes u \<noteq> []"
  by (subst uvarint_bytes.simps) simp

lemma enc_neq_Nil [simp]: "enc_string s \<noteq> []" "enc_varint i \<noteq> []" "enc_frame f \<noteq> []" "enc_stack st \<noteq> []"
  by (simp_all add: enc_string_def enc_varint_def enc_frame_def enc_stack_def)


subsection \<open>The scratch array\<close>

lemma uvarint_scratch_correct:
  assumes "unat u < 2 ^ (7 * Suc k)" and "i + Suc k \<le> length scratch"
  shows "uvarint_scratch scratch i u =
    Some (take i scratch @ uvarint_bytes u @ drop (i + length (uvarint_bytes u)) scratch,
          i + length (uvarint_bytes u))"
  using assms
proof (induction k arbitrary: scratch i u)
  case 0
  then have "\<not> 0x80 \<le> u" by (simp add: word_le_nat_alt)
  with 0 show ?case
    by (simp add: uvarint_scratch.simps [of scratch] uvarint_bytes.simps [of u] upd_conv_take_nth_drop)
next
  case (Suc k)
  show ?case
  proof (cases "0x80 \<le> u")
    case True
    have "unat (drop_bit 7 u) < 2 ^ (7 * Suc k)"
      using Suc.prems(1) less_mult_imp_div_less [of "unat u" "2 ^ (7 * Suc k)" "2 ^ 7"]
      by (simp add: unat_drop_bit_eq drop_bit_eq_div [where 'a = nat] power_add algebra_simps)
    with True Suc.prems show ?thesis
      by (simp add: uvarint_scratch.simps [of scratch] uvarint_bytes.simps [of u] Suc.IH
          take_Suc_conv_app_nth list_update_append)
  next
    case False
    with Suc.prems show ?thesis
      by (simp add: uvarint_scratch.simps [of scratch] uvarint_bytes.simps [of u] upd_conv_take_nth_drop)
  qed
qed

lemma length_uvarint_bytes:
  "unat u < 2 ^ (7 * Suc k) \<Longrightarrow> length (uvarint_bytes u) \<le> Suc k"
proof (induction k arbitrary: u)
  case 0
  then have "\<not> 0x80 \<le> u" by (simp add: word_le_nat_alt)
  then show ?case by (simp add: uvarint_bytes.simps [of u])
next
  case (Suc k)
  have "unat (drop_bit 7 u) < 2 ^ (7 * Suc k)"
    using Suc.prems less_mult_imp_div_less [of "unat u" "2 ^ (7 * Suc k)" "2 ^ 7"]
    by (simp add: unat_drop_bit_eq drop_bit_eq_div [where 'a = nat] power_add algebra_simps)
  then show ?case using Suc.IH by (simp add: uvarint_bytes.simps [of u])
qed

text \<open>The ten bytes of the scratch array are enough for every 64-bit value: the loop of \<open>UVarint\<close> never
  indexes out of range, and the bytes it leaves in the array are those that are appended.\<close>

theorem uvarint_scratch_suffices:
  assumes "length scratch = 10"
  shows "\<exists>scratch' n. uvarint_scratch scratch 0 u = Some (scratch', n) \<and> length scratch' = 10 \<and> 1 \<le> n \<and> n \<le> 10
    \<and> tb_UVarint tb u = tb_Bytes tb (take n scratch')"
proof -
  have "unat u < 2 ^ (7 * Suc 9)" using unsigned_less [of u, where ?'a = nat] by (simp add: order_less_trans)
  then have "uvarint_scratch scratch 0 u =
      Some (uvarint_bytes u @ drop (length (uvarint_bytes u)) scratch, length (uvarint_bytes u))"
    and "length (uvarint_bytes u) \<le> 10"
    using uvarint_scratch_correct [of u 9 0 scratch] length_uvarint_bytes [of u 9] assms by simp_all
  moreover have "1 \<le> length (uvarint_bytes u)" by (cases "uvarint_bytes u") simp_all
  ultimately show ?thesis using assms by (simp add: tb_UVarint_def)
qed

theorem uvarint_scratch_suffices_witness:
  "\<exists>scratch' n. uvarint_scratch (replicate 10 7) 0 (2 ^ 64 - 1) = Some (scratch', n) \<and> length scratch' = 10 \<and> 1 \<le> n \<and> n \<le> 10
    \<and> tb_UVarint [] (2 ^ 64 - 1) = tb_Bytes [] (take n scratch')"
  by (rule uvarint_scratch_suffices) simp

end
