(* ===== verification/Trace_Parser.thy ===== *)
theory Trace_Parser
  imports Trace_Proto Trace_Log
begin

text \<open>
  The trace parser (pkg/traceparser/parser.go): one reader per method of \<open>traceParser\<close>, the
  dispatch on the event type, and \<open>ParseEvent\<close> with its header, its recovery from panics and
  its bookkeeping of the bytes an event used. Go evaluates the calls in a composite literal from
  left to right, so the reads of a message happen in the order of its fields in the source.
\<close>


text \<open>\<open>option.AsOptional\<close>: the zero value is \<open>None\<close>.\<close>

definition AsOptional :: "'a \<Rightarrow> 'a \<Rightarrow> 'a option" where
  "AsOptional zero v = (if v = zero then None else Some v)"


section \<open>Shared parts of events\<close>

definition tp_traceID :: "pb_TraceID reader" where
  "tp_traceID =
     rd_map (\<lambda>b. \<lparr>High = le_Uint64 (drop 8 b), Low = le_Uint64 (take 8 b)\<rparr>) (tr_Bytes 16)"

definition tp_spanID :: "uint64 reader" where
  "tp_spanID = rd_map le_Uint64 (tr_Bytes 8)"

text \<open>The program counters computed from the differences are dropped: the differences themselves
  are what the message carries.\<close>

definition tp_stack :: "StackTrace option reader" where
  "tp_stack =
     rd_bind tr_Byte (\<lambda>n.
       if n = 0 then rd_return None
       else rd_bind (makeslice 8 (unat n)) (\<lambda>_.
            rd_bind (rd_repeat (unat n) tr_Varint) (\<lambda>diffs.
            rd_return (Some \<lparr>st_pcs = diffs, st_frames = []\<rparr>))))"

definition tp_stackFrame :: "StackFrame reader" where
  "tp_stackFrame =
     rd_bind tr_String (\<lambda>filename.
     rd_bind tr_UVarint (\<lambda>line.
     rd_bind tr_String (\<lambda>func.
     rd_return \<lparr>sf_filename = filename, sf_func = func, sf_line = ucast line\<rparr>)))"

definition tp_formattedStack :: "StackTrace option reader" where
  "tp_formattedStack =
     rd_bind tr_Byte (\<lambda>n.
       if n = 0 then rd_return None
       else rd_bind (makeslice 8 (unat n)) (\<lambda>_.
            rd_bind (rd_repeat (unat n) tp_stackFrame) (\<lambda>frames.
            rd_return (Some \<lparr>st_pcs = [], st_frames = frames\<rparr>))))"

definition tp_errWithStack :: "pb_Error option reader" where
  "tp_errWithStack =
     rd_bind tr_String (\<lambda>msg.
       if length msg = 0 then rd_return None
       else rd_bind tp_stack (\<lambda>stack. rd_return (Some \<lparr>er_msg = msg, er_stack = stack\<rparr>)))"

fun tp_headers_loop :: "nat \<Rightarrow> (bytes \<rightharpoonup> bytes) \<Rightarrow> (bytes \<rightharpoonup> bytes) reader" where
  "tp_headers_loop 0 m = rd_return m"
| "tp_headers_loop (Suc n) m =
     rd_bind tr_String (\<lambda>k. rd_bind tr_String (\<lambda>v. tp_headers_loop n (m(k \<mapsto> v))))"

definition tp_headers :: "(bytes \<rightharpoonup> bytes) reader" where
  "tp_headers =
     rd_bind tr_UVarint (\<lambda>n.
       if n = 0 then rd_return Map.empty
       else tp_headers_loop (loop_count n) Map.empty)"

record spanStartEvent =
  sse_Goid :: uint32
  sse_ParentTraceID :: "pb_TraceID option"
  sse_ParentSpanID :: "uint64 option"
  sse_DefLoc :: "uint32 option"
  sse_CallerEventID :: "uint64 option"
  sse_ExtCorrelationID :: "bytes option"

definition tp_spanStartEvent :: "spanStartEvent reader" where
  "tp_spanStartEvent =
     rd_bind tr_UVarint (\<lambda>goid.
     rd_bind tp_traceID (\<lambda>parentTraceID.
     rd_bind tr_Uint64 (\<lambda>parentSpanID.
     rd_bind tr_UVarint (\<lambda>defLoc.
     rd_bind tr_UVarint (\<lambda>callerEventID.
     rd_bind tr_String (\<lambda>extCorrelationID.
     rd_return
       \<lparr>sse_Goid = ucast goid,
        sse_ParentTraceID = (if \<not> TraceID_IsZero (Some parentTraceID) then Some parentTraceID else None),
        sse_ParentSpanID = AsOptional 0 parentSpanID,
        sse_DefLoc = AsOptional 0 (ucast defLoc),
        sse_CallerEventID = AsOptional 0 callerEventID,
        sse_ExtCorrelationID = AsOptional [] extCorrelationID\<rparr>))))))"

record spanEndEvent =
  see_DurationNanos :: uint64
  see_Err :: "pb_Error option"
  see_PanicStack :: "StackTrace option"
  see_ParentTraceID :: "pb_TraceID option"
  see_ParentSpanID :: "uint64 option"

definition tp_spanEndEvent :: "spanEndEvent reader" where
  "tp_spanEndEvent =
     rd_bind tr_Duration (\<lambda>dur.
     rd_bind tp_errWithStack (\<lambda>err.
     rd_bind tp_formattedStack (\<lambda>panicStack.
     rd_bind tp_traceID (\<lambda>parentTraceID.
     rd_bind tr_Uint64 (\<lambda>parentSpanID.
     rd_return
       \<lparr>see_DurationNanos = (if dur <s 0 then 0 else dur),
        see_Err = err,
        see_PanicStack = panicStack,
        see_ParentTraceID = (if \<not> TraceID_IsZero (Some parentTraceID) then Some parentTraceID else None),
        see_ParentSpanID = AsOptional 0 parentSpanID\<rparr>)))))"

text \<open>The fields every span start (end) takes over from \<open>spanStartEvent\<close> (\<open>spanEndEvent\<close>).\<close>

definition mk_SpanStart :: "spanStartEvent \<Rightarrow> SpanStart_Data \<Rightarrow> SpanStart" where
  "mk_SpanStart e d =
     \<lparr>ss_Goid = sse_Goid e, ss_ParentTraceId = sse_ParentTraceID e,
      ss_ParentSpanId = sse_ParentSpanID e, ss_DefLoc = sse_DefLoc e,
      ss_CallerEventId = sse_CallerEventID e,
      ss_ExternalCorrelationId = sse_ExtCorrelationID e, ss_Data = d\<rparr>"

definition mk_SpanEnd :: "spanEndEvent \<Rightarrow> SpanEnd_Data \<Rightarrow> SpanEnd" where
  "mk_SpanEnd e d =
     \<lparr>se_DurationNanos = see_DurationNanos e, se_Error = see_Err e,
      se_PanicStack = see_PanicStack e, se_ParentTraceId = see_ParentTraceID e,
      se_ParentSpanId = see_ParentSpanID e, se_Data = d\<rparr>"


section \<open>Spans\<close>

definition tp_pathParams :: "bytes list reader" where
  "tp_pathParams =
     rd_bind tr_UVarint (\<lambda>n.
       if n = 0 then rd_return []
       else rd_bind (makeslice 16 (unat n)) (\<lambda>_. rd_repeat (loop_count n) tr_String))"

definition tp_requestSpanStart :: "SpanStart reader" where
  "tp_requestSpanStart =
     rd_bind tp_spanStartEvent (\<lambda>spanStart.
     rd_bind tr_String (\<lambda>serviceName.
     rd_bind tr_String (\<lambda>endpointName.
     rd_bind tr_String (\<lambda>httpMethod.
     rd_bind tr_String (\<lambda>path.
     rd_bind tp_pathParams (\<lambda>pathParams.
     rd_bind tp_headers (\<lambda>requestHeaders.
     rd_bind tr_ByteString (\<lambda>requestPayload.
     rd_bind tr_String (\<lambda>extCorrelationId.
     rd_bind tr_String (\<lambda>uid.
     rd_bind (tr_FromVer_Bool 15 False) (\<lambda>mocked.
     rd_return (mk_SpanStart spanStart
       (SpanStart_Request serviceName endpointName httpMethod path pathParams requestHeaders
          requestPayload (ptrOrNil [] extCorrelationId) (ptrOrNil [] uid) mocked)))))))))))))"

definition tp_requestSpanEnd :: "SpanEnd reader" where
  "tp_requestSpanEnd =
     rd_bind tp_spanEndEvent (\<lambda>spanEnd.
     rd_bind tr_String (\<lambda>serviceName.
     rd_bind tr_String (\<lambda>endpointName.
     rd_bind tr_UVarint (\<lambda>httpStatusCode.
     rd_bind tp_headers (\<lambda>responseHeaders.
     rd_bind tr_ByteString (\<lambda>responsePayload.
     rd_return (mk_SpanEnd spanEnd
       (SpanEnd_Request serviceName endpointName (ucast httpStatusCode) responseHeaders responsePayload))))))))"

definition tp_authSpanStart :: "SpanStart reader" where
  "tp_authSpanStart =
     rd_bind tp_spanStartEvent (\<lambda>spanStart.
     rd_bind tr_String (\<lambda>serviceName.
     rd_bind tr_String (\<lambda>endpointName.
     rd_bind tr_ByteString (\<lambda>authPayload.
     rd_return (mk_SpanStart spanStart (SpanStart_Auth serviceName endpointName authPayload))))))"

definition tp_authSpanEnd :: "SpanEnd reader" where
  "tp_authSpanEnd =
     rd_bind tp_spanEndEvent (\<lambda>spanEnd.
     rd_bind tr_String (\<lambda>serviceName.
     rd_bind tr_String (\<lambda>endpointName.
     rd_bind tr_String (\<lambda>uid.
     rd_bind tr_ByteString (\<lambda>userData.
     rd_return (mk_SpanEnd spanEnd (SpanEnd_Auth serviceName endpointName uid userData)))))))"

definition tp_pubsubMessageSpanStart :: "SpanStart reader" where
  "tp_pubsubMessageSpanStart =
     rd_bind tp_spanStartEvent (\<lambda>spanStart.
     rd_bind tr_String (\<lambda>serviceName.
     rd_bind tr_String (\<lambda>topicName.
     rd_bind tr_String (\<lambda>subscriptionName.
     rd_bind tr_String (\<lambda>messageId.
     rd_bind tr_UVarint (\<lambda>attempt.
     rd_bind tr_Time (\<lambda>publishTime.
     rd_bind tr_ByteString (\<lambda>messagePayload.
     rd_return (mk_SpanStart spanStart
       (SpanStart_PubsubMessage serviceName topicName subscriptionName messageId (ucast attempt)
          publishTime messagePayload))))))))))"

definition tp_pubsubMessageSpanEnd :: "SpanEnd reader" where
  "tp_pubsubMessageSpanEnd =
     rd_bind tp_spanEndEvent (\<lambda>spanEnd.
     rd_bind tr_String (\<lambda>serviceName.
     rd_bind tr_String (\<lambda>topicName.
     rd_bind tr_String (\<lambda>subscriptionName.
     rd_return (mk_SpanEnd spanEnd (SpanEnd_PubsubMessage serviceName topicName subscriptionName))))))"

definition tp_testSpanStart :: "SpanStart reader" where
  "tp_testSpanStart =
     rd_bind tp_spanStartEvent (\<lambda>spanStart.
     rd_bind tr_String (\<lambda>serviceName.
     rd_bind tr_String (\<lambda>testName.
     rd_bind tr_String (\<lambda>uid.
     rd_bind tr_String (\<lambda>testFile.
     rd_bind tr_Uint32 (\<lambda>testLine.
     rd_return (mk_SpanStart spanStart (SpanStart_Test serviceName testName uid testFile testLine))))))))"

definition tp_testSpanEnd :: "SpanEnd reader" where
  "tp_testSpanEnd =
     rd_bind tp_spanEndEvent (\<lambda>spanEnd.
     rd_bind tr_String (\<lambda>serviceName.
     rd_bind tr_String (\<lambda>testName.
     rd_bind tr_Bool (\<lambda>failed.
     rd_bind tr_Bool (\<lambda>skipped.
     rd_return (mk_SpanEnd spanEnd (SpanEnd_Test serviceName testName failed skipped)))))))"


section \<open>Events within a span\<close>

definition tp_rpcCallStart :: "SpanEvent_Data reader" where
  "tp_rpcCallStart =
     rd_bind tr_String (\<lambda>targetServiceName.
     rd_bind tr_String (\<lambda>targetEndpointName.
     rd_bind tp_stack (\<lambda>stack.
     rd_return (SpanEvent_RpcCallStart targetServiceName targetEndpointName stack))))"

definition tp_rpcCallEnd :: "SpanEvent_Data reader" where
  "tp_rpcCallEnd = rd_map SpanEvent_RpcCallEnd tp_errWithStack"

definition tp_dbQueryStart :: "SpanEvent_Data reader" where
  "tp_dbQueryStart =
     rd_bind tr_String (\<lambda>query.
     rd_bind tp_stack (\<lambda>stack.
     rd_return (SpanEvent_DbQueryStart query stack)))"

definition tp_dbQueryEnd :: "SpanEvent_Data reader" where
  "tp_dbQueryEnd = rd_map SpanEvent_DbQueryEnd tp_errWithStack"

definition tp_dbTransactionStart :: "SpanEvent_Data reader" where
  "tp_dbTransactionStart = rd_map SpanEvent_DbTransactionStart tp_stack"

definition tp_dbTransactionEnd :: "SpanEvent_Data reader" where
  "tp_dbTransactionEnd =
     rd_bind tr_Bool (\<lambda>commit.
     rd_bind tp_stack (\<lambda>stack.
     rd_bind tp_errWithStack (\<lambda>err.
     rd_return (SpanEvent_DbTransactionEnd (if commit then COMMIT else ROLLBACK) stack err))))"

definition tp_pubsubPublishStart :: "SpanEvent_Data reader" where
  "tp_pubsubPublishStart =
     rd_bind tr_String (\<lambda>topic.
     rd_bind tr_ByteString (\<lambda>message.
     rd_bind tp_stack (\<lambda>stack.
     rd_return (SpanEvent_PubsubPublishStart topic message stack))))"

definition tp_pubsubPublishEnd :: "SpanEvent_Data reader" where
  "tp_pubsubPublishEnd =
     rd_bind tr_String (\<lambda>messageId.
     rd_bind tp_errWithStack (\<lambda>err.
     rd_return (SpanEvent_PubsubPublishEnd (ptrOrNil [] messageId) err)))"

definition tp_serviceInitStart :: "SpanEvent_Data reader" where
  "tp_serviceInitStart = rd_map SpanEvent_ServiceInitStart tr_String"

definition tp_serviceInitEnd :: "SpanEvent_Data reader" where
  "tp_serviceInitEnd = rd_map SpanEvent_ServiceInitEnd tp_errWithStack"

definition tp_httpCallStart :: "SpanEvent_Data reader" where
  "tp_httpCallStart =
     rd_bind tr_Uint64 (\<lambda>correlationParentSpanId.
     rd_bind tr_String (\<lambda>meth.
     rd_bind tr_String (\<lambda>url.
     rd_bind tp_stack (\<lambda>stack.
     rd_bind tr_Int64 (\<lambda>startNanotime.
     rd_return (SpanEvent_HttpCallStart correlationParentSpanId meth url stack startNanotime))))))"

definition tp_dnsDone :: "HTTPTraceEvent_Data reader" where
  "tp_dnsDone =
     rd_bind tr_ByteString (\<lambda>err.
     rd_bind tr_UVarint (\<lambda>addrs.
     rd_bind (rd_repeat (loop_count addrs) tr_ByteString) (\<lambda>ips.
     rd_return (HTTPTraceEvent_DnsDone err ips))))"

text \<open>\<open>httpEvent\<close>; an unknown code is logged and yields nil.\<close>

definition tp_httpEvent_data :: "byte \<Rightarrow> HTTPTraceEvent_Data option reader" where
  "tp_httpEvent_data code =
     (if code = hc_GetConn then
        rd_map (\<lambda>h. Some (HTTPTraceEvent_GetConn h)) tr_String
      else if code = hc_GotConn then
        rd_bind tr_Bool (\<lambda>reused. rd_bind tr_Bool (\<lambda>wasIdle. rd_bind tr_Int64 (\<lambda>idle.
        rd_return (Some (HTTPTraceEvent_GotConn reused wasIdle idle)))))
      else if code = hc_GotFirstResponseByte then rd_return (Some HTTPTraceEvent_GotFirstResponseByte)
      else if code = hc_Got1xxResponse then
        rd_map (\<lambda>c. Some (HTTPTraceEvent_Got_1XxResponse (ucast c))) tr_Varint
      else if code = hc_DNSStart then
        rd_map (\<lambda>h. Some (HTTPTraceEvent_DnsStart h)) tr_String
      else if code = hc_DNSDone then rd_map Some tp_dnsDone
      else if code = hc_ConnectStart then
        rd_bind tr_String (\<lambda>network. rd_bind tr_String (\<lambda>addr.
        rd_return (Some (HTTPTraceEvent_ConnectStart network addr))))
      else if code = hc_ConnectDone then
        rd_bind tr_String (\<lambda>network. rd_bind tr_String (\<lambda>addr. rd_bind tr_ByteString (\<lambda>err.
        rd_return (Some (HTTPTraceEvent_ConnectDone network addr err)))))
      else if code = hc_TLSHandshakeStart then rd_return (Some HTTPTraceEvent_TlsHandshakeStart)
      else if code = hc_TLSHandshakeDone then
        rd_bind tr_ByteString (\<lambda>err. rd_bind tr_Uint32 (\<lambda>tlsVersion. rd_bind tr_Uint32 (\<lambda>cipherSuite.
        rd_bind tr_String (\<lambda>serverName. rd_bind tr_String (\<lambda>negotiatedProtocol.
        rd_return (Some (HTTPTraceEvent_TlsHandshakeDone err tlsVersion cipherSuite serverName negotiatedProtocol)))))))
      else if code = hc_WroteHeaders then rd_return (Some HTTPTraceEvent_WroteHeaders)
      else if code = hc_WroteRequest then
        rd_map (\<lambda>err. Some (HTTPTraceEvent_WroteRequest err)) tr_ByteString
      else if code = hc_Wait100Continue then rd_return (Some HTTPTraceEvent_Wait_100Continue)
      else if code = hc_ClosedBody then
        rd_map (\<lambda>err. Some (HTTPTraceEvent_ClosedBody err)) tr_ByteString
      else rd_return None)"

definition tp_httpEvent :: "HTTPTraceEvent option reader" where
  "tp_httpEvent =
     rd_bind tr_Byte (\<lambda>code.
     rd_bind tr_Int64 (\<lambda>nanotime.
     rd_map (map_option (\<lambda>d. \<lparr>hte_Nanotime = nanotime, hte_Data = d\<rparr>)) (tp_httpEvent_data code)))"

definition tp_httpCallEnd :: "SpanEvent_Data reader" where
  "tp_httpCallEnd =
     rd_bind tr_UVarint (\<lambda>statusCode.
     rd_bind tp_errWithStack (\<lambda>err.
     rd_bind tr_UVarint (\<lambda>n.
     rd_bind (makeslice 8 (unat n)) (\<lambda>_.
     rd_bind (rd_repeat (loop_count n) tp_httpEvent) (\<lambda>events.
     rd_return (SpanEvent_HttpCallEnd (ptrOrNil 0 (ucast statusCode)) err
       (List.map_filter (\<lambda>ev. ev) events)))))))"

definition tp_cacheCallStart :: "SpanEvent_Data reader" where
  "tp_cacheCallStart =
     rd_bind tr_String (\<lambda>operation.
     rd_bind tr_Bool (\<lambda>write.
     rd_bind tp_stack (\<lambda>stack.
     rd_bind tr_UVarint (\<lambda>n.
     rd_bind (makeslice 16 (unat n)) (\<lambda>_.
     rd_bind (rd_repeat (loop_count n) tr_String) (\<lambda>keys.
     rd_return (SpanEvent_CacheCallStart operation write stack keys)))))))"

definition cacheCallResult :: "byte \<Rightarrow> CacheCallEnd_Result" where
  "cacheCallResult res =
     (if res = 1 then CacheCall_OK
      else if res = 2 then CacheCall_NO_SUCH_KEY
      else if res = 3 then CacheCall_CONFLICT
      else if res = 4 then CacheCall_ERR
      else CacheCall_UNKNOWN)"

definition tp_cacheCallEnd :: "SpanEvent_Data reader" where
  "tp_cacheCallEnd =
     rd_bind tr_Byte (\<lambda>res.
     rd_bind tp_errWithStack (\<lambda>err.
     rd_return (SpanEvent_CacheCallEnd (cacheCallResult res) err)))"

definition tp_bucketObjectAttrs :: "BucketObjectAttributes reader" where
  "tp_bucketObjectAttrs =
     rd_bind tr_OptUVarint (\<lambda>size.
     rd_bind tr_OptString (\<lambda>version.
     rd_bind tr_OptString (\<lambda>etag.
     rd_bind tr_OptString (\<lambda>contentType.
     rd_return \<lparr>boa_Size = size, boa_Version = version, boa_Etag = etag, boa_ContentType = contentType\<rparr>))))"

definition tp_bucketObjectUploadStart :: "SpanEvent_Data reader" where
  "tp_bucketObjectUploadStart =
     rd_bind tr_String (\<lambda>bucket.
     rd_bind tr_String (\<lambda>object.
     rd_bind tp_bucketObjectAttrs (\<lambda>attrs.
     rd_bind tp_stack (\<lambda>stack.
     rd_return (SpanEvent_BucketObjectUploadStart bucket object attrs stack)))))"

definition tp_bucketObjectUploadEnd :: "SpanEvent_Data reader" where
  "tp_bucketObjectUploadEnd =
     rd_bind tr_OptUVarint (\<lambda>size.
     rd_bind tr_OptString (\<lambda>version.
     rd_bind tp_errWithStack (\<lambda>err.
     rd_return (SpanEvent_BucketObjectUploadEnd size version err))))"

definition tp_bucketObjectDownloadStart :: "SpanEvent_Data reader" where
  "tp_bucketObjectDownloadStart =
     rd_bind tr_String (\<lambda>bucket.
     rd_bind tr_String (\<lambda>object.
     rd_bind tr_OptString (\<lambda>version.
     rd_bind tp_stack (\<lambda>stack.
     rd_return (SpanEvent_BucketObjectDownloadStart bucket object version stack)))))"

definition tp_bucketObjectDownloadEnd :: "SpanEvent_Data reader" where
  "tp_bucketObjectDownloadEnd =
     rd_bind tr_OptUVarint (\<lambda>size.
     rd_bind tp_errWithStack (\<lambda>err.
     rd_return (SpanEvent_BucketObjectDownloadEnd size err)))"

definition tp_bucketDeleteObjectEntry :: "BucketDeleteObjectEntry reader" where
  "tp_bucketDeleteObjectEntry =
     rd_bind tr_String (\<lambda>object.
     rd_bind tr_OptString (\<lambda>version.
     rd_return \<lparr>doe_Object = object, doe_Version = version\<rparr>))"

definition tp_bucketDeleteObjectsStart :: "SpanEvent_Data reader" where
  "tp_bucketDeleteObjectsStart =
     rd_bind tr_String (\<lambda>bucket.
     rd_bind tp_stack (\<lambda>stack.
     rd_bind tr_UVarint (\<lambda>num.
     rd_bind (rd_repeat (loop_count num) tp_bucketDeleteObjectEntry) (\<lambda>entries.
     rd_return (SpanEvent_BucketDeleteObjectsStart bucket stack entries)))))"

definition tp_bucketDeleteObjectsEnd :: "SpanEvent_Data reader" where
  "tp_bucketDeleteObjectsEnd = rd_map SpanEvent_BucketDeleteObjectsEnd tp_errWithStack"

definition tp_bucketListObjectsStart :: "SpanEvent_Data reader" where
  "tp_bucketListObjectsStart =
     rd_bind tr_String (\<lambda>bucket.
     rd_bind tr_OptString (\<lambda>prefix.
     rd_bind tp_stack (\<lambda>stack.
     rd_return (SpanEvent_BucketListObjectsStart bucket prefix stack))))"

definition tp_bucketListObjectsEnd :: "SpanEvent_Data reader" where
  "tp_bucketListObjectsEnd =
     rd_bind tp_errWithStack (\<lambda>err.
     rd_bind tr_UVarint (\<lambda>observed.
     rd_bind tr_Bool (\<lambda>hasMore.
     rd_return (SpanEvent_BucketListObjectsEnd err observed hasMore))))"

definition tp_bucketObjectGetAttrsStart :: "SpanEvent_Data reader" where
  "tp_bucketObjectGetAttrsStart =
     rd_bind tr_String (\<lambda>bucket.
     rd_bind tr_String (\<lambda>object.
     rd_bind tr_OptString (\<lambda>version.
     rd_bind tp_stack (\<lambda>stack.
     rd_return (SpanEvent_BucketObjectGetAttrsStart bucket object version stack)))))"

definition tp_bucketObjectGetAttrsEnd :: "SpanEvent_Data reader" where
  "tp_bucketObjectGetAttrsEnd =
     rd_bind tp_errWithStack (\<lambda>err.
       if err = None
       then rd_map (\<lambda>attrs. SpanEvent_BucketObjectGetAttrsEnd err (Some attrs)) tp_bucketObjectAttrs
       else rd_return (SpanEvent_BucketObjectGetAttrsEnd err None))"

definition tp_bodyStream :: "SpanEvent_Data reader" where
  "tp_bodyStream =
     rd_bind tr_Byte (\<lambda>flags.
     rd_bind tr_ByteString (\<lambda>data.
     rd_return (SpanEvent_BodyStream (flags AND 1 = 1) (flags AND 2 = 2) data)))"

definition logLevel :: "byte \<Rightarrow> LogMessage_Level" where
  "logLevel l =
     (if l = 0 then LogMessage_TRACE
      else if l = 1 then LogMessage_DEBUG
      else if l = 2 then LogMessage_INFO
      else if l = 3 then LogMessage_WARN
      else if l = 4 then LogMessage_ERROR
      else LogMessage_TRACE)"

text \<open>\<open>logField\<close>; an unknown field type is logged and yields nil.\<close>

definition tp_logField_value :: "byte \<Rightarrow> LogField_Value option reader" where
  "tp_logField_value typ =
     (if typ = lft_ErrField then rd_map (\<lambda>e. Some (LogField_Error e)) tp_errWithStack
      else if typ = lft_StringField then rd_map (\<lambda>s. Some (LogField_Str s)) tr_String
      else if typ = lft_BoolField then rd_map (\<lambda>b. Some (LogField_Bool b)) tr_Bool
      else if typ = lft_TimeField then rd_map (\<lambda>t. Some (LogField_Time t)) tr_Time
      else if typ = lft_DurationField then rd_map (\<lambda>d. Some (LogField_Dur d)) tr_Int64
      else if typ = lft_UUIDField then rd_map (\<lambda>b. Some (LogField_Uuid b)) (tr_Bytes 16)
      else if typ = lft_JSONField then
        rd_bind tr_ByteString (\<lambda>val. rd_bind tp_errWithStack (\<lambda>err.
        rd_return (Some (if err \<noteq> None then LogField_Error err else LogField_Json val))))
      else if typ = lft_IntField then rd_map (\<lambda>i. Some (LogField_Int i)) tr_Varint
      else if typ = lft_UintField then rd_map (\<lambda>u. Some (LogField_Uint u)) tr_UVarint
      else if typ = lft_Float32Field then rd_map (\<lambda>f. Some (LogField_Float32 f)) tr_Float32
      else if typ = lft_Float64Field then rd_map (\<lambda>f. Some (LogField_Float64 f)) tr_Float64
      else rd_return None)"

definition tp_logField :: "LogField option reader" where
  "tp_logField =
     rd_bind tr_Byte (\<lambda>typ.
     rd_bind tr_String (\<lambda>key.
     rd_map (map_option (\<lambda>v. \<lparr>lf_Key = key, lf_Value = v\<rparr>)) (tp_logField_value typ)))"

definition tp_logMessage :: "SpanEvent_Data reader" where
  "tp_logMessage =
     rd_bind tr_Byte (\<lambda>level.
     rd_bind tr_String (\<lambda>msg.
     rd_bind tr_UVarint (\<lambda>n.
     rd_bind (makeslice 8 (unat n)) (\<lambda>_.
     rd_bind (rd_repeat (loop_count n) tp_logField) (\<lambda>fields.
     rd_bind tp_stack (\<lambda>stack.
     rd_return (SpanEvent_LogMessage (logLevel level) msg fields stack)))))))"

definition tp_spanEvent_data :: "byte \<Rightarrow> SpanEvent_Data reader" where
  "tp_spanEvent_data eventType =
     (if eventType = et_RPCCallStart then tp_rpcCallStart
      else if eventType = et_RPCCallEnd then tp_rpcCallEnd
      else if eventType = et_DBQueryStart then tp_dbQueryStart
      else if eventType = et_DBQueryEnd then tp_dbQueryEnd
      else if eventType = et_DBTransactionStart then tp_dbTransactionStart
      else if eventType = et_DBTransactionEnd then tp_dbTransactionEnd
      else if eventType = et_PubsubPublishStart then tp_pubsubPublishStart
      else if eventType = et_PubsubPublishEnd then tp_pubsubPublishEnd
      else if eventType = et_HTTPCallStart then tp_httpCallStart
      else if eventType = et_HTTPCallEnd then tp_httpCallEnd
      else if eventType = et_LogMessage then tp_logMessage
      else if eventType = et_ServiceInitStart then tp_serviceInitStart
      else if eventType = et_ServiceInitEnd then tp_serviceInitEnd
      else if eventType = et_CacheCallStart then tp_cacheCallStart
      else if eventType = et_CacheCallEnd then tp_cacheCallEnd
      else if eventType = et_BodyStream then tp_bodyStream
      else if eventType = et_BucketObjectUploadStart then tp_bucketObjectUploadStart
      else if eventType = et_BucketObjectUploadEnd then tp_bucketObjectUploadEnd
      else if eventType = et_BucketObjectDownloadStart then tp_bucketObjectDownloadStart
      else if eventType = et_BucketObjectDownloadEnd then tp_bucketObjectDownloadEnd
      else if eventType = et_BucketObjectGetAttrsStart then tp_bucketObjectGetAttrsStart
      else if eventType = et_BucketObjectGetAttrsEnd then tp_bucketObjectGetAttrsEnd
      else if eventType = et_BucketListObjectsStart then tp_bucketListObjectsStart
      else if eventType = et_BucketListObjectsEnd then tp_bucketListObjectsEnd
      else if eventType = et_BucketDeleteObjectsStart then tp_bucketDeleteObjectsStart
      else if eventType = et_BucketDeleteObjectsEnd then tp_bucketDeleteObjectsEnd
      else rd_panic (Bailout eventType))"

definition tp_spanEvent :: "byte \<Rightarrow> SpanEvent reader" where
  "tp_spanEvent eventType =
     rd_bind tr_UVarint (\<lambda>defLoc.
     rd_bind tr_UVarint (\<lambda>goid.
     rd_bind tr_EventID (\<lambda>correlationEventID.
     rd_bind (tp_spanEvent_data eventType) (\<lambda>data.
     rd_return
       \<lparr>sv_Goid = ucast goid,
        sv_DefLoc = (if 0 < (ucast defLoc :: uint32) then Some (ucast defLoc) else None),
        sv_CorrelationEventId = (if 0 < correlationEventID then Some correlationEventID else None),
        sv_Data = data\<rparr>))))"


section \<open>Whole events\<close>

text \<open>\<open>trace2.TimeAnchor\<close> (timeanchor.go) maps readings of the monotonic clock to real time.\<close>

record TimeAnchor =
  ta_nano :: int64
  ta_real :: go_time

definition NewTimeAnchor :: "int64 \<Rightarrow> go_time \<Rightarrow> TimeAnchor" where
  "NewTimeAnchor nano real = \<lparr>ta_nano = nano, ta_real = real\<rparr>"

definition ta_ToReal :: "TimeAnchor \<Rightarrow> int64 \<Rightarrow> go_time" where
  "ta_ToReal ta nano = t_Add (ta_real ta) (nano - ta_nano ta)"

record header =
  h_Type :: byte
  h_EventID :: uint64
  h_Nanotime :: int64
  h_TraceID :: pb_TraceID
  h_SpanID :: uint64
  h_Len :: uint32

definition tp_header :: "byte \<Rightarrow> header reader" where
  "tp_header typ =
     rd_bind tr_Uint64 (\<lambda>eventID.
     rd_bind tr_Nanotime (\<lambda>nanotime.
     rd_bind tp_traceID (\<lambda>traceID.
     rd_bind tr_Uint64 (\<lambda>spanID.
     rd_bind tr_Uint32 (\<lambda>len.
     rd_return \<lparr>h_Type = typ, h_EventID = eventID, h_Nanotime = nanotime, h_TraceID = traceID,
       h_SpanID = spanID, h_Len = len\<rparr>)))))"

definition tp_event_body :: "byte \<Rightarrow> TraceEvent_Event reader" where
  "tp_event_body typ =
     (if typ = et_RequestSpanStart then rd_map TraceEvent_SpanStart tp_requestSpanStart
      else if typ = et_RequestSpanEnd then rd_map TraceEvent_SpanEnd tp_requestSpanEnd
      else if typ = et_AuthSpanStart then rd_map TraceEvent_SpanStart tp_authSpanStart
      else if typ = et_AuthSpanEnd then rd_map TraceEvent_SpanEnd tp_authSpanEnd
      else if typ = et_PubsubMessageSpanStart then rd_map TraceEvent_SpanStart tp_pubsubMessageSpanStart
      else if typ = et_PubsubMessageSpanEnd then rd_map TraceEvent_SpanEnd tp_pubsubMessageSpanEnd
      else if typ = et_TestStart then rd_map TraceEvent_SpanStart tp_testSpanStart
      else if typ = et_TestEnd then rd_map TraceEvent_SpanEnd tp_testSpanEnd
      else rd_map TraceEvent_SpanEvent (tp_spanEvent typ))"

text \<open>\<open>parseEvent\<close>; a \<open>Panic\<close> outcome is the error its deferred function recovers.\<close>

definition tp_parseEvent :: "TimeAnchor \<Rightarrow> header \<Rightarrow> TraceEvent reader" where
  "tp_parseEvent ta h =
     rd_map (\<lambda>body.
       \<lparr>te_TraceId = h_TraceID h, te_SpanId = h_SpanID h, te_EventId = h_EventID h,
        te_EventTime = timestamppb_New (ta_ToReal ta (h_Nanotime h)), te_Event = body\<rparr>)
       (tp_event_body (h_Type h))"

datatype parse_error =
    ErrRead read_error
  | ErrParseEvent byte panic_value
  | ErrOverflowed byte

text \<open>
  What \<open>ParseEvent\<close> returns, with what is left of the stream; \<open>Crashed\<close> is a panic outside the
  part that recovers.
\<close>

datatype parse_result =
    Parsed "TraceEvent option" "parse_error option" bytes
  | Crashed panic_value

definition final_error :: "header \<Rightarrow> nat \<Rightarrow> read_error option \<Rightarrow> parse_error option" where
  "final_error h n err =
     (if err = Some EOF then
        (if n = unat (h_Len h) then Some (ErrRead EOF)
         else if n < unat (h_Len h) then Some (ErrRead ErrUnexpectedEOF)
         else Some (ErrOverflowed (h_Type h)))
      else map_option ErrRead err)"

definition ParseEvent :: "bytes \<Rightarrow> read_error \<Rightarrow> TimeAnchor \<Rightarrow> int \<Rightarrow> parse_result" where
  "ParseEvent buf src_err ta version =
     (case tr_Byte \<lparr>tr_buf = buf, tr_src_err = src_err, tr_version = version, tr_bytesRead = 0, tr_err = None\<rparr> of
        Panic x _ \<Rightarrow> Crashed x
      | Ret typ tp \<Rightarrow>
          (if tr_err tp \<noteq> None then Parsed None (map_option ErrRead (tr_err tp)) (tr_buf tp)
           else case tp_header typ tp of
             Panic x _ \<Rightarrow> Crashed x
           | Ret h tp \<Rightarrow>
               (if tr_err tp \<noteq> None then Parsed None (map_option ErrRead (tr_err tp)) (tr_buf tp)
                else
                  let bytesReadAfterHeader = tr_bytesRead tp
                  in case tp_parseEvent ta h tp of
                    Panic x tp \<Rightarrow> Parsed None (Some (ErrParseEvent (h_Type h) x)) (tr_buf tp)
                  | Ret ev tp \<Rightarrow>
                      Parsed (Some ev)
                        (final_error h (tr_bytesRead tp - bytesReadAfterHeader) (tr_err tp))
                        (tr_buf tp))))"


section \<open>All of it is well-behaved\<close>

lemma reader_ok_shared [reader_intros]:
  "reader_ok tp_traceID" "reader_ok tp_spanID" "reader_ok tp_stack" "reader_ok tp_stackFrame"
  unfolding tp_traceID_def tp_spanID_def tp_stack_def tp_stackFrame_def
  by (intro reader_intros)+

lemma reader_ok_errors [reader_intros]: "reader_ok tp_errWithStack" "reader_ok tp_formattedStack"
  unfolding tp_errWithStack_def tp_formattedStack_def
  by (intro reader_intros)+

lemma reader_ok_headers_loop [reader_intros]: "reader_ok (tp_headers_loop n m)"
  by (induction n arbitrary: m) (auto intro: reader_intros)

lemma reader_ok_parts [reader_intros]:
  "reader_ok tp_headers" "reader_ok tp_spanStartEvent" "reader_ok tp_spanEndEvent" "reader_ok tp_pathParams"
  "reader_ok tp_dnsDone" "reader_ok tp_bucketObjectAttrs" "reader_ok tp_bucketDeleteObjectEntry"
  unfolding tp_headers_def tp_spanStartEvent_def tp_spanEndEvent_def tp_pathParams_def tp_dnsDone_def
    tp_bucketObjectAttrs_def tp_bucketDeleteObjectEntry_def
  by (intro reader_intros)+

lemma reader_ok_httpEvent [reader_intros]: "reader_ok tp_httpEvent"
  unfolding tp_httpEvent_def tp_httpEvent_data_def by (intro reader_intros)

lemma reader_ok_logField [reader_intros]: "reader_ok tp_logField"
  unfolding tp_logField_def tp_logField_value_def by (intro reader_intros)

lemmas tp_span_defs =
  tp_requestSpanStart_def tp_requestSpanEnd_def tp_authSpanStart_def tp_authSpanEnd_def
  tp_pubsubMessageSpanStart_def tp_pubsubMessageSpanEnd_def tp_testSpanStart_def tp_testSpanEnd_def

lemmas tp_event_defs =
  tp_rpcCallStart_def tp_rpcCallEnd_def tp_dbQueryStart_def tp_dbQueryEnd_def
  tp_dbTransactionStart_def tp_dbTransactionEnd_def tp_pubsubPublishStart_def tp_pubsubPublishEnd_def
  tp_httpCallStart_def tp_httpCallEnd_def tp_logMessage_def tp_serviceInitStart_def
  tp_serviceInitEnd_def tp_cacheCallStart_def tp_cacheCallEnd_def tp_bodyStream_def
  tp_bucketObjectUploadStart_def tp_bucketObjectUploadEnd_def tp_bucketObjectDownloadStart_def
  tp_bucketObjectDownloadEnd_def tp_bucketObjectGetAttrsStart_def tp_bucketObjectGetAttrsEnd_def
  tp_bucketListObjectsStart_def tp_bucketListObjectsEnd_def tp_bucketDeleteObjectsStart_def
  tp_bucketDeleteObjectsEnd_def

lemma reader_ok_spanEvent [reader_intros]: "reader_ok (tp_spanEvent t)"
  unfolding tp_spanEvent_def tp_spanEvent_data_def tp_event_defs by (intro reader_intros)

lemma reader_ok_event_body [reader_intros]: "reader_ok (tp_event_body t)"
  unfolding tp_event_body_def tp_span_defs by (intro reader_intros)

lemma reader_ok_parseEvent [reader_intros]: "reader_ok (tp_parseEvent ta h)"
  unfolding tp_parseEvent_def by (intro reader_intros)

lemma reader_ok_header [reader_intros]: "reader_ok (tp_header t)"
  unfolding tp_header_def by (intro reader_intros)

text \<open>Reading the header cannot panic.\<close>

lemma tr_Bytes_Ret: "\<exists>b r'. tr_Bytes n r = Ret b r'"
  by (simp add: tr_Bytes_def Let_def)

lemma rd_map_Ret: "(\<And>r. \<exists>b r'. p r = Ret b r') \<Longrightarrow> \<exists>b r'. rd_map f p r = Ret b r'"
  by (metis outcome.simps(5) rd_bind_def rd_map_def rd_return_def)

lemma rd_bind_Ret:
  "(\<And>r. \<exists>b r'. p r = Ret b r') \<Longrightarrow> (\<And>b r. \<exists>c r'. f b r = Ret c r') \<Longrightarrow> \<exists>c r'. rd_bind p f r = Ret c r'"
  by (metis outcome.simps(5) rd_bind_def)

lemma tp_header_Ret: "\<exists>h r'. tp_header typ r = Ret h r'"
  unfolding tp_header_def tr_Uint64_def tr_Uint32_def tr_Nanotime_def tr_Int64_def tp_traceID_def
  by (intro rd_bind_Ret rd_map_Ret tr_Bytes_Ret) (simp add: rd_return_def)

lemma tr_Byte_Ret: "\<exists>b r'. tr_Byte r = Ret b r'"
  by (simp add: tr_Byte_def split: list.splits)

text \<open>\<open>ToReal\<close> maps the monotonic clock to real time exactly: the real times of two instants
  lie as far apart as the readings of the clock.\<close>

theorem anchor_exact:
  assumes "go_time_ok (ta_real ta)" "\<bar>sint (t_ext (ta_real ta))\<bar> < 2 ^ 62"
    "- (2 ^ 63) \<le> sint nano - sint (ta_nano ta)" "sint nano - sint (ta_nano ta) < 2 ^ 63"
  shows "t_nanos (ta_ToReal ta nano) - t_nanos (ta_real ta) = sint nano - sint (ta_nano ta)"
proof -
  have "nano - ta_nano ta = word_of_int (sint nano - sint (ta_nano ta))" by simp
  then have "sint (nano - ta_nano ta) = sint nano - sint (ta_nano ta)"
    using sint_small [OF assms(3,4)] by metis
  then show ?thesis
    using t_Add_exact(1) [OF assms(1,2)] by (simp add: ta_ToReal_def)
qed

theorem anchor_exact_witness:
  "t_nanos (ta_ToReal \<lparr>ta_nano = 1000, ta_real = \<lparr>t_nsec = 999999999, t_ext = 63000000000\<rparr>\<rparr> 4000000003)
     - t_nanos \<lparr>t_nsec = 999999999, t_ext = 63000000000\<rparr> = 3999999003"
  using anchor_exact [of "\<lparr>ta_nano = 1000, ta_real = \<lparr>t_nsec = 999999999, t_ext = 63000000000\<rparr>\<rparr>" 4000000003]
  by (simp add: go_time_ok_def)

end
