(* ===== verification/Trace_Events.thy ===== *)
theory Trace_Events
  imports Trace_Log
begin

text \<open>
  The methods of the trace log that write events
  (runtimes/go/appruntime/exported/trace2/events.go), with the parts of
  runtimes/go/appruntime/exported/model/request.go they read. Each method builds an event buffer
  step by step and hands the event to \<open>Log_Add\<close>.

  What a method reads from its surroundings is an argument: the formatted frames of a stack
  (\<open>frames_of\<close>), a stack built on the spot, the time elapsed since a test started, the
  JSON encoding of a logged value. A Go map is the list of its entries in the order in which the
  range loop visits them.
\<close>


section \<open>Requests and responses\<close>

record RPCDesc =
  desc_Service :: bytes
  desc_Endpoint :: bytes

record PathParam =
  pp_Name :: bytes
  pp_Value :: bytes

type_synonym http_Header = "(bytes \<times> bytes list) list"

record RPCData =
  rpc_Desc :: RPCDesc
  rpc_HTTPMethod :: bytes
  rpc_Path :: bytes
  rpc_PathParams :: "PathParam list"
  rpc_UserID :: bytes
  rpc_NonRawPayload :: bytes
  rpc_RequestHeaders :: http_Header
  rpc_Mocked :: bool

record PubSubMsgData =
  msg_Service :: bytes
  msg_Topic :: bytes
  msg_Subscription :: bytes
  msg_MessageID :: bytes
  msg_Published :: go_time
  msg_Attempt :: int64
  msg_Payload :: bytes

text \<open>\<open>test_Name\<close> and \<open>test_Failed\<close> are \<open>Current.Name()\<close> and \<open>Current.Failed()\<close>.\<close>

record TestData =
  test_Name :: bytes
  test_Failed :: bool
  test_Service :: bytes
  test_TestFile :: bytes
  test_TestLine :: uint32
  test_UserID :: bytes

text \<open>A request; the data of its own kind is set, as the type of the request demands.\<close>

record Request =
  req_TraceID :: bytes
  req_SpanID :: bytes
  req_ParentSpanID :: bytes
  req_ParentTraceID :: bytes
  req_CallerEventID :: uint64
  req_ExtCorrelationID :: bytes
  req_DefLoc :: uint32
  req_RPCData :: RPCData
  req_MsgData :: PubSubMsgData
  req_Test :: TestData

record Response =
  resp_HTTPStatus :: int64
  resp_Duration :: int64
  resp_Err :: "go_error option"
  resp_Payload :: bytes
  resp_AuthUID :: bytes
  resp_RawResponseHeaders :: http_Header

record APICall =
  call_Source :: Request
  call_DefLoc :: uint32
  call_TargetServiceName :: bytes
  call_TargetEndpointName :: bytes
  call_StartEventID :: uint64


section \<open>Parts that events share\<close>

record EventParams =
  ep_TraceID :: bytes
  ep_SpanID :: bytes
  ep_Goid :: uint32
  ep_DefLoc :: uint32

record spanStartEventData =
  ssd_Goid :: uint32
  ssd_ParentTraceID :: bytes
  ssd_ParentSpanID :: bytes
  ssd_DefLoc :: uint32
  ssd_CallerEventID :: uint64
  ssd_ExtCorrelationID :: bytes
  ssd_ExtraSpace :: nat

definition newSpanStartEvent :: "spanStartEventData \<Rightarrow> EventBuffer" where
  "newSpanStartEvent data =
     (let tb = NewEventBuffer (4 + 16 + 8 + 4 + length (ssd_ExtCorrelationID data) + 2 + ssd_ExtraSpace data);
          tb = tb_UVarint tb (ucast (ssd_Goid data));
          tb = tb_Bytes tb (ssd_ParentTraceID data);
          tb = tb_Bytes tb (ssd_ParentSpanID data);
          tb = tb_UVarint tb (ucast (ssd_DefLoc data));
          tb = tb_UVarint tb (ssd_CallerEventID data);
          tb = tb_String tb (ssd_ExtCorrelationID data)
      in tb)"

record spanEndEventData =
  sed_Duration :: int64
  sed_Err :: "go_error option"
  sed_ParentTraceID :: bytes
  sed_ParentSpanID :: bytes
  sed_ExtraSpace :: nat

definition newSpanEndEvent ::
    "(uint64 list \<Rightarrow> FormattedFrame list) \<Rightarrow> spanEndEventData \<Rightarrow> EventBuffer" where
  "newSpanEndEvent frames_of data =
     (let tb = NewEventBuffer (8 + 12 + 8 + sed_ExtraSpace data);
          tb = tb_Duration tb (sed_Duration data);
          tb = tb_ErrWithStack tb (sed_Err data);
          tb = (case Option.bind (sed_Err data) errs_panic_stack of
                  Some panicStack \<Rightarrow> tb_FormattedStack frames_of tb panicStack
                | None \<Rightarrow> tb_FormattedStack frames_of tb no_stack);
          tb = tb_Bytes tb (sed_ParentTraceID data);
          tb = tb_Bytes tb (sed_ParentSpanID data)
      in tb)"

record eventData =
  ed_Common :: EventParams
  ed_CorrelationEventID :: uint64
  ed_ExtraSpace :: nat

definition newEvent :: "eventData \<Rightarrow> EventBuffer" where
  "newEvent data =
     (let tb = NewEventBuffer (4 + 4 + ed_ExtraSpace data);
          tb = tb_UVarint tb (ucast (ep_DefLoc (ed_Common data)));
          tb = tb_UVarint tb (ucast (ep_Goid (ed_Common data)));
          tb = tb_EventID tb (ed_CorrelationEventID data)
      in tb)"

fun logHeaders_loop :: "EventBuffer \<Rightarrow> http_Header \<Rightarrow> EventBuffer" where
  "logHeaders_loop tb [] = tb"
| "logHeaders_loop tb ((k, v) # hs) =
     (let firstVal = (case v of [] \<Rightarrow> [] | x # _ \<Rightarrow> x);
          tb = tb_String tb k;
          tb = tb_String tb firstVal
      in logHeaders_loop tb hs)"

definition logHeaders :: "EventBuffer \<Rightarrow> http_Header \<Rightarrow> EventBuffer" where
  "logHeaders tb headers =
     (let tb = tb_UVarint tb (of_nat (length headers)) in logHeaders_loop tb headers)"

text \<open>A range loop that writes one string per element.\<close>

fun tb_Strings :: "EventBuffer \<Rightarrow> bytes list \<Rightarrow> EventBuffer" where
  "tb_Strings tb [] = tb"
| "tb_Strings tb (s # ss) = tb_Strings (tb_String tb s) ss"

type_synonym log_call = "int64 \<Rightarrow> trace_state \<Rightarrow> uint64 \<times> trace_state"


section \<open>Spans\<close>

definition Log_RequestSpanStart :: "Request \<Rightarrow> uint32 \<Rightarrow> log_call" where
  "Log_RequestSpanStart req goid =
     (let data = req_RPCData req;
          desc = rpc_Desc data;
          tb = newSpanStartEvent
            \<lparr>ssd_Goid = goid,
             ssd_ParentTraceID = req_ParentTraceID req,
             ssd_ParentSpanID = req_ParentSpanID req,
             ssd_DefLoc = req_DefLoc req,
             ssd_CallerEventID = req_CallerEventID req,
             ssd_ExtCorrelationID = req_ExtCorrelationID req,
             ssd_ExtraSpace = 100\<rparr>;
          tb = tb_String tb (desc_Service desc);
          tb = tb_String tb (desc_Endpoint desc);
          tb = tb_String tb (rpc_HTTPMethod data);
          tb = tb_String tb (rpc_Path data);
          tb = tb_UVarint tb (of_nat (length (rpc_PathParams data)));
          tb = tb_Strings tb (map pp_Value (rpc_PathParams data));
          tb = logHeaders tb (rpc_RequestHeaders data);
          tb = tb_ByteString tb (rpc_NonRawPayload data);
          tb = tb_String tb (req_ExtCorrelationID req);
          tb = tb_String tb (rpc_UserID data);
          tb = tb_Bool tb (rpc_Mocked data)
      in Log_Add
           \<lparr>ev_Type = et_RequestSpanStart, ev_TraceID = req_TraceID req, ev_SpanID = req_SpanID req,
            ev_Data = tb\<rparr>)"

record RequestSpanEndParams = EventParams +
  rse_Req :: Request
  rse_Resp :: Response

definition Log_RequestSpanEnd ::
    "(uint64 list \<Rightarrow> FormattedFrame list) \<Rightarrow> RequestSpanEndParams \<Rightarrow> log_call" where
  "Log_RequestSpanEnd frames_of p =
     (let desc = rpc_Desc (req_RPCData (rse_Req p));
          tb = newSpanEndEvent frames_of
            \<lparr>sed_Duration = resp_Duration (rse_Resp p),
             sed_Err = resp_Err (rse_Resp p),
             sed_ParentTraceID = req_ParentTraceID (rse_Req p),
             sed_ParentSpanID = req_ParentSpanID (rse_Req p),
             sed_ExtraSpace = length (desc_Service desc) + length (desc_Endpoint desc) + 64
               + length (resp_Payload (rse_Resp p))\<rparr>;
          tb = tb_String tb (desc_Service desc);
          tb = tb_String tb (desc_Endpoint desc);
          tb = tb_UVarint tb (resp_HTTPStatus (rse_Resp p));
          tb = logHeaders tb (resp_RawResponseHeaders (rse_Resp p));
          tb = tb_ByteString tb (resp_Payload (rse_Resp p))
      in Log_Add
           \<lparr>ev_Type = et_RequestSpanEnd, ev_TraceID = ep_TraceID p, ev_SpanID = ep_SpanID p,
            ev_Data = tb\<rparr>)"

definition Log_AuthSpanStart :: "Request \<Rightarrow> uint32 \<Rightarrow> log_call" where
  "Log_AuthSpanStart req goid =
     (let data = req_RPCData req;
          desc = rpc_Desc data;
          tb = newSpanStartEvent
            \<lparr>ssd_Goid = goid,
             ssd_ParentTraceID = req_ParentTraceID req,
             ssd_ParentSpanID = req_ParentSpanID req,
             ssd_DefLoc = req_DefLoc req,
             ssd_CallerEventID = req_CallerEventID req,
             ssd_ExtCorrelationID = req_ExtCorrelationID req,
             ssd_ExtraSpace = length (desc_Service desc) + length (desc_Endpoint desc)
               + length (rpc_NonRawPayload data) + 5\<rparr>;
          tb = tb_String tb (desc_Service desc);
          tb = tb_String tb (desc_Endpoint desc);
          tb = tb_ByteString tb (rpc_NonRawPayload data)
      in Log_Add
           \<lparr>ev_Type = et_AuthSpanStart, ev_TraceID = req_TraceID req, ev_SpanID = req_SpanID req,
            ev_Data = tb\<rparr>)"

record AuthSpanEndParams = EventParams +
  ase_Req :: Request
  ase_Resp :: Response

definition Log_AuthSpanEnd ::
    "(uint64 list \<Rightarrow> FormattedFrame list) \<Rightarrow> AuthSpanEndParams \<Rightarrow> log_call" where
  "Log_AuthSpanEnd frames_of p =
     (let desc = rpc_Desc (req_RPCData (ase_Req p));
          tb = newSpanEndEvent frames_of
            \<lparr>sed_Duration = resp_Duration (ase_Resp p),
             sed_Err = resp_Err (ase_Resp p),
             sed_ParentTraceID = req_ParentTraceID (ase_Req p),
             sed_ParentSpanID = req_ParentSpanID (ase_Req p),
             sed_ExtraSpace = length (desc_Service desc) + length (desc_Endpoint desc) + 64
               + length (resp_Payload (ase_Resp p))\<rparr>;
          tb = tb_String tb (desc_Service desc);
          tb = tb_String tb (desc_Endpoint desc);
          tb = tb_String tb (resp_AuthUID (ase_Resp p));
          tb = tb_ByteString tb (resp_Payload (ase_Resp p))
      in Log_Add
           \<lparr>ev_Type = et_AuthSpanEnd, ev_TraceID = ep_TraceID p, ev_SpanID = ep_SpanID p,
            ev_Data = tb\<rparr>)"

definition Log_PubsubMessageSpanStart :: "Request \<Rightarrow> uint32 \<Rightarrow> log_call" where
  "Log_PubsubMessageSpanStart req goid =
     (let data = req_MsgData req;
          tb = newSpanStartEvent
            \<lparr>ssd_Goid = goid,
             ssd_ParentTraceID = req_ParentTraceID req,
             ssd_ParentSpanID = req_ParentSpanID req,
             ssd_DefLoc = req_DefLoc req,
             ssd_CallerEventID = req_CallerEventID req,
             ssd_ExtCorrelationID = req_ExtCorrelationID req,
             ssd_ExtraSpace = length (msg_Service data) + length (msg_Topic data)
               + length (msg_Subscription data) + length (msg_Payload data) + 20\<rparr>;
          tb = tb_String tb (msg_Service data);
          tb = tb_String tb (msg_Topic data);
          tb = tb_String tb (msg_Subscription data);
          tb = tb_String tb (msg_MessageID data);
          tb = tb_UVarint tb (msg_Attempt data);
          tb = tb_Time tb (msg_Published data);
          tb = tb_ByteString tb (msg_Payload data)
      in Log_Add
           \<lparr>ev_Type = et_PubsubMessageSpanStart, ev_TraceID = req_TraceID req,
            ev_SpanID = req_SpanID req, ev_Data = tb\<rparr>)"

record PubsubMessageSpanEndParams = EventParams +
  pme_Req :: Request
  pme_Resp :: Response

definition Log_PubsubMessageSpanEnd ::
    "(uint64 list \<Rightarrow> FormattedFrame list) \<Rightarrow> PubsubMessageSpanEndParams \<Rightarrow> log_call" where
  "Log_PubsubMessageSpanEnd frames_of p =
     (let msg = req_MsgData (pme_Req p);
          tb = newSpanEndEvent frames_of
            \<lparr>sed_Duration = resp_Duration (pme_Resp p),
             sed_Err = resp_Err (pme_Resp p),
             sed_ParentTraceID = req_ParentTraceID (pme_Req p),
             sed_ParentSpanID = req_ParentSpanID (pme_Req p),
             sed_ExtraSpace = length (msg_Service msg) + length (msg_Topic msg)
               + length (msg_Subscription msg) + 4\<rparr>;
          tb = tb_String tb (msg_Service msg);
          tb = tb_String tb (msg_Topic msg);
          tb = tb_String tb (msg_Subscription msg)
      in Log_Add
           \<lparr>ev_Type = et_PubsubMessageSpanEnd, ev_TraceID = ep_TraceID p, ev_SpanID = ep_SpanID p,
            ev_Data = tb\<rparr>)"

definition Log_TestSpanStart :: "Request \<Rightarrow> uint32 \<Rightarrow> log_call" where
  "Log_TestSpanStart req goid =
     (let data = req_Test req;
          tb = newSpanStartEvent
            \<lparr>ssd_Goid = goid,
             ssd_ParentTraceID = req_ParentTraceID req,
             ssd_ParentSpanID = req_ParentSpanID req,
             ssd_DefLoc = req_DefLoc req,
             ssd_CallerEventID = req_CallerEventID req,
             ssd_ExtCorrelationID = req_ExtCorrelationID req,
             ssd_ExtraSpace = length (test_Service data) + length (test_Name data)
               + length (test_UserID data) + length (test_TestFile data) + 30\<rparr>;
          tb = tb_String tb (test_Service data);
          tb = tb_String tb (test_Name data);
          tb = tb_String tb (test_UserID data);
          tb = tb_String tb (test_TestFile data);
          tb = tb_Uint32 tb (test_TestLine data)
      in Log_Add
           \<lparr>ev_Type = et_TestStart, ev_TraceID = req_TraceID req, ev_SpanID = req_SpanID req,
            ev_Data = tb\<rparr>)"

record TestSpanEndParams = EventParams +
  tse_Req :: Request
  tse_Failed :: bool
  tse_Skipped :: bool

definition test_failed_error :: go_error where
  "test_failed_error = OtherError (map (\<lambda>c. of_nat (of_char c)) ''test failed'')"

definition Log_TestSpanEnd ::
    "(uint64 list \<Rightarrow> FormattedFrame list) \<Rightarrow> int64 \<Rightarrow> TestSpanEndParams \<Rightarrow> log_call" where
  "Log_TestSpanEnd frames_of elapsed p =
     (let desc = req_Test (tse_Req p);
          err = (if test_Failed desc then Some test_failed_error else None);
          tb = newSpanEndEvent frames_of
            \<lparr>sed_Duration = elapsed,
             sed_Err = err,
             sed_ParentTraceID = req_ParentTraceID (tse_Req p),
             sed_ParentSpanID = req_ParentSpanID (tse_Req p),
             sed_ExtraSpace = length (test_Service desc) + length (test_Name desc) + 20\<rparr>;
          tb = tb_String tb (test_Service desc);
          tb = tb_String tb (test_Name desc);
          tb = tb_Bool tb (tse_Failed p);
          tb = tb_Bool tb (tse_Skipped p)
      in Log_Add
           \<lparr>ev_Type = et_TestEnd, ev_TraceID = ep_TraceID p, ev_SpanID = ep_SpanID p,
            ev_Data = tb\<rparr>)"


section \<open>Events within a span\<close>

text \<open>An \<open>EventParams\<close> of which only some fields are given; the others have their zero value.\<close>

definition goid_params :: "uint32 \<Rightarrow> uint32 \<Rightarrow> EventParams" where
  "goid_params goid defLoc = \<lparr>ep_TraceID = replicate 16 0, ep_SpanID = replicate 8 0, ep_Goid = goid, ep_DefLoc = defLoc\<rparr>"

text \<open>\<open>stack.Build(3)\<close> is the argument \<open>stk\<close>.\<close>

definition Log_RPCCallStart :: "Stack \<Rightarrow> APICall \<Rightarrow> uint32 \<Rightarrow> log_call" where
  "Log_RPCCallStart stk call goid =
     (let tb = newEvent
            \<lparr>ed_Common = goid_params goid (call_DefLoc call),
             ed_CorrelationEventID = 0,
             ed_ExtraSpace = length (call_TargetServiceName call) + length (call_TargetServiceName call) + 4 + 64\<rparr>;
          tb = tb_String tb (call_TargetServiceName call);
          tb = tb_String tb (call_TargetEndpointName call);
          tb = tb_Stack tb stk
      in Log_Add
           \<lparr>ev_Type = et_RPCCallStart, ev_TraceID = req_TraceID (call_Source call), ev_SpanID = req_SpanID (call_Source call), ev_Data = tb\<rparr>)"

definition Log_RPCCallEnd :: "APICall \<Rightarrow> uint32 \<Rightarrow> go_error option \<Rightarrow> log_call" where
  "Log_RPCCallEnd call goid err =
     (let tb = newEvent
            \<lparr>ed_Common = goid_params goid 0,
             ed_CorrelationEventID = call_StartEventID call,
             ed_ExtraSpace = 64\<rparr>;
          tb = tb_ErrWithStack tb err
      in Log_Add
           \<lparr>ev_Type = et_RPCCallEnd, ev_TraceID = req_TraceID (call_Source call), ev_SpanID = req_SpanID (call_Source call), ev_Data = tb\<rparr>)"

record DBQueryStartParams = EventParams +
  dbq_TxStartID :: uint64
  dbq_Stack :: Stack
  dbq_Query :: bytes

definition Log_DBQueryStart :: "DBQueryStartParams \<Rightarrow> log_call" where
  "Log_DBQueryStart p =
     (let tb = newEvent
            \<lparr>ed_Common = EventParams.truncate p,
             ed_CorrelationEventID = dbq_TxStartID p,
             ed_ExtraSpace = 64\<rparr>;
          tb = tb_String tb (dbq_Query p);
          tb = tb_Stack tb (dbq_Stack p)
      in Log_Add
           \<lparr>ev_Type = et_DBQueryStart, ev_TraceID = ep_TraceID p, ev_SpanID = ep_SpanID p, ev_Data = tb\<rparr>)"

definition Log_DBQueryEnd :: "EventParams \<Rightarrow> uint64 \<Rightarrow> go_error option \<Rightarrow> log_call" where
  "Log_DBQueryEnd p startID err =
     (let tb = newEvent
            \<lparr>ed_Common = p,
             ed_CorrelationEventID = startID,
             ed_ExtraSpace = 64\<rparr>;
          tb = tb_ErrWithStack tb err
      in Log_Add
           \<lparr>ev_Type = et_DBQueryEnd, ev_TraceID = ep_TraceID p, ev_SpanID = ep_SpanID p, ev_Data = tb\<rparr>)"

definition Log_DBTransactionStart :: "EventParams \<Rightarrow> Stack \<Rightarrow> log_call" where
  "Log_DBTransactionStart p stk =
     (let tb = newEvent
            \<lparr>ed_Common = p,
             ed_CorrelationEventID = 0,
             ed_ExtraSpace = 64\<rparr>;
          tb = tb_Stack tb stk
      in Log_Add
           \<lparr>ev_Type = et_DBTransactionStart, ev_TraceID = ep_TraceID p, ev_SpanID = ep_SpanID p, ev_Data = tb\<rparr>)"

record DBTransactionEndParams = EventParams +
  dbt_StartID :: uint64
  dbt_Commit :: bool
  dbt_Err :: "go_error option"
  dbt_Stack :: Stack

definition Log_DBTransactionEnd :: "DBTransactionEndParams \<Rightarrow> log_call" where
  "Log_DBTransactionEnd p =
     (let tb = newEvent
            \<lparr>ed_Common = EventParams.truncate p,
             ed_CorrelationEventID = dbt_StartID p,
             ed_ExtraSpace = 64\<rparr>;
          tb = tb_Bool tb (dbt_Commit p);
          tb = tb_Stack tb (dbt_Stack p);
          tb = tb_ErrWithStack tb (dbt_Err p)
      in Log_Add
           \<lparr>ev_Type = et_DBTransactionEnd, ev_TraceID = ep_TraceID p, ev_SpanID = ep_SpanID p, ev_Data = tb\<rparr>)"

record PubsubPublishStartParams = EventParams +
  pps_Topic :: bytes
  pps_Message :: bytes
  pps_Stack :: Stack

definition Log_PubsubPublishStart :: "PubsubPublishStartParams \<Rightarrow> log_call" where
  "Log_PubsubPublishStart p =
     (let tb = newEvent
            \<lparr>ed_Common = EventParams.truncate p,
             ed_CorrelationEventID = 0,
             ed_ExtraSpace = 64\<rparr>;
          tb = tb_String tb (pps_Topic p);
          tb = tb_ByteString tb (pps_Message p);
          tb = tb_Stack tb (pps_Stack p)
      in Log_Add
           \<lparr>ev_Type = et_PubsubPublishStart, ev_TraceID = ep_TraceID p, ev_SpanID = ep_SpanID p, ev_Data = tb\<rparr>)"

record PubsubPublishEndParams = EventParams +
  ppe_StartID :: uint64
  ppe_MessageID :: bytes
  ppe_Err :: "go_error option"

definition Log_PubsubPublishEnd :: "PubsubPublishEndParams \<Rightarrow> log_call" where
  "Log_PubsubPublishEnd p =
     (let tb = newEvent
            \<lparr>ed_Common = EventParams.truncate p,
             ed_CorrelationEventID = ppe_StartID p,
             ed_ExtraSpace = 64\<rparr>;
          tb = tb_String tb (ppe_MessageID p);
          tb = tb_ErrWithStack tb (ppe_Err p)
      in Log_Add
           \<lparr>ev_Type = et_PubsubPublishEnd, ev_TraceID = ep_TraceID p, ev_SpanID = ep_SpanID p, ev_Data = tb\<rparr>)"

record ServiceInitStartParams = EventParams +
  sis_Service :: bytes

definition Log_ServiceInitStart :: "ServiceInitStartParams \<Rightarrow> log_call" where
  "Log_ServiceInitStart p =
     (let tb = newEvent
            \<lparr>ed_Common = EventParams.truncate p,
             ed_CorrelationEventID = 0,
             ed_ExtraSpace = 64\<rparr>;
          tb = tb_String tb (sis_Service p)
      in Log_Add
           \<lparr>ev_Type = et_ServiceInitStart, ev_TraceID = ep_TraceID p, ev_SpanID = ep_SpanID p, ev_Data = tb\<rparr>)"

definition Log_ServiceInitEnd :: "EventParams \<Rightarrow> uint64 \<Rightarrow> go_error option \<Rightarrow> log_call" where
  "Log_ServiceInitEnd p start err =
     (let tb = newEvent
            \<lparr>ed_Common = p,
             ed_CorrelationEventID = start,
             ed_ExtraSpace = 64\<rparr>;
          tb = tb_ErrWithStack tb err
      in Log_Add
           \<lparr>ev_Type = et_ServiceInitEnd, ev_TraceID = ep_TraceID p, ev_SpanID = ep_SpanID p, ev_Data = tb\<rparr>)"

record CacheCallStartParams = EventParams +
  ccs_Operation :: bytes
  ccs_IsWrite :: bool
  ccs_Keys :: "bytes list"
  ccs_Stack :: Stack

definition Log_CacheCallStart :: "CacheCallStartParams \<Rightarrow> log_call" where
  "Log_CacheCallStart p =
     (let tb = newEvent
            \<lparr>ed_Common = EventParams.truncate p,
             ed_CorrelationEventID = 0,
             ed_ExtraSpace = 64\<rparr>;
          tb = tb_String tb (ccs_Operation p);
          tb = tb_Bool tb (ccs_IsWrite p);
          tb = tb_Stack tb (ccs_Stack p);
          tb = tb_UVarint tb (of_nat (length (ccs_Keys p)));
          tb = tb_Strings tb (ccs_Keys p)
      in Log_Add
           \<lparr>ev_Type = et_CacheCallStart, ev_TraceID = ep_TraceID p, ev_SpanID = ep_SpanID p, ev_Data = tb\<rparr>)"

text \<open>\<open>CacheCallResult\<close> is a byte; 1 to 4 are its constants.\<close>

record CacheCallEndParams = EventParams +
  cce_StartID :: uint64
  cce_Res :: byte
  cce_Err :: "go_error option"

definition Log_CacheCallEnd :: "CacheCallEndParams \<Rightarrow> log_call" where
  "Log_CacheCallEnd p =
     (let tb = newEvent
            \<lparr>ed_Common = EventParams.truncate p,
             ed_CorrelationEventID = cce_StartID p,
             ed_ExtraSpace = 64\<rparr>;
          tb = tb_Byte tb (cce_Res p);
          tb = tb_ErrWithStack tb (cce_Err p)
      in Log_Add
           \<lparr>ev_Type = et_CacheCallEnd, ev_TraceID = ep_TraceID p, ev_SpanID = ep_SpanID p, ev_Data = tb\<rparr>)"

record BodyStreamParams = EventParams +
  bs_IsResponse :: bool
  bs_Overflowed :: bool
  bs_Data :: bytes

definition Log_BodyStream :: "BodyStreamParams \<Rightarrow> log_call" where
  "Log_BodyStream p =
     (let tb = newEvent
            \<lparr>ed_Common = EventParams.truncate p,
             ed_CorrelationEventID = 0,
             ed_ExtraSpace = 64\<rparr>;
          flags = (0 :: byte);
          flags = (if bs_IsResponse p then flags OR 1 else flags);
          flags = (if bs_Overflowed p then flags OR 2 else flags);
          tb = tb_Byte tb flags;
          tb = tb_ByteString tb (bs_Data p)
      in Log_Add
           \<lparr>ev_Type = et_BodyStream, ev_TraceID = ep_TraceID p, ev_SpanID = ep_SpanID p, ev_Data = tb\<rparr>)"


section \<open>Object storage\<close>

text \<open>\<open>BucketObjectAttributes\<close> as the log gets it.\<close>

record ObjectAttrs =
  oa_Size :: "uint64 option"
  oa_Version :: "bytes option"
  oa_ETag :: "bytes option"
  oa_ContentType :: "bytes option"

definition tb_bucketObjectAttrs :: "EventBuffer \<Rightarrow> ObjectAttrs \<Rightarrow> EventBuffer" where
  "tb_bucketObjectAttrs tb attrs =
     (let tb = tb_OptUVarint tb (oa_Size attrs);
          tb = tb_OptString tb (oa_Version attrs);
          tb = tb_OptString tb (oa_ETag attrs);
          tb = tb_OptString tb (oa_ContentType attrs)
      in tb)"

record BucketObjectUploadStartParams = EventParams +
  bus_Bucket :: bytes
  bus_Object :: bytes
  bus_Attrs :: ObjectAttrs
  bus_Stack :: Stack

definition Log_BucketObjectUploadStart :: "BucketObjectUploadStartParams \<Rightarrow> log_call" where
  "Log_BucketObjectUploadStart p =
     (let tb = newEvent
            \<lparr>ed_Common = EventParams.truncate p,
             ed_CorrelationEventID = 0,
             ed_ExtraSpace = 64\<rparr>;
          tb = tb_String tb (bus_Bucket p);
          tb = tb_String tb (bus_Object p);
          tb = tb_bucketObjectAttrs tb (bus_Attrs p);
          tb = tb_Stack tb (bus_Stack p)
      in Log_Add
           \<lparr>ev_Type = et_BucketObjectUploadStart, ev_TraceID = ep_TraceID p, ev_SpanID = ep_SpanID p, ev_Data = tb\<rparr>)"

record BucketObjectUploadEndParams = EventParams +
  bue_StartID :: uint64
  bue_Err :: "go_error option"
  bue_Size :: uint64
  bue_Version :: "bytes option"

definition Log_BucketObjectUploadEnd :: "BucketObjectUploadEndParams \<Rightarrow> log_call" where
  "Log_BucketObjectUploadEnd p =
     (let tb = newEvent
            \<lparr>ed_Common = EventParams.truncate p,
             ed_CorrelationEventID = bue_StartID p,
             ed_ExtraSpace = 64\<rparr>;
          tb = tb_UVarint tb (bue_Size p);
          tb = tb_OptString tb (bue_Version p);
          tb = tb_ErrWithStack tb (bue_Err p)
      in Log_Add
           \<lparr>ev_Type = et_BucketObjectUploadEnd, ev_TraceID = ep_TraceID p, ev_SpanID = ep_SpanID p, ev_Data = tb\<rparr>)"

record BucketObjectDownloadStartParams = EventParams +
  bds_Bucket :: bytes
  bds_Object :: bytes
  bds_Version :: "bytes option"
  bds_Stack :: Stack

definition Log_BucketObjectDownloadStart :: "BucketObjectDownloadStartParams \<Rightarrow> log_call" where
  "Log_BucketObjectDownloadStart p =
     (let tb = newEvent
            \<lparr>ed_Common = EventParams.truncate p,
             ed_CorrelationEventID = 0,
             ed_ExtraSpace = 64\<rparr>;
          tb = tb_String tb (bds_Bucket p);
          tb = tb_String tb (bds_Object p);
          tb = tb_OptString tb (bds_Version p);
          tb = tb_Stack tb (bds_Stack p)
      in Log_Add
           \<lparr>ev_Type = et_BucketObjectDownloadStart, ev_TraceID = ep_TraceID p, ev_SpanID = ep_SpanID p, ev_Data = tb\<rparr>)"

record BucketObjectDownloadEndParams = EventParams +
  bde_StartID :: uint64
  bde_Err :: "go_error option"
  bde_Size :: uint64

definition Log_BucketObjectDownloadEnd :: "BucketObjectDownloadEndParams \<Rightarrow> log_call" where
  "Log_BucketObjectDownloadEnd p =
     (let tb = newEvent
            \<lparr>ed_Common = EventParams.truncate p,
             ed_CorrelationEventID = bde_StartID p,
             ed_ExtraSpace = 4 + 4 + 8\<rparr>;
          tb = tb_UVarint tb (bde_Size p);
          tb = tb_ErrWithStack tb (bde_Err p)
      in Log_Add
           \<lparr>ev_Type = et_BucketObjectDownloadEnd, ev_TraceID = ep_TraceID p, ev_SpanID = ep_SpanID p, ev_Data = tb\<rparr>)"

record BucketObjectGetAttrsStartParams = EventParams +
  bgs_Bucket :: bytes
  bgs_Object :: bytes
  bgs_Version :: "bytes option"
  bgs_Stack :: Stack

definition Log_BucketObjectGetAttrsStart :: "BucketObjectGetAttrsStartParams \<Rightarrow> log_call" where
  "Log_BucketObjectGetAttrsStart p =
     (let tb = newEvent
            \<lparr>ed_Common = EventParams.truncate p,
             ed_CorrelationEventID = 0,
             ed_ExtraSpace = 64\<rparr>;
          tb = tb_String tb (bgs_Bucket p);
          tb = tb_String tb (bgs_Object p);
          tb = tb_OptString tb (bgs_Version p);
          tb = tb_Stack tb (bgs_Stack p)
      in Log_Add
           \<lparr>ev_Type = et_BucketObjectGetAttrsStart, ev_TraceID = ep_TraceID p, ev_SpanID = ep_SpanID p, ev_Data = tb\<rparr>)"

text \<open>\<open>Attrs\<close> is set exactly when there is no error.\<close>

record BucketObjectGetAttrsEndParams = EventParams +
  bge_StartID :: uint64
  bge_Err :: "go_error option"
  bge_Attrs :: ObjectAttrs

definition Log_BucketObjectGetAttrsEnd :: "BucketObjectGetAttrsEndParams \<Rightarrow> log_call" where
  "Log_BucketObjectGetAttrsEnd p =
     (let tb = newEvent
            \<lparr>ed_Common = EventParams.truncate p,
             ed_CorrelationEventID = bge_StartID p,
             ed_ExtraSpace = 4 + 4 + 8\<rparr>;
          tb = tb_ErrWithStack tb (bge_Err p);
          tb = (if bge_Err p = None then tb_bucketObjectAttrs tb (bge_Attrs p) else tb)
      in Log_Add
           \<lparr>ev_Type = et_BucketObjectGetAttrsEnd, ev_TraceID = ep_TraceID p, ev_SpanID = ep_SpanID p, ev_Data = tb\<rparr>)"

record BucketListObjectsStartParams = EventParams +
  bls_Bucket :: bytes
  bls_Prefix :: "bytes option"
  bls_Stack :: Stack

definition Log_BucketListObjectsStart :: "BucketListObjectsStartParams \<Rightarrow> log_call" where
  "Log_BucketListObjectsStart p =
     (let tb = newEvent
            \<lparr>ed_Common = EventParams.truncate p,
             ed_CorrelationEventID = 0,
             ed_ExtraSpace = 64\<rparr>;
          tb = tb_String tb (bls_Bucket p);
          tb = tb_OptString tb (bls_Prefix p);
          tb = tb_Stack tb (bls_Stack p)
      in Log_Add
           \<lparr>ev_Type = et_BucketListObjectsStart, ev_TraceID = ep_TraceID p, ev_SpanID = ep_SpanID p, ev_Data = tb\<rparr>)"

record BucketListObjectsEndParams = EventParams +
  ble_StartID :: uint64
  ble_Err :: "go_error option"
  ble_Observed :: uint64
  ble_HasMore :: bool

definition Log_BucketListObjectsEnd :: "BucketListObjectsEndParams \<Rightarrow> log_call" where
  "Log_BucketListObjectsEnd p =
     (let tb = newEvent
            \<lparr>ed_Common = EventParams.truncate p,
             ed_CorrelationEventID = ble_StartID p,
             ed_ExtraSpace = 4 + 4 + 8\<rparr>;
          tb = tb_ErrWithStack tb (ble_Err p);
          tb = tb_UVarint tb (ble_Observed p);
          tb = tb_Bool tb (ble_HasMore p)
      in Log_Add
           \<lparr>ev_Type = et_BucketListObjectsEnd, ev_TraceID = ep_TraceID p, ev_SpanID = ep_SpanID p, ev_Data = tb\<rparr>)"

record BucketDeleteObjectsEntry =
  bdo_Object :: bytes
  bdo_Version :: "bytes option"

record BucketDeleteObjectsStartParams = EventParams +
  bdos_Bucket :: bytes
  bdos_Objects :: "BucketDeleteObjectsEntry list"
  bdos_Stack :: Stack

fun tb_deleteEntries :: "EventBuffer \<Rightarrow> BucketDeleteObjectsEntry list \<Rightarrow> EventBuffer" where
  "tb_deleteEntries tb [] = tb"
| "tb_deleteEntries tb (e # es) =
     (let tb = tb_String tb (bdo_Object e);
          tb = tb_OptString tb (bdo_Version e)
      in tb_deleteEntries tb es)"

definition Log_BucketDeleteObjectsStart :: "BucketDeleteObjectsStartParams \<Rightarrow> log_call" where
  "Log_BucketDeleteObjectsStart p =
     (let tb = newEvent
            \<lparr>ed_Common = EventParams.truncate p,
             ed_CorrelationEventID = 0,
             ed_ExtraSpace = 64\<rparr>;
          tb = tb_String tb (bdos_Bucket p);
          tb = tb_Stack tb (bdos_Stack p);
          tb = tb_UVarint tb (of_nat (length (bdos_Objects p)));
          tb = tb_deleteEntries tb (bdos_Objects p)
      in Log_Add
           \<lparr>ev_Type = et_BucketDeleteObjectsStart, ev_TraceID = ep_TraceID p, ev_SpanID = ep_SpanID p, ev_Data = tb\<rparr>)"

record BucketDeleteObjectsEndParams = EventParams +
  bdoe_StartID :: uint64
  bdoe_Err :: "go_error option"

definition Log_BucketDeleteObjectsEnd :: "BucketDeleteObjectsEndParams \<Rightarrow> log_call" where
  "Log_BucketDeleteObjectsEnd p =
     (let tb = newEvent
            \<lparr>ed_Common = EventParams.truncate p,
             ed_CorrelationEventID = bdoe_StartID p,
             ed_ExtraSpace = 4 + 4 + 8\<rparr>;
          tb = tb_ErrWithStack tb (bdoe_Err p)
      in Log_Add
           \<lparr>ev_Type = et_BucketDeleteObjectsEnd, ev_TraceID = ep_TraceID p, ev_SpanID = ep_SpanID p, ev_Data = tb\<rparr>)"


section \<open>Log messages\<close>

text \<open>The value of a log field by its dynamic type; everything the type switch has no case for is
  \<open>LV_Other\<close>, and \<open>json_Marshal\<close> says what \<open>json.Marshal\<close> makes of it.\<close>

datatype (plugins only: size code) 'v log_value =
    LV_Error go_error
  | LV_String bytes
  | LV_Bool bool
  | LV_Time go_time
  | LV_Duration int64
  | LV_UUID bytes
  | LV_Other 'v
  | LV_Int8 "8 word"
  | LV_Int16 "16 word"
  | LV_Int32 "32 word"
  | LV_Int64 "64 word"
  | LV_Int "64 word"
  | LV_Uint8 "8 word"
  | LV_Uint16 "16 word"
  | LV_Uint32 "32 word"
  | LV_Uint64 "64 word"
  | LV_Uint "64 word"
  | LV_Float32 uint32
  | LV_Float64 uint64

fun addLogField :: "('v \<Rightarrow> go_error + bytes) \<Rightarrow> EventBuffer \<Rightarrow> bytes \<Rightarrow> 'v log_value \<Rightarrow> EventBuffer" where
  "addLogField json_Marshal tb key (LV_Error val) =
     (let tb = tb_Byte tb lft_ErrField; tb = tb_String tb key in tb_ErrWithStack tb (Some val))"
| "addLogField json_Marshal tb key (LV_String val) =
     (let tb = tb_Byte tb lft_StringField; tb = tb_String tb key in tb_String tb val)"
| "addLogField json_Marshal tb key (LV_Bool val) =
     (let tb = tb_Byte tb lft_BoolField; tb = tb_String tb key in tb_Bool tb val)"
| "addLogField json_Marshal tb key (LV_Time val) =
     (let tb = tb_Byte tb lft_TimeField; tb = tb_String tb key in tb_Time tb val)"
| "addLogField json_Marshal tb key (LV_Duration val) =
     (let tb = tb_Byte tb lft_DurationField; tb = tb_String tb key in tb_Int64 tb val)"
| "addLogField json_Marshal tb key (LV_UUID val) =
     (let tb = tb_Byte tb lft_UUIDField; tb = tb_String tb key in tb_Bytes tb val)"
| "addLogField json_Marshal tb key (LV_Other val) =
     (let tb = tb_Byte tb lft_JSONField; tb = tb_String tb key
      in case json_Marshal val of
           Inl err \<Rightarrow> let tb = tb_ByteString tb [] in tb_ErrWithStack tb (Some err)
         | Inr data \<Rightarrow> let tb = tb_ByteString tb data in tb_ErrWithStack tb None)"
| "addLogField json_Marshal tb key (LV_Int8 val) =
     (let tb = tb_Byte tb lft_IntField; tb = tb_String tb key in tb_Varint tb (scast val))"
| "addLogField json_Marshal tb key (LV_Int16 val) =
     (let tb = tb_Byte tb lft_IntField; tb = tb_String tb key in tb_Varint tb (scast val))"
| "addLogField json_Marshal tb key (LV_Int32 val) =
     (let tb = tb_Byte tb lft_IntField; tb = tb_String tb key in tb_Varint tb (scast val))"
| "addLogField json_Marshal tb key (LV_Int64 val) =
     (let tb = tb_Byte tb lft_IntField; tb = tb_String tb key in tb_Varint tb (scast val))"
| "addLogField json_Marshal tb key (LV_Int val) =
     (let tb = tb_Byte tb lft_IntField; tb = tb_String tb key in tb_Varint tb (scast val))"
| "addLogField json_Marshal tb key (LV_Uint8 val) =
     (let tb = tb_Byte tb lft_UintField; tb = tb_String tb key in tb_UVarint tb (ucast val))"
| "addLogField json_Marshal tb key (LV_Uint16 val) =
     (let tb = tb_Byte tb lft_UintField; tb = tb_String tb key in tb_UVarint tb (ucast val))"
| "addLogField json_Marshal tb key (LV_Uint32 val) =
     (let tb = tb_Byte tb lft_UintField; tb = tb_String tb key in tb_UVarint tb (ucast val))"
| "addLogField json_Marshal tb key (LV_Uint64 val) =
     (let tb = tb_Byte tb lft_UintField; tb = tb_String tb key in tb_UVarint tb (ucast val))"
| "addLogField json_Marshal tb key (LV_Uint val) =
     (let tb = tb_Byte tb lft_UintField; tb = tb_String tb key in tb_UVarint tb (ucast val))"
| "addLogField json_Marshal tb key (LV_Float32 val) =
     (let tb = tb_Byte tb lft_Float32Field; tb = tb_String tb key in tb_Float32 tb val)"
| "addLogField json_Marshal tb key (LV_Float64 val) =
     (let tb = tb_Byte tb lft_Float64Field; tb = tb_String tb key in tb_Float64 tb val)"

record 'v log_field =
  field_Key :: bytes
  field_Value :: "'v log_value"

fun addLogFields :: "('v \<Rightarrow> go_error + bytes) \<Rightarrow> EventBuffer \<Rightarrow> 'v log_field list \<Rightarrow> EventBuffer" where
  "addLogFields json_Marshal tb [] = tb"
| "addLogFields json_Marshal tb (f # fs) =
     addLogFields json_Marshal (addLogField json_Marshal tb (field_Key f) (field_Value f)) fs"

record 'v LogMessageParams = EventParams +
  lm_Level :: byte
  lm_Msg :: bytes
  lm_Stack :: Stack
  lm_Fields :: "'v log_field list"

definition Log_LogMessage :: "('v \<Rightarrow> go_error + bytes) \<Rightarrow> 'v LogMessageParams \<Rightarrow> log_call" where
  "Log_LogMessage json_Marshal p =
     (let tb = newEvent
            \<lparr>ed_Common = EventParams.truncate p,
             ed_CorrelationEventID = 0,
             ed_ExtraSpace = length (lm_Msg p) + 1 + 64 * length (lm_Fields p)\<rparr>;
          tb = tb_Byte tb (lm_Level p);
          tb = tb_String tb (lm_Msg p);
          tb = tb_UVarint tb (of_nat (length (lm_Fields p)));
          tb = addLogFields json_Marshal tb (lm_Fields p);
          tb = tb_Stack tb (lm_Stack p)
      in Log_Add
           \<lparr>ev_Type = et_LogMessage, ev_TraceID = ep_TraceID p, ev_SpanID = ep_SpanID p, ev_Data = tb\<rparr>)"

end
