(* ===== verification/Trace_HTTP.thy ===== *)
theory Trace_HTTP
  imports Trace_Events
begin

text \<open>
  Tracing of outgoing HTTP calls (runtimes/go/appruntime/exported/trace2/http.go). A round trip
  starts with an event and a record of the call; the callbacks of \<open>httptrace\<close> append to that
  record; completing the round trip writes what has been collected. The reading of
  \<open>nanotime()\<close> that each callback makes is an argument.
\<close>

text \<open>The data of one callback event; \<open>HED_None\<close> is the nil interface value.\<close>

datatype httpEventData =
    HED_None
  | getConnEvent bytes
  | gotConnEvent bool bool int64
  | got1xxResponseEvent int64
  | dnsStartEvent bytes
  | dnsDoneEvent "go_error option" "bytes list"
  | connectStartEvent bytes bytes
  | connectDoneEvent bytes bytes "go_error option"
  | tlsHandshakeDoneEvent "16 word" "16 word" bytes bytes "go_error option"
  | wroteRequestEvent "go_error option"
  | closedBodyEvent "go_error option"

fun tb_ByteStrings :: "EventBuffer \<Rightarrow> bytes list \<Rightarrow> EventBuffer" where
  "tb_ByteStrings tb [] = tb"
| "tb_ByteStrings tb (b # bs) = tb_ByteStrings (tb_ByteString tb b) bs"

text \<open>The \<open>Encode\<close> methods, one equation per type.\<close>

fun hed_Encode :: "EventBuffer \<Rightarrow> httpEventData \<Rightarrow> EventBuffer" where
  "hed_Encode tb HED_None = tb"
| "hed_Encode tb (getConnEvent hostPort) = tb_String tb hostPort"
| "hed_Encode tb (gotConnEvent reused wasIdle idleTime) =
     (let tb = tb_Bool tb reused; tb = tb_Bool tb wasIdle in tb_Int64 tb idleTime)"
| "hed_Encode tb (got1xxResponseEvent code) = tb_Varint tb code"
| "hed_Encode tb (dnsStartEvent host) = tb_String tb host"
| "hed_Encode tb (dnsDoneEvent err addrs) =
     (let tb = (case err of Some e \<Rightarrow> tb_String tb (error_message e) | None \<Rightarrow> tb_String tb []);
          tb = tb_UVarint tb (of_nat (length addrs))
      in tb_ByteStrings tb addrs)"
| "hed_Encode tb (connectStartEvent network addr) =
     (let tb = tb_String tb network in tb_String tb addr)"
| "hed_Encode tb (connectDoneEvent network addr err) =
     (let tb = tb_String tb network; tb = tb_String tb addr in tb_Err tb err)"
| "hed_Encode tb (tlsHandshakeDoneEvent version cipherSuite serverName negotiatedProtocol err) =
     (let tb = tb_Err tb err;
          tb = tb_Uint32 tb (ucast version);
          tb = tb_Uint32 tb (ucast cipherSuite);
          tb = tb_String tb serverName
      in tb_String tb negotiatedProtocol)"
| "hed_Encode tb (wroteRequestEvent err) = tb_Err tb err"
| "hed_Encode tb (closedBodyEvent err) = tb_Err tb err"

record httpEvent =
  he_code :: byte
  he_ts :: int64
  he_data :: httpEventData

record httpRoundTrip =
  rt_TraceID :: bytes
  rt_SpanID :: bytes
  rt_StartID :: uint64
  rt_CorrelationParentSpanID :: bytes
  rt_events :: "httpEvent list"

definition rt_addEvent :: "int64 \<Rightarrow> byte \<Rightarrow> httpEventData \<Rightarrow> httpRoundTrip \<Rightarrow> httpRoundTrip" where
  "rt_addEvent ts code data rt =
     rt\<lparr>rt_events := rt_events rt @ [\<lparr>he_code = code, he_ts = ts, he_data = data\<rparr>]\<rparr>"

text \<open>The callbacks of \<open>httptrace.ClientTrace\<close> and the one that tracks the response body.\<close>

datatype http_callback =
    cb_getConn bytes
  | cb_gotConn bool bool int64
  | cb_gotFirstResponseByte
  | cb_got1xxResponse int64
  | cb_dnsStart bytes
  | cb_dnsDone "go_error option" "bytes list"
  | cb_connectStart bytes bytes
  | cb_connectDone bytes bytes "go_error option"
  | cb_tlsHandshakeStart
  | cb_tlsHandshakeDone "16 word" "16 word" bytes bytes "go_error option"
  | cb_wroteHeaders
  | cb_wroteRequest "go_error option"
  | cb_wait100Continue
  | cb_closedBody "go_error option"

fun rt_callback :: "int64 \<Rightarrow> http_callback \<Rightarrow> httpRoundTrip \<Rightarrow> httpRoundTrip" where
  "rt_callback ts (cb_getConn hostPort) rt = rt_addEvent ts hc_GetConn (getConnEvent hostPort) rt"
| "rt_callback ts (cb_gotConn reused wasIdle idle) rt =
     rt_addEvent ts hc_GotConn (gotConnEvent reused wasIdle idle) rt"
| "rt_callback ts cb_gotFirstResponseByte rt = rt_addEvent ts hc_GotFirstResponseByte HED_None rt"
| "rt_callback ts (cb_got1xxResponse code) rt = rt_addEvent ts hc_Got1xxResponse (got1xxResponseEvent code) rt"
| "rt_callback ts (cb_dnsStart host) rt = rt_addEvent ts hc_DNSStart (dnsStartEvent host) rt"
| "rt_callback ts (cb_dnsDone err addrs) rt = rt_addEvent ts hc_DNSDone (dnsDoneEvent err addrs) rt"
| "rt_callback ts (cb_connectStart network addr) rt =
     rt_addEvent ts hc_ConnectStart (connectStartEvent network addr) rt"
| "rt_callback ts (cb_connectDone network addr err) rt =
     rt_addEvent ts hc_ConnectDone (connectDoneEvent network addr err) rt"
| "rt_callback ts cb_tlsHandshakeStart rt = rt_addEvent ts hc_TLSHandshakeStart HED_None rt"
| "rt_callback ts (cb_tlsHandshakeDone version cipherSuite serverName proto err) rt =
     rt_addEvent ts hc_TLSHandshakeDone (tlsHandshakeDoneEvent version cipherSuite serverName proto err) rt"
| "rt_callback ts cb_wroteHeaders rt = rt_addEvent ts hc_WroteHeaders HED_None rt"
| "rt_callback ts (cb_wroteRequest err) rt = rt_addEvent ts hc_WroteRequest (wroteRequestEvent err) rt"
| "rt_callback ts cb_wait100Continue rt = rt_addEvent ts hc_Wait100Continue HED_None rt"
| "rt_callback ts (cb_closedBody err) rt = rt_addEvent ts hc_ClosedBody (closedBodyEvent err) rt"

fun encodeEvents_loop :: "EventBuffer \<Rightarrow> httpEvent list \<Rightarrow> EventBuffer" where
  "encodeEvents_loop tb [] = tb"
| "encodeEvents_loop tb (e # es) =
     (let tb = tb_Bytes tb [he_code e];
          tb = tb_Int64 tb (he_ts e);
          tb = (if he_data e \<noteq> HED_None then hed_Encode tb (he_data e) else tb)
      in encodeEvents_loop tb es)"

definition rt_encodeEvents :: "httpRoundTrip \<Rightarrow> EventBuffer \<Rightarrow> EventBuffer" where
  "rt_encodeEvents rt tb =
     (let tb = tb_UVarint tb (of_nat (length (rt_events rt))) in encodeEvents_loop tb (rt_events rt))"

text \<open>
  \<open>HTTPBeginRoundTrip\<close>: \<open>genSpanID\<close> is what \<open>model.GenSpanID()\<close> returns, \<open>stk\<close> is
  \<open>stack.Build(4)\<close>, \<open>nano\<close> the reading of \<open>nanotime()\<close> that goes into the event. A nil log
  starts no round trip (\<open>None\<close>) and reports no error.
\<close>

record http_Request =
  hr_Method :: bytes
  hr_URL :: bytes

definition Log_HTTPCallStart ::
    "Stack \<Rightarrow> int64 \<Rightarrow> bytes \<Rightarrow> http_Request \<Rightarrow> Request \<Rightarrow> uint32 \<Rightarrow> log_call" where
  "Log_HTTPCallStart stk nano callCorrelationParentSpanID httpReq req goid =
     (let requestURL = hr_URL httpReq;
          tb = newEvent
            \<lparr>ed_Common = goid_params goid 0,
             ed_CorrelationEventID = 0,
             ed_ExtraSpace = 8 + length (hr_Method httpReq) + length requestURL + 4\<rparr>;
          tb = tb_Bytes tb callCorrelationParentSpanID;
          tb = tb_String tb (hr_Method httpReq);
          tb = tb_String tb requestURL;
          tb = tb_Stack tb stk;
          tb = tb_Int64 tb nano
      in Log_Add
           \<lparr>ev_Type = et_HTTPCallStart, ev_TraceID = req_TraceID req, ev_SpanID = req_SpanID req,
            ev_Data = tb\<rparr>)"

definition Log_HTTPBeginRoundTrip ::
    "go_error + bytes \<Rightarrow> Stack \<Rightarrow> int64 \<Rightarrow> http_Request \<Rightarrow> Request \<Rightarrow> uint32 \<Rightarrow> int64 \<Rightarrow> trace_state
     \<Rightarrow> (go_error + httpRoundTrip option) \<times> trace_state" where
  "Log_HTTPBeginRoundTrip genSpanID stk nano httpReq req goid nanotime s =
     (if the_log s = None then (Inr None, s)
      else case genSpanID of
        Inl err \<Rightarrow> (Inl err, s)
      | Inr callCorrelationParentSpanID \<Rightarrow>
          (let (eventID, s) =
             Log_HTTPCallStart stk nano callCorrelationParentSpanID httpReq req goid nanotime s
           in (Inr (Some
                 \<lparr>rt_TraceID = req_TraceID req, rt_SpanID = req_SpanID req, rt_StartID = eventID,
                  rt_CorrelationParentSpanID = callCorrelationParentSpanID, rt_events = []\<rparr>), s)))"

text \<open>\<open>HTTPCompleteRoundTrip\<close>: \<open>rt\<close> is the round trip found in the request's context, if any, and
  \<open>resp\<close> the status code of the response, if there is one.\<close>

definition Log_HTTPCompleteRoundTrip ::
    "httpRoundTrip option \<Rightarrow> int64 option \<Rightarrow> uint32 \<Rightarrow> go_error option \<Rightarrow> log_call" where
  "Log_HTTPCompleteRoundTrip rt resp goid err nanotime s =
     (case rt of
        None \<Rightarrow> (0, s)
      | Some rt \<Rightarrow>
          (let tb = newEvent
                 \<lparr>ed_Common = goid_params goid 0,
                  ed_CorrelationEventID = rt_StartID rt,
                  ed_ExtraSpace = 64\<rparr>;
               tb = (case resp of Some statusCode \<Rightarrow> tb_UVarint tb statusCode | None \<Rightarrow> tb_UVarint tb 0);
               tb = tb_ErrWithStack tb err;
               tb = rt_encodeEvents rt tb
           in Log_Add
                \<lparr>ev_Type = et_HTTPCallEnd, ev_TraceID = rt_TraceID rt, ev_SpanID = rt_SpanID rt,
                 ev_Data = tb\<rparr> nanotime s))"

end
