(* ===== verification/Trace_Codec.thy ===== *)
theory Trace_Codec
  imports Trace_Parser Trace_HTTP
begin

text \<open>
  What the trace parser reads back from what the trace log wrote, value by value. The interface
  between the two sides is the locale \<open>codec\<close>: an encoder, a reader, the view of a value that
  the reader is to deliver, and the law that reading the encoding delivers it and leaves the rest
  of the stream alone. Lists of such values are dealt with once, inside the locale.
\<close>


section \<open>Reading back\<close>

text \<open>
  \<open>parses p bs v\<close>: with the current version of the protocol or a later one, \<open>p\<close> reads exactly
  \<open>bs\<close>, whatever follows it, and yields \<open>v\<close>; the recorded error is left as it is. The bound is
  the one above which \<open>Log_Add\<close> drops an event.
\<close>

definition parses :: "'a reader \<Rightarrow> bytes \<Rightarrow> 'a \<Rightarrow> bool" where
  "parses p bs v \<longleftrightarrow>
     (length bs < 2 ^ 32 \<longrightarrow>
       (\<forall>r rest. CurrentVersion \<le> tr_version r \<longrightarrow> tr_buf r = bs @ rest \<longrightarrow>
          p r = Ret v (r\<lparr>tr_buf := rest, tr_bytesRead := tr_bytesRead r + length bs\<rparr>)))"

lemma parsesI:
  assumes "\<And>r rest. length bs < 2 ^ 32 \<Longrightarrow> CurrentVersion \<le> tr_version r \<Longrightarrow> tr_buf r = bs @ rest \<Longrightarrow>
    p r = Ret v (r\<lparr>tr_buf := rest, tr_bytesRead := tr_bytesRead r + length bs\<rparr>)"
  shows "parses p bs v"
  using assms by (simp add: parses_def)

lemma parsesD:
  "parses p bs v \<Longrightarrow> length bs < 2 ^ 32 \<Longrightarrow> CurrentVersion \<le> tr_version r \<Longrightarrow> tr_buf r = bs @ rest \<Longrightarrow>
    p r = Ret v (r\<lparr>tr_buf := rest, tr_bytesRead := tr_bytesRead r + length bs\<rparr>)"
  by (simp add: parses_def)

lemma parses_return: "x = y \<Longrightarrow> parses (rd_return x) [] y"
  by (rule parsesI) (simp add: rd_return_def)

lemma parses_bind:
  assumes p: "parses p bs x" and f: "parses (f x) cs y"
  shows "parses (rd_bind p f) (bs @ cs) y"
proof (rule parsesI)
  fix r :: traceReader and rest assume r: "length (bs @ cs) < 2 ^ 32" "CurrentVersion \<le> tr_version r" "tr_buf r = (bs @ cs) @ rest"
  let ?s = "r\<lparr>tr_buf := cs @ rest, tr_bytesRead := tr_bytesRead r + length bs\<rparr>"
  have "p r = Ret x ?s" using r by (intro parsesD [OF p]) auto
  moreover have "f x ?s = Ret y (?s\<lparr>tr_buf := rest, tr_bytesRead := tr_bytesRead ?s + length cs\<rparr>)"
    using r by (intro parsesD [OF f]) auto
  ultimately show "rd_bind p f r = Ret y (r\<lparr>tr_buf := rest, tr_bytesRead := tr_bytesRead r + length (bs @ cs)\<rparr>)"
    by (simp add: rd_bind_def add.assoc)
qed

lemma parses_bind_end: "parses p bs x \<Longrightarrow> parses (f x) [] y \<Longrightarrow> parses (rd_bind p f) bs y"
  using parses_bind [of p bs x f "[]" y] by simp

lemma parses_map: "parses p bs x \<Longrightarrow> f x = y \<Longrightarrow> parses (rd_map f p) bs y"
  unfolding rd_map_def by (rule parses_bind_end) (auto intro: parses_return)

lemma parses_Byte: "parses tr_Byte [b] b"
  by (rule parsesI) (simp add: tr_Byte_def)

lemma parses_Bytes: "length bs = n \<Longrightarrow> parses (tr_Bytes n) bs bs"
  by (rule parsesI) (auto simp: tr_Bytes_def Let_def read_full_err_def tr_setErr_def)

lemma tr_UVarint_loop_bytes:
  "tr_buf r = uvarint_bytes x @ rest \<Longrightarrow>
   tr_UVarint_loop i u r = Ret (u OR push_bit i x)
     (r\<lparr>tr_buf := rest, tr_bytesRead := tr_bytesRead r + length (uvarint_bytes x)\<rparr>)"
proof (induction x arbitrary: i u r rule: uvarint_bytes.induct)
  case (1 x)
  show ?case
  proof (cases "0x80 \<le> x")
    case True
    with "1.prems" have "tr_buf r = (ucast x OR 0x80) # uvarint_bytes (drop_bit 7 x) @ rest"
      by (simp add: uvarint_bytes.simps [of x])
    with True "1.IH" [OF True] show ?thesis
      by (simp add: tr_UVarint_loop.simps [of _ _ r] uvarint_bytes.simps [of x] Let_def base128_more
          base128_split or.assoc)
  next
    case False
    then have "x < 0x80" by simp
    with False "1.prems" show ?thesis
      by (simp add: tr_UVarint_loop.simps [of _ _ r] uvarint_bytes.simps [of x] Let_def base128_last)
  qed
qed

lemma parses_UVarint: "parses tr_UVarint (uvarint_bytes u) u"
  by (rule parsesI) (simp add: tr_UVarint_def tr_UVarint_loop_bytes)

lemma zigzag64: "unsignedToSigned (signedToUnsigned i) = i"
  using drop_push_nonneg [of i] drop_push_neg [of i]
  by (cases "bit i 63") (simp_all add: unsignedToSigned_def signedToUnsigned_def sless_0_iff_bit
      and_1_eq_0_iff_bit bit_simps del: push_bit_Suc drop_bit_Suc One_nat_def)

definition zigzag32 :: "int32 \<Rightarrow> uint32" where
  "zigzag32 x = (if x <s 0 then push_bit 1 (NOT x) OR 1 else push_bit 1 x)"

lemma zigzag32_inverse:
  "(if zigzag32 x AND 1 = 0 then drop_bit 1 (zigzag32 x) else NOT (drop_bit 1 (zigzag32 x))) = x"
  using drop_push_nonneg [of x] drop_push_neg [of x]
  by (cases "bit x 31") (simp_all add: zigzag32_def sless_0_iff_bit
      and_1_eq_0_iff_bit bit_simps del: push_bit_Suc drop_bit_Suc One_nat_def)

lemma length_of_nat_uint64: "n < 2 ^ 32 \<Longrightarrow> unat (of_nat n :: uint64) = n"
  by (simp add: unat_of_nat take_bit_nat_eq_self)

lemma parses_ByteString: "parses tr_ByteString (enc_string s) s"
proof (cases "s = []")
  case True
  have "parses tr_ByteString (uvarint_bytes 0) []"
    unfolding tr_ByteString_def by (rule parses_bind_end [OF parses_UVarint]) (simp add: parses_return)
  with True show ?thesis by (simp add: enc_string_def)
next
  case False
  show ?thesis
  proof (rule parsesI)
    fix r :: traceReader and rest assume r: "length (enc_string s) < 2 ^ 32" "CurrentVersion \<le> tr_version r" "tr_buf r = enc_string s @ rest"
    let ?n = "of_nat (length s) :: uint64"
    from r(1) have n: "length s < 2 ^ 32" by (simp add: enc_string_def)
    then have un: "unat ?n = length s" by (rule length_of_nat_uint64)
    with False have "?n \<noteq> 0" by (metis length_0_conv unat_0)
    then have "parses (if ?n = 0 then rd_return [] else rd_bind (makeslice 1 (unat ?n)) (\<lambda>_. tr_Bytes (unat ?n))) s s"
      using n by (simp add: un makeslice_def maxAlloc_def)
        (rule parses_bind [of _ "[]", simplified], simp_all add: parses_return parses_Bytes)
    then have "parses tr_ByteString (enc_string s) s"
      unfolding tr_ByteString_def enc_string_def by (rule parses_bind [OF parses_UVarint])
    then show "tr_ByteString r = Ret s (r\<lparr>tr_buf := rest, tr_bytesRead := tr_bytesRead r + length (enc_string s)\<rparr>)"
      using r by (rule parsesD)
  qed
qed

definition view_time :: "go_time \<Rightarrow> Timestamp" where
  "view_time t = timestamppb_New t"

lemma parses_ints:
  "parses tr_Uint32 (le_bytes32 w) w"
  "parses tr_Uint64 (le_bytes64 u) u"
  "parses tr_Int32 (enc_int32 w) w"
  "parses tr_Int64 (enc_int64 u) u"
  "parses tr_Nanotime (enc_int64 u) u"
  "parses tr_Varint (enc_varint u) u"
  "parses tr_Duration (enc_varint u) u"
  "parses tr_EventID (uvarint_bytes u) u"
  "parses tr_Float32 (le_bytes32 w) w"
  "parses tr_Float64 (le_bytes64 u) u"
proof -
  show u32: "parses tr_Uint32 (le_bytes32 w) w" for w
    unfolding tr_Uint32_def by (rule parses_map [OF parses_Bytes]) simp_all
  show u64: "parses tr_Uint64 (le_bytes64 u) u" for u
    unfolding tr_Uint64_def by (rule parses_map [OF parses_Bytes]) simp_all
  show "parses tr_Int32 (enc_int32 w) w"
    unfolding tr_Int32_def enc_int32_def zigzag32_def [symmetric]
    by (rule parses_map [OF u32]) (rule zigzag32_inverse)
  show i64: "parses tr_Int64 (enc_int64 u) u"
    unfolding tr_Int64_def enc_int64_def by (rule parses_map [OF u64]) (rule zigzag64)
  then show "parses tr_Nanotime (enc_int64 u) u" by (simp add: tr_Nanotime_def)
  show vi: "parses tr_Varint (enc_varint u) u"
    unfolding tr_Varint_def enc_varint_def unsignedToSigned_def [symmetric]
    by (rule parses_map [OF parses_UVarint]) (rule zigzag64)
  then show "parses tr_Duration (enc_varint u) u" by (simp add: tr_Duration_def)
  show "parses tr_EventID (uvarint_bytes u) u" by (simp add: tr_EventID_def parses_UVarint)
  show "parses tr_Float32 (le_bytes32 w) w" "parses tr_Float64 (le_bytes64 u) u"
    by (simp_all add: tr_Float32_def tr_Float64_def u32 u64)
qed

lemma parses_id64: "length bs = 8 \<Longrightarrow> parses tr_Uint64 bs (le_Uint64 bs)"
  unfolding tr_Uint64_def by (rule parses_map [OF parses_Bytes]) simp_all

lemma parses_Bool: "parses tr_Bool (enc_bool b) b"
  unfolding tr_Bool_def enc_bool_def by (rule parses_map [OF parses_Byte]) simp

lemma parses_FromVer: "parses (tr_FromVer_Bool CurrentVersion d) (enc_bool b) b"
  using parses_Bool [of b] by (simp add: parses_def tr_FromVer_Bool_def)

lemma parses_String: "parses tr_String (enc_string s) (ToValidUTF8 s)"
  unfolding tr_String_def by (rule parses_map [OF parses_ByteString]) simp

text \<open>A string that may be absent, and one that is absent when it is empty.\<close>

definition view_opt :: "bytes option \<Rightarrow> bytes option" where
  "view_opt os = (case os of None \<Rightarrow> None | Some s \<Rightarrow> if s = [] then None else Some (ToValidUTF8 s))"

definition view_nonempty :: "bytes \<Rightarrow> bytes option" where
  "view_nonempty s = (if s = [] then None else Some (ToValidUTF8 s))"

definition view_nonzero :: "'a::zero \<Rightarrow> 'a option" where
  "view_nonzero u = (if u = 0 then None else Some u)"

definition view_optnum :: "uint64 option \<Rightarrow> uint64 option" where
  "view_optnum ou = (case ou of None \<Rightarrow> None | Some u \<Rightarrow> view_nonzero u)"

lemma parses_OptString:
  "parses tr_OptString (enc_string (case os of None \<Rightarrow> [] | Some s \<Rightarrow> s)) (view_opt os)"
  unfolding tr_OptString_def
  by (rule parses_map [OF parses_String]) (auto simp: ptrOrNil_def view_opt_def split: option.splits)

lemma parses_OptUVarint:
  "parses tr_OptUVarint (uvarint_bytes (case ou of None \<Rightarrow> 0 | Some u \<Rightarrow> u)) (view_optnum ou)"
  unfolding tr_OptUVarint_def
  by (rule parses_map [OF parses_UVarint]) (auto simp: ptrOrNil_def view_optnum_def view_nonzero_def split: option.splits)

lemma parses_Time:
  assumes "go_time_ok t"
  shows "parses tr_Time (enc_time t) (view_time t)"
  unfolding tr_Time_def enc_time_def
  by (rule parses_bind parses_ints parses_bind_end parses_return)+
    (simp add: time_Unix_id [OF assms] view_time_def)

definition view_traceID :: "bytes \<Rightarrow> pb_TraceID" where
  "view_traceID b = \<lparr>High = le_Uint64 (drop 8 b), Low = le_Uint64 (take 8 b)\<rparr>"

lemma parses_traceID: "length b = 16 \<Longrightarrow> parses tp_traceID b (view_traceID b)"
  unfolding tp_traceID_def view_traceID_def by (rule parses_map [OF parses_Bytes]) simp_all



section \<open>The interface between writer and reader\<close>

locale codec =
  fixes enc :: "'a \<Rightarrow> bytes"
    and dec :: "'b reader"
    and view :: "'a \<Rightarrow> 'b"
    and ok :: "'a \<Rightarrow> bool"
  assumes dec_enc: "ok x \<Longrightarrow> parses dec (enc x) (view x)"
    and enc_neq_Nil: "enc x \<noteq> []"
begin

lemma length_le_concat: "length xs \<le> length (concat (map enc xs))"
proof (induction xs)
  case (Cons x xs)
  moreover have "1 \<le> length (enc x)"
    using enc_neq_Nil [of x] by (cases "enc x") simp_all
  ultimately have "1 + length xs \<le> length (enc x) + length (concat (map enc xs))"
    by (intro add_mono)
  then show ?case by simp
qed simp

lemma parses_repeat:
  "list_all ok xs \<Longrightarrow> parses (rd_repeat (length xs) dec) (concat (map enc xs)) (map view xs)"
proof (induction xs)
  case Nil
  show ?case by (simp add: parses_return)
next
  case (Cons x xs)
  then show ?case
    by (auto intro!: parses_bind parses_map dec_enc)
qed

text \<open>A loop over a count that was read from the stream.\<close>

lemma parses_counted:
  assumes "list_all ok xs"
  shows "parses (rd_repeat (loop_count (of_nat (length xs))) dec) (concat (map enc xs)) (map view xs)"
proof (rule parsesI)
  fix r :: traceReader and rest
  assume r: "length (concat (map enc xs)) < 2 ^ 32" "CurrentVersion \<le> tr_version r"
    "tr_buf r = concat (map enc xs) @ rest"
  then have "loop_count (of_nat (length xs)) = length xs"
    using length_le_concat [of xs] by (intro loop_count_of_nat) simp
  then show "rd_repeat (loop_count (of_nat (length xs))) dec r = Ret (map view xs)
      (r\<lparr>tr_buf := rest, tr_bytesRead := tr_bytesRead r + length (concat (map enc xs))\<rparr>)"
    using parsesD [OF parses_repeat [OF assms] r] by simp
qed

text \<open>The same after the slice for the result has been allocated: it cannot be too large, since
  every element takes up at least one byte of the event.\<close>

lemma parses_sliced:
  assumes ok: "list_all ok xs" and k: "k \<le> 16" and f: "parses (f (map view xs)) cs y"
  shows "parses (rd_bind (makeslice k (unat (of_nat (length xs) :: uint64))) (\<lambda>_.
      rd_bind (rd_repeat (loop_count (of_nat (length xs))) dec) f)) (concat (map enc xs) @ cs) y"
    (is "parses ?p ?bs y")
proof (rule parsesI)
  fix r :: traceReader and rest
  assume r: "length ?bs < 2 ^ 32" "CurrentVersion \<le> tr_version r" "tr_buf r = ?bs @ rest"
  then have n: "length xs < 2 ^ 32"
    using length_le_concat [of xs] by simp
  have "k * unat (of_nat (length xs) :: uint64) \<le> 16 * 2 ^ 32"
    using n k by (intro mult_le_mono) (simp_all add: length_of_nat_uint64)
  then have "?p r = rd_bind (rd_repeat (loop_count (of_nat (length xs))) dec) f r"
    by (simp add: makeslice_def maxAlloc_def rd_bind_def rd_return_def)
  also have "\<dots> = Ret y (r\<lparr>tr_buf := rest, tr_bytesRead := tr_bytesRead r + length ?bs\<rparr>)"
    using r by (intro parsesD parses_bind [where x = "map view xs"] parses_counted ok f)
  finally show "?p r = Ret y (r\<lparr>tr_buf := rest, tr_bytesRead := tr_bytesRead r + length ?bs\<rparr>)" .
qed

lemmas parses_sliced_end = parses_sliced [where cs = "[]", simplified]

end

interpretation str: codec enc_string tr_String ToValidUTF8 "\<lambda>_. True"
  by unfold_locales (simp_all add: parses_String)

interpretation bstr: codec enc_string tr_ByteString "\<lambda>s. s" "\<lambda>_. True"
  by unfold_locales (simp_all add: parses_ByteString)

interpretation vint: codec enc_varint tr_Varint "\<lambda>i. i" "\<lambda>_. True"
  by unfold_locales (simp_all add: parses_ints)


section \<open>Stacks, errors and headers\<close>

text \<open>What the parser makes of a stack, an error, a formatted stack and a set of headers.\<close>

definition stack_ok :: "Stack \<Rightarrow> bool" where
  "stack_ok s \<longleftrightarrow> length (Frames s) \<le> 0xFF"

definition view_stack :: "Stack \<Rightarrow> StackTrace option" where
  "view_stack s =
     (if Frames s = [] then None
      else Some \<lparr>st_pcs = stack_diffs (Off s) 0 (Frames s), st_frames = []\<rparr>)"

fun error_ok :: "go_error option \<Rightarrow> bool" where
  "error_ok None = True"
| "error_ok (Some e) = stack_ok (errs_Stack e)"

definition view_error :: "go_error option \<Rightarrow> pb_Error option" where
  "view_error = map_option (\<lambda>e.
     \<lparr>er_msg = ToValidUTF8 (error_message e), er_stack = view_stack (errs_Stack e)\<rparr>)"

definition view_frame :: "FormattedFrame \<Rightarrow> StackFrame" where
  "view_frame f =
     \<lparr>sf_filename = ToValidUTF8 (File f), sf_func = ToValidUTF8 (Func f), sf_line = ucast (Line f)\<rparr>"

definition view_frames :: "FormattedFrame list \<Rightarrow> StackTrace option" where
  "view_frames fs =
     (if fs = [] then None else Some \<lparr>st_pcs = [], st_frames = map view_frame (take 0xFF fs)\<rparr>)"

fun first_value :: "bytes list \<Rightarrow> bytes" where
  "first_value [] = []"
| "first_value (v # _) = v"

definition view_headers :: "http_Header \<Rightarrow> (bytes \<rightharpoonup> bytes)" where
  "view_headers hs =
     foldl (\<lambda>m (k, vs). m(ToValidUTF8 k \<mapsto> ToValidUTF8 (first_value vs))) Map.empty hs"

lemma byte_count_word:
  assumes "n \<le> 0xFF"
  shows "unat (of_nat n :: byte) = n" "(of_nat n :: byte) = 0 \<longleftrightarrow> n = 0"
proof -
  show "unat (of_nat n :: byte) = n" using assms by (simp add: unat_of_nat take_bit_nat_eq_self)
  then show "(of_nat n :: byte) = 0 \<longleftrightarrow> n = 0" using unat_eq_0 [of "of_nat n :: byte"] by simp
qed

lemma parses_small_slice:
  assumes "k \<le> 16" "n \<le> 0xFF" "parses p bs y"
  shows "parses (rd_bind (makeslice k n) (\<lambda>_. p)) bs y"
proof -
  have "k * n \<le> 16 * 0xFF"
    using assms by (intro mult_le_mono)
  then have "makeslice k n = rd_return ()"
    by (simp add: makeslice_def maxAlloc_def)
  with assms show ?thesis
    by (simp add: parses_def rd_bind_def rd_return_def)
qed

lemma parses_stack:
  assumes "stack_ok s"
  shows "parses tp_stack (enc_stack s) (view_stack s)"
proof -
  let ?n = "length (Frames s)" and ?ds = "stack_diffs (Off s) 0 (Frames s)"
  have n: "byte_count ?n = ?n" "unat (of_nat ?n :: byte) = ?n" "(of_nat ?n :: byte) = 0 \<longleftrightarrow> Frames s = []"
    using assms by (auto simp: stack_ok_def byte_count_word)
  have "parses (rd_bind (rd_repeat ?n tr_Varint) (\<lambda>d. rd_return (Some \<lparr>st_pcs = d, st_frames = []\<rparr>)))
      (concat (map enc_varint ?ds)) (Some \<lparr>st_pcs = ?ds, st_frames = []\<rparr>)"
    using vint.parses_repeat [of ?ds]
    by (intro parses_bind_end [where x = ?ds] parses_return) (simp_all add: list_all_iff)
  moreover have "?n \<le> 0xFF" using assms by (simp add: stack_ok_def)
  ultimately show ?thesis
    unfolding tp_stack_def enc_stack_def n(1)
    by (intro parses_bind [OF parses_Byte])
      (simp add: n view_stack_def parses_return parses_small_slice)
qed

lemma parses_error:
  assumes "error_ok err"
  shows "parses tp_errWithStack (enc_err err) (view_error err)"
proof (cases err)
  case None
  show ?thesis
    unfolding tp_errWithStack_def enc_err_def None
    by (simp, rule parses_bind_end [OF parses_String]) (simp add: parses_return view_error_def)
next
  case (Some e)
  with assms have "parses (rd_bind tp_stack (\<lambda>stack. rd_return (Some \<lparr>er_msg = ToValidUTF8 (error_message e), er_stack = stack\<rparr>)))
      (enc_stack (errs_Stack e)) (view_error err)"
    by (intro parses_bind_end [OF parses_stack] parses_return) (simp_all add: view_error_def)
  with Some show ?thesis
    unfolding tp_errWithStack_def enc_err_def
    by (simp, intro parses_bind [OF parses_String]) simp
qed

lemma parses_frame: "parses tp_stackFrame (enc_frame f) (view_frame f)"
  unfolding tp_stackFrame_def enc_frame_def view_frame_def
  by (rule parses_bind parses_String parses_UVarint parses_bind_end parses_return refl)+

interpretation frame: codec enc_frame tp_stackFrame view_frame "\<lambda>_. True"
  by unfold_locales (simp_all add: parses_frame)

lemma parses_frames: "parses tp_formattedStack (enc_frames fs) (view_frames fs)"
proof -
  let ?n = "byte_count (length fs)" and ?fs = "take 0xFF fs"
  have n: "unat (of_nat ?n :: byte) = ?n" "(of_nat ?n :: byte) = 0 \<longleftrightarrow> ?n = 0" "?n = 0 \<longleftrightarrow> fs = []"
    by (rule byte_count_word, simp)+ (auto simp: min_def)
  have "parses (rd_bind (rd_repeat ?n tp_stackFrame) (\<lambda>d. rd_return (Some \<lparr>st_pcs = [], st_frames = d\<rparr>)))
      (concat (map enc_frame ?fs)) (Some \<lparr>st_pcs = [], st_frames = map view_frame ?fs\<rparr>)"
    using frame.parses_repeat [of ?fs]
    by (intro parses_bind_end [where x = "map view_frame ?fs"] parses_return)
      (simp_all add: list_all_iff min.commute [of "length fs"])
  then show ?thesis
    unfolding tp_formattedStack_def enc_frames_def
    by (intro parses_bind [OF parses_Byte])
      (simp add: n view_frames_def parses_return parses_small_slice)
qed

text \<open>Headers are read in a loop that updates a map: the pairs are read one by one and then put
  into the map in order.\<close>

definition tp_header_pair :: "(bytes \<times> bytes) reader" where
  "tp_header_pair = rd_bind tr_String (\<lambda>k. rd_bind tr_String (\<lambda>v. rd_return (k, v)))"

definition enc_header :: "bytes \<times> bytes list \<Rightarrow> bytes" where
  "enc_header h = enc_string (fst h) @ enc_string (first_value (snd h))"

definition view_header :: "bytes \<times> bytes list \<Rightarrow> bytes \<times> bytes" where
  "view_header h = (ToValidUTF8 (fst h), ToValidUTF8 (first_value (snd h)))"

lemma parses_header_pair: "parses tp_header_pair (enc_header h) (view_header h)"
  unfolding tp_header_pair_def enc_header_def view_header_def
  by (rule parses_bind parses_String parses_bind_end parses_return refl)+

interpretation hdr: codec enc_header tp_header_pair view_header "\<lambda>_. True"
  by unfold_locales (rule parses_header_pair, simp add: enc_header_def)

lemma rd_bind_assoc: "rd_bind (rd_bind p f) g = rd_bind p (\<lambda>x. rd_bind (f x) g)"
  by (auto simp: rd_bind_def split: outcome.splits)

lemma rd_bind_return [simp]: "rd_bind (rd_return x) f = f x"
  by (rule ext) (simp add: rd_bind_def rd_return_def)

lemma tp_headers_loop_repeat:
  "tp_headers_loop n m = rd_map (foldl (\<lambda>m (k, v). m(k \<mapsto> v)) m) (rd_repeat n tp_header_pair)"
  by (induction n arbitrary: m) (simp_all add: rd_map_def rd_bind_assoc tp_header_pair_def)

lemma view_headers_fold: "view_headers hs = foldl (\<lambda>m (k, v). m(k \<mapsto> v)) Map.empty (map view_header hs)"
proof -
  have "foldl (\<lambda>m (k, vs). m(ToValidUTF8 k \<mapsto> ToValidUTF8 (first_value vs))) m hs
      = foldl (\<lambda>m (k, v). m(k \<mapsto> v)) m (map view_header hs)" for m
    by (induction hs arbitrary: m) (auto simp: view_header_def)
  then show ?thesis by (simp add: view_headers_def)
qed

lemma parses_headers:
  "parses tp_headers (uvarint_bytes (of_nat (length hs)) @ concat (map enc_header hs)) (view_headers hs)"
proof -
  have "(if n = 0 then rd_return Map.empty else tp_headers_loop (loop_count n) Map.empty)
      = tp_headers_loop (loop_count n) Map.empty" for n :: uint64
    by (simp add: loop_count_def)
  then show ?thesis
    unfolding tp_headers_def
    by (intro parses_bind [OF parses_UVarint])
      (simp add: tp_headers_loop_repeat view_headers_fold, intro parses_map [OF hdr.parses_counted] refl,
       simp add: list_all_iff)
qed

lemma makeslice_0 [simp]: "makeslice k 0 = rd_return ()"
  by (simp add: makeslice_def)

lemma parses_pathParams:
  "parses tp_pathParams (uvarint_bytes (of_nat (length ss)) @ concat (map enc_string ss)) (map ToValidUTF8 ss)"
proof -
  have p: "tp_pathParams = rd_bind tr_UVarint (\<lambda>n. rd_bind (makeslice 16 (unat n)) (\<lambda>_.
      rd_bind (rd_repeat (loop_count n) tr_String) rd_return))"
    unfolding tp_pathParams_def
    by (rule arg_cong [where f = "rd_bind tr_UVarint"])
      (auto simp: fun_eq_iff loop_count_def rd_bind_def rd_return_def split: outcome.splits)
  show ?thesis
    unfolding p
    by (intro parses_bind [OF parses_UVarint] str.parses_sliced_end parses_return)
      (simp_all add: list_all_iff)
qed


section \<open>Spans\<close>

lemma logHeaders_append [tb_append]:
  "logHeaders tb hs = tb @ uvarint_bytes (of_nat (length hs)) @ concat (map enc_header hs)"
proof -
  have "logHeaders_loop tb hs = tb @ concat (map enc_header hs)" for tb
    by (induction tb hs rule: logHeaders_loop.induct)
      (auto simp: Let_def tb_append enc_header_def split: list.splits)
  then show ?thesis by (simp add: logHeaders_def Let_def tb_append)
qed

lemma tb_Strings_append [tb_append]:
  "tb_Strings tb ss = tb @ concat (map enc_string ss)"
  "tb_ByteStrings tb ss = tb @ concat (map enc_string ss)"
  by (induction ss arbitrary: tb) (simp_all add: tb_append)

definition view_parentTraceID :: "bytes \<Rightarrow> pb_TraceID option" where
  "view_parentTraceID b = (if TraceID_IsZero (Some (view_traceID b)) then None else Some (view_traceID b))"

text \<open>The part of a span start that comes from the request.\<close>

definition view_span_start :: "uint32 \<Rightarrow> Request \<Rightarrow> spanStartEvent" where
  "view_span_start goid req =
     \<lparr>sse_Goid = goid,
      sse_ParentTraceID = view_parentTraceID (req_ParentTraceID req),
      sse_ParentSpanID = view_nonzero (le_Uint64 (req_ParentSpanID req)),
      sse_DefLoc = view_nonzero (req_DefLoc req),
      sse_CallerEventID = view_nonzero (req_CallerEventID req),
      sse_ExtCorrelationID = view_nonempty (req_ExtCorrelationID req)\<rparr>"

definition parents_ok :: "Request \<Rightarrow> bool" where
  "parents_ok req \<longleftrightarrow> length (req_ParentTraceID req) = 16 \<and> length (req_ParentSpanID req) = 8"

definition enc_span_start :: "uint32 \<Rightarrow> Request \<Rightarrow> bytes" where
  "enc_span_start goid req =
     uvarint_bytes (ucast goid) @ req_ParentTraceID req @ req_ParentSpanID req
     @ uvarint_bytes (ucast (req_DefLoc req)) @ uvarint_bytes (req_CallerEventID req)
     @ enc_string (req_ExtCorrelationID req)"

lemma newSpanStartEvent_append [tb_append]:
  "newSpanStartEvent
     \<lparr>ssd_Goid = goid, ssd_ParentTraceID = req_ParentTraceID req, ssd_ParentSpanID = req_ParentSpanID req,
      ssd_DefLoc = req_DefLoc req, ssd_CallerEventID = req_CallerEventID req,
      ssd_ExtCorrelationID = req_ExtCorrelationID req, ssd_ExtraSpace = n\<rparr> = enc_span_start goid req"
  by (simp add: newSpanStartEvent_def Let_def tb_append enc_span_start_def)

lemma ucast_ucast_32 [simp]: "ucast (ucast (w :: uint32) :: uint64) = w"
  by (rule bit_word_eqI) (simp add: bit_simps)

lemma parses_span_start:
  assumes "parents_ok req"
  shows "parses tp_spanStartEvent (enc_span_start goid req) (view_span_start goid req)"
  unfolding tp_spanStartEvent_def enc_span_start_def view_span_start_def
  by (insert assms) (rule parses_bind parses_UVarint parses_traceID parses_id64 parses_String parses_bind_end parses_return
      | simp add: parents_ok_def AsOptional_def view_nonzero_def view_nonempty_def view_parentTraceID_def)+

text \<open>The part of a span end that comes from the response; a negative duration is reported as 0.\<close>

definition panic_stack :: "go_error option \<Rightarrow> Stack" where
  "panic_stack err = (case Option.bind err errs_panic_stack of None \<Rightarrow> no_stack | Some s \<Rightarrow> s)"

definition view_span_end ::
    "(uint64 list \<Rightarrow> FormattedFrame list) \<Rightarrow> int64 \<Rightarrow> go_error option \<Rightarrow> Request \<Rightarrow> spanEndEvent" where
  "view_span_end frames_of dur err req =
     \<lparr>see_DurationNanos = (if sint dur < 0 then 0 else dur),
      see_Err = view_error err,
      see_PanicStack = view_frames (stack_Format frames_of (panic_stack err)),
      see_ParentTraceID = view_parentTraceID (req_ParentTraceID req),
      see_ParentSpanID = view_nonzero (le_Uint64 (req_ParentSpanID req))\<rparr>"

definition enc_span_end ::
    "(uint64 list \<Rightarrow> FormattedFrame list) \<Rightarrow> int64 \<Rightarrow> go_error option \<Rightarrow> Request \<Rightarrow> bytes" where
  "enc_span_end frames_of dur err req =
     enc_varint dur @ enc_err err @ enc_frames (stack_Format frames_of (panic_stack err))
     @ req_ParentTraceID req @ req_ParentSpanID req"

lemma newSpanEndEvent_append [tb_append]:
  "newSpanEndEvent frames_of
     \<lparr>sed_Duration = dur, sed_Err = err, sed_ParentTraceID = req_ParentTraceID req,
      sed_ParentSpanID = req_ParentSpanID req, sed_ExtraSpace = n\<rparr> = enc_span_end frames_of dur err req"
  by (simp add: newSpanEndEvent_def Let_def tb_append enc_span_end_def panic_stack_def split: option.splits)

lemma parses_span_end:
  assumes "parents_ok req" "error_ok err"
  shows "parses tp_spanEndEvent (enc_span_end frames_of dur err req) (view_span_end frames_of dur err req)"
  unfolding tp_spanEndEvent_def enc_span_end_def view_span_end_def
  by (insert assms) (rule parses_bind parses_ints parses_error parses_frames parses_traceID parses_id64 parses_bind_end parses_return
      | simp add: parents_ok_def AsOptional_def view_nonzero_def view_parentTraceID_def word_sless_alt)+


section \<open>Events within a span\<close>

definition enc_event :: "uint32 \<Rightarrow> uint32 \<Rightarrow> uint64 \<Rightarrow> bytes" where
  "enc_event defLoc goid corr = uvarint_bytes (ucast defLoc) @ uvarint_bytes (ucast goid) @ uvarint_bytes corr"

definition view_event :: "uint32 \<Rightarrow> uint32 \<Rightarrow> uint64 \<Rightarrow> SpanEvent_Data \<Rightarrow> SpanEvent" where
  "view_event defLoc goid corr d =
     \<lparr>sv_Goid = goid, sv_DefLoc = view_nonzero defLoc, sv_CorrelationEventId = view_nonzero corr, sv_Data = d\<rparr>"

lemma newEvent_append [tb_append]:
  "newEvent \<lparr>ed_Common = p, ed_CorrelationEventID = corr, ed_ExtraSpace = n\<rparr>
     = enc_event (ep_DefLoc p) (ep_Goid p) corr"
  by (simp add: newEvent_def Let_def tb_append enc_event_def)

lemma EventParams_truncate [simp]:
  "ep_TraceID (EventParams.truncate p) = ep_TraceID p" "ep_SpanID (EventParams.truncate p) = ep_SpanID p"
  "ep_Goid (EventParams.truncate p) = ep_Goid p" "ep_DefLoc (EventParams.truncate p) = ep_DefLoc p"
  by (simp_all add: EventParams.truncate_def)

lemma goid_params_simps [simp]:
  "ep_Goid (goid_params goid defLoc) = goid" "ep_DefLoc (goid_params goid defLoc) = defLoc"
  by (simp_all add: goid_params_def)

lemma word_pos_iff: "0 < (w :: 'a::len word) \<longleftrightarrow> w \<noteq> 0"
  by (simp add: word_gt_0)

lemma parses_event:
  assumes "parses (tp_spanEvent_data typ) bs d"
  shows "parses (tp_spanEvent typ) (enc_event defLoc goid corr @ bs) (view_event defLoc goid corr d)"
  unfolding tp_spanEvent_def enc_event_def view_event_def append_assoc
  by (rule parses_bind parses_UVarint parses_ints parses_bind_end assms parses_return)+
    (simp add: view_nonzero_def word_pos_iff)


subsection \<open>HTTP round trips\<close>

definition view_err_text :: "go_error option \<Rightarrow> bytes" where
  "view_err_text err = (case err of None \<Rightarrow> [] | Some e \<Rightarrow> error_message e)"

text \<open>What each callback event becomes; the code determines the kind of an event without data.\<close>

fun view_http_data :: "byte \<Rightarrow> httpEventData \<Rightarrow> HTTPTraceEvent_Data" where
  "view_http_data code HED_None =
     (if code = hc_GotFirstResponseByte then HTTPTraceEvent_GotFirstResponseByte
      else if code = hc_TLSHandshakeStart then HTTPTraceEvent_TlsHandshakeStart
      else if code = hc_WroteHeaders then HTTPTraceEvent_WroteHeaders
      else HTTPTraceEvent_Wait_100Continue)"
| "view_http_data _ (getConnEvent hostPort) = HTTPTraceEvent_GetConn (ToValidUTF8 hostPort)"
| "view_http_data _ (gotConnEvent reused wasIdle idle) = HTTPTraceEvent_GotConn reused wasIdle idle"
| "view_http_data _ (got1xxResponseEvent code) = HTTPTraceEvent_Got_1XxResponse (ucast code)"
| "view_http_data _ (dnsStartEvent host) = HTTPTraceEvent_DnsStart (ToValidUTF8 host)"
| "view_http_data _ (dnsDoneEvent err addrs) = HTTPTraceEvent_DnsDone (view_err_text err) addrs"
| "view_http_data _ (connectStartEvent network addr) =
     HTTPTraceEvent_ConnectStart (ToValidUTF8 network) (ToValidUTF8 addr)"
| "view_http_data _ (connectDoneEvent network addr err) =
     HTTPTraceEvent_ConnectDone (ToValidUTF8 network) (ToValidUTF8 addr) (view_err_text err)"
| "view_http_data _ (tlsHandshakeDoneEvent version cipherSuite serverName proto err) =
     HTTPTraceEvent_TlsHandshakeDone (view_err_text err) (ucast version) (ucast cipherSuite)
       (ToValidUTF8 serverName) (ToValidUTF8 proto)"
| "view_http_data _ (wroteRequestEvent err) = HTTPTraceEvent_WroteRequest (view_err_text err)"
| "view_http_data _ (closedBodyEvent err) = HTTPTraceEvent_ClosedBody (view_err_text err)"

fun http_codes :: "httpEventData \<Rightarrow> byte list" where
  "http_codes HED_None = [hc_GotFirstResponseByte, hc_TLSHandshakeStart, hc_WroteHeaders, hc_Wait100Continue]"
| "http_codes (getConnEvent _) = [hc_GetConn]"
| "http_codes (gotConnEvent _ _ _) = [hc_GotConn]"
| "http_codes (got1xxResponseEvent _) = [hc_Got1xxResponse]"
| "http_codes (dnsStartEvent _) = [hc_DNSStart]"
| "http_codes (dnsDoneEvent _ _) = [hc_DNSDone]"
| "http_codes (connectStartEvent _ _) = [hc_ConnectStart]"
| "http_codes (connectDoneEvent _ _ _) = [hc_ConnectDone]"
| "http_codes (tlsHandshakeDoneEvent _ _ _ _ _) = [hc_TLSHandshakeDone]"
| "http_codes (wroteRequestEvent _) = [hc_WroteRequest]"
| "http_codes (closedBodyEvent _) = [hc_ClosedBody]"

definition http_event_ok :: "httpEvent \<Rightarrow> bool" where
  "http_event_ok e \<longleftrightarrow> he_code e \<in> set (http_codes (he_data e))"

definition view_http_event :: "httpEvent \<Rightarrow> HTTPTraceEvent option" where
  "view_http_event e = Some \<lparr>hte_Nanotime = he_ts e, hte_Data = view_http_data (he_code e) (he_data e)\<rparr>"

definition enc_http_event :: "httpEvent \<Rightarrow> bytes" where
  "enc_http_event e = [he_code e] @ enc_int64 (he_ts e) @ hed_Encode [] (he_data e)"

lemma rt_callback_ok:
  "list_all http_event_ok (rt_events rt) \<Longrightarrow> list_all http_event_ok (rt_events (rt_callback ts cb rt))"
  by (cases cb) (simp_all add: rt_addEvent_def http_event_ok_def)

lemma hed_Encode_append: "hed_Encode tb d = tb @ hed_Encode [] d"
  by (cases d) (simp_all add: tb_append Let_def split: option.split)

lemma encodeEvents_append [tb_append]:
  "rt_encodeEvents rt tb = tb @ uvarint_bytes (of_nat (length (rt_events rt)))
     @ concat (map enc_http_event (rt_events rt))"
proof -
  have "encodeEvents_loop tb es = tb @ concat (map enc_http_event es)" for tb es
  proof (induction es arbitrary: tb)
    case (Cons e es)
    then show ?case
      by (simp add: Let_def tb_append enc_http_event_def hed_Encode_append [of "tb @ x" for x])
  qed simp
  then show ?thesis by (simp add: rt_encodeEvents_def Let_def tb_append)
qed

lemma parses_dnsDone:
  "parses tp_dnsDone (enc_string err @ uvarint_bytes (of_nat (length ips)) @ concat (map enc_string ips))
     (HTTPTraceEvent_DnsDone err ips)"
  unfolding tp_dnsDone_def
  by (rule parses_bind parses_ByteString parses_UVarint
      parses_bind_end [OF bstr.parses_counted] parses_return | simp add: list_all_iff)+

lemma parses_http_data:
  assumes "c \<in> set (http_codes d)"
  shows "parses (tp_httpEvent_data c) (hed_Encode [] d) (Some (view_http_data c d))"
  using assms unfolding tp_httpEvent_data_def
  by (cases d)
    (auto simp: tb_append Let_def view_err_text_def split: option.split
      intro!: parses_map [OF parses_String] parses_map [OF parses_ints(6)] parses_map [OF parses_ByteString]
        parses_map [OF parses_dnsDone] parses_return parses_bind [OF parses_Bool] parses_bind [OF parses_String]
        parses_bind [OF parses_ints(1)] parses_bind [OF parses_ByteString]
        parses_bind_end [OF parses_ByteString] parses_bind_end [OF parses_String] parses_bind_end [OF parses_ints(4)])

lemma parses_http_event:
  assumes "http_event_ok e"
  shows "parses tp_httpEvent (enc_http_event e) (view_http_event e)"
  unfolding tp_httpEvent_def enc_http_event_def view_http_event_def
  by (rule parses_bind parses_Byte parses_ints)+
    (rule parses_map [OF parses_http_data], insert assms, simp_all add: http_event_ok_def)

interpretation http: codec enc_http_event tp_httpEvent view_http_event http_event_ok
  by unfold_locales (rule parses_http_event, assumption, simp add: enc_http_event_def)



subsection \<open>Object storage\<close>

definition view_attrs :: "ObjectAttrs \<Rightarrow> BucketObjectAttributes" where
  "view_attrs a =
     \<lparr>boa_Size = view_optnum (oa_Size a), boa_Version = view_opt (oa_Version a),
      boa_Etag = view_opt (oa_ETag a), boa_ContentType = view_opt (oa_ContentType a)\<rparr>"

definition enc_opt :: "bytes option \<Rightarrow> bytes" where
  "enc_opt os = enc_string (case os of None \<Rightarrow> [] | Some s \<Rightarrow> s)"

definition enc_optnum :: "uint64 option \<Rightarrow> bytes" where
  "enc_optnum ou = uvarint_bytes (case ou of None \<Rightarrow> 0 | Some u \<Rightarrow> u)"

lemmas parses_opt = parses_OptString [folded enc_opt_def] parses_OptUVarint [folded enc_optnum_def]

lemma parses_UVarint_opt: "parses tr_OptUVarint (uvarint_bytes u) (view_nonzero u)"
  using parses_OptUVarint [of "Some u"] by (simp add: view_optnum_def)

definition enc_attrs :: "ObjectAttrs \<Rightarrow> bytes" where
  "enc_attrs a = enc_optnum (oa_Size a) @ enc_opt (oa_Version a) @ enc_opt (oa_ETag a) @ enc_opt (oa_ContentType a)"

lemma tb_bucketObjectAttrs_append [tb_append]: "tb_bucketObjectAttrs tb a = tb @ enc_attrs a"
  by (simp add: tb_bucketObjectAttrs_def Let_def tb_append enc_attrs_def enc_opt_def enc_optnum_def)

lemma parses_attrs: "parses tp_bucketObjectAttrs (enc_attrs a) (view_attrs a)"
  unfolding tp_bucketObjectAttrs_def enc_attrs_def view_attrs_def
  by (rule parses_bind parses_opt parses_bind_end parses_return refl)+

definition enc_entry :: "BucketDeleteObjectsEntry \<Rightarrow> bytes" where
  "enc_entry e = enc_string (bdo_Object e) @ enc_opt (bdo_Version e)"

definition view_entry :: "BucketDeleteObjectsEntry \<Rightarrow> BucketDeleteObjectEntry" where
  "view_entry e = \<lparr>doe_Object = ToValidUTF8 (bdo_Object e), doe_Version = view_opt (bdo_Version e)\<rparr>"

lemma tb_deleteEntries_append [tb_append]: "tb_deleteEntries tb es = tb @ concat (map enc_entry es)"
  by (induction es arbitrary: tb) (simp_all add: Let_def tb_append enc_entry_def enc_opt_def)

lemma parses_entry: "parses tp_bucketDeleteObjectEntry (enc_entry e) (view_entry e)"
  unfolding tp_bucketDeleteObjectEntry_def enc_entry_def view_entry_def
  by (rule parses_bind parses_String parses_bind_end parses_opt parses_return refl)+

interpretation entry: codec enc_entry tp_bucketDeleteObjectEntry view_entry "\<lambda>_. True"
  by unfold_locales (rule parses_entry, simp add: enc_entry_def)


subsection \<open>Log fields\<close>

fun log_value_ok :: "('v \<Rightarrow> go_error + bytes) \<Rightarrow> 'v log_value \<Rightarrow> bool" where
  "log_value_ok js (LV_Error e) = error_ok (Some e)"
| "log_value_ok js (LV_Time t) = go_time_ok t"
| "log_value_ok js (LV_UUID u) = (length u = 16)"
| "log_value_ok js (LV_Other v) = (case js v of Inl e \<Rightarrow> error_ok (Some e) | Inr _ \<Rightarrow> True)"
| "log_value_ok js _ = True"

fun view_value :: "('v \<Rightarrow> go_error + bytes) \<Rightarrow> 'v log_value \<Rightarrow> LogField_Value" where
  "view_value js (LV_Error e) = LogField_Error (view_error (Some e))"
| "view_value js (LV_String b) = LogField_Str (ToValidUTF8 b)"
| "view_value js (LV_Bool b) = LogField_Bool b"
| "view_value js (LV_Time t) = LogField_Time (view_time t)"
| "view_value js (LV_Duration d) = LogField_Dur d"
| "view_value js (LV_UUID u) = LogField_Uuid u"
| "view_value js (LV_Other v) =
     (case js v of Inl e \<Rightarrow> LogField_Error (view_error (Some e)) | Inr d \<Rightarrow> LogField_Json d)"
| "view_value js (LV_Int8 i) = LogField_Int (word_of_int (sint i))"
| "view_value js (LV_Int16 i) = LogField_Int (word_of_int (sint i))"
| "view_value js (LV_Int32 i) = LogField_Int (word_of_int (sint i))"
| "view_value js (LV_Int64 i) = LogField_Int i"
| "view_value js (LV_Int i) = LogField_Int i"
| "view_value js (LV_Uint8 u) = LogField_Uint (word_of_int (uint u))"
| "view_value js (LV_Uint16 u) = LogField_Uint (word_of_int (uint u))"
| "view_value js (LV_Uint32 u) = LogField_Uint (word_of_int (uint u))"
| "view_value js (LV_Uint64 u) = LogField_Uint u"
| "view_value js (LV_Uint u) = LogField_Uint u"
| "view_value js (LV_Float32 x) = LogField_Float32 x"
| "view_value js (LV_Float64 x) = LogField_Float64 x"

definition view_field :: "('v \<Rightarrow> go_error + bytes) \<Rightarrow> 'v log_field \<Rightarrow> LogField option" where
  "view_field js f = Some \<lparr>lf_Key = ToValidUTF8 (field_Key f), lf_Value = view_value js (field_Value f)\<rparr>"

definition enc_field :: "('v \<Rightarrow> go_error + bytes) \<Rightarrow> 'v log_field \<Rightarrow> bytes" where
  "enc_field js f = addLogField js [] (field_Key f) (field_Value f)"

definition field_ok :: "('v \<Rightarrow> go_error + bytes) \<Rightarrow> 'v log_field \<Rightarrow> bool" where
  "field_ok js f = log_value_ok js (field_Value f)"

lemma addLogField_append: "addLogField js tb k v = tb @ addLogField js [] k v"
  by (cases v) (simp_all add: tb_append Let_def split: sum.split)

lemma addLogFields_append [tb_append]: "addLogFields js tb fs = tb @ concat (map (enc_field js) fs)"
proof (induction fs arbitrary: tb)
  case (Cons f fs)
  then show ?case
    by (simp add: addLogField_append [of js tb] enc_field_def)
qed simp

lemma word_of_sint_uint:
  "word_of_int (sint (i :: 'a::len word)) = (scast i :: 'b::len word)"
  "word_of_int (uint i) = (ucast i :: 'b::len word)"
  by (simp_all add: unsigned_of_int signed_of_int)

lemma parses_json_field:
  assumes "error_ok err"
  shows "parses (tp_logField_value lft_JSONField) (enc_string d @ enc_err err)
    (Some (case err of None \<Rightarrow> LogField_Json d | Some e \<Rightarrow> LogField_Error (view_error err)))"
  unfolding tp_logField_value_def using assms
  by (simp, intro parses_bind [OF parses_ByteString] parses_bind_end [OF parses_error] parses_return)
    (auto simp: view_error_def split: option.split)

lemma parses_field_value:
  assumes "field_ok js f"
  shows "\<exists>t bs. enc_field js f = [t] @ enc_string (field_Key f) @ bs
      \<and> parses (tp_logField_value t) bs (Some (view_value js (field_Value f)))"
proof (cases "\<exists>v. field_Value f = LV_Other v")
  case True
  then obtain v where v: "field_Value f = LV_Other v" by blast
  show ?thesis
    using assms v parses_json_field [of "Some e" "[]" for e] parses_json_field [of None]
    by (cases "js v")
      (auto simp: enc_field_def field_ok_def tb_append Let_def intro!: exI [of _ lft_JSONField])
next
  case False
  with assms show ?thesis
    unfolding tp_logField_value_def enc_field_def field_ok_def
    by (cases "field_Value f")
      (auto simp: tb_append Let_def word_of_sint_uint
        intro!: parses_map [OF parses_error] parses_map [OF parses_Time] parses_map [OF parses_Bytes]
          parses_map [OF parses_String] parses_map [OF parses_Bool] parses_map [OF parses_UVarint]
          parses_ints [THEN parses_map])
qed

lemma parses_field:
  assumes "field_ok js f"
  shows "parses tp_logField (enc_field js f) (view_field js f)"
proof -
  obtain t bs where "enc_field js f = [t] @ enc_string (field_Key f) @ bs"
    and "parses (tp_logField_value t) bs (Some (view_value js (field_Value f)))"
    using parses_field_value [OF assms] by blast
  then show ?thesis
    unfolding tp_logField_def view_field_def
    by (simp only:) (rule parses_bind [OF parses_Byte] parses_bind [OF parses_String] parses_map | simp)+
qed

interpretation field: codec "enc_field js" tp_logField "view_field js" "field_ok js" for js
proof (unfold_locales, erule parses_field)
  fix f show "enc_field js f \<noteq> []"
    by (cases "field_Value f") (simp_all add: enc_field_def tb_append Let_def split: sum.split)
qed

lemma zigzag64_inverse: "signedToUnsigned (unsignedToSigned u) = u"
proof (rule bit_word_eqI)
  fix n assume n: "n < LENGTH(64)"
  show "bit (signedToUnsigned (unsignedToSigned u)) n \<longleftrightarrow> bit u n"
    using n by (cases "bit u 0"; cases n)
      (auto simp: unsignedToSigned_def signedToUnsigned_def sless_0_iff_bit
      and_1_eq_0_iff_bit bit_simps  simp del: push_bit_Suc drop_bit_Suc dest: bit_imp_le_length)
qed


section \<open>Values\<close>

text \<open>A variable-length integer is read back as it was written, whatever follows it in the stream and
  whatever the state of the reader.\<close>

theorem uvarint_roundtrip:
  "tr_UVarint (r\<lparr>tr_buf := uvarint_bytes u @ rest\<rparr>)
     = Ret u (r\<lparr>tr_buf := rest, tr_bytesRead := tr_bytesRead r + length (uvarint_bytes u)\<rparr>)"
  by (simp add: tr_UVarint_def tr_UVarint_loop_bytes [where rest = rest])

text \<open>The mapping of signed to unsigned integers and its inverse are bijections, the smallest integer
  included.\<close>

theorem zigzag_bijection:
  "unsignedToSigned (signedToUnsigned i) = i \<and> signedToUnsigned (unsignedToSigned u) = u"
  by (simp add: zigzag64 zigzag64_inverse)

text \<open>Every string the reader delivers is valid UTF-8, whatever bytes the stream holds.\<close>

theorem strings_are_valid: "case tr_String r of Ret s r' \<Rightarrow> valid_utf8 s | Panic _ _ \<Rightarrow> True"
  by (auto simp: tr_String_def rd_map_def rd_bind_def rd_return_def valid_utf8_to_valid split: outcome.splits)

end
