(* ===== verification/Trace_Logger.thy ===== *)
theory Trace_Logger
  imports Trace_Codec
begin

text \<open>
  The interface \<open>trace2.Logger\<close> (logger.go) as one type of calls: every method that writes an
  event is a constructor, \<open>Logger_run\<close> carries a call out and \<open>Logger_spec\<close> says which event
  the parser is to read back from it. The lemmas go through the methods one by one.
\<close>


section \<open>Calls and what they mean\<close>

text \<open>
  \<open>HTTPBeginRoundTrip\<close> stands for the part of the method after a span ID has been generated, and
  \<open>HTTPCompleteRoundTrip\<close> for a request in whose context a round trip was found; otherwise the
  two write nothing. Stacks that a method builds itself are arguments of its constructor.
\<close>

datatype (plugins only: size code) 'v Logger_call =
    RequestSpanStart Request uint32
  | RequestSpanEnd RequestSpanEndParams
  | AuthSpanStart Request uint32
  | AuthSpanEnd AuthSpanEndParams
  | PubsubMessageSpanStart Request uint32
  | PubsubMessageSpanEnd PubsubMessageSpanEndParams
  | TestSpanStart Request uint32
  | TestSpanEnd int64 TestSpanEndParams
  | RPCCallStart Stack APICall uint32
  | RPCCallEnd APICall uint32 "go_error option"
  | DBQueryStart DBQueryStartParams
  | DBQueryEnd EventParams uint64 "go_error option"
  | DBTransactionStart EventParams Stack
  | DBTransactionEnd DBTransactionEndParams
  | PubsubPublishStart PubsubPublishStartParams
  | PubsubPublishEnd PubsubPublishEndParams
  | ServiceInitStart ServiceInitStartParams
  | ServiceInitEnd EventParams uint64 "go_error option"
  | CacheCallStart CacheCallStartParams
  | CacheCallEnd CacheCallEndParams
  | BodyStream BodyStreamParams
  | LogMessage "'v LogMessageParams"
  | HTTPBeginRoundTrip bytes Stack int64 http_Request Request uint32
  | HTTPCompleteRoundTrip httpRoundTrip "int64 option" uint32 "go_error option"
  | BucketObjectUploadStart BucketObjectUploadStartParams
  | BucketObjectUploadEnd BucketObjectUploadEndParams
  | BucketObjectDownloadStart BucketObjectDownloadStartParams
  | BucketObjectDownloadEnd BucketObjectDownloadEndParams
  | BucketObjectGetAttrsStart BucketObjectGetAttrsStartParams
  | BucketObjectGetAttrsEnd BucketObjectGetAttrsEndParams
  | BucketListObjectsStart BucketListObjectsStartParams
  | BucketListObjectsEnd BucketListObjectsEndParams
  | BucketDeleteObjectsStart BucketDeleteObjectsStartParams
  | BucketDeleteObjectsEnd BucketDeleteObjectsEndParams

fun Logger_run ::
    "(uint64 list \<Rightarrow> FormattedFrame list) \<Rightarrow> ('v \<Rightarrow> go_error + bytes) \<Rightarrow> 'v Logger_call \<Rightarrow> log_call" where
  "Logger_run fr js (RequestSpanStart req goid) = Log_RequestSpanStart req goid"
| "Logger_run fr js (RequestSpanEnd p) = Log_RequestSpanEnd fr p"
| "Logger_run fr js (AuthSpanStart req goid) = Log_AuthSpanStart req goid"
| "Logger_run fr js (AuthSpanEnd p) = Log_AuthSpanEnd fr p"
| "Logger_run fr js (PubsubMessageSpanStart req goid) = Log_PubsubMessageSpanStart req goid"
| "Logger_run fr js (PubsubMessageSpanEnd p) = Log_PubsubMessageSpanEnd fr p"
| "Logger_run fr js (TestSpanStart req goid) = Log_TestSpanStart req goid"
| "Logger_run fr js (TestSpanEnd elapsed p) = Log_TestSpanEnd fr elapsed p"
| "Logger_run fr js (RPCCallStart stk call goid) = Log_RPCCallStart stk call goid"
| "Logger_run fr js (RPCCallEnd call goid err) = Log_RPCCallEnd call goid err"
| "Logger_run fr js (DBQueryStart p) = Log_DBQueryStart p"
| "Logger_run fr js (DBQueryEnd p start err) = Log_DBQueryEnd p start err"
| "Logger_run fr js (DBTransactionStart p stk) = Log_DBTransactionStart p stk"
| "Logger_run fr js (DBTransactionEnd p) = Log_DBTransactionEnd p"
| "Logger_run fr js (PubsubPublishStart p) = Log_PubsubPublishStart p"
| "Logger_run fr js (PubsubPublishEnd p) = Log_PubsubPublishEnd p"
| "Logger_run fr js (ServiceInitStart p) = Log_ServiceInitStart p"
| "Logger_run fr js (ServiceInitEnd p start err) = Log_ServiceInitEnd p start err"
| "Logger_run fr js (CacheCallStart p) = Log_CacheCallStart p"
| "Logger_run fr js (CacheCallEnd p) = Log_CacheCallEnd p"
| "Logger_run fr js (BodyStream p) = Log_BodyStream p"
| "Logger_run fr js (LogMessage p) = Log_LogMessage js p"
| "Logger_run fr js (HTTPBeginRoundTrip sid stk nano hr req goid) = Log_HTTPCallStart stk nano sid hr req goid"
| "Logger_run fr js (HTTPCompleteRoundTrip rt resp goid err) = Log_HTTPCompleteRoundTrip (Some rt) resp goid err"
| "Logger_run fr js (BucketObjectUploadStart p) = Log_BucketObjectUploadStart p"
| "Logger_run fr js (BucketObjectUploadEnd p) = Log_BucketObjectUploadEnd p"
| "Logger_run fr js (BucketObjectDownloadStart p) = Log_BucketObjectDownloadStart p"
| "Logger_run fr js (BucketObjectDownloadEnd p) = Log_BucketObjectDownloadEnd p"
| "Logger_run fr js (BucketObjectGetAttrsStart p) = Log_BucketObjectGetAttrsStart p"
| "Logger_run fr js (BucketObjectGetAttrsEnd p) = Log_BucketObjectGetAttrsEnd p"
| "Logger_run fr js (BucketListObjectsStart p) = Log_BucketListObjectsStart p"
| "Logger_run fr js (BucketListObjectsEnd p) = Log_BucketListObjectsEnd p"
| "Logger_run fr js (BucketDeleteObjectsStart p) = Log_BucketDeleteObjectsStart p"
| "Logger_run fr js (BucketDeleteObjectsEnd p) = Log_BucketDeleteObjectsEnd p"

text \<open>
  The event a call stands for: its type, trace ID and span ID, and the body in the message the
  parser delivers. Strings are made valid UTF-8, raw payloads are taken over byte by byte,
  zero numbers and empty strings of optional fields are absent.
\<close>

type_synonym event_spec = "byte \<times> bytes \<times> bytes \<times> TraceEvent_Event"

definition spec_start :: "byte \<Rightarrow> Request \<Rightarrow> uint32 \<Rightarrow> SpanStart_Data \<Rightarrow> event_spec" where
  "spec_start typ req goid d =
     (typ, req_TraceID req, req_SpanID req, TraceEvent_SpanStart (mk_SpanStart (view_span_start goid req) d))"

definition spec_end ::
    "byte \<Rightarrow> 'a EventParams_scheme \<Rightarrow> spanEndEvent \<Rightarrow> SpanEnd_Data \<Rightarrow> event_spec" where
  "spec_end typ p e d = (typ, ep_TraceID p, ep_SpanID p, TraceEvent_SpanEnd (mk_SpanEnd e d))"

definition spec_event :: "byte \<Rightarrow> 'a EventParams_scheme \<Rightarrow> uint64 \<Rightarrow> SpanEvent_Data \<Rightarrow> event_spec" where
  "spec_event typ p corr d =
     (typ, ep_TraceID p, ep_SpanID p, TraceEvent_SpanEvent (view_event (ep_DefLoc p) (ep_Goid p) corr d))"

text \<open>The parameters of an event of a request (of an outgoing call) that carries no \<open>EventParams\<close>.\<close>

definition params_of :: "bytes \<Rightarrow> bytes \<Rightarrow> uint32 \<Rightarrow> uint32 \<Rightarrow> EventParams" where
  "params_of tid sid defLoc goid = \<lparr>ep_TraceID = tid, ep_SpanID = sid, ep_Goid = goid, ep_DefLoc = defLoc\<rparr>"

fun Logger_spec ::
    "(uint64 list \<Rightarrow> FormattedFrame list) \<Rightarrow> ('v \<Rightarrow> go_error + bytes) \<Rightarrow> 'v Logger_call \<Rightarrow> event_spec" where
  "Logger_spec fr js (RequestSpanStart req goid) =
     (let d = req_RPCData req in
      spec_start et_RequestSpanStart req goid
        (SpanStart_Request (ToValidUTF8 (desc_Service (rpc_Desc d))) (ToValidUTF8 (desc_Endpoint (rpc_Desc d)))
           (ToValidUTF8 (rpc_HTTPMethod d)) (ToValidUTF8 (rpc_Path d))
           (map (\<lambda>pp. ToValidUTF8 (pp_Value pp)) (rpc_PathParams d)) (view_headers (rpc_RequestHeaders d))
           (rpc_NonRawPayload d) (view_nonempty (req_ExtCorrelationID req)) (view_nonempty (rpc_UserID d))
           (rpc_Mocked d)))"
| "Logger_spec fr js (RequestSpanEnd p) =
     (let d = rpc_Desc (req_RPCData (rse_Req p)); r = rse_Resp p in
      spec_end et_RequestSpanEnd p (view_span_end fr (resp_Duration r) (resp_Err r) (rse_Req p))
        (SpanEnd_Request (ToValidUTF8 (desc_Service d)) (ToValidUTF8 (desc_Endpoint d))
           (ucast (resp_HTTPStatus r)) (view_headers (resp_RawResponseHeaders r)) (resp_Payload r)))"
| "Logger_spec fr js (AuthSpanStart req goid) =
     (let d = req_RPCData req in
      spec_start et_AuthSpanStart req goid
        (SpanStart_Auth (ToValidUTF8 (desc_Service (rpc_Desc d))) (ToValidUTF8 (desc_Endpoint (rpc_Desc d)))
           (rpc_NonRawPayload d)))"
| "Logger_spec fr js (AuthSpanEnd p) =
     (let d = rpc_Desc (req_RPCData (ase_Req p)); r = ase_Resp p in
      spec_end et_AuthSpanEnd p (view_span_end fr (resp_Duration r) (resp_Err r) (ase_Req p))
        (SpanEnd_Auth (ToValidUTF8 (desc_Service d)) (ToValidUTF8 (desc_Endpoint d))
           (ToValidUTF8 (resp_AuthUID r)) (resp_Payload r)))"
| "Logger_spec fr js (PubsubMessageSpanStart req goid) =
     (let d = req_MsgData req in
      spec_start et_PubsubMessageSpanStart req goid
        (SpanStart_PubsubMessage (ToValidUTF8 (msg_Service d)) (ToValidUTF8 (msg_Topic d))
           (ToValidUTF8 (msg_Subscription d)) (ToValidUTF8 (msg_MessageID d)) (ucast (msg_Attempt d))
           (view_time (msg_Published d)) (msg_Payload d)))"
| "Logger_spec fr js (PubsubMessageSpanEnd p) =
     (let d = req_MsgData (pme_Req p); r = pme_Resp p in
      spec_end et_PubsubMessageSpanEnd p (view_span_end fr (resp_Duration r) (resp_Err r) (pme_Req p))
        (SpanEnd_PubsubMessage (ToValidUTF8 (msg_Service d)) (ToValidUTF8 (msg_Topic d))
           (ToValidUTF8 (msg_Subscription d))))"
| "Logger_spec fr js (TestSpanStart req goid) =
     (let d = req_Test req in
      spec_start et_TestStart req goid
        (SpanStart_Test (ToValidUTF8 (test_Service d)) (ToValidUTF8 (test_Name d)) (ToValidUTF8 (test_UserID d))
           (ToValidUTF8 (test_TestFile d)) (test_TestLine d)))"
| "Logger_spec fr js (TestSpanEnd elapsed p) =
     (let d = req_Test (tse_Req p) in
      spec_end et_TestEnd p
        (view_span_end fr elapsed (if test_Failed d then Some test_failed_error else None) (tse_Req p))
        (SpanEnd_Test (ToValidUTF8 (test_Service d)) (ToValidUTF8 (test_Name d)) (tse_Failed p) (tse_Skipped p)))"
| "Logger_spec fr js (RPCCallStart stk call goid) =
     spec_event et_RPCCallStart
       (params_of (req_TraceID (call_Source call)) (req_SpanID (call_Source call)) (call_DefLoc call) goid) 0
       (SpanEvent_RpcCallStart (ToValidUTF8 (call_TargetServiceName call))
          (ToValidUTF8 (call_TargetEndpointName call)) (view_stack stk))"
| "Logger_spec fr js (RPCCallEnd call goid err) =
     spec_event et_RPCCallEnd
       (params_of (req_TraceID (call_Source call)) (req_SpanID (call_Source call)) 0 goid)
       (call_StartEventID call) (SpanEvent_RpcCallEnd (view_error err))"
| "Logger_spec fr js (DBQueryStart p) =
     spec_event et_DBQueryStart p (dbq_TxStartID p)
       (SpanEvent_DbQueryStart (ToValidUTF8 (dbq_Query p)) (view_stack (dbq_Stack p)))"
| "Logger_spec fr js (DBQueryEnd p start err) =
     spec_event et_DBQueryEnd p start (SpanEvent_DbQueryEnd (view_error err))"
| "Logger_spec fr js (DBTransactionStart p stk) =
     spec_event et_DBTransactionStart p 0 (SpanEvent_DbTransactionStart (view_stack stk))"
| "Logger_spec fr js (DBTransactionEnd p) =
     spec_event et_DBTransactionEnd p (dbt_StartID p)
       (SpanEvent_DbTransactionEnd (if dbt_Commit p then COMMIT else ROLLBACK) (view_stack (dbt_Stack p))
          (view_error (dbt_Err p)))"
| "Logger_spec fr js (PubsubPublishStart p) =
     spec_event et_PubsubPublishStart p 0
       (SpanEvent_PubsubPublishStart (ToValidUTF8 (pps_Topic p)) (pps_Message p) (view_stack (pps_Stack p)))"
| "Logger_spec fr js (PubsubPublishEnd p) =
     spec_event et_PubsubPublishEnd p (ppe_StartID p)
       (SpanEvent_PubsubPublishEnd (view_nonempty (ppe_MessageID p)) (view_error (ppe_Err p)))"
| "Logger_spec fr js (ServiceInitStart p) =
     spec_event et_ServiceInitStart p 0 (SpanEvent_ServiceInitStart (ToValidUTF8 (sis_Service p)))"
| "Logger_spec fr js (ServiceInitEnd p start err) =
     spec_event et_ServiceInitEnd p start (SpanEvent_ServiceInitEnd (view_error err))"
| "Logger_spec fr js (CacheCallStart p) =
     spec_event et_CacheCallStart p 0
       (SpanEvent_CacheCallStart (ToValidUTF8 (ccs_Operation p)) (ccs_IsWrite p) (view_stack (ccs_Stack p))
          (map ToValidUTF8 (ccs_Keys p)))"
| "Logger_spec fr js (CacheCallEnd p) =
     spec_event et_CacheCallEnd p (cce_StartID p)
       (SpanEvent_CacheCallEnd (cacheCallResult (cce_Res p)) (view_error (cce_Err p)))"
| "Logger_spec fr js (BodyStream p) =
     spec_event et_BodyStream p 0 (SpanEvent_BodyStream (bs_IsResponse p) (bs_Overflowed p) (bs_Data p))"
| "Logger_spec fr js (LogMessage p) =
     spec_event et_LogMessage p 0
       (SpanEvent_LogMessage (logLevel (lm_Level p)) (ToValidUTF8 (lm_Msg p)) (map (view_field js) (lm_Fields p))
          (view_stack (lm_Stack p)))"
| "Logger_spec fr js (HTTPBeginRoundTrip sid stk nano hr req goid) =
     spec_event et_HTTPCallStart (params_of (req_TraceID req) (req_SpanID req) 0 goid) 0
       (SpanEvent_HttpCallStart (le_Uint64 sid) (ToValidUTF8 (hr_Method hr)) (ToValidUTF8 (hr_URL hr))
          (view_stack stk) nano)"
| "Logger_spec fr js (HTTPCompleteRoundTrip rt resp goid err) =
     spec_event et_HTTPCallEnd (params_of (rt_TraceID rt) (rt_SpanID rt) 0 goid) (rt_StartID rt)
       (SpanEvent_HttpCallEnd (view_nonzero (case resp of None \<Rightarrow> 0 | Some code \<Rightarrow> ucast code))
          (view_error err) (List.map_filter view_http_event (rt_events rt)))"
| "Logger_spec fr js (BucketObjectUploadStart p) =
     spec_event et_BucketObjectUploadStart p 0
       (SpanEvent_BucketObjectUploadStart (ToValidUTF8 (bus_Bucket p)) (ToValidUTF8 (bus_Object p))
          (view_attrs (bus_Attrs p)) (view_stack (bus_Stack p)))"
| "Logger_spec fr js (BucketObjectUploadEnd p) =
     spec_event et_BucketObjectUploadEnd p (bue_StartID p)
       (SpanEvent_BucketObjectUploadEnd (view_nonzero (bue_Size p)) (view_opt (bue_Version p))
          (view_error (bue_Err p)))"
| "Logger_spec fr js (BucketObjectDownloadStart p) =
     spec_event et_BucketObjectDownloadStart p 0
       (SpanEvent_BucketObjectDownloadStart (ToValidUTF8 (bds_Bucket p)) (ToValidUTF8 (bds_Object p))
          (view_opt (bds_Version p)) (view_stack (bds_Stack p)))"
| "Logger_spec fr js (BucketObjectDownloadEnd p) =
     spec_event et_BucketObjectDownloadEnd p (bde_StartID p)
       (SpanEvent_BucketObjectDownloadEnd (view_nonzero (bde_Size p)) (view_error (bde_Err p)))"
| "Logger_spec fr js (BucketObjectGetAttrsStart p) =
     spec_event et_BucketObjectGetAttrsStart p 0
       (SpanEvent_BucketObjectGetAttrsStart (ToValidUTF8 (bgs_Bucket p)) (ToValidUTF8 (bgs_Object p))
          (view_opt (bgs_Version p)) (view_stack (bgs_Stack p)))"
| "Logger_spec fr js (BucketObjectGetAttrsEnd p) =
     spec_event et_BucketObjectGetAttrsEnd p (bge_StartID p)
       (SpanEvent_BucketObjectGetAttrsEnd (view_error (bge_Err p))
          (if bge_Err p = None then Some (view_attrs (bge_Attrs p)) else None))"
| "Logger_spec fr js (BucketListObjectsStart p) =
     spec_event et_BucketListObjectsStart p 0
       (SpanEvent_BucketListObjectsStart (ToValidUTF8 (bls_Bucket p)) (view_opt (bls_Prefix p))
          (view_stack (bls_Stack p)))"
| "Logger_spec fr js (BucketListObjectsEnd p) =
     spec_event et_BucketListObjectsEnd p (ble_StartID p)
       (SpanEvent_BucketListObjectsEnd (view_error (ble_Err p)) (ble_Observed p) (ble_HasMore p))"
| "Logger_spec fr js (BucketDeleteObjectsStart p) =
     spec_event et_BucketDeleteObjectsStart p 0
       (SpanEvent_BucketDeleteObjectsStart (ToValidUTF8 (bdos_Bucket p)) (view_stack (bdos_Stack p))
          (map view_entry (bdos_Objects p)))"
| "Logger_spec fr js (BucketDeleteObjectsEnd p) =
     spec_event et_BucketDeleteObjectsEnd p (bdoe_StartID p) (SpanEvent_BucketDeleteObjectsEnd (view_error (bdoe_Err p)))"


text \<open>
  What a call needs for its event to be read back: IDs of the right length, stacks of at most 255
  frames, times that Go can represent. The first is a matter of types in Go (arrays), the second
  is not enforced by the code.
\<close>

definition ids_ok :: "bytes \<Rightarrow> bytes \<Rightarrow> bool" where
  "ids_ok tid sid \<longleftrightarrow> length tid = 16 \<and> length sid = 8"

fun call_ok :: "('v \<Rightarrow> go_error + bytes) \<Rightarrow> 'v Logger_call \<Rightarrow> bool" where
  "call_ok js (RequestSpanStart req goid) = parents_ok req"
| "call_ok js (RequestSpanEnd p) = (parents_ok (rse_Req p) \<and> error_ok (resp_Err (rse_Resp p)))"
| "call_ok js (AuthSpanStart req goid) = parents_ok req"
| "call_ok js (AuthSpanEnd p) = (parents_ok (ase_Req p) \<and> error_ok (resp_Err (ase_Resp p)))"
| "call_ok js (PubsubMessageSpanStart req goid) = (parents_ok req \<and> go_time_ok (msg_Published (req_MsgData req)))"
| "call_ok js (PubsubMessageSpanEnd p) = (parents_ok (pme_Req p) \<and> error_ok (resp_Err (pme_Resp p)))"
| "call_ok js (TestSpanStart req goid) = parents_ok req"
| "call_ok js (TestSpanEnd elapsed p) = parents_ok (tse_Req p)"
| "call_ok js (RPCCallStart stk call goid) = stack_ok stk"
| "call_ok js (RPCCallEnd call goid err) = error_ok err"
| "call_ok js (DBQueryStart p) = stack_ok (dbq_Stack p)"
| "call_ok js (DBQueryEnd p start err) = error_ok err"
| "call_ok js (DBTransactionStart p stk) = stack_ok stk"
| "call_ok js (DBTransactionEnd p) = (stack_ok (dbt_Stack p) \<and> error_ok (dbt_Err p))"
| "call_ok js (PubsubPublishStart p) = stack_ok (pps_Stack p)"
| "call_ok js (PubsubPublishEnd p) = error_ok (ppe_Err p)"
| "call_ok js (ServiceInitStart p) = True"
| "call_ok js (ServiceInitEnd p start err) = error_ok err"
| "call_ok js (CacheCallStart p) = stack_ok (ccs_Stack p)"
| "call_ok js (CacheCallEnd p) = error_ok (cce_Err p)"
| "call_ok js (BodyStream p) = True"
| "call_ok js (LogMessage p) = (list_all (field_ok js) (lm_Fields p) \<and> stack_ok (lm_Stack p))"
| "call_ok js (HTTPBeginRoundTrip sid stk nano hr req goid) = (length sid = 8 \<and> stack_ok stk)"
| "call_ok js (HTTPCompleteRoundTrip rt resp goid err) = (error_ok err \<and> list_all http_event_ok (rt_events rt))"
| "call_ok js (BucketObjectUploadStart p) = stack_ok (bus_Stack p)"
| "call_ok js (BucketObjectUploadEnd p) = error_ok (bue_Err p)"
| "call_ok js (BucketObjectDownloadStart p) = stack_ok (bds_Stack p)"
| "call_ok js (BucketObjectDownloadEnd p) = error_ok (bde_Err p)"
| "call_ok js (BucketObjectGetAttrsStart p) = stack_ok (bgs_Stack p)"
| "call_ok js (BucketObjectGetAttrsEnd p) = error_ok (bge_Err p)"
| "call_ok js (BucketListObjectsStart p) = stack_ok (bls_Stack p)"
| "call_ok js (BucketListObjectsEnd p) = error_ok (ble_Err p)"
| "call_ok js (BucketDeleteObjectsStart p) = stack_ok (bdos_Stack p)"
| "call_ok js (BucketDeleteObjectsEnd p) = error_ok (bdoe_Err p)"


section \<open>Each method writes what it stands for\<close>

definition writes :: "log_call \<Rightarrow> event_spec \<Rightarrow> bool" where
  "writes call spec \<longleftrightarrow>
     (case spec of (typ, tid, sid, body) \<Rightarrow>
        \<exists>data. call = Log_Add \<lparr>ev_Type = typ, ev_TraceID = tid, ev_SpanID = sid, ev_Data = data\<rparr>
          \<and> parses (tp_event_body typ) data body)"

lemma writes_startI:
  assumes "call = Log_Add \<lparr>ev_Type = typ, ev_TraceID = req_TraceID req, ev_SpanID = req_SpanID req,
      ev_Data = enc_span_start goid req @ bs\<rparr>"
    and "tp_event_body typ = rd_map TraceEvent_SpanStart (rd_bind tp_spanStartEvent f)"
    and "parents_ok req"
    and "parses (f (view_span_start goid req)) bs (mk_SpanStart (view_span_start goid req) d)"
  shows "writes call (spec_start typ req goid d)"
proof -
  have "parses (tp_event_body typ) (enc_span_start goid req @ bs)
      (TraceEvent_SpanStart (mk_SpanStart (view_span_start goid req) d))"
    unfolding assms(2) by (rule parses_map parses_bind parses_span_start assms refl)+
  with assms(1) show ?thesis by (auto simp: writes_def spec_start_def)
qed

lemma writes_endI:
  assumes "call = Log_Add \<lparr>ev_Type = typ, ev_TraceID = ep_TraceID p, ev_SpanID = ep_SpanID p,
      ev_Data = enc_span_end fr dur err req @ bs\<rparr>"
    and "tp_event_body typ = rd_map TraceEvent_SpanEnd (rd_bind tp_spanEndEvent f)"
    and "parents_ok req" and "error_ok err"
    and "parses (f (view_span_end fr dur err req)) bs (mk_SpanEnd (view_span_end fr dur err req) d)"
  shows "writes call (spec_end typ p (view_span_end fr dur err req) d)"
proof -
  have "parses (tp_event_body typ) (enc_span_end fr dur err req @ bs)
      (TraceEvent_SpanEnd (mk_SpanEnd (view_span_end fr dur err req) d))"
    unfolding assms(2) by (rule parses_map parses_bind parses_span_end assms refl)+
  with assms(1) show ?thesis by (auto simp: writes_def spec_end_def)
qed

lemma writes_eventI:
  assumes "call = Log_Add \<lparr>ev_Type = typ, ev_TraceID = ep_TraceID p, ev_SpanID = ep_SpanID p,
      ev_Data = enc_event (ep_DefLoc p) (ep_Goid p) corr @ bs\<rparr>"
    and "tp_event_body typ = rd_map TraceEvent_SpanEvent (tp_spanEvent typ)"
    and "tp_spanEvent_data typ = q" and "parses q bs d"
  shows "writes call (spec_event typ p corr d)"
proof -
  have "parses (tp_event_body typ) (enc_event (ep_DefLoc p) (ep_Goid p) corr @ bs)
      (TraceEvent_SpanEvent (view_event (ep_DefLoc p) (ep_Goid p) corr d))"
    using parses_map [OF parses_event [of "typ" bs d], of TraceEvent_SpanEvent] assms(2,3,4) by simp
  with assms(1) show ?thesis by (auto simp: writes_def spec_event_def)
qed

lemma params_of_simps [simp]:
  "ep_TraceID (params_of tid sid defLoc goid) = tid" "ep_SpanID (params_of tid sid defLoc goid) = sid"
  "ep_DefLoc (params_of tid sid defLoc goid) = defLoc" "ep_Goid (params_of tid sid defLoc goid) = goid"
  by (simp_all add: params_of_def)

text \<open>The steps by which a reader goes through the bytes a method wrote. The rules for lists come
  first, since they take two encodings at once.\<close>

lemmas parses_lists =
  str.parses_sliced str.parses_sliced_end field.parses_sliced http.parses_sliced_end
  entry.parses_counted

lemma parses_headers_bind:
  "parses (f (view_headers hs)) cs y \<Longrightarrow>
   parses (rd_bind tp_headers f) (uvarint_bytes (of_nat (length hs)) @ concat (map enc_header hs) @ cs) y"
  using parses_bind [OF parses_headers [of hs], of f cs y] by simp

lemma parses_pathParams_bind:
  "parses (f (map (\<lambda>pp. ToValidUTF8 (pp_Value pp)) ps)) cs y \<Longrightarrow>
   parses (rd_bind tp_pathParams f)
     (uvarint_bytes (of_nat (length ps)) @ concat (map (\<lambda>x. enc_string (pp_Value x)) ps) @ cs) y"
  using parses_bind [OF parses_pathParams [of "map pp_Value ps"], of f cs y] by (simp add: comp_def)

lemma parses_Byte_bind: "parses (f b) bs y \<Longrightarrow> parses (rd_bind tr_Byte f) (b # bs) y"
  using parses_bind [OF parses_Byte, of f b bs y] by simp

lemma list_all_True: "list_all (\<lambda>_. True) xs"
  by (simp add: list_all_iff)

lemma error_ok_test [simp]: "error_ok (if b then Some test_failed_error else None)"
  by (simp add: test_failed_error_def stack_ok_def no_stack_def)

lemma map_filter_map_id: "List.map_filter (\<lambda>x. x) (map f xs) = List.map_filter f xs"
  by (simp add: List.map_filter_def filter_map comp_def)

lemmas view_simps = ptrOrNil_def view_nonempty_def view_nonzero_def map_filter_map_id list_all_True

lemmas parses_steps =
  parses_Byte_bind parses_headers_bind parses_pathParams_bind parses_lists
  parses_bind parses_map parses_String parses_ByteString parses_UVarint parses_Bool parses_Byte
  parses_ints parses_opt parses_OptString parses_UVarint_opt parses_stack parses_error parses_attrs parses_Time
  parses_id64 parses_FromVer parses_bind_end parses_return

definition call_writes ::
    "(uint64 list \<Rightarrow> FormattedFrame list) \<Rightarrow> ('v \<Rightarrow> go_error + bytes) \<Rightarrow> 'v Logger_call \<Rightarrow> bool" where
  "call_writes fr js c \<longleftrightarrow> (call_ok js c \<longrightarrow> writes (Logger_run fr js c) (Logger_spec fr js c))"

lemmas call_writes_unfold = call_writes_def Logger_run.simps Logger_spec.simps Let_def

lemmas Log_span_defs =
  Log_RequestSpanStart_def Log_AuthSpanStart_def Log_PubsubMessageSpanStart_def
  Log_TestSpanStart_def Log_RequestSpanEnd_def Log_AuthSpanEnd_def Log_PubsubMessageSpanEnd_def
  Log_TestSpanEnd_def

lemmas Log_event_defs =
  Log_RPCCallStart_def Log_RPCCallEnd_def Log_DBQueryStart_def Log_DBQueryEnd_def
  Log_DBTransactionStart_def Log_DBTransactionEnd_def Log_PubsubPublishStart_def
  Log_PubsubPublishEnd_def Log_ServiceInitStart_def Log_ServiceInitEnd_def Log_CacheCallStart_def
  Log_CacheCallEnd_def Log_BodyStream_def Log_LogMessage_def Log_HTTPCallStart_def
  Log_BucketObjectUploadStart_def Log_BucketObjectUploadEnd_def Log_BucketObjectDownloadStart_def
  Log_BucketObjectDownloadEnd_def Log_BucketObjectGetAttrsStart_def Log_BucketListObjectsStart_def
  Log_BucketListObjectsEnd_def Log_BucketDeleteObjectsStart_def Log_BucketDeleteObjectsEnd_def

lemma writes_starts:
  "call_writes fr js (RequestSpanStart req goid)"
  "call_writes fr js (AuthSpanStart req goid)"
  "call_writes fr js (PubsubMessageSpanStart req goid)"
  "call_writes fr js (TestSpanStart req goid)"
  by ((unfold call_writes_unfold, rule impI, rule writes_startI,
      simp add: Log_span_defs Let_def tb_append comp_def, simp add: tp_event_body_def tp_span_defs, simp,
      (rule parses_steps | simp add: view_simps)+)[1])+

lemma writes_ends:
  "call_writes fr js (RequestSpanEnd p5)"
  "call_writes fr js (AuthSpanEnd p6)"
  "call_writes fr js (PubsubMessageSpanEnd p7)"
  "call_writes fr js (TestSpanEnd elapsed p8)"
  by ((unfold call_writes_unfold, rule impI, rule writes_endI,
      simp add: Log_span_defs Let_def tb_append comp_def, simp add: tp_event_body_def tp_span_defs, simp, simp,
      (rule parses_steps | simp add: view_simps)+)[1])+

lemma writes_events:
  "call_writes fr js (RPCCallStart stk call goid)"
  "call_writes fr js (RPCCallEnd call goid err)"
  "call_writes fr js (DBQueryStart p11)"
  "call_writes fr js (DBQueryEnd p12 start err)"
  "call_writes fr js (DBTransactionStart p13 stk)"
  "call_writes fr js (DBTransactionEnd p14)"
  "call_writes fr js (PubsubPublishStart p15)"
  "call_writes fr js (PubsubPublishEnd p16)"
  "call_writes fr js (ServiceInitStart p17)"
  "call_writes fr js (ServiceInitEnd p18 start err)"
  "call_writes fr js (CacheCallStart p19)"
  "call_writes fr js (CacheCallEnd p20)"
  "call_writes fr js (BodyStream p21)"
  "call_writes fr js (LogMessage p22)"
  "call_writes fr js (HTTPBeginRoundTrip sid stk nano hr req goid)"
  "call_writes fr js (BucketObjectUploadStart p24)"
  "call_writes fr js (BucketObjectUploadEnd p25)"
  "call_writes fr js (BucketObjectDownloadStart p26)"
  "call_writes fr js (BucketObjectDownloadEnd p27)"
  "call_writes fr js (BucketObjectGetAttrsStart p28)"
  "call_writes fr js (BucketListObjectsStart p29)"
  "call_writes fr js (BucketListObjectsEnd p30)"
  "call_writes fr js (BucketDeleteObjectsStart p31)"
  "call_writes fr js (BucketDeleteObjectsEnd p32)"
  by ((unfold call_writes_unfold, rule impI, rule writes_eventI,
      simp add: Log_event_defs Let_def tb_append, simp add: tp_event_body_def, simp add: tp_spanEvent_data_def,
      unfold tp_event_defs, (rule parses_steps | simp add: view_simps)+)[1])+

lemma writes_HTTPCompleteRoundTrip: "call_writes fr js (HTTPCompleteRoundTrip rt resp goid err)"
proof (cases resp)
  case None
  show ?thesis
    unfolding call_writes_unfold None option.case
    by (intro impI writes_eventI ext, simp add: Log_HTTPCompleteRoundTrip_def Let_def tb_append,
        simp add: tp_event_body_def, simp add: tp_spanEvent_data_def, unfold tp_httpCallEnd_def,
        (rule parses_steps | simp add: view_simps)+)
next
  case (Some code)
  show ?thesis
    unfolding call_writes_unfold Some option.case
    by (intro impI writes_eventI ext, simp add: Log_HTTPCompleteRoundTrip_def Let_def tb_append,
        simp add: tp_event_body_def, simp add: tp_spanEvent_data_def, unfold tp_httpCallEnd_def,
        (rule parses_steps | simp add: view_simps)+)
qed

lemma writes_BucketObjectGetAttrsEnd: "call_writes fr js (BucketObjectGetAttrsEnd p)"
proof (cases "bge_Err p")
  case None
  show ?thesis
    unfolding call_writes_unfold
    by (intro impI writes_eventI, simp add: None Log_BucketObjectGetAttrsEnd_def Let_def tb_append,
        simp add: tp_event_body_def, simp add: tp_spanEvent_data_def, unfold tp_bucketObjectGetAttrsEnd_def,
        (rule parses_steps | simp add: None view_error_def)+)
next
  case (Some e)
  show ?thesis
    unfolding call_writes_unfold
    by (intro impI writes_eventI, simp add: Some Log_BucketObjectGetAttrsEnd_def Let_def tb_append,
        simp add: tp_event_body_def, simp add: tp_spanEvent_data_def, unfold tp_bucketObjectGetAttrsEnd_def,
        (rule parses_steps | simp add: Some view_error_def)+)
qed

theorem Logger_writes:
  "call_ok js c \<Longrightarrow> writes (Logger_run fr js c) (Logger_spec fr js c)"
proof -
  have "call_writes fr js c"
    by (cases c) (simp_all only: writes_starts writes_ends writes_events writes_HTTPCompleteRoundTrip
        writes_BucketObjectGetAttrsEnd)
  then show "call_ok js c \<Longrightarrow> writes (Logger_run fr js c) (Logger_spec fr js c)"
    by (simp add: call_writes_def)
qed

end
