(* ===== verification/Trace_Roundtrip.thy ===== *)
theory Trace_Roundtrip
  imports Trace_Logger
begin

text \<open>
  From a call on the log to the parsed event: the header that \<open>Log_Add\<close> writes, the event as
  \<open>ParseEvent\<close> reads it, and sequences of calls against the parser run in a loop.
\<close>


section \<open>One event\<close>

text \<open>The counter of event IDs; 0 is skipped when it wraps around.\<close>

definition next_id :: "uint64 \<Rightarrow> uint64" where
  "next_id n = (if n + 1 = 0 then 1 else n + 1)"

lemma next_id_neq_0 [simp]: "next_id n \<noteq> 0"
  by (simp add: next_id_def)

definition enc_full :: "byte \<Rightarrow> bytes \<Rightarrow> bytes \<Rightarrow> uint64 \<Rightarrow> int64 \<Rightarrow> bytes \<Rightarrow> bytes" where
  "enc_full ty tid sid eid nano data =
     [ty] @ le_bytes64 eid @ enc_int64 nano @ tid @ sid @ le_bytes32 (of_nat (length data)) @ data"

lemma map_nth_id: "length xs = n \<Longrightarrow> map ((!) xs) [0..<n] = xs"
  using map_nth [of xs] by simp

lemma of_nat_byte:
  assumes "n < 2 ^ 32"
  shows "of_nat (drop_bit k n) = (ucast (drop_bit k (of_nat n :: uint32)) :: byte)"
proof (rule bit_word_eqI)
  fix m assume "m < LENGTH(8)"
  have "bit n (k + m) \<Longrightarrow> k + m < 32"
    using assms bit_take_bit_iff [of 32 n "k + m"] by (simp add: take_bit_nat_eq_self)
  with \<open>m < LENGTH(8)\<close>
  show "bit (of_nat (drop_bit k n) :: byte) m \<longleftrightarrow> bit (ucast (drop_bit k (of_nat n :: uint32)) :: byte) m"
    by (auto simp: bit_simps)
qed

lemma event_header_eq:
  assumes "ids_ok tid sid" "length data < 2 ^ 32"
  shows "event_header \<lparr>ev_Type = ty, ev_TraceID = tid, ev_SpanID = sid, ev_Data = data\<rparr>
      eid (signedToUnsigned nano) (length data) @ data = enc_full ty tid sid eid nano data"
  using assms of_nat_byte [of "length data" 0] of_nat_byte [of "length data" 8]
    of_nat_byte [of "length data" 16] of_nat_byte [of "length data" 24]
  by (simp add: event_header_def enc_full_def ids_ok_def map_nth_id le_bytes64_def le_bytes32_def enc_int64_def
      del: upt_rec_numeral)

text \<open>What \<open>Log_Add\<close> does, by the three cases it distinguishes.\<close>

lemma Log_Add_nil: "the_log s = None \<Longrightarrow> Log_Add e nano s = (0, s)"
  by (simp add: Log_Add_def)

lemma Log_Add_too_large: "2 ^ 32 \<le> length (ev_Data e) \<Longrightarrow> Log_Add e nano s = (0, s)"
  by (simp add: Log_Add_def tb_Buf_def split: option.split)

lemma Log_Add_appends:
  assumes "the_log s = Some l" "length data < 2 ^ 32" "ids_ok tid sid"
  shows "Log_Add \<lparr>ev_Type = ty, ev_TraceID = tid, ev_SpanID = sid, ev_Data = data\<rparr> nano s =
    (next_id (nextEventID s),
     s\<lparr>nextEventID := next_id (nextEventID s),
       the_log := Some (l\<lparr>log_data := log_data l
         @ enc_full ty tid sid (next_id (nextEventID s)) nano data\<rparr>)\<rparr>)"
  using assms(1,2) event_header_eq [OF assms(3,2)]
  by (simp add: Log_Add_def tb_Buf_def next_id_def Let_def)

definition view_full :: "TimeAnchor \<Rightarrow> uint64 \<Rightarrow> int64 \<Rightarrow> event_spec \<Rightarrow> TraceEvent" where
  "view_full ta eid nano spec =
     (case spec of (ty, tid, sid, body) \<Rightarrow>
        \<lparr>te_TraceId = view_traceID tid, te_SpanId = le_Uint64 sid, te_EventId = eid,
         te_EventTime = timestamppb_New (ta_ToReal ta nano), te_Event = body\<rparr>)"

lemma parses_tp_header:
  assumes "ids_ok tid sid"
  shows "parses (tp_header ty) (le_bytes64 eid @ enc_int64 nano @ tid @ sid @ le_bytes32 ln)
    \<lparr>h_Type = ty, h_EventID = eid, h_Nanotime = nano, h_TraceID = view_traceID tid,
     h_SpanID = le_Uint64 sid, h_Len = ln\<rparr>"
  unfolding tp_header_def
  by (insert assms) (rule parses_bind parses_ints parses_traceID parses_id64 parses_bind_end parses_return
    | simp add: ids_ok_def)+

text \<open>Where \<open>ParseEvent\<close> stands after the header of a written event.\<close>

definition header_of :: "byte \<Rightarrow> bytes \<Rightarrow> bytes \<Rightarrow> uint64 \<Rightarrow> int64 \<Rightarrow> bytes \<Rightarrow> header" where
  "header_of ty tid sid eid nano data =
     \<lparr>h_Type = ty, h_EventID = eid, h_Nanotime = nano, h_TraceID = view_traceID tid,
      h_SpanID = le_Uint64 sid, h_Len = of_nat (length data)\<rparr>"

definition body_reader :: "bytes \<Rightarrow> read_error \<Rightarrow> int \<Rightarrow> traceReader" where
  "body_reader buf src_err version =
     \<lparr>tr_buf = buf, tr_src_err = src_err, tr_version = version, tr_bytesRead = 45, tr_err = None\<rparr>"

lemma ParseEvent_header:
  assumes "ids_ok tid sid" "CurrentVersion \<le> version"
  shows "ParseEvent (enc_full ty tid sid eid nano data @ rest) src_err ta version =
    (case tp_parseEvent ta (header_of ty tid sid eid nano data) (body_reader (data @ rest) src_err version) of
       Panic x tp \<Rightarrow> Parsed None (Some (ErrParseEvent ty x)) (tr_buf tp)
     | Ret ev tp \<Rightarrow> Parsed (Some ev)
         (final_error (header_of ty tid sid eid nano data) (tr_bytesRead tp - 45) (tr_err tp)) (tr_buf tp))"
proof -
  let ?hd = "le_bytes64 eid @ enc_int64 nano @ tid @ sid @ le_bytes32 (of_nat (length data))"
  define r where "r = \<lparr>tr_buf = ?hd @ data @ rest, tr_src_err = src_err, tr_version = version,
    tr_bytesRead = Suc 0, tr_err = None\<rparr>"
  have len: "length ?hd = 44"
    using assms(1) by (simp add: ids_ok_def enc_int64_def)
  then have "tp_header ty r = Ret (header_of ty tid sid eid nano data)
      (r\<lparr>tr_buf := data @ rest, tr_bytesRead := tr_bytesRead r + length ?hd\<rparr>)"
    unfolding header_of_def using assms
    by (intro parsesD parses_tp_header) (simp_all add: r_def)
  moreover have "r\<lparr>tr_buf := data @ rest, tr_bytesRead := tr_bytesRead r + length ?hd\<rparr> = body_reader (data @ rest) src_err version"
    unfolding len by (simp add: r_def body_reader_def)
  ultimately have hd: "tp_header ty r = Ret (header_of ty tid sid eid nano data) (body_reader (data @ rest) src_err version)"
    by simp
  have "tr_err (body_reader (data @ rest) src_err version) = None"
    "tr_bytesRead (body_reader (data @ rest) src_err version) = 45"
    "h_Type (header_of ty tid sid eid nano data) = ty"
    by (simp_all add: body_reader_def header_of_def)
  with hd show ?thesis
    by (simp add: ParseEvent_def enc_full_def tr_Byte_def r_def [symmetric] Let_def)
      (simp add: r_def split: outcome.split)
qed

lemma ParseEvent_enc_full:
  assumes "ids_ok tid sid" "length data < 2 ^ 32" "parses (tp_event_body ty) data body" "CurrentVersion \<le> version"
  shows "ParseEvent (enc_full ty tid sid eid nano data @ rest) src_err ta version
    = Parsed (Some (view_full ta eid nano (ty, tid, sid, body))) None rest"
proof -
  let ?r = "body_reader (data @ rest) src_err version"
  have "tp_parseEvent ta (header_of ty tid sid eid nano data) ?r = Ret (view_full ta eid nano (ty, tid, sid, body))
      (?r\<lparr>tr_buf := rest, tr_bytesRead := tr_bytesRead ?r + length data\<rparr>)"
    using assms(2,3,4) unfolding tp_parseEvent_def
    by (intro parsesD [OF parses_map]) (auto simp: header_of_def body_reader_def view_full_def)
  then show ?thesis
    by (simp add: ParseEvent_header [OF assms(1,4)] body_reader_def final_error_def)
qed


section \<open>One call\<close>

definition spec_ids_ok :: "event_spec \<Rightarrow> bool" where
  "spec_ids_ok spec = (case spec of (ty, tid, sid, body) \<Rightarrow> ids_ok tid sid)"

text \<open>A call either leaves everything alone and returns 0, or it appends one event.\<close>

lemma Logger_run_cases:
  assumes "call_ok js c" "spec_ids_ok (Logger_spec fr js c)"
  obtains
    (dropped) "Logger_run fr js c nano s = (0, s)"
  | (added) l bs where "the_log s = Some l"
      "Logger_run fr js c nano s = (next_id (nextEventID s),
         s\<lparr>nextEventID := next_id (nextEventID s), the_log := Some (l\<lparr>log_data := log_data l @ bs\<rparr>)\<rparr>)"
      "\<And>rest src_err ta version. CurrentVersion \<le> version \<Longrightarrow>
         ParseEvent (bs @ rest) src_err ta version
           = Parsed (Some (view_full ta (next_id (nextEventID s)) nano (Logger_spec fr js c))) None rest"
proof -
  obtain ty tid sid body where spec: "Logger_spec fr js c = (ty, tid, sid, body)"
    by (cases "Logger_spec fr js c")
  then have ids: "ids_ok tid sid" using assms(2) by (simp add: spec_ids_ok_def)
  obtain data where data: "Logger_run fr js c =
      Log_Add \<lparr>ev_Type = ty, ev_TraceID = tid, ev_SpanID = sid, ev_Data = data\<rparr>"
      "parses (tp_event_body ty) data body"
    using Logger_writes [OF assms(1), of fr] by (auto simp: writes_def spec)
  show thesis
  proof (cases "the_log s")
    case None
    with data(1) show thesis by (intro dropped) (simp add: Log_Add_nil)
  next
    case (Some l)
    show thesis
    proof (cases "length data < 2 ^ 32")
      case True
      show thesis
        by (rule added [OF Some]) (unfold data(1) spec, rule Log_Add_appends [OF Some True ids],
            rule ParseEvent_enc_full [OF ids True data(2)])
    next
      case False
      with data(1) show thesis by (intro dropped) (simp add: Log_Add_too_large)
    qed
  qed
qed


section \<open>A sample event\<close>

definition sample_call :: "unit Logger_call" where
  "sample_call = DBTransactionEnd
     \<lparr>ep_TraceID = replicate 16 7, ep_SpanID = replicate 8 9, ep_Goid = 3, ep_DefLoc = 0,
      dbt_StartID = 300, dbt_Commit = True, dbt_Err = None, dbt_Stack = \<lparr>Frames = [4096, 5000], Off = 4000\<rparr>\<rparr>"

definition sample_state :: trace_state where
  "sample_state = \<lparr>nextEventID = 41, the_log = Some NewLog\<rparr>"

definition sample_anchor :: TimeAnchor where
  "sample_anchor = \<lparr>ta_nano = 0, ta_real = \<lparr>t_nsec = 0, t_ext = 0\<rparr>\<rparr>"

definition sample_event :: TraceEvent where
  "sample_event =
     \<lparr>te_TraceId = \<lparr>High = 0x0707070707070707, Low = 0x0707070707070707\<rparr>, te_SpanId = 0x0909090909090909,
      te_EventId = 42, te_EventTime = timestamppb_New \<lparr>t_nsec = 5, t_ext = 0\<rparr>,
      te_Event = TraceEvent_SpanEvent
        \<lparr>sv_Goid = 3, sv_DefLoc = None, sv_CorrelationEventId = Some 300,
         sv_Data = SpanEvent_DbTransactionEnd COMMIT (Some \<lparr>st_pcs = [96, 904], st_frames = []\<rparr>) None\<rparr>\<rparr>"

lemma sample_call_spec:
  "Logger_spec fr js sample_call =
     (et_DBTransactionEnd, replicate 16 7, replicate 8 9, te_Event sample_event)"
  by (simp add: sample_call_def sample_event_def spec_event_def view_event_def view_nonzero_def view_error_def
      view_stack_def)

lemma sample_view: "view_full sample_anchor 42 5 (Logger_spec fr js sample_call) = sample_event"
proof -
  have "ta_ToReal sample_anchor 5 = \<lparr>t_nsec = 5, t_ext = 0\<rparr>"
    by (simp add: sample_anchor_def ta_ToReal_def t_Add_def t_addSec_def Let_def)
  moreover have "view_traceID (replicate 16 7) = te_TraceId sample_event" "le_Uint64 (replicate 8 9) = te_SpanId sample_event"
    by (simp_all add: view_traceID_def le_Uint64_def sample_event_def)
  ultimately show ?thesis
    by (simp add: view_full_def sample_call_spec) (simp add: sample_event_def)
qed

lemma sample_call_ok: "call_ok js sample_call" "spec_ids_ok (Logger_spec fr js sample_call)"
  by (simp_all add: sample_call_spec spec_ids_ok_def ids_ok_def) (simp add: sample_call_def stack_ok_def)

lemma sample_run: "fst (Logger_run fr js sample_call 5 sample_state) = 42"
  by (simp add: sample_call_def sample_state_def Log_DBTransactionEnd_def Log_Add_def tb_append enc_event_def
      enc_stack_def enc_varint_def signedToUnsigned_def enc_bool_def enc_err_def enc_string_def
      uvarint_bytes.simps tb_Buf_def Let_def)


section \<open>Round trip, dropped events, unknown types\<close>

text \<open>C1. Every event a method of the log writes is read back by the parser as the message it
  stands for, with the event ID the method returned, its trace and span, and the time at which it was written;
  nothing else in the log changes and the rest of the stream is left alone.\<close>

theorem event_roundtrip:
  assumes "call_ok js c" "spec_ids_ok (Logger_spec fr js c)" "the_log s = Some l" "CurrentVersion \<le> version"
    and "Logger_run fr js c nano s = (eid, s')" "eid \<noteq> 0"
  shows "\<exists>bs. s' = s\<lparr>nextEventID := eid, the_log := Some (l\<lparr>log_data := log_data l @ bs\<rparr>)\<rparr>
    \<and> ParseEvent (bs @ rest) src_err ta version
        = Parsed (Some (view_full ta eid nano (Logger_spec fr js c))) None rest"
  using assms(3-6) by (cases rule: Logger_run_cases [OF assms(1,2), of nano s]) auto

theorem event_roundtrip_witness:
  "\<exists>bs. snd (Logger_run (\<lambda>_. []) (\<lambda>_. Inr []) sample_call 5 sample_state)
      = sample_state\<lparr>nextEventID := 42, the_log := Some (NewLog\<lparr>log_data := log_data NewLog @ bs\<rparr>)\<rparr>
    \<and> ParseEvent (bs @ [1, 2]) EOF sample_anchor 15 = Parsed (Some sample_event) None [1, 2]"
proof -
  let ?run = "Logger_run (\<lambda>_. []) (\<lambda>_. Inr []) sample_call 5 sample_state"
  have "?run = (42, snd ?run)" by (simp add: prod_eq_iff sample_run)
  from event_roundtrip [OF sample_call_ok _ _ this, of NewLog 15 "[1, 2]" EOF sample_anchor]
  show ?thesis by (simp add: sample_view) (simp add: sample_state_def)
qed

text \<open>\<open>Add\<close> returns 0 exactly when the log is nil or the event has 4 GiB or more, and exactly then
  it leaves the log and the counter of event IDs as they were.\<close>

theorem Add_drops_iff:
  "(fst (Log_Add e nano s) = 0 \<longleftrightarrow> the_log s = None \<or> 2 ^ 32 \<le> length (tb_Buf (ev_Data e)))
   \<and> (Log_Add e nano s = (0, s) \<longleftrightarrow> the_log s = None \<or> 2 ^ 32 \<le> length (tb_Buf (ev_Data e)))"
  by (auto simp: Log_Add_def Let_def split: option.splits)

lemma tp_spanEvent_panic:
  assumes "tp_spanEvent_data ty = rd_panic x" "tr_buf r = enc_event defLoc goid corr @ rest"
  shows "tp_spanEvent ty r =
    Panic x (r\<lparr>tr_buf := rest, tr_bytesRead := tr_bytesRead r + length (enc_event defLoc goid corr)\<rparr>)"
proof -
  have "tr_UVarint r = Ret u (r\<lparr>tr_buf := rest, tr_bytesRead := tr_bytesRead r + length (uvarint_bytes u)\<rparr>)"
    if "tr_buf r = uvarint_bytes u @ rest" for u r rest
    using that by (simp add: tr_UVarint_def tr_UVarint_loop_bytes)
  then show ?thesis
    using assms by (simp add: tp_spanEvent_def rd_bind_def rd_panic_def tr_EventID_def enc_event_def add.assoc)
qed

text \<open>An event of a type the parser does not know is reported as an error that names the type; the bytes
  behind the common fields are left in the stream.\<close>

theorem unknown_type_reported:
  assumes "ty = 0 \<or> 0x22 < ty" "ids_ok tid sid" "CurrentVersion \<le> version"
  shows "ParseEvent (enc_full ty tid sid eid nano (enc_event defLoc goid corr @ body) @ rest) src_err ta version
    = Parsed None (Some (ErrParseEvent ty (Bailout ty))) (body @ rest)"
proof -
  have "tp_event_body ty = rd_map TraceEvent_SpanEvent (tp_spanEvent ty)" "tp_spanEvent_data ty = rd_panic (Bailout ty)"
    using assms(1) by (auto simp: tp_event_body_def tp_spanEvent_data_def)
  then show ?thesis
    by (simp add: ParseEvent_header [OF assms(2,3)] tp_parseEvent_def header_of_def rd_map_def rd_bind_def)
      (simp add: tp_spanEvent_panic [where rest = "body @ rest"] body_reader_def)
qed

theorem unknown_type_reported_witness:
  "ParseEvent (enc_full 0x23 (replicate 16 0) (replicate 8 0) 1 0 (enc_event 0 0 0 @ [9]) @ []) EOF sample_anchor 15
    = Parsed None (Some (ErrParseEvent 0x23 (Bailout 0x23))) ([9] @ [])"
  by (rule unknown_type_reported) (simp_all add: ids_ok_def)

definition cut_stack :: "Stack \<Rightarrow> Stack" where
  "cut_stack s = s\<lparr>Frames := take 255 (Frames s)\<rparr>"

lemma take_stack_diffs: "take n (stack_diffs off prev pcs) = stack_diffs off prev (take n pcs)"
  by (induction pcs arbitrary: prev n) (auto simp: take_Cons split: nat.split)

lemma enc_stack_cut:
  assumes "255 < length (Frames s)"
  shows "enc_stack s = enc_stack (cut_stack s) @ concat (map enc_varint (drop 255 (stack_diffs (Off s) 0 (Frames s))))"
proof -
  let ?ds = "stack_diffs (Off s) 0 (Frames s)"
  have "map enc_varint ?ds = map enc_varint (take 255 ?ds) @ map enc_varint (drop 255 ?ds)"
    by (metis append_take_drop_id map_append)
  then show ?thesis
    using assms by (simp add: enc_stack_def cut_stack_def take_stack_diffs)
qed

lemma length_concat_le: "(\<And>x. length (f x) \<le> k) \<Longrightarrow> length (concat (map f xs)) \<le> k * length xs"
  by (induction xs) (auto intro: add_mono)



end
