(* ===== verification/Trace_Robust.thy ===== *)
theory Trace_Robust
  imports Trace_Roundtrip
begin

text \<open>
  \<open>ParseEvent\<close> on arbitrary input, not only on what the log wrote: it never crashes, it reads a
  prefix of the stream, a result without error does not depend on what follows, and each event
  takes up at least its type byte, so that reading events in a loop comes to an end.
\<close>


section \<open>A step-by-step view of ParseEvent\<close>

definition start_reader :: "bytes \<Rightarrow> read_error \<Rightarrow> int \<Rightarrow> traceReader" where
  "start_reader buf src_err version =
     \<lparr>tr_buf = buf, tr_src_err = src_err, tr_version = version, tr_bytesRead = 0, tr_err = None\<rparr>"

lemma more_input_start: "start_reader (buf @ ext) src_err version = more_input ext (start_reader buf src_err version)"
  by (simp add: start_reader_def more_input_def)

lemma more_input_simps [simp]:
  "tr_buf (more_input ext r) = tr_buf r @ ext" "tr_err (more_input ext r) = tr_err r"
  "tr_bytesRead (more_input ext r) = tr_bytesRead r"
  by (simp_all add: more_input_def)

lemma consumesE:
  assumes "consumes r r'"
  obtains c where "tr_buf r = c @ tr_buf r'"
  using assms by (auto simp: consumes_def)

text \<open>The runs of \<open>ParseEvent\<close>: it stops in the type byte, in the header, by a panic in the body,
  or at the end of the body.\<close>

lemma ParseEvent_cases:
  obtains
    (at_type) t r where "tr_Byte (start_reader buf se v) = Ret t r" "tr_err r \<noteq> None"
      "ParseEvent buf se ta v = Parsed None (map_option ErrRead (tr_err r)) (tr_buf r)"
  | (at_header) t r h r1 where "tr_Byte (start_reader buf se v) = Ret t r" "tr_err r = None"
      "tp_header t r = Ret h r1" "tr_err r1 \<noteq> None"
      "ParseEvent buf se ta v = Parsed None (map_option ErrRead (tr_err r1)) (tr_buf r1)"
  | (panicked) t r h r1 x r2 where "tr_Byte (start_reader buf se v) = Ret t r" "tr_err r = None"
      "tp_header t r = Ret h r1" "tr_err r1 = None" "tp_parseEvent ta h r1 = Panic x r2"
      "ParseEvent buf se ta v = Parsed None (Some (ErrParseEvent (h_Type h) x)) (tr_buf r2)"
  | (finished) t r h r1 ev r2 where "tr_Byte (start_reader buf se v) = Ret t r" "tr_err r = None"
      "tp_header t r = Ret h r1" "tr_err r1 = None" "tp_parseEvent ta h r1 = Ret ev r2"
      "ParseEvent buf se ta v =
         Parsed (Some ev) (final_error h (tr_bytesRead r2 - tr_bytesRead r1) (tr_err r2)) (tr_buf r2)"
proof -
  obtain t r where t: "tr_Byte (start_reader buf se v) = Ret t r" using tr_Byte_Ret by blast
  obtain h r1 where h: "tp_header t r = Ret h r1" using tp_header_Ret by blast
  note P = ParseEvent_def [folded start_reader_def]
  consider "tr_err r \<noteq> None" | "tr_err r = None" "tr_err r1 \<noteq> None" | "tr_err r = None" "tr_err r1 = None"
    by blast
  then show thesis
  proof cases
    case 1 then show thesis using t by (intro at_type) (simp_all add: P)
  next
    case 2 then show thesis using t h by (intro at_header) (simp_all add: P)
  next
    case 3
    show thesis
    proof (cases "tp_parseEvent ta h r1")
      case (Ret ev r2) with 3 t h show thesis by (intro finished) (simp_all add: P)
    next
      case (Panic x r2) with 3 t h show thesis by (intro panicked) (simp_all add: P)
    qed
  qed
qed

lemmas prefix_steps =
  reader_okD(1) [OF reader_ok_Byte] reader_okD(1) [OF reader_ok_header]
  reader_okD(1) [OF reader_ok_parseEvent] reader_ok_panicD [OF reader_ok_parseEvent]

lemma ParseEvent_Parsed: "\<exists>ev err rest. ParseEvent buf se ta v = Parsed ev err rest"
  by (cases rule: ParseEvent_cases [where buf = buf and se = se and v = v and ta = ta]) auto

lemma ParseEvent_prefix_lemma:
  assumes "ParseEvent buf se ta v = Parsed ev err rest"
  shows "\<exists>c. buf = c @ rest"
proof -
  have start: "tr_buf (start_reader buf se v) = buf" by (simp add: start_reader_def)
  show ?thesis
    using assms start
    by (cases rule: ParseEvent_cases [where buf = buf and se = se and v = v and ta = ta])
      (auto dest!: prefix_steps elim!: consumesE)
qed

lemma tr_Byte_consumes_one:
  "tr_Byte r = Ret t r' \<Longrightarrow> tr_err r' = None \<Longrightarrow> tr_buf r = t # tr_buf r'"
  by (auto simp: tr_Byte_def tr_setErr_def split: list.splits if_splits)

lemma ParseEvent_progress:
  assumes "ParseEvent buf se ta v = Parsed ev None rest"
  shows "length rest < length buf"
proof -
  have start: "tr_buf (start_reader buf se v) = buf" by (simp add: start_reader_def)
  show ?thesis
    using assms start
    by (cases rule: ParseEvent_cases [where buf = buf and se = se and v = v and ta = ta])
      (auto dest!: prefix_steps(2-) tr_Byte_consumes_one elim!: consumesE)
qed

lemma final_error_None: "final_error h n err = None \<longleftrightarrow> err = None" "None = final_error h n err \<longleftrightarrow> err = None"
  by (auto simp: final_error_def)

lemma ParseEvent_more_input:
  assumes "ParseEvent buf se ta v = Parsed ev None rest"
  shows "ParseEvent (buf @ ext) se ta v = Parsed ev None (rest @ ext)"
proof (cases rule: ParseEvent_cases [where buf = buf and se = se and v = v and ta = ta])
  case (finished t r h r1 ev' r2)
  then have r2: "tr_err r2 = None" and res: "ev = Some ev'" "rest = tr_buf r2"
    using assms by (auto simp: final_error_None)
  have "tr_Byte (start_reader (buf @ ext) se v) = Ret t (more_input ext r)"
    unfolding more_input_start by (rule reader_okD(3) [OF reader_ok_Byte finished(1,2)])
  moreover have "tp_header t (more_input ext r) = Ret h (more_input ext r1)"
    by (rule reader_okD(3) [OF reader_ok_header finished(3,4)])
  moreover have "tp_parseEvent ta h (more_input ext r1) = Ret ev' (more_input ext r2)"
    by (rule reader_okD(3) [OF reader_ok_parseEvent finished(5) r2])
  ultimately show ?thesis
    using finished(2,4) r2 res
    by (simp add: ParseEvent_def [folded start_reader_def] final_error_def)
qed (use assms in auto)


section \<open>Arbitrary input\<close>

text \<open>C34. \<open>ParseEvent\<close> never panics, whatever the stream holds.\<close>

theorem parse_never_crashes: "ParseEvent buf src_err ta version \<noteq> Crashed x"
  using ParseEvent_Parsed [of buf src_err ta version] by auto



lemma sample_parse:
  obtains bs where "bs \<noteq> []" "ParseEvent bs EOF sample_anchor 15 = Parsed (Some sample_event) None []"
    "snd (Logger_run (\<lambda>_. []) (\<lambda>_. Inr []) sample_call 5 sample_state)
      = sample_state\<lparr>nextEventID := 42, the_log := Some (NewLog\<lparr>log_data := bs\<rparr>)\<rparr>"
proof (cases rule: Logger_run_cases [OF sample_call_ok, where nano = 5 and s = sample_state and fr = "\<lambda>_. []" and js = "\<lambda>_. Inr []", case_names dropped added])
  case dropped
  then show ?thesis using sample_run [of "\<lambda>_. []" "\<lambda>_. Inr []"] by simp
next
  case (added l bs)
  have "next_id (nextEventID sample_state) = 42" "l = NewLog"
    using added(1) by (simp_all add: sample_state_def next_id_def)
  then show ?thesis
    using that [of bs] added(2) added(3) [of 15 "[]" EOF sample_anchor]
      ParseEvent_progress [of bs EOF sample_anchor 15 "Some sample_event" "[]"]
    by (cases bs) (simp_all add: sample_view NewLog_def)
qed

text \<open>C35. An event that is cut short is never taken for a complete one: the parser reports an error.\<close>

theorem truncation_reported:
  assumes "ParseEvent (bs @ ext) src_err ta version = Parsed ev None []" "ext \<noteq> []"
  shows "\<exists>ev' err rest. ParseEvent bs src_err ta version = Parsed ev' (Some err) rest"
proof -
  obtain ev' err rest where p: "ParseEvent bs src_err ta version = Parsed ev' err rest"
    using ParseEvent_Parsed by blast
  moreover have "err \<noteq> None"
    using p assms ParseEvent_more_input [of bs src_err ta version ev' rest ext] by auto
  ultimately show ?thesis by auto
qed

theorem truncation_reported_witness:
  "\<exists>bs ext ev' err rest. ext \<noteq> [] \<and> ParseEvent (bs @ ext) EOF sample_anchor 15 = Parsed (Some sample_event) None []
    \<and> ParseEvent bs EOF sample_anchor 15 = Parsed ev' (Some err) rest"
proof -
  obtain bs where bs: "bs \<noteq> []" "ParseEvent bs EOF sample_anchor 15 = Parsed (Some sample_event) None []"
    by (rule sample_parse)
  then have *: "ParseEvent (butlast bs @ [last bs]) EOF sample_anchor 15 = Parsed (Some sample_event) None []"
    by simp
  with truncation_reported [OF this] show ?thesis by blast
qed

end
