(* ===== verification/Trace_Recorder.thy ===== *)
theory Trace_Recorder
  imports Trace_Roundtrip Trace_Robust
begin

text \<open>
  The recorder of the daemon (cli/daemon/engine/trace2/recorder.go): one goroutine parses events
  from the stream and sends them over a channel, another collects them in batches and writes
  these to the store. The parsing loop is a function, the two goroutines are a step relation.
\<close>


section \<open>The parsing loop\<close>

text \<open>How the loop ends: with the error that stopped it, or by a panic.\<close>

datatype loop_end = StoppedBy parse_error | LoopPanicked panic_value

function parse_loop :: "read_error \<Rightarrow> TimeAnchor \<Rightarrow> int \<Rightarrow> bytes \<Rightarrow> TraceEvent list \<times> loop_end" where
  "parse_loop src_err ta version buf =
     (case ParseEvent buf src_err ta version of
        Crashed x \<Rightarrow> ([], LoopPanicked x)
      | Parsed ev err rest \<Rightarrow>
          (let sent = (case ev of None \<Rightarrow> [] | Some e \<Rightarrow> [e])
           in case err of
                Some e \<Rightarrow> (sent, StoppedBy e)
              | None \<Rightarrow> (case parse_loop src_err ta version rest of (evs, en) \<Rightarrow> (sent @ evs, en))))"
  by pat_completeness auto
termination
  by (relation "measure (\<lambda>(_, _, _, buf). length buf)") (auto dest: ParseEvent_progress)

declare parse_loop.simps [simp del]

lemma parse_loop_stops: "\<exists>evs e. parse_loop src_err ta version buf = (evs, StoppedBy e)"
proof (induction src_err ta version buf rule: parse_loop.induct)
  case (1 src_err ta version buf)
  obtain ev err rest where p: "ParseEvent buf src_err ta version = Parsed ev err rest"
    using ParseEvent_Parsed by blast
  show ?case
  proof (cases err)
    case None
    with 1 p show ?thesis by (fastforce simp: parse_loop.simps [of src_err ta version buf])
  next
    case (Some e)
    with p show ?thesis by (simp add: parse_loop.simps [of src_err ta version buf])
  qed
qed

lemma parse_loop_event:
  "ParseEvent buf src_err ta version = Parsed (Some ev) None rest \<Longrightarrow>
   parse_loop src_err ta version buf = (case parse_loop src_err ta version rest of (evs, en) \<Rightarrow> (ev # evs, en))"
  by (simp add: parse_loop.simps [of src_err ta version buf] split: prod.split)

lemma parse_loop_Nil: "parse_loop src_err ta version [] = ([], StoppedBy (ErrRead src_err))"
  by (simp add: parse_loop.simps ParseEvent_def tr_Byte_def tr_setErr_def)


section \<open>A sequence of calls\<close>

fun Logger_runs ::
    "(uint64 list \<Rightarrow> FormattedFrame list) \<Rightarrow> ('v \<Rightarrow> go_error + bytes) \<Rightarrow> ('v Logger_call \<times> int64) list
     \<Rightarrow> trace_state \<Rightarrow> uint64 list \<times> trace_state" where
  "Logger_runs fr js [] s = ([], s)"
| "Logger_runs fr js ((c, nano) # cs) s =
     (case Logger_run fr js c nano s of (eid, s1) \<Rightarrow>
      case Logger_runs fr js cs s1 of (eids, s2) \<Rightarrow> (eid # eids, s2))"

text \<open>The events the parser is to see: one for every call that was not dropped.\<close>

definition expected_events ::
    "(uint64 list \<Rightarrow> FormattedFrame list) \<Rightarrow> ('v \<Rightarrow> go_error + bytes) \<Rightarrow> TimeAnchor
     \<Rightarrow> (('v Logger_call \<times> int64) \<times> uint64) list \<Rightarrow> TraceEvent list" where
  "expected_events fr js ta cs =
     [view_full ta eid nano (Logger_spec fr js c). ((c, nano), eid) \<leftarrow> cs, eid \<noteq> 0]"

definition calls_ok ::
    "(uint64 list \<Rightarrow> FormattedFrame list) \<Rightarrow> ('v \<Rightarrow> go_error + bytes) \<Rightarrow> ('v Logger_call \<times> int64) list \<Rightarrow> bool" where
  "calls_ok fr js cs = list_all (\<lambda>(c, nano). call_ok js c \<and> spec_ids_ok (Logger_spec fr js c)) cs"

lemma Logger_runs_parse:
  assumes "calls_ok fr js cs" "the_log s = Some l" "Logger_runs fr js cs s = (eids, s')" "CurrentVersion \<le> version"
  shows "\<exists>bs. the_log s' = Some (l\<lparr>log_data := log_data l @ bs\<rparr>) \<and> length eids = length cs
    \<and> (\<forall>rest. parse_loop src_err ta version (bs @ rest) =
        (case parse_loop src_err ta version rest of (evs, en) \<Rightarrow>
           (expected_events fr js ta (zip cs eids) @ evs, en)))"
  using assms
proof (induction cs arbitrary: s l eids)
  case Nil
  then show ?case by (auto simp: expected_events_def intro!: exI [of _ "[]"])
next
  case (Cons p cs)
  obtain c nano where p: "p = (c, nano)" by (cases p)
  obtain eid s1 where r1: "Logger_run fr js c nano s = (eid, s1)" by fastforce
  obtain eids1 s2 where r2: "Logger_runs fr js cs s1 = (eids1, s2)" by fastforce
  from Cons.prems(3) r1 r2 p have eids: "eids = eid # eids1" "s' = s2" by auto
  from Cons.prems(1) p have ok: "call_ok js c" "spec_ids_ok (Logger_spec fr js c)" "calls_ok fr js cs"
    by (auto simp: calls_ok_def)
  show ?case
  proof (cases rule: Logger_run_cases [OF ok(1,2), of nano s, case_names dropped added])
    case dropped
    with r1 have "eid = 0" "s1 = s" by auto
    with Cons.IH [OF ok(3) Cons.prems(2) _ Cons.prems(4)] r2 eids p show ?thesis
      by (fastforce simp: expected_events_def)
  next
    case (added l0 bs0)
    from added(1,2) r1 Cons.prems(2) have s1: "eid = next_id (nextEventID s)"
      "the_log s1 = Some (l\<lparr>log_data := log_data l @ bs0\<rparr>)" by auto
    obtain bs1 where bs1: "the_log s' = Some (l\<lparr>log_data := log_data l @ bs0 @ bs1\<rparr>)" "length eids1 = length cs"
      "\<And>rest. parse_loop src_err ta version (bs1 @ rest) =
        (case parse_loop src_err ta version rest of (evs, en) \<Rightarrow> (expected_events fr js ta (zip cs eids1) @ evs, en))"
      using Cons.IH [OF ok(3) s1(2) r2 [folded eids(2)] Cons.prems(4)] by auto
    have "parse_loop src_err ta version ((bs0 @ bs1) @ rest) =
        (case parse_loop src_err ta version rest of (evs, en) \<Rightarrow>
          (expected_events fr js ta (zip (p # cs) eids) @ evs, en))" for rest
      using parse_loop_event [OF added(3) [OF Cons.prems(4)], of src_err ta "bs1 @ rest"] bs1(3) [of rest]
      by (simp add: expected_events_def eids p s1(1) split: prod.splits)
    with bs1(1,2) eids show ?thesis by auto
  qed
qed


section \<open>The two goroutines\<close>

text \<open>
  The state of one \<open>RecordTrace\<close>: what is left of the stream, whether the parsing goroutine has met
  an error (\<open>rc_stop\<close>) and has closed the channel, what is in the channel and in
  \<open>pendingWrites\<close>, the batches written to the store, and whether the method has returned.
\<close>

record recorder =
  rc_buf :: bytes
  rc_stop :: bool
  rc_closed :: bool
  rc_chan :: "TraceEvent list"
  rc_pending :: "TraceEvent list"
  rc_written :: "TraceEvent list list"
  rc_returned :: bool

definition rc_start :: "bytes \<Rightarrow> recorder" where
  "rc_start buf = \<lparr>rc_buf = buf, rc_stop = False, rc_closed = False, rc_chan = [], rc_pending = [],
     rc_written = [], rc_returned = False\<rparr>"

text \<open>\<open>flushWrites\<close>; \<open>ok\<close> says whether the store accepts the batch. A batch it does not accept
  stays pending.\<close>

definition flushWrites :: "bool \<Rightarrow> recorder \<Rightarrow> recorder" where
  "flushWrites ok r =
     (if rc_pending r = [] then r
      else if \<not> ok then r
      else r\<lparr>rc_written := rc_written r @ [rc_pending r], rc_pending := []\<rparr>)"

text \<open>
  The step relation, with the capacity of the channel; \<open>may_fail\<close> says whether the store may
  refuse a batch. Parsing an event and sending it is one step, taken when there is room.
\<close>

inductive recorder_step :: "bool \<Rightarrow> read_error \<Rightarrow> TimeAnchor \<Rightarrow> int \<Rightarrow> recorder \<Rightarrow> recorder \<Rightarrow> bool"
  for may_fail src_err ta version where
  rc_parse: "\<not> rc_stop r \<Longrightarrow> length (rc_chan r) < 100 \<Longrightarrow>
    ParseEvent (rc_buf r) src_err ta version = Parsed ev err rest \<Longrightarrow>
    recorder_step may_fail src_err ta version r
      (r\<lparr>rc_buf := rest, rc_stop := (err \<noteq> None),
         rc_chan := rc_chan r @ (case ev of None \<Rightarrow> [] | Some e \<Rightarrow> [e])\<rparr>)"
| rc_close: "rc_stop r \<Longrightarrow> \<not> rc_closed r \<Longrightarrow>
    recorder_step may_fail src_err ta version r (r\<lparr>rc_closed := True\<rparr>)"
| rc_receive: "\<not> rc_returned r \<Longrightarrow> rc_chan r = ev # q \<Longrightarrow> ok \<or> may_fail \<Longrightarrow>
    r1 = r\<lparr>rc_chan := q, rc_pending := rc_pending r @ [ev]\<rparr> \<Longrightarrow>
    recorder_step may_fail src_err ta version r
      (if 100 \<le> length (rc_pending r1) then flushWrites ok r1 else r1)"
| rc_tick: "\<not> rc_returned r \<Longrightarrow> ok \<or> may_fail \<Longrightarrow>
    recorder_step may_fail src_err ta version r (flushWrites ok r)"
| rc_finish: "\<not> rc_returned r \<Longrightarrow> rc_closed r \<Longrightarrow> rc_chan r = [] \<Longrightarrow> ok \<or> may_fail \<Longrightarrow>
    recorder_step may_fail src_err ta version r ((flushWrites ok r)\<lparr>rc_returned := True\<rparr>)"

text \<open>What the stream still has to give, and the invariant: nothing is lost, doubled or reordered.\<close>

definition rc_remaining :: "read_error \<Rightarrow> TimeAnchor \<Rightarrow> int \<Rightarrow> recorder \<Rightarrow> TraceEvent list" where
  "rc_remaining src_err ta version r =
     (if rc_stop r then [] else fst (parse_loop src_err ta version (rc_buf r)))"

definition rc_all :: "read_error \<Rightarrow> TimeAnchor \<Rightarrow> int \<Rightarrow> recorder \<Rightarrow> TraceEvent list" where
  "rc_all src_err ta version r =
     concat (rc_written r) @ rc_pending r @ rc_chan r @ rc_remaining src_err ta version r"

definition rc_inv :: "recorder \<Rightarrow> bool" where
  "rc_inv r \<longleftrightarrow> (rc_closed r \<longrightarrow> rc_stop r) \<and> (rc_returned r \<longrightarrow> rc_closed r \<and> rc_chan r = [])"

text \<open>With a store that accepts every batch, the batches are small and none is left at the end.\<close>

definition rc_batches :: "recorder \<Rightarrow> bool" where
  "rc_batches r \<longleftrightarrow> length (rc_pending r) < 100 \<and> (rc_returned r \<longrightarrow> rc_pending r = [])
     \<and> list_all (\<lambda>b. 1 \<le> length b \<and> length b \<le> 100) (rc_written r)"

lemma parse_loop_fst:
  assumes "ParseEvent buf src_err ta version = Parsed ev err rest"
  shows "fst (parse_loop src_err ta version buf) =
    (case ev of None \<Rightarrow> [] | Some e \<Rightarrow> [e]) @ (if err \<noteq> None then [] else fst (parse_loop src_err ta version rest))"
  using assms by (simp add: parse_loop.simps [of src_err ta version buf] Let_def split: option.split prod.split)

lemma flushWrites_simps [simp]:
  "rc_buf (flushWrites ok r) = rc_buf r" "rc_stop (flushWrites ok r) = rc_stop r"
  "rc_closed (flushWrites ok r) = rc_closed r" "rc_chan (flushWrites ok r) = rc_chan r"
  "rc_returned (flushWrites ok r) = rc_returned r"
  "concat (rc_written (flushWrites ok r)) @ rc_pending (flushWrites ok r) @ xs
    = concat (rc_written r) @ rc_pending r @ xs"
  by (simp_all add: flushWrites_def)

lemma recorder_step_inv:
  assumes "recorder_step may_fail src_err ta version r r'" "rc_inv r"
  shows "rc_all src_err ta version r' = rc_all src_err ta version r" and "rc_inv r'"
proof -
  show "rc_all src_err ta version r' = rc_all src_err ta version r"
    using assms
  proof cases
    case (rc_parse ev err rest)
    then show ?thesis by (simp add: rc_all_def rc_remaining_def parse_loop_fst)
  qed (simp_all add: rc_all_def rc_remaining_def)
  show "rc_inv r'"
    using assms by cases (auto simp: rc_inv_def)
qed

lemma recorder_step_batches:
  assumes "recorder_step False src_err ta version r r'" "rc_inv r" "rc_batches r"
  shows "rc_batches r'"
  using assms by cases (auto simp: rc_batches_def rc_inv_def flushWrites_def Suc_le_eq)

lemma recorder_steps_inv:
  assumes "(recorder_step may_fail src_err ta version)\<^sup>*\<^sup>* r r'" "rc_inv r"
  shows "rc_all src_err ta version r' = rc_all src_err ta version r \<and> rc_inv r'
    \<and> (\<not> may_fail \<longrightarrow> rc_batches r \<longrightarrow> rc_batches r')"
  using assms
proof (induction rule: rtranclp_induct)
  case (step y z)
  then show ?case
    using recorder_step_inv [OF step(2)] recorder_step_batches [of src_err ta version y z] by auto
qed simp

lemma rc_start_inv [simp]: "rc_inv (rc_start buf)" "rc_batches (rc_start buf)"
  "rc_all src_err ta version (rc_start buf) = fst (parse_loop src_err ta version buf)"
  by (simp_all add: rc_start_def rc_inv_def rc_batches_def rc_all_def rc_remaining_def)

lemma recorder_run:
  assumes "(recorder_step may_fail src_err ta version)\<^sup>*\<^sup>* (rc_start buf) r"
  shows "rc_all src_err ta version r = fst (parse_loop src_err ta version buf)" and "rc_inv r"
    and "\<not> may_fail \<Longrightarrow> rc_batches r"
  using recorder_steps_inv [OF assms rc_start_inv(1)] by auto

lemma recorder_run_returned:
  assumes "(recorder_step False src_err ta version)\<^sup>*\<^sup>* (rc_start buf) r" "rc_returned r"
  shows "concat (rc_written r) = fst (parse_loop src_err ta version buf)"
  using recorder_run [OF assms(1)] assms(2)
  by (auto simp: rc_all_def rc_inv_def rc_batches_def rc_remaining_def)

text \<open>From every state the recorder can run to its end.\<close>

definition rc_measure :: "recorder \<Rightarrow> nat" where
  "rc_measure r = (if rc_stop r then 0 else 2 * length (rc_buf r) + 3) + (if rc_closed r then 0 else 1)
     + length (rc_chan r) + (if rc_returned r then 0 else 1)"

lemma recorder_step_progress:
  assumes "rc_inv r" "\<not> rc_returned r"
  obtains r' where "recorder_step may_fail src_err ta version r r'" "rc_measure r' < rc_measure r"
proof (cases "rc_chan r")
  case (Cons ev q)
  let ?r1 = "r\<lparr>rc_chan := q, rc_pending := rc_pending r @ [ev]\<rparr>"
  have "recorder_step may_fail src_err ta version r (if 100 \<le> length (rc_pending ?r1) then flushWrites True ?r1 else ?r1)"
    using assms(2) Cons by (intro rc_receive) auto
  then show thesis by (rule that) (simp add: rc_measure_def Cons)
next
  case Nil
  obtain ev err rest where p: "ParseEvent (rc_buf r) src_err ta version = Parsed ev err rest"
    using ParseEvent_Parsed by blast
  consider "\<not> rc_stop r" | "rc_stop r" "\<not> rc_closed r" | "rc_closed r" by blast
  then show thesis
  proof cases
    case 1
    then have "recorder_step may_fail src_err ta version r (r\<lparr>rc_buf := rest, rc_stop := (err \<noteq> None),
         rc_chan := rc_chan r @ (case ev of None \<Rightarrow> [] | Some e \<Rightarrow> [e])\<rparr>)"
      using Nil p by (intro rc_parse) auto
    then show thesis
      using 1 Nil p ParseEvent_progress [of "rc_buf r" src_err ta version ev rest]
      by (intro that) (auto simp: rc_measure_def split: option.split)
  next
    case 2
    then show thesis by (intro that [OF rc_close]) (auto simp: rc_measure_def)
  next
    case 3
    then show thesis using assms(2) Nil
      by (intro that [OF rc_finish [where ok = True]]) (auto simp: rc_measure_def)
  qed
qed

lemma recorder_finishes:
  "rc_inv r \<Longrightarrow> \<exists>r'. (recorder_step may_fail src_err ta version)\<^sup>*\<^sup>* r r' \<and> rc_returned r'"
proof (induction r rule: measure_induct_rule [of rc_measure])
  case (less r)
  show ?case
  proof (cases "rc_returned r")
    case False
    then obtain r1 where r1: "recorder_step may_fail src_err ta version r r1" "rc_measure r1 < rc_measure r"
      using recorder_step_progress less.prems by blast
    with less.IH [OF r1(2) recorder_step_inv(2) [OF r1(1) less.prems]] show ?thesis
      by (meson converse_rtranclp_into_rtranclp)
  qed auto
qed

lemma sample_runs:
  "Logger_runs fr js [(sample_call, 5)] sample_state = ([42], snd (Logger_run fr js sample_call 5 sample_state))"
  by (simp add: split_beta sample_run)

lemma sample_expected: "expected_events fr js sample_anchor (zip [(sample_call, 5)] [42]) = [sample_event]"
  by (simp add: expected_events_def sample_view)

lemma sample_calls_ok: "calls_ok fr js [(sample_call, 5)]"
  by (simp add: calls_ok_def sample_call_ok)

lemma recorder_run_exists:
  obtains r where "(recorder_step may_fail src_err ta version)\<^sup>*\<^sup>* (rc_start buf) r" "rc_returned r"
  using recorder_finishes [OF rc_start_inv(1), of may_fail src_err ta version buf] by blast


section \<open>Nothing is lost\<close>

text \<open>C32. Parsing the log in a loop gives back every event that was not dropped, in the order of the calls, and
  ends with EOF.\<close>

theorem stream_roundtrip:
  assumes "calls_ok fr js cs" "the_log s = Some NewLog" "Logger_runs fr js cs s = (eids, s')" "CurrentVersion \<le> version"
  shows "\<exists>l. the_log s' = Some l \<and> length eids = length cs
    \<and> parse_loop EOF ta version (log_data l) = (expected_events fr js ta (zip cs eids), StoppedBy (ErrRead EOF))"
proof -
  obtain bs where bs: "the_log s' = Some (NewLog\<lparr>log_data := log_data NewLog @ bs\<rparr>)" "length eids = length cs"
    "\<And>rest. parse_loop EOF ta version (bs @ rest) = (case parse_loop EOF ta version rest of (evs, en) \<Rightarrow>
           (expected_events fr js ta (zip cs eids) @ evs, en))"
    using Logger_runs_parse [OF assms, of EOF ta] by auto
  from bs(3) [of "[]"] have "parse_loop EOF ta version bs = (expected_events fr js ta (zip cs eids), StoppedBy (ErrRead EOF))"
    by (simp add: parse_loop_Nil)
  with bs(1,2) show ?thesis by (simp add: NewLog_def)
qed

theorem stream_roundtrip_witness:
  "\<exists>l. the_log (snd (Logger_run (\<lambda>_. []) (\<lambda>_. Inr []) sample_call 5 sample_state)) = Some l
    \<and> parse_loop EOF sample_anchor 15 (log_data l) = ([sample_event], StoppedBy (ErrRead EOF))"
  using stream_roundtrip [OF sample_calls_ok _ sample_runs, where version = 15 and ta = sample_anchor]
  by (simp only: sample_expected) (simp add: sample_state_def)

text \<open>C4. At every moment of a run, what the store has, what is pending, what is in the channel and what is
  still to be parsed are together the events of the stream, in order: none is lost, doubled or moved.\<close>

theorem recorder_keeps_order:
  assumes "(recorder_step may_fail src_err ta version)\<^sup>*\<^sup>* (rc_start buf) r"
  shows "concat (rc_written r) @ rc_pending r @ rc_chan r @ rc_remaining src_err ta version r
      = fst (parse_loop src_err ta version buf)"
  using recorder_run(1) [OF assms] by (simp add: rc_all_def)

theorem recorder_keeps_order_witness:
  "\<exists>bs r. fst (parse_loop EOF sample_anchor 15 bs) = [sample_event]
    \<and> concat (rc_written r) @ rc_pending r @ rc_chan r @ rc_remaining EOF sample_anchor 15 r = [sample_event]"
proof -
  obtain bs where "ParseEvent bs EOF sample_anchor 15 = Parsed (Some sample_event) None []" by (rule sample_parse)
  then have bs: "fst (parse_loop EOF sample_anchor 15 bs) = [sample_event]"
    by (simp add: parse_loop_event parse_loop_Nil)
  obtain r where "(recorder_step True EOF sample_anchor 15)\<^sup>*\<^sup>* (rc_start bs) r" by (rule recorder_run_exists)
  from recorder_keeps_order [OF this, unfolded bs] bs show ?thesis by blast
qed

text \<open>With a store that accepts its writes, \<open>RecordTrace\<close> has stored every event of the stream when it
  returns, in order, in batches of 1 to 100 events.\<close>

theorem recorder_stores_all:
  assumes "(recorder_step False src_err ta version)\<^sup>*\<^sup>* (rc_start buf) r" "rc_returned r"
  shows "concat (rc_written r) = fst (parse_loop src_err ta version buf)
    \<and> list_all (\<lambda>b. 1 \<le> length b \<and> length b \<le> 100) (rc_written r)"
  using recorder_run_returned [OF assms] recorder_run(3) [OF assms(1)] by (simp add: rc_batches_def)

theorem recorder_stores_all_witness:
  "\<exists>bs (r :: recorder). fst (parse_loop EOF sample_anchor 15 bs) = [sample_event] \<and> rc_returned r
    \<and> concat (rc_written r) = [sample_event] \<and> list_all (\<lambda>b. 1 \<le> length b \<and> length b \<le> 100) (rc_written r)"
proof -
  obtain bs where "ParseEvent bs EOF sample_anchor 15 = Parsed (Some sample_event) None []" by (rule sample_parse)
  then have bs: "fst (parse_loop EOF sample_anchor 15 bs) = [sample_event]"
    by (simp add: parse_loop_event parse_loop_Nil)
  obtain r where r: "(recorder_step False EOF sample_anchor 15)\<^sup>*\<^sup>* (rc_start bs) r" "rc_returned r"
    by (rule recorder_run_exists)
  from recorder_stores_all [OF r, unfolded bs] bs r(2) show ?thesis by blast
qed

text \<open>C33. The recorder never gets stuck: from every state it can reach, it can go on until \<open>RecordTrace\<close> returns.\<close>

theorem recorder_can_finish:
  assumes "(recorder_step may_fail src_err ta version)\<^sup>*\<^sup>* (rc_start buf) r"
  shows "\<exists>r'. (recorder_step may_fail src_err ta version)\<^sup>*\<^sup>* r r' \<and> rc_returned r'"
  using recorder_run(2) [OF assms] by (rule recorder_finishes)

theorem recorder_can_finish_witness:
  "\<exists>r. (recorder_step True EOF sample_anchor 15)\<^sup>*\<^sup>* (rc_start [7]) r \<and> rc_returned r"
  by (rule recorder_can_finish [where buf = "[7]"]) simp

end
