(* ===== verification/Trace_Concurrent.thy ===== *)
theory Trace_Concurrent
  imports Trace_Recorder "HOL-Library.Multiset"
begin

text \<open>
  One log used by many goroutines (runtimes/go/appruntime/exported/trace2/log.go). \<open>Add\<close> takes its
  event ID from an atomic counter and only then waits for the mutex under which it appends the
  event, so another goroutine may append, or drain the log, in between. The steps are those two
  halves of \<open>Add\<close> and the operations that hold the mutex throughout.
\<close>

definition event_bytes :: "Event \<Rightarrow> uint64 \<Rightarrow> int64 \<Rightarrow> bytes" where
  "event_bytes e eid nano =
     event_header e eid (signedToUnsigned nano) (length (tb_Buf (ev_Data e))) @ tb_Buf (ev_Data e)"

text \<open>
  \<open>lr_flight\<close> are the events that have an ID and wait for the mutex. \<open>lr_drained\<close> are the results
  of the clearing operations. The last two components record the history: the events by chunk
  drained, and those in the buffer, each with its ID.
\<close>

record log_run =
  lr_next :: uint64
  lr_flight :: "(uint64 \<times> bytes) list"
  lr_log :: Log
  lr_drained :: "(bytes \<times> bool) list"
  lr_chunks :: "(uint64 \<times> bytes) list list"
  lr_current :: "(uint64 \<times> bytes) list"

definition lr_start :: log_run where
  "lr_start = \<lparr>lr_next = 0, lr_flight = [], lr_log = NewLog, lr_drained = [], lr_chunks = [], lr_current = []\<rparr>"

text \<open>Which events the program adds is the parameter \<open>adds\<close>.\<close>

inductive log_step :: "(Event \<Rightarrow> bool) \<Rightarrow> log_run \<Rightarrow> log_run \<Rightarrow> bool" for adds where
  lr_take_id: "adds e \<Longrightarrow> length (tb_Buf (ev_Data e)) \<le> 2 ^ 32 - 1 \<Longrightarrow> eid = next_id (lr_next r) \<Longrightarrow>
    log_step adds r (r\<lparr>lr_next := eid, lr_flight := lr_flight r @ [(eid, event_bytes e eid nano)]\<rparr>)"
| lr_append: "lr_flight r = xs @ (eid, bs) # ys \<Longrightarrow>
    log_step adds r (r\<lparr>lr_flight := xs @ ys,
      lr_log := (lr_log r)\<lparr>log_data := log_data (lr_log r) @ bs\<rparr>,
      lr_current := lr_current r @ [(eid, bs)]\<rparr>)"
| lr_mark_done: "log_step adds r (r\<lparr>lr_log := Log_MarkDone (lr_log r)\<rparr>)"
| lr_get_and_clear: "Log_GetAndClear cap (lr_log r) = (res, l) \<Longrightarrow>
    log_step adds r (r\<lparr>lr_log := l, lr_drained := lr_drained r @ [res],
      lr_chunks := lr_chunks r @ [lr_current r], lr_current := []\<rparr>)"
| lr_wait_and_clear: "Log_WaitAndClear cap (lr_log r) = Some (res, l) \<Longrightarrow>
    log_step adds r (r\<lparr>lr_log := l, lr_drained := lr_drained r @ [res],
      lr_chunks := lr_chunks r @ [lr_current r], lr_current := []\<rparr>)"

inductive_cases log_stepE: "log_step adds r r'"

definition lr_events :: "log_run \<Rightarrow> (uint64 \<times> bytes) list" where
  "lr_events r = concat (lr_chunks r) @ lr_current r @ lr_flight r"

definition whole_events :: "(uint64 \<times> bytes) list \<Rightarrow> bytes" where
  "whole_events es = concat (map snd es)"

text \<open>Every chunk drained, and the buffer, is a sequence of whole events.\<close>

definition lr_whole :: "log_run \<Rightarrow> bool" where
  "lr_whole r \<longleftrightarrow> map fst (lr_drained r) = map whole_events (lr_chunks r)
     \<and> log_data (lr_log r) = whole_events (lr_current r)"

lemma Log_clear_simps [simp]:
  "log_data (Log_clearDataBuf cap l) = []" "log_done (Log_clearDataBuf cap l) = log_done l"
  by (simp_all add: Log_clearDataBuf_def)

lemma log_step_whole: "log_step adds r r' \<Longrightarrow> lr_whole r \<Longrightarrow> lr_whole r'"
  by (erule log_stepE)
    (auto simp: lr_whole_def whole_events_def Log_MarkDone_def Log_GetAndClear_def Log_WaitAndClear_def
      split: if_splits)

text \<open>The IDs in use after \<open>n\<close> additions, before the counter wraps around.\<close>

definition lr_ids_ok :: "log_run \<Rightarrow> bool" where
  "lr_ids_ok r \<longleftrightarrow> unat (lr_next r) = length (lr_events r) \<and> distinct (map fst (lr_events r))
     \<and> (\<forall>eid \<in> fst ` set (lr_events r). 1 \<le> unat eid \<and> unat eid \<le> length (lr_events r))"

lemma next_id_Suc:
  assumes "Suc (unat n) < 2 ^ 64"
  shows "unat (next_id n) = Suc (unat n)"
proof -
  have "unat (n + 1) = Suc (unat n)"
    using assms by (simp add: unat_word_ariths)
  moreover from this have "n + 1 \<noteq> 0" by auto
  ultimately show ?thesis by (simp add: next_id_def)
qed

lemma log_step_ids:
  assumes "log_step adds r r'" "length (lr_events r') < 2 ^ 64" "lr_ids_ok r"
  shows "lr_ids_ok r'"
  using assms(1)
proof (cases rule: log_step.cases)
  case (lr_take_id e eid nano)
  then have "lr_events r' = lr_events r @ [(eid, event_bytes e eid nano)]"
    by (simp add: lr_events_def)
  moreover from this have "unat eid = Suc (length (lr_events r))"
    using assms(2,3) lr_take_id next_id_Suc [of "lr_next r"] by (simp add: lr_ids_ok_def)
  ultimately show ?thesis
    using assms(3) lr_take_id by (auto simp: lr_ids_ok_def)
next
  case (lr_append xs eid bs ys)
  then have "mset (lr_events r') = mset (lr_events r)"
    by (simp add: lr_events_def)
  then have ids: "mset (map fst (lr_events r')) = mset (map fst (lr_events r))"
    and len: "length (lr_events r') = length (lr_events r)"
    by (simp, rule mset_eq_length)
  show ?thesis
    using assms(3) lr_append len mset_eq_imp_distinct_iff [OF ids] mset_eq_setD [OF ids]
    by (simp add: lr_ids_ok_def)
qed (use assms(3) in \<open>auto simp: lr_ids_ok_def lr_events_def\<close>)

lemma log_step_grows: "log_step adds r r' \<Longrightarrow> length (lr_events r) \<le> length (lr_events r')"
  by (erule log_stepE) (auto simp: lr_events_def)

lemma log_steps_inv:
  assumes "(log_step adds)\<^sup>*\<^sup>* r r'" "lr_whole r" "lr_ids_ok r"
  shows "lr_whole r' \<and> length (lr_events r) \<le> length (lr_events r')
    \<and> (length (lr_events r') < 2 ^ 64 \<longrightarrow> lr_ids_ok r')"
  using assms
proof (induction rule: rtranclp_induct)
  case (step y z)
  then show ?case
    using log_step_whole [OF step(2)] log_step_grows [OF step(2)] log_step_ids [OF step(2)] by auto
qed simp

lemma lr_start_inv [simp]: "lr_whole lr_start" "lr_ids_ok lr_start"
  by (simp_all add: lr_start_def lr_whole_def lr_ids_ok_def lr_events_def whole_events_def NewLog_def)

text \<open>A log that is done stays done.\<close>

lemma log_steps_done:
  "(log_step adds)\<^sup>*\<^sup>* r r' \<Longrightarrow> log_done (lr_log r) \<Longrightarrow> log_done (lr_log r')"
proof (induction rule: rtranclp_induct)
  case (step y z)
  from step(2,3,4) show ?case
    by (auto elim!: log_stepE simp: Log_MarkDone_def Log_GetAndClear_def Log_WaitAndClear_def split: if_splits)
qed simp

text \<open>Without interference the two halves of \<open>Add\<close> are \<open>Log_Add\<close>.\<close>

lemma Log_Add_steps:
  assumes "length (tb_Buf (ev_Data e)) \<le> 2 ^ 32 - 1" "adds e"
    and "Log_Add e nano \<lparr>nextEventID = lr_next r, the_log = Some (lr_log r)\<rparr> = (eid, s')"
  shows "\<exists>r'. (log_step adds)\<^sup>*\<^sup>* r r' \<and> s' = \<lparr>nextEventID = lr_next r', the_log = Some (lr_log r')\<rparr>
    \<and> lr_current r' = lr_current r @ [(eid, event_bytes e eid nano)] \<and> lr_flight r' = lr_flight r"
proof -
  let ?bs = "event_bytes e eid nano"
  from assms(1,3) have eid: "eid = next_id (lr_next r)"
    and s': "s' = \<lparr>nextEventID = eid, the_log = Some ((lr_log r)\<lparr>log_data := log_data (lr_log r) @ ?bs\<rparr>)\<rparr>"
    by (auto simp: Log_Add_def next_id_def Let_def event_bytes_def)
  let ?r1 = "r\<lparr>lr_next := eid, lr_flight := lr_flight r @ [(eid, ?bs)]\<rparr>"
  let ?r2 = "?r1\<lparr>lr_flight := lr_flight r @ [],
      lr_log := (lr_log ?r1)\<lparr>log_data := log_data (lr_log ?r1) @ ?bs\<rparr>,
      lr_current := lr_current ?r1 @ [(eid, ?bs)]\<rparr>"
  have "log_step adds r ?r1" using assms(1,2) eid by (intro lr_take_id)
  moreover have "log_step adds ?r1 ?r2" by (rule lr_append) simp
  ultimately have "(log_step adds)\<^sup>*\<^sup>* r ?r2" by auto
  then show ?thesis using s' by (intro exI [of _ ?r2]) simp
qed


section \<open>What the drained chunks hold\<close>

text \<open>The events that calls on the log add, and what the parser makes of their bytes.\<close>

definition logger_adds ::
    "(uint64 list \<Rightarrow> FormattedFrame list) \<Rightarrow> ('v \<Rightarrow> go_error + bytes) \<Rightarrow> Event \<Rightarrow> bool" where
  "logger_adds fr js e \<longleftrightarrow>
     (\<exists>c. call_ok js c \<and> spec_ids_ok (Logger_spec fr js c) \<and> Logger_run fr js c = Log_Add e)"

definition event_of ::
    "(uint64 list \<Rightarrow> FormattedFrame list) \<Rightarrow> ('v \<Rightarrow> go_error + bytes) \<Rightarrow> TimeAnchor \<Rightarrow> int
     \<Rightarrow> uint64 \<times> bytes \<Rightarrow> TraceEvent \<Rightarrow> bool" where
  "event_of fr js ta version p ev \<longleftrightarrow>
     (\<exists>c nano. ev = view_full ta (fst p) nano (Logger_spec fr js c))
     \<and> (\<forall>rest. ParseEvent (snd p @ rest) EOF ta version = Parsed (Some ev) None rest)"

lemma logger_adds_parse:
  assumes "logger_adds fr js e" "length (tb_Buf (ev_Data e)) \<le> 2 ^ 32 - 1" "CurrentVersion \<le> version"
  shows "\<exists>ev. event_of fr js ta version (next_id n, event_bytes e (next_id n) nano) ev"
proof -
  let ?s = "\<lparr>nextEventID = n, the_log = Some NewLog\<rparr>"
  obtain c where c: "call_ok js c" "spec_ids_ok (Logger_spec fr js c)" "Logger_run fr js c = Log_Add e"
    using assms(1) by (auto simp: logger_adds_def)
  have run: "Logger_run fr js c nano ?s = (next_id n, \<lparr>nextEventID = next_id n,
      the_log = Some (NewLog\<lparr>log_data := event_bytes e (next_id n) nano\<rparr>)\<rparr>)"
    using assms(2) by (simp add: c(3) Log_Add_def Let_def next_id_def event_bytes_def NewLog_def)
  show ?thesis
  proof (cases rule: Logger_run_cases [OF c(1,2), of nano ?s, case_names dropped added])
    case dropped
    with run show ?thesis by simp
  next
    case (added l bs)
    with run have "bs = event_bytes e (next_id n) nano" by (auto simp: NewLog_def)
    with added(3) [OF assms(3), of _ EOF ta] show ?thesis by (auto simp: event_of_def)
  qed
qed

definition lr_parses ::
    "(uint64 list \<Rightarrow> FormattedFrame list) \<Rightarrow> ('v \<Rightarrow> go_error + bytes) \<Rightarrow> TimeAnchor \<Rightarrow> int \<Rightarrow> log_run \<Rightarrow> bool" where
  "lr_parses fr js ta version r \<longleftrightarrow> (\<forall>p \<in> set (lr_events r). \<exists>ev. event_of fr js ta version p ev)"

lemma log_step_parses:
  assumes "log_step (logger_adds fr js) r r'" "CurrentVersion \<le> version" "lr_parses fr js ta version r"
  shows "lr_parses fr js ta version r'"
  using assms(1)
proof (cases rule: log_step.cases)
  case (lr_take_id e eid nano)
  then show ?thesis
    using assms(3) logger_adds_parse [OF lr_take_id(2,3) assms(2)] by (auto simp: lr_parses_def lr_events_def)
qed (use assms(3) in \<open>auto simp: lr_parses_def lr_events_def\<close>)

lemma log_steps_parse:
  assumes "(log_step (logger_adds fr js))\<^sup>*\<^sup>* lr_start r" "CurrentVersion \<le> version"
  shows "lr_parses fr js ta version r"
  using assms(1)
proof (induction rule: rtranclp_induct)
  case base
  show ?case by (simp add: lr_parses_def lr_events_def lr_start_def)
next
  case (step y z)
  then show ?case using log_step_parses assms(2) by blast
qed

lemma parse_loop_whole:
  assumes "\<forall>p \<in> set es. \<exists>ev. event_of fr js ta version p ev"
  shows "\<exists>evs. list_all2 (event_of fr js ta version) es evs
    \<and> parse_loop EOF ta version (whole_events es) = (evs, StoppedBy (ErrRead EOF))"
  using assms
proof (induction es)
  case Nil
  show ?case by (simp add: whole_events_def parse_loop_Nil)
next
  case (Cons p es)
  then obtain ev evs where ev: "event_of fr js ta version p ev" "list_all2 (event_of fr js ta version) es evs"
    "parse_loop EOF ta version (whole_events es) = (evs, StoppedBy (ErrRead EOF))" by auto
  then have "parse_loop EOF ta version (snd p @ whole_events es) = (ev # evs, StoppedBy (ErrRead EOF))"
    using parse_loop_event [of "snd p @ whole_events es" EOF ta version ev "whole_events es"]
    by (simp add: event_of_def)
  with ev show ?case
    by (intro exI [of _ "ev # evs"]) (simp add: whole_events_def)
qed

lemma view_full_EventId [simp]: "te_EventId (view_full ta eid nano spec) = eid"
  by (simp add: view_full_def split: prod.split)

lemma event_of_ids: "list_all2 (event_of fr js ta version) es evs \<Longrightarrow> map te_EventId evs = map fst es"
  by (induction rule: list_all2_induct) (auto simp: event_of_def)

definition sample_add :: Event where
  "sample_add = \<lparr>ev_Type = et_ServiceInitStart, ev_TraceID = replicate 16 7, ev_SpanID = replicate 8 9, ev_Data = [0, 0, 0, 0]\<rparr>"

lemma sample_adds:
  obtains r where "(log_step ((=) sample_add))\<^sup>*\<^sup>* lr_start r"
    "lr_events r = [(1, event_bytes sample_add 1 5), (2, event_bytes sample_add 2 6)]"
proof -
  let ?r1 = "lr_start\<lparr>lr_next := 1, lr_flight := lr_flight lr_start @ [(1, event_bytes sample_add 1 5)]\<rparr>"
  let ?r2 = "?r1\<lparr>lr_next := 2, lr_flight := lr_flight ?r1 @ [(2, event_bytes sample_add 2 6)]\<rparr>"
  have "log_step ((=) sample_add) lr_start ?r1"
    by (intro lr_take_id) (simp_all add: sample_add_def tb_Buf_def lr_start_def next_id_def)
  moreover have "log_step ((=) sample_add) ?r1 ?r2"
    by (intro lr_take_id) (simp_all add: sample_add_def tb_Buf_def next_id_def)
  ultimately have "(log_step ((=) sample_add))\<^sup>*\<^sup>* lr_start ?r2" by (rule converse_rtranclp_into_rtranclp [OF _ r_into_rtranclp])
  then show thesis by (rule that) (simp add: lr_start_def lr_events_def)
qed

definition sample_service :: "unit Logger_call" where
  "sample_service = ServiceInitStart
     \<lparr>ep_TraceID = replicate 16 7, ep_SpanID = replicate 8 9, ep_Goid = 0, ep_DefLoc = 0, sis_Service = []\<rparr>"

definition sample_js :: "unit \<Rightarrow> go_error + bytes" where
  "sample_js u = Inr []"

lemma sample_adds_call: "logger_adds (\<lambda>_. []) sample_js sample_add"
proof -
  have "Logger_run (\<lambda>_. []) sample_js sample_service = Log_Add sample_add"
    by (simp add: Log_ServiceInitStart_def Let_def tb_append enc_event_def enc_string_def uvarint_bytes.simps
        sample_add_def sample_service_def)
  moreover have "call_ok sample_js sample_service" "spec_ids_ok (Logger_spec (\<lambda>_. []) sample_js sample_service)"
    by (simp_all add: sample_service_def spec_ids_ok_def ids_ok_def spec_event_def)
  ultimately show ?thesis by (auto simp: logger_adds_def)
qed

lemma sample_drain:
  obtains r where "(log_step (logger_adds (\<lambda>_. []) sample_js))\<^sup>*\<^sup>* lr_start r"
    "lr_chunks r = [[(1, event_bytes sample_add 1 5)]]" "lr_drained r = [(event_bytes sample_add 1 5, False)]"
proof -
  let ?adds = "logger_adds (\<lambda>_. []) sample_js" and ?b = "event_bytes sample_add 1 5"
  let ?r1 = "lr_start\<lparr>lr_next := 1, lr_flight := lr_flight lr_start @ [(1, ?b)]\<rparr>"
  let ?r2 = "?r1\<lparr>lr_flight := [] @ [], lr_log := (lr_log ?r1)\<lparr>log_data := log_data (lr_log ?r1) @ ?b\<rparr>,
    lr_current := lr_current ?r1 @ [(1, ?b)]\<rparr>"
  let ?r3 = "?r2\<lparr>lr_log := Log_clearDataBuf 0 (lr_log ?r2), lr_drained := lr_drained ?r2 @ [(?b, False)],
      lr_chunks := lr_chunks ?r2 @ [lr_current ?r2], lr_current := []\<rparr>"
  have "log_step ?adds lr_start ?r1"
    by (intro lr_take_id sample_adds_call) (simp_all add: sample_add_def tb_Buf_def lr_start_def next_id_def)
  moreover have "log_step ?adds ?r1 ?r2"
    by (intro lr_append) (simp add: lr_start_def)
  moreover have "log_step ?adds ?r2 ?r3"
    by (intro lr_get_and_clear [where cap = 0]) (simp add: Log_GetAndClear_def lr_start_def NewLog_def)
  ultimately have "(log_step ?adds)\<^sup>*\<^sup>* lr_start ?r3"
    by (meson converse_rtranclp_into_rtranclp r_into_rtranclp)
  then show thesis by (rule that) (simp_all add: lr_start_def)
qed


section \<open>Many goroutines\<close>

text \<open>C2. However the calls of many goroutines and the draining of the log interleave, every chunk that is drained
  consists of whole events: it is parsed to its end without an error, into one event for every ID that went into it.\<close>

theorem drained_chunks_parse:
  assumes "(log_step (logger_adds fr js))\<^sup>*\<^sup>* lr_start r" "CurrentVersion \<le> version" "i < length (lr_drained r)"
  shows "\<exists>evs. parse_loop EOF ta version (fst (lr_drained r ! i)) = (evs, StoppedBy (ErrRead EOF))
    \<and> map te_EventId evs = map fst (lr_chunks r ! i)"
proof -
  have w: "map fst (lr_drained r) = map whole_events (lr_chunks r)"
    using log_steps_inv [OF assms(1) lr_start_inv] by (simp add: lr_whole_def)
  from w have i: "i < length (lr_chunks r)" using assms(3) by (metis length_map)
  from arg_cong [OF w, of "\<lambda>xs. xs ! i"] have chunk: "fst (lr_drained r ! i) = whole_events (lr_chunks r ! i)"
    using assms(3) i by simp
  have "\<forall>p \<in> set (lr_chunks r ! i). \<exists>ev. event_of fr js ta version p ev"
    using log_steps_parse [OF assms(1,2), of ta] nth_mem [OF i] by (auto simp: lr_parses_def lr_events_def)
  from parse_loop_whole [OF this] show ?thesis
    unfolding chunk using event_of_ids by blast
qed

theorem drained_chunks_parse_witness:
  "\<exists>evs. parse_loop EOF sample_anchor 15 (event_bytes sample_add 1 5) = (evs, StoppedBy (ErrRead EOF))
    \<and> map te_EventId evs = [1]"
proof -
  obtain r where r: "(log_step (logger_adds (\<lambda>_. []) sample_js))\<^sup>*\<^sup>* lr_start r"
    "lr_chunks r = [[(1, event_bytes sample_add 1 5)]]" "lr_drained r = [(event_bytes sample_add 1 5, False)]"
    by (rule sample_drain)
  from drained_chunks_parse [OF r(1), of 15 0 sample_anchor] r(2,3) show ?thesis by simp
qed



end
