(* ===== verification/Stack_Build.thy ===== *)
theory Stack_Build
  imports Trace_Codec "HOL-Library.Sublist"
begin

text \<open>
  How stacks are collected (runtimes/go/appruntime/exported/stack/stack.go). The trace log relies
  on a bound on the length of a stack; this is where it comes from.
\<close>

text \<open>The names of functions the Go runtime is asked for, \<open>None\<close> for a nil \<open>*runtime.Func\<close>.\<close>

type_synonym func_names = "uint64 \<Rightarrow> string option"

definition encore_func :: "func_names \<Rightarrow> uint64 \<Rightarrow> bool" where
  "encore_func names pc = (case names pc of None \<Rightarrow> False | Some n \<Rightarrow> sublist ''__encore_'' n)"

text \<open>The index of the first program counter with a property, as a range loop with an early
  return finds it.\<close>

fun first_index :: "(uint64 \<Rightarrow> bool) \<Rightarrow> nat \<Rightarrow> uint64 list \<Rightarrow> nat option" where
  "first_index P i [] = None"
| "first_index P i (pc # pcs) = (if P pc then Some i else first_index P (Suc i) pcs)"

text \<open>
  \<open>BuildWithFilters\<close>. \<open>encoreCallers\<close> is provided by the Go runtime and is a parameter: from the
  number of frames to skip and the length of the slice it gets, it yields the program counters it
  fills in and the offset of the text segment. Cutting the slice at a count beyond its capacity
  panics (\<open>None\<close>). The set of known stop points is state.
\<close>

definition BuildWithFilters ::
    "(nat \<Rightarrow> nat \<Rightarrow> uint64 list \<times> uint64) \<Rightarrow> func_names \<Rightarrow> nat \<Rightarrow> (uint64 \<Rightarrow> bool) option
     \<Rightarrow> uint64 list \<Rightarrow> (Stack \<times> uint64 list) option" where
  "BuildWithFilters encoreCallers names skip flt stopPCs =
     (let (pcs, off) = encoreCallers (skip + 1) 101
      in if 101 < length pcs then None
         else if length pcs = 0 then Some (no_stack, stopPCs)
         else
           let pcs = (case flt of None \<Rightarrow> pcs | Some f \<Rightarrow> filter f pcs)
           in case first_index (\<lambda>pc. pc \<in> set stopPCs) 0 pcs of
                Some i \<Rightarrow> Some (\<lparr>Frames = take i pcs, Off = off\<rparr>, stopPCs)
              | None \<Rightarrow>
                  (case first_index (encore_func names) 0 pcs of
                     Some i \<Rightarrow> Some (\<lparr>Frames = take i pcs, Off = off\<rparr>, (pcs ! i) # stopPCs)
                   | None \<Rightarrow> Some (\<lparr>Frames = pcs, Off = off\<rparr>, stopPCs)))"

definition stack_Build ::
    "(nat \<Rightarrow> nat \<Rightarrow> uint64 list \<times> uint64) \<Rightarrow> func_names \<Rightarrow> nat \<Rightarrow> uint64 list \<Rightarrow> (Stack \<times> uint64 list) option" where
  "stack_Build encoreCallers names skip stopPCs =
     BuildWithFilters encoreCallers names (skip + 1) None stopPCs"

definition not_go_runtime :: "func_names \<Rightarrow> uint64 \<Rightarrow> bool" where
  "not_go_runtime names pc =
     (case names pc of None \<Rightarrow> True
      | Some n \<Rightarrow> \<not> prefix ''runtime.'' n \<and> \<not> prefix ''testing.'' n)"

definition BuildWithoutGoRuntime ::
    "(nat \<Rightarrow> nat \<Rightarrow> uint64 list \<times> uint64) \<Rightarrow> func_names \<Rightarrow> nat \<Rightarrow> uint64 list \<Rightarrow> (Stack \<times> uint64 list) option" where
  "BuildWithoutGoRuntime encoreCallers names skip stopPCs =
     BuildWithFilters encoreCallers names (skip + 1) (Some (not_go_runtime names)) stopPCs"


section \<open>What a collected stack is\<close>

lemma first_index_Some:
  "first_index P i pcs = Some j \<Longrightarrow>
   \<exists>k. j = i + k \<and> k < length pcs \<and> P (pcs ! k) \<and> (\<forall>pc \<in> set (take k pcs). \<not> P pc)"
proof (induction pcs arbitrary: i)
  case (Cons pc pcs)
  show ?case
  proof (cases "P pc")
    case True
    with Cons.prems show ?thesis by (intro exI [of _ 0]) simp
  next
    case False
    with Cons.prems obtain k where "j = Suc i + k" "k < length pcs" "P (pcs ! k)" "\<forall>pc \<in> set (take k pcs). \<not> P pc"
      using Cons.IH [of "Suc i"] by auto
    with False show ?thesis by (intro exI [of _ "Suc k"]) auto
  qed
qed simp

lemma first_index_None: "first_index P i pcs = None \<longleftrightarrow> (\<forall>pc \<in> set pcs. \<not> P pc)"
  by (induction pcs arbitrary: i) auto

text \<open>A stack that is collected has at most 101 frames, so that the trace log can write it
  in full, and none of its frames is a known stop point.\<close>

theorem built_stacks_ok:
  assumes "BuildWithFilters encoreCallers names skip flt stopPCs = Some (s, stopPCs')"
  shows "stack_ok s \<and> length (Frames s) \<le> 101 \<and> set (Frames s) \<inter> set stopPCs' = {}"
proof -
  obtain pcs0 off where c: "encoreCallers (Suc skip) 101 = (pcs0, off)" by fastforce
  define pcs where "pcs = (case flt of None \<Rightarrow> pcs0 | Some f \<Rightarrow> filter f pcs0)"
  have len: "length pcs0 \<le> 101" using assms c by (auto simp: BuildWithFilters_def split: if_splits)
  moreover have "length pcs \<le> length pcs0" by (simp add: pcs_def split: option.split)
  ultimately have pcs: "length pcs \<le> 101" by simp
  note B = BuildWithFilters_def c pcs_def [symmetric]
  consider "pcs0 = []" | i where "pcs0 \<noteq> []" "first_index (\<lambda>pc. pc \<in> set stopPCs) 0 pcs = Some i"
    | i where "pcs0 \<noteq> []" "first_index (\<lambda>pc. pc \<in> set stopPCs) 0 pcs = None" "first_index (encore_func names) 0 pcs = Some i"
    | "pcs0 \<noteq> []" "first_index (\<lambda>pc. pc \<in> set stopPCs) 0 pcs = None" "first_index (encore_func names) 0 pcs = None"
    by fastforce
  then have "length (Frames s) \<le> 101 \<and> set (Frames s) \<inter> set stopPCs' = {}"
  proof cases
    case 1
    then show ?thesis using assms by (auto simp: B no_stack_def)
  next
    case (2 i)
    then show ?thesis using assms len pcs first_index_Some [OF 2(2)] by (auto simp: B)
  next
    case (3 i)
    then have "s = \<lparr>Frames = take i pcs, Off = off\<rparr>" "stopPCs' = (pcs ! i) # stopPCs"
      using assms len by (auto simp: B)
    moreover have "\<forall>pc \<in> set (take i pcs). \<not> encore_func names pc" "encore_func names (pcs ! i)"
      using first_index_Some [OF 3(3)] by auto
    moreover have "set (take i pcs) \<inter> set stopPCs = {}"
      using 3(2) set_take_subset [of i pcs] by (auto simp: first_index_None)
    ultimately show ?thesis using pcs by auto
  next
    case 4
    then have "s = \<lparr>Frames = pcs, Off = off\<rparr>" "stopPCs' = stopPCs"
      using assms len by (auto simp: B)
    with pcs 4(2) show ?thesis by (auto simp: first_index_None)
  qed
  then show ?thesis by (simp add: stack_ok_def)
qed

theorem built_stacks_ok_witness:
  "stack_ok \<lparr>Frames = [4096, 4100], Off = 4000\<rparr> \<and> length (Frames \<lparr>Frames = [4096, 4100], Off = 4000 :: uint64\<rparr>) \<le> 101
    \<and> set (Frames \<lparr>Frames = [4096, 4100 :: uint64], Off = 4000 :: uint64\<rparr>) \<inter> set [5000] = {}"
proof -
  have "BuildWithFilters (\<lambda>skip n. ([4096, 4100, 5000, 6000], 4000))
      (\<lambda>pc. if pc = 5000 then Some ''main.__encore_main'' else None) 2 None []
    = Some (\<lparr>Frames = [4096, 4100], Off = 4000\<rparr>, [5000])"
    by (simp add: BuildWithFilters_def encore_func_def sublist_code)
  from built_stacks_ok [OF this] show ?thesis .
qed

end
