(* ===== verification/Go_Text.thy ===== *)
theory Go_Text
  imports Go_Stdlib "HOL-Library.Char_ord" "HOL-Library.List_Lexorder"
begin

text \<open>
  Strings of Go as the compile-time components use them: a \<open>string\<close> is a list of characters,
  each character one byte, ordered bytewise. The theory models the functions of packages
  \<open>strings\<close>, \<open>unicode\<close>, \<open>go/token\<close> and \<open>net/url\<close> that those components call. The tables of
  letters and digits beyond ASCII are a parameter of the definitions that consult them.
\<close>

section \<open>Package strings\<close>

definition IndexByte :: "string \<Rightarrow> char \<Rightarrow> int" where
  "IndexByte s c = (if c \<in> set s then int (length (takeWhile (\<lambda>x. x \<noteq> c) s)) else -1)"

definition HasPrefix :: "string \<Rightarrow> string \<Rightarrow> bool" where
  "HasPrefix s p \<longleftrightarrow> take (length p) s = p"

text \<open>\<open>strings.Cut\<close> around a separator of one byte.\<close>

definition Cut :: "string \<Rightarrow> char \<Rightarrow> (string \<times> string) option" where
  "Cut s sep = (if sep \<in> set s
     then Some (takeWhile (\<lambda>x. x \<noteq> sep) s, tl (dropWhile (\<lambda>x. x \<noteq> sep) s))
     else None)"

text \<open>\<open>strings.Split\<close> around a separator of one byte, and \<open>strings.Join\<close>.\<close>

fun Split :: "char \<Rightarrow> string \<Rightarrow> string list" where
  "Split sep [] = [[]]"
| "Split sep (c # s) =
     (if c = sep then [] # Split sep s else (c # hd (Split sep s)) # tl (Split sep s))"

fun Join :: "string \<Rightarrow> string list \<Rightarrow> string" where
  "Join sep [] = []"
| "Join sep [s] = s"
| "Join sep (s # t # ss) = s @ sep @ Join sep (t # ss)"

lemma IndexByte_cases:
  "IndexByte s c = -1 \<longleftrightarrow> c \<notin> set s"
  "IndexByte s c = 0 \<longleftrightarrow> s \<noteq> [] \<and> hd s = c"
  "0 \<le> IndexByte s c \<longleftrightarrow> c \<in> set s"
  by (cases s; auto simp: IndexByte_def)+

lemma nat_IndexByte:
  assumes "c \<in> set s"
  shows "take (nat (IndexByte s c)) s = takeWhile (\<lambda>x. x \<noteq> c) s"
    and "drop (nat (IndexByte s c)) s = dropWhile (\<lambda>x. x \<noteq> c) s"
  using assms by (simp_all add: IndexByte_def takeWhile_eq_take [symmetric] dropWhile_eq_drop [symmetric])

lemma HasPrefix_iff: "HasPrefix s p \<longleftrightarrow> (\<exists>r. s = p @ r)"
  unfolding HasPrefix_def by (metis append_eq_conv_conj append_take_drop_id)

lemma Cut_Some_iff: "Cut s c = Some (a, b) \<longleftrightarrow> s = a @ c # b \<and> c \<notin> set a"
proof
  assume "Cut s c = Some (a, b)"
  then have "c \<in> set s" "a = takeWhile (\<lambda>x. x \<noteq> c) s" "b = tl (dropWhile (\<lambda>x. x \<noteq> c) s)"
    by (auto simp: Cut_def split: if_splits)
  moreover have "dropWhile (\<lambda>x. x \<noteq> c) s = c # tl (dropWhile (\<lambda>x. x \<noteq> c) s)"
    using \<open>c \<in> set s\<close> by (induction s) auto
  ultimately show "s = a @ c # b \<and> c \<notin> set a"
    by (metis set_takeWhileD takeWhile_dropWhile_id)
next
  assume "s = a @ c # b \<and> c \<notin> set a"
  then show "Cut s c = Some (a, b)"
    by (auto simp: Cut_def takeWhile_append dropWhile_append)
qed

lemma Cut_None_iff: "Cut s c = None \<longleftrightarrow> c \<notin> set s"
  by (simp add: Cut_def)

lemma Split_neq_Nil [simp]: "Split sep s \<noteq> []"
  by (cases s) auto

lemma Split_no_sep: "t \<in> set (Split sep s) \<Longrightarrow> sep \<notin> set t"
proof (induction s arbitrary: t)
  case (Cons c s)
  have "hd (Split sep s) \<in> set (Split sep s)" "set (tl (Split sep s)) \<subseteq> set (Split sep s)"
    by (auto simp: list.set_sel)
  with Cons show ?case by (auto split: if_splits)
qed simp

lemma Join_Split: "Join [sep] (Split sep s) = s"
proof (induction s)
  case (Cons c s)
  obtain t ts where [simp]: "Split sep s = t # ts" by (cases "Split sep s") auto
  with Cons show ?case by (cases ts) auto
qed simp


section \<open>Runes\<close>

definition bytes_of :: "string \<Rightarrow> bytes" where
  "bytes_of s = map (\<lambda>c. of_nat (of_char c)) s"

text \<open>\<open>utf8.DecodeRuneInString\<close> on a non-empty string: the rune and its width.\<close>

definition DecodeRune :: "bytes \<Rightarrow> nat \<times> nat" where
  "DecodeRune bs = (let w = rune_width bs; b = (\<lambda>i. unat (bs ! i)) in
     if w = 0 then (0xFFFD, 1)
     else if w = 1 then (b 0, 1)
     else if w = 2 then (b 0 mod 0x20 * 0x40 + b 1 mod 0x40, 2)
     else if w = 3 then (b 0 mod 0x10 * 0x1000 + b 1 mod 0x40 * 0x40 + b 2 mod 0x40, 3)
     else (b 0 mod 8 * 0x40000 + b 1 mod 0x40 * 0x1000 + b 2 mod 0x40 * 0x40 + b 3 mod 0x40, 4))"

text \<open>The loop \<open>for i, c := range s\<close>: byte indices and runes.\<close>

function range_str :: "nat \<Rightarrow> bytes \<Rightarrow> (nat \<times> nat) list" where
  "range_str i bs = (if bs = [] then []
     else (i, fst (DecodeRune bs)) #
       range_str (i + snd (DecodeRune bs)) (drop (snd (DecodeRune bs)) bs))"
  by pat_completeness auto
termination
  by (relation "measure (\<lambda>(_, bs). length bs)") (auto simp: DecodeRune_def Let_def)

declare range_str.simps [simp del]

lemma range_str_Nil [simp]: "range_str i [] = []"
  by (simp add: range_str.simps)

lemma range_str_ascii:
  "list_all (\<lambda>b. b < 0x80) bs \<Longrightarrow> range_str i bs = zip [i ..< i + length bs] (map unat bs)"
proof (induction bs arbitrary: i)
  case (Cons b bs)
  then have "DecodeRune (b # bs) = (unat b, 1)" by (simp add: DecodeRune_def seq_len_def)
  with Cons show ?case
    by (simp add: range_str.simps [of i "b # bs"] upt_conv_Cons del: upt_Suc)
qed simp

text \<open>A rune below 128 is one byte long and is that byte.\<close>

lemma mod_block: "k * m \<le> x \<Longrightarrow> x < k * m + m \<Longrightarrow> (x :: nat) mod m = x - k * m"
  by (auto simp: le_iff_add)

lemma mod_bounds:
  "194 \<le> x \<Longrightarrow> x \<le> 223 \<Longrightarrow> 2 \<le> (x :: nat) mod 32"
  "160 \<le> x \<Longrightarrow> x \<le> 191 \<Longrightarrow> 32 \<le> (x :: nat) mod 64"
  "225 \<le> x \<Longrightarrow> x \<le> 239 \<Longrightarrow> 1 \<le> (x :: nat) mod 16"
  "144 \<le> x \<Longrightarrow> x \<le> 191 \<Longrightarrow> 16 \<le> (x :: nat) mod 64"
  "241 \<le> x \<Longrightarrow> x \<le> 244 \<Longrightarrow> 1 \<le> (x :: nat) mod 8"
  using mod_block [of 6 32 x] mod_block [of 2 64 x] mod_block [of 14 16 x] mod_block [of 30 8 x] by simp_all

lemma rune_width_multi:
  assumes "1 < rune_width (b # t)"
  shows "seq_len b = rune_width (b # t) \<and> accept b (t ! 0)"
proof -
  have "1 < seq_len b" "seq_len b - 1 \<le> length t" "accept b (hd t)" "rune_width (b # t) = seq_len b"
    using assms by (simp_all add: Let_def split: if_splits)
  then show ?thesis by (cases t) simp_all
qed

lemma seq_len_range:
  "seq_len b = 2 \<Longrightarrow> in_range 0xC2 0xDF b" "seq_len b = 3 \<Longrightarrow> in_range 0xE0 0xEF b"
  "seq_len b = 4 \<Longrightarrow> in_range 0xF0 0xF4 b" "seq_len b \<in> {0, 1, 2, 3, 4}"
  by (simp_all add: seq_len_def split: if_splits)

lemma multi_byte_rune_ge:
  assumes "seq_len b = 2 \<or> accept b c"
  shows "seq_len b = 2 \<Longrightarrow> 2 \<le> unat b mod 32"
    "seq_len b = 3 \<Longrightarrow> 1 \<le> unat b mod 16 \<or> 32 \<le> unat c mod 64"
    "seq_len b = 4 \<Longrightarrow> 1 \<le> unat b mod 8 \<or> 16 \<le> unat c mod 64"
proof -
  note le = in_range_def word_le_nat_alt
  show "2 \<le> unat b mod 32" if "seq_len b = 2"
    using seq_len_range(1) [OF that] mod_bounds(1) [of "unat b"] by (simp add: le)
  show "1 \<le> unat b mod 16 \<or> 32 \<le> unat c mod 64" if "seq_len b = 3"
  proof (cases "b = 0xE0")
    case True
    with that assms show ?thesis using mod_bounds(2) [of "unat c"] by (simp add: accept_def le)
  next
    case False
    then have "unat b \<noteq> 224" using word_unat_eq_iff [of b "0xE0"] by simp
    with seq_len_range(2) [OF that] show ?thesis using mod_bounds(3) [of "unat b"] by (simp add: le)
  qed
  show "1 \<le> unat b mod 8 \<or> 16 \<le> unat c mod 64" if "seq_len b = 4"
  proof (cases "b = 0xF0")
    case True
    with that assms show ?thesis using mod_bounds(4) [of "unat c"] by (simp add: accept_def le)
  next
    case False
    then have "unat b \<noteq> 240" using word_unat_eq_iff [of b "0xF0"] by simp
    with seq_len_range(3) [OF that] show ?thesis using mod_bounds(5) [of "unat b"] by (simp add: le)
  qed
qed

lemma DecodeRune_ascii:
  assumes "fst (DecodeRune (b # t)) < 128"
  shows "DecodeRune (b # t) = (unat b, 1)"
proof (cases "rune_width (b # t) \<le> 1")
  case True
  with assms show ?thesis by (auto simp: DecodeRune_def Let_def le_Suc_eq simp del: rune_width.simps)
next
  case False
  then have w: "seq_len b = rune_width (b # t)" "accept b (t ! 0)" 
    using rune_width_multi [of b t] by (simp_all del: rune_width.simps)
  then consider "rune_width (b # t) = 2" | "rune_width (b # t) = 3" | "rune_width (b # t) = 4"
    using seq_len_range(4) [of b] False by (auto simp del: rune_width.simps)
  then show ?thesis
  proof cases
    case 1
    with assms multi_byte_rune_ge(1) [of b "t ! 0"] w show ?thesis
      by (simp add: DecodeRune_def Let_def del: rune_width.simps)
  next
    case 2
    with assms multi_byte_rune_ge(2) [of b "t ! 0"] w show ?thesis
      by (simp add: DecodeRune_def Let_def del: rune_width.simps)
  next
    case 3
    with assms multi_byte_rune_ge(3) [of b "t ! 0"] w show ?thesis
      by (simp add: DecodeRune_def Let_def del: rune_width.simps)
  qed
qed
lemma range_str_below_128:
  "list_all (\<lambda>c. c < 128) (map snd (range_str i bs)) \<Longrightarrow> map snd (range_str i bs) = map unat bs"
proof (induction i bs rule: range_str.induct)
  case (1 i bs)
  show ?case
  proof (cases bs)
    case (Cons b t)
    then have "fst (DecodeRune bs) < 128"
      using "1.prems" by (subst (asm) range_str.simps) simp
    then have "DecodeRune bs = (unat b, 1)" unfolding Cons by (rule DecodeRune_ascii)
    then have "range_str i bs = (i, unat b) # range_str (i + 1) t"
      by (subst range_str.simps) (simp add: Cons)
    with "1.IH" "1.prems" Cons \<open>DecodeRune bs = (unat b, 1)\<close> show ?thesis by simp
  qed simp
qed


section \<open>Packages unicode and go/token\<close>

record unicode_tables =
  letters :: "nat \<Rightarrow> bool"
  digits :: "nat \<Rightarrow> bool"

definition IsLetter :: "unicode_tables \<Rightarrow> nat \<Rightarrow> bool" where
  "IsLetter U r \<longleftrightarrow> (if r < 0x80 then 65 \<le> r \<and> r \<le> 90 \<or> 97 \<le> r \<and> r \<le> 122 else letters U r)"

definition IsDigit :: "unicode_tables \<Rightarrow> nat \<Rightarrow> bool" where
  "IsDigit U r \<longleftrightarrow> (if r < 0x80 then 48 \<le> r \<and> r \<le> 57 else digits U r)"

text \<open>\<open>unicode.IsSpace\<close>: the Latin-1 spaces and the table of white space beyond.\<close>

definition IsSpace :: "nat \<Rightarrow> bool" where
  "IsSpace r \<longleftrightarrow> 9 \<le> r \<and> r \<le> 13 \<or> r = 0x20 \<or> r = 0x85 \<or> r = 0xA0 \<or> r = 0x1680
     \<or> 0x2000 \<le> r \<and> r \<le> 0x200A \<or> r = 0x2028 \<or> r = 0x2029 \<or> r = 0x202F \<or> r = 0x205F \<or> r = 0x3000"

definition go_keywords :: "string list" where
  "go_keywords = [''break'', ''case'', ''chan'', ''const'', ''continue'', ''default'', ''defer'',
     ''else'', ''fallthrough'', ''for'', ''func'', ''go'', ''goto'', ''if'', ''import'',
     ''interface'', ''map'', ''package'', ''range'', ''return'', ''select'', ''struct'',
     ''switch'', ''type'', ''var'']"

definition IsIdentifier :: "unicode_tables \<Rightarrow> string \<Rightarrow> bool" where
  "IsIdentifier U name \<longleftrightarrow> name \<noteq> [] \<and> name \<notin> set go_keywords \<and>
     list_all (\<lambda>(i, c). IsLetter U c \<or> c = 95 \<or> i \<noteq> 0 \<and> IsDigit U c)
       (range_str 0 (bytes_of name))"


section \<open>Package net/url\<close>

definition ishex :: "char \<Rightarrow> bool" where
  "ishex c \<longleftrightarrow> CHR ''0'' \<le> c \<and> c \<le> CHR ''9'' \<or> CHR ''a'' \<le> c \<and> c \<le> CHR ''f''
     \<or> CHR ''A'' \<le> c \<and> c \<le> CHR ''F''"

fun escapes_ok :: "string \<Rightarrow> bool" where
  "escapes_ok [] = True"
| "escapes_ok (c # s) = (if c = CHR ''%''
     then (case s of a # b # r \<Rightarrow> ishex a \<and> ishex b \<and> escapes_ok r | _ \<Rightarrow> False)
     else escapes_ok s)"

text \<open>
  Whether \<open>url.ParseRequestURI\<close> accepts a string that starts with a slash: no control
  characters, and only well-formed escapes before the query.
\<close>

definition ParseRequestURI_ok :: "string \<Rightarrow> bool" where
  "ParseRequestURI_ok s \<longleftrightarrow> list_all (\<lambda>c. CHR '' '' \<le> c \<and> c \<noteq> CHR 0x7F) s
     \<and> escapes_ok (takeWhile (\<lambda>c. c \<noteq> CHR ''?'') s)"


section \<open>Searching\<close>

text \<open>\<open>sort.Search\<close>: bisection for the first index with the property between \<open>i\<close> and \<open>j\<close>.\<close>

function search :: "(nat \<Rightarrow> bool) \<Rightarrow> nat \<Rightarrow> nat \<Rightarrow> nat" where
  "search f i j = (if i < j
     then let h = (i + j) div 2 in if \<not> f h then search f (h + 1) j else search f i h
     else i)"
  by pat_completeness auto
termination
  by (relation "measure (\<lambda>(f, i, j). j - i)") auto

declare search.simps [simp del]

lemma search_spec:
  assumes "i \<le> j" "\<And>a b. a \<le> b \<Longrightarrow> b < j \<Longrightarrow> f a \<Longrightarrow> f b" "\<And>a. a < i \<Longrightarrow> \<not> f a"
  shows "search f i j \<le> j \<and> (\<forall>a < search f i j. \<not> f a) \<and> (search f i j < j \<longrightarrow> f (search f i j))"
  using assms
proof (induction f i j rule: search.induct)
  case (1 f i j)
  define h where "h = (i + j) div 2"
  show ?case
  proof (cases "i < j")
    case True
    then have h: "i \<le> h" "h < j" by (simp_all add: h_def)
    show ?thesis
    proof (cases "f h")
      case True
      have "search f i h \<le> h \<and> (\<forall>a < search f i h. \<not> f a) \<and> (search f i h < h \<longrightarrow> f (search f i h))"
        using "1.prems" h True \<open>i < j\<close> by (intro "1.IH"(2) [OF _ h_def]) auto
      with True \<open>i < j\<close> h show ?thesis
        by (auto simp: search.simps [of f i j] Let_def h_def [symmetric])
    next
      case False
      have "\<not> f a" if "a < h + 1" for a
        using that False "1.prems"(2) [of a h] h by (metis less_Suc_eq_le Suc_eq_plus1)
      then have "search f (h + 1) j \<le> j \<and> (\<forall>a < search f (h + 1) j. \<not> f a)
          \<and> (search f (h + 1) j < j \<longrightarrow> f (search f (h + 1) j))"
        using "1.prems"(2) h False \<open>i < j\<close> by (intro "1.IH"(1) [OF _ h_def]) auto
      with False \<open>i < j\<close> show ?thesis
        by (simp add: search.simps [of f i j] Let_def h_def [symmetric])
    qed
  qed (use "1.prems" in \<open>auto simp: search.simps\<close>)
qed


end
