(* ===== verification/Api_Directive.thy ===== *)
theory Api_Directive
  imports Go_Text "HOL-Library.Multiset"
begin

text \<open>
  Directives in comments, \<open>//encore:api public path=/foo\<close> and the like
  (\<open>v2/parser/apis/directive\<close>): splitting a line into fields, parsing and printing one directive,
  finding the directive of a comment group, and validating it against what is allowed.

  The lemmas show that the fast path of the field splitter agrees with the general routine and
  stays within its array, that accepted directives are well formed, and that printing and parsing
  are inverse on them.
\<close>

section \<open>Data\<close>

record Field =
  Key :: string
  FieldValue :: string
  fstart :: int
  fend :: int

record Directive =
  DirName :: string
  DirOptions :: "Field list"
  DirFields :: "Field list"
  DirTags :: "Field list"
  dstart :: int
  nameEnd :: int
  dend :: int

definition Field_Equal :: "Field \<Rightarrow> Field \<Rightarrow> bool" where
  "Field_Equal f other \<longleftrightarrow> Key f = Key other \<and> FieldValue f = FieldValue other"

definition Field_List :: "Field \<Rightarrow> string list" where
  "Field_List f = Split (CHR '','') (FieldValue f)"

definition Directive_String :: "Directive \<Rightarrow> string" where
  "Directive_String d = ''encore:'' @ DirName d
     @ concat (map (\<lambda>opt. '' '' @ FieldValue opt) (DirOptions d))
     @ concat (map (\<lambda>f. '' '' @ Key f @ ''='' @ FieldValue f) (DirFields d))
     @ concat (map (\<lambda>t. '' '' @ FieldValue t) (DirTags d))"

definition HasOption :: "Directive \<Rightarrow> string \<Rightarrow> bool" where
  "HasOption d name = list_ex (\<lambda>opt. FieldValue opt = name) (DirOptions d)"

definition Directive_Get :: "Directive \<Rightarrow> string \<Rightarrow> string" where
  "Directive_Get d name = (case List.find (\<lambda>f. Key f = name) (DirFields d) of
     Some f \<Rightarrow> FieldValue f | None \<Rightarrow> '''')"

definition Directive_GetList :: "Directive \<Rightarrow> string \<Rightarrow> string list" where
  "Directive_GetList d name = (case List.find (\<lambda>f. Key f = name) (DirFields d) of
     Some f \<Rightarrow> Field_List f | None \<Rightarrow> [])"

datatype dir_err_kind = errMultipleDirectives | errMissingDirectiveName
  | errDuplicateTag string | errInvalidTag string | errFieldHasNoValue
  | errInvalidFieldName string | errDuplicateField string | errUnknownField string string
  | errInvalidOptionName string | errDuplicateOption string | errUnknownOption string string

text \<open>An error with the ranges it is reported at.\<close>

type_synonym dir_err = "dir_err_kind \<times> (int \<times> int) list"

abbreviation at_field :: "Field \<Rightarrow> int \<times> int" where
  "at_field f \<equiv> (fstart f, fend f)"


section \<open>Splitting into fields\<close>

definition asciiSpace :: "char \<Rightarrow> bool" where
  "asciiSpace c \<longleftrightarrow> c \<in> {CHR 0x09, CHR 0x0A, CHR 0x0B, CHR 0x0C, CHR 0x0D, CHR '' ''}"

text \<open>The counting pass: the number of fields and the bits set in any byte.\<close>

fun count_fields :: "string \<Rightarrow> nat \<Rightarrow> bool \<Rightarrow> nat" where
  "count_fields [] n wasSpace = n"
| "count_fields (r # s) n wasSpace =
     count_fields s (if wasSpace \<and> \<not> asciiSpace r then n + 1 else n) (asciiSpace r)"

definition setBits :: "string \<Rightarrow> byte" where
  "setBits s = fold (\<lambda>r b. b OR r) (bytes_of s) 0"

definition make_field :: "int \<Rightarrow> string \<Rightarrow> nat \<Rightarrow> nat \<Rightarrow> Field" where
  "make_field startPos s b e = \<lparr>Key = '''', FieldValue = drop b (take e s),
     fstart = startPos + int b, fend = startPos + int e\<rparr>"

definition zero_field :: Field where
  "zero_field = \<lparr>Key = '''', FieldValue = '''', fstart = 0, fend = 0\<rparr>"

definition skip_spaces :: "string \<Rightarrow> nat \<Rightarrow> nat" where
  "skip_spaces s i = i + length (takeWhile asciiSpace (drop i s))"

text \<open>The main loop of the fast path; \<open>None\<close> is an index out of range.\<close>

function fields_loop ::
  "int \<Rightarrow> string \<Rightarrow> nat \<Rightarrow> nat \<Rightarrow> nat \<Rightarrow> Field list \<Rightarrow> (nat \<times> nat \<times> Field list) option" where
  "fields_loop startPos s i fieldStart na a =
     (if i \<ge> length s then Some (fieldStart, na, a)
      else if \<not> asciiSpace (s ! i) then fields_loop startPos s (i + 1) fieldStart na a
      else if na \<ge> length a then None
      else let a' = a[na := make_field startPos s fieldStart i];
               j = skip_spaces s (i + 1)
        in fields_loop startPos s j j (na + 1) a')"
  by pat_completeness auto
termination
  by (relation "measure (\<lambda>(_, s, i, _). length s - i)") (auto simp: skip_spaces_def)

declare fields_loop.simps [simp del]

definition fields_ascii :: "int \<Rightarrow> string \<Rightarrow> Field list option" where
  "fields_ascii startPos s =
     (let a = replicate (count_fields s 0 True) zero_field; i = skip_spaces s 0
      in case fields_loop startPos s i i 0 a of
           None \<Rightarrow> None
         | Some (fieldStart, na, a) \<Rightarrow>
             if fieldStart < length s
             then if na < length a then Some (a[na := make_field startPos s fieldStart (length s)])
                  else None
             else Some a)"

text \<open>The general routine: the loop over the runes, with a negative \<open>start\<close> outside of fields.\<close>

fun spans_loop :: "(nat \<Rightarrow> bool) \<Rightarrow> (nat \<times> nat) list \<Rightarrow> int \<Rightarrow> (nat \<times> nat) list
    \<Rightarrow> int \<times> (nat \<times> nat) list" where
  "spans_loop f [] start spans = (start, spans)"
| "spans_loop f ((e, r) # rs) start spans =
     (if f r then
        if start \<ge> 0 then spans_loop f rs (- start - 1) (spans @ [(nat start, e)])
        else spans_loop f rs start spans
      else if start < 0 then spans_loop f rs (int e) spans
      else spans_loop f rs start spans)"

definition fieldsFunc :: "int \<Rightarrow> string \<Rightarrow> (nat \<Rightarrow> bool) \<Rightarrow> Field list" where
  "fieldsFunc startPos s f =
     (case spans_loop f (range_str 0 (bytes_of s)) (-1) [] of (start, spans) \<Rightarrow>
        let spans = (if start \<ge> 0 then spans @ [(nat start, length s)] else spans)
        in map (\<lambda>(b, e). let value = drop b (take e s);
               fs = startPos + int (length (take b s))
             in \<lparr>Key = '''', FieldValue = value, fstart = fs, fend = fs + int (length value)\<rparr>) spans)"

definition dir_fields :: "int \<Rightarrow> string \<Rightarrow> Field list option" where
  "dir_fields startPos s = (if setBits s \<ge> 0x80 then Some (fieldsFunc startPos s IsSpace)
     else fields_ascii startPos s)"


section \<open>The fast path agrees with the general routine\<close>

text \<open>The fields of a line as index ranges; \<open>Some b\<close> says that a field began at \<open>b\<close>.\<close>

fun word_spans :: "nat \<Rightarrow> nat option \<Rightarrow> string \<Rightarrow> (nat \<times> nat) list" where
  "word_spans i None [] = []"
| "word_spans i (Some b) [] = [(b, i)]"
| "word_spans i None (c # s) =
     (if asciiSpace c then word_spans (i + 1) None s else word_spans (i + 1) (Some i) s)"
| "word_spans i (Some b) (c # s) =
     (if asciiSpace c then (b, i) # word_spans (i + 1) None s else word_spans (i + 1) (Some b) s)"

lemma count_fields_Suc [simp]: "count_fields s (Suc n) w = Suc (count_fields s n w)"
  by (induction s arbitrary: n w) auto

lemma count_fields_spans:
  "count_fields s n True = n + length (word_spans i None s)"
  "count_fields s n False + 1 = n + length (word_spans i (Some b) s)"
  by (induction s arbitrary: n i b) auto

lemma word_spans_drop:
  "i < length s \<Longrightarrow> asciiSpace (s ! i) \<Longrightarrow> word_spans i None (drop i s) = word_spans (i + 1) None (drop (i + 1) s)"
  "i < length s \<Longrightarrow> asciiSpace (s ! i) \<Longrightarrow>
     word_spans i (Some b) (drop i s) = (b, i) # word_spans (i + 1) None (drop (i + 1) s)"
  "i < length s \<Longrightarrow> \<not> asciiSpace (s ! i) \<Longrightarrow>
     word_spans i None (drop i s) = word_spans (i + 1) (Some i) (drop (i + 1) s)"
  "i < length s \<Longrightarrow> \<not> asciiSpace (s ! i) \<Longrightarrow>
     word_spans i (Some b) (drop i s) = word_spans (i + 1) (Some b) (drop (i + 1) s)"
  by (simp_all add: Cons_nth_drop_Suc [symmetric])

lemma word_spans_skip: "word_spans (skip_spaces s i) None (drop (skip_spaces s i) s) = word_spans i None (drop i s)"
proof -
  have "word_spans (i + length (takeWhile asciiSpace t)) None (dropWhile asciiSpace t) = word_spans i None t" for t
    by (induction t arbitrary: i) (auto simp flip: add_Suc)
  from this [of "drop i s"] show ?thesis
    by (simp add: skip_spaces_def dropWhile_eq_drop add.commute)
qed

lemma skip_spaces_stops: "skip_spaces s i < length s \<Longrightarrow> \<not> asciiSpace (s ! skip_spaces s i)"
  using nth_length_takeWhile [of asciiSpace "drop i s"] by (simp add: skip_spaces_def)

lemma skip_spaces_le: "i \<le> length s \<Longrightarrow> skip_spaces s i \<le> length s"
  using length_takeWhile_le [of asciiSpace "drop i s"] by (simp add: skip_spaces_def)

lemma word_spans_open:
  assumes "i \<le> length s"
  shows "word_spans (skip_spaces s i)
      (if skip_spaces s i < length s then Some (skip_spaces s i) else None) (drop (skip_spaces s i) s)
    = word_spans i None (drop i s)"
  unfolding word_spans_skip [of s i, symmetric]
  using skip_spaces_stops [of s i] by (auto simp: word_spans_drop)

text \<open>Within the loop a field is open: \<open>fieldStart\<close> is its first byte, unless the line is over.\<close>

lemma fields_loop_spans:
  assumes "fieldStart \<le> i" "i \<le> length s" "length a = na + length (word_spans i (if fieldStart < length s then Some fieldStart else None) (drop i s))"
  shows "\<exists>fs' na' a'. fields_loop startPos s i fieldStart na a = Some (fs', na', a') \<and> length a' = length a
    \<and> fs' \<le> length s \<and> (fs' < length s \<longrightarrow> na' < length a)
    \<and> (if fs' < length s then a'[na' := make_field startPos s fs' (length s)] else a')
      = take na a @ map (\<lambda>(b, e). make_field startPos s b e)
          (word_spans i (if fieldStart < length s then Some fieldStart else None) (drop i s))"
  using assms
proof (induction startPos s i fieldStart na a rule: fields_loop.induct)
  case (1 startPos s i fieldStart na a)
  consider (over) "i \<ge> length s" | (inside) "i < length s" "\<not> asciiSpace (s ! i)"
    | (gap) "i < length s" "asciiSpace (s ! i)" by fastforce
  then show ?case
  proof cases
    case over
    then have "fields_loop startPos s i fieldStart na a = Some (fieldStart, na, a)"
      by (simp add: fields_loop.simps)
    moreover have "a[na := x] = take na a @ [x]" if "length a = na + 1" for x
      using that by (simp add: upd_conv_take_nth_drop)
    ultimately show ?thesis using over "1.prems" by auto
  next
    case inside
    with "1.prems" have "fieldStart < length s" by simp
    with inside "1.prems" have "fieldStart \<le> i + 1" "i + 1 \<le> length s"
      "length a = na + length (word_spans (i + 1) (if fieldStart < length s then Some fieldStart else None) (drop (i + 1) s))"
      by (simp_all add: word_spans_drop)
    from "1.IH"(1) [OF _ _ this] inside \<open>fieldStart < length s\<close> show ?thesis
      by (simp add: fields_loop.simps [of startPos s i] word_spans_drop)
  next
    case gap
    define j where "j = skip_spaces s (i + 1)"
    define a' where "a' = a[na := make_field startPos s fieldStart i]"
    have fs: "fieldStart < length s" using gap "1.prems" by simp
    have rest: "word_spans j (if j < length s then Some j else None) (drop j s)
      = word_spans (i + 1) None (drop (i + 1) s)"
      unfolding j_def using gap by (intro word_spans_open) simp
    have all: "word_spans i (Some fieldStart) (drop i s)
      = (fieldStart, i) # word_spans (i + 1) None (drop (i + 1) s)"
      using gap by (rule word_spans_drop)
    have na: "na < length a" using "1.prems"(3) fs all by simp
    have eq: "fields_loop startPos s i fieldStart na a = fields_loop startPos s j j (na + 1) a'"
      using gap na by (simp add: fields_loop.simps [of startPos s i] Let_def j_def a'_def)
    have "j \<le> length s" unfolding j_def using gap by (intro skip_spaces_le) simp
    moreover have "length a' = na + 1 + length (word_spans j (if j < length s then Some j else None) (drop j s))"
      using "1.prems"(3) fs all unfolding rest by (simp add: a'_def)
    moreover have "take (na + 1) a' = take na a @ [make_field startPos s fieldStart i]"
      using na by (simp add: a'_def take_Suc_conv_app_nth)
    moreover have "length a' = length a" by (simp add: a'_def)
    ultimately show ?thesis
      using "1.IH"(2) [of a' j] gap na fs all unfolding eq rest by (simp add: a'_def j_def)
  qed
qed

lemma fields_ascii_spans:
  "fields_ascii startPos s = Some (map (\<lambda>(b, e). make_field startPos s b e) (word_spans 0 None s))"
proof -
  define i where "i = skip_spaces s 0"
  define a where "a = replicate (count_fields s 0 True) zero_field"
  have open0: "word_spans i (if i < length s then Some i else None) (drop i s) = word_spans 0 None s"
    unfolding i_def using word_spans_open [of 0 s] by simp
  have "i \<le> length s" unfolding i_def by (rule skip_spaces_le) simp
  moreover have "length a = 0 + length (word_spans i (if i < length s then Some i else None) (drop i s))"
    unfolding open0 a_def using count_fields_spans(1) [of s 0 0] by simp
  ultimately obtain fs' na' a' where "fields_loop startPos s i i 0 a = Some (fs', na', a')"
    "length a' = length a" "fs' \<le> length s" "fs' < length s \<longrightarrow> na' < length a"
    "(if fs' < length s then a'[na' := make_field startPos s fs' (length s)] else a')
      = map (\<lambda>(b, e). make_field startPos s b e) (word_spans 0 None s)"
    using fields_loop_spans [of i i s a 0 startPos] unfolding open0 by auto
  then show ?thesis
    unfolding fields_ascii_def Let_def i_def [symmetric] a_def [symmetric] by (auto split: if_splits)
qed

lemma setBits_ascii: "setBits s < 0x80 \<longleftrightarrow> list_all (\<lambda>b. b < 0x80) (bytes_of s)"
proof -
  have bit7: "b < 0x80 \<longleftrightarrow> \<not> bit b 7" for b :: byte
  proof -
    have odd: "bit b 7 \<longleftrightarrow> odd (unat b div 128)"
      using bit_iff_odd [of "unat b" 7] by (simp add: bit_unsigned_iff)
    have "unat b < 256" using unsigned_less [of b] by simp
    then have "unat b div 128 < 2" by (simp add: div_less_iff_less_mult)
    then have "unat b div 128 = 0 \<or> unat b div 128 = 1" by linarith
    then have "odd (unat b div 128) \<longleftrightarrow> \<not> unat b < 128" by (auto simp: div_eq_0_iff)
    with odd show ?thesis by (simp add: word_less_nat_alt)
  qed
  have "bit (fold (\<lambda>r b. b OR r) bs b) 7 \<longleftrightarrow> bit b 7 \<or> list_ex (\<lambda>r. bit r 7) bs" for bs and b :: byte
    by (induction bs arbitrary: b) (auto simp: bit_or_iff)
  then show ?thesis
    by (simp add: setBits_def bit7 list_ex_iff list_all_iff)
qed

lemma word_spans_bounds:
  assumes "(b, e) \<in> set (word_spans i start s)" "\<forall>b \<in> set_option start. b \<le> i"
  shows "b \<le> e \<and> e \<le> i + length s"
  using assms by (induction i start s rule: word_spans.induct) (force split: if_splits)+

lemma IsSpace_ascii:
  assumes "(of_nat (of_char c) :: byte) < 0x80"
  shows "IsSpace (unat (of_nat (of_char c) :: byte)) \<longleftrightarrow> asciiSpace c"
proof -
  have "(of_char c :: nat) < 256" by simp
  then have n: "unat (of_nat (of_char c) :: byte) = of_char c"
    by (simp add: unat_of_nat)
  then have "(of_char c :: nat) < 128" using assms by (simp add: word_less_nat_alt)
  moreover have "asciiSpace c \<longleftrightarrow> (of_char c :: nat) \<in> {9, 10, 11, 12, 13, 32}"
    by (auto simp: asciiSpace_def simp flip: of_char_eq_iff [where 'a = nat])
  ultimately show ?thesis unfolding n by (auto simp: IsSpace_def)
qed

lemma spans_loop_ascii:
  assumes "list_all (\<lambda>b. b < 0x80) (bytes_of s)"
    "spans_loop IsSpace (zip [i ..< i + length s] (map unat (bytes_of s))) start spans = (start', spans')"
  shows "(if start' \<ge> 0 then spans' @ [(nat start', i + length s)] else spans')
    = spans @ word_spans i (if start \<ge> 0 then Some (nat start) else None) s"
  using assms
proof (induction s arbitrary: i start spans)
  case (Cons c s)
  define rs where "rs = zip [i + 1 ..< (i + 1) + length s] (map unat (bytes_of s))"
  have eq: "zip [i ..< i + length (c # s)] (map unat (bytes_of (c # s)))
    = (i, unat (of_nat (of_char c) :: byte)) # rs"
    by (simp add: rs_def bytes_of_def upt_conv_Cons del: upt_Suc)
  have ascii: "list_all (\<lambda>b. b < 0x80) (bytes_of s)"
    and sp: "IsSpace (unat (of_nat (of_char c) :: byte)) \<longleftrightarrow> asciiSpace c"
    using Cons.prems(1) by (simp_all add: bytes_of_def IsSpace_ascii)
  have len: "i + length (c # s) = (i + 1) + length s" by simp
  note IH = Cons.IH [OF ascii, of "i + 1", folded rs_def, folded len]
  show ?case
  proof (cases "asciiSpace c"; cases "0 \<le> start")
    assume "asciiSpace c" "0 \<le> start"
    then show ?thesis
      using Cons.prems(2) IH [of "- start - 1" "spans @ [(nat start, i)]"] unfolding eq by (simp add: sp)
  next
    assume "asciiSpace c" "\<not> 0 \<le> start"
    then show ?thesis
      using Cons.prems(2) IH [of start spans] unfolding eq by (simp add: sp)
  next
    assume "\<not> asciiSpace c" "0 \<le> start"
    then show ?thesis
      using Cons.prems(2) IH [of start spans] unfolding eq by (simp add: sp)
  next
    assume "\<not> asciiSpace c" "\<not> 0 \<le> start"
    then show ?thesis
      using Cons.prems(2) IH [of "int i" spans] unfolding eq by (simp add: sp)
  qed
qed (simp add: bytes_of_def)

lemma fieldsFunc_ascii:
  assumes "list_all (\<lambda>b. b < 0x80) (bytes_of s)"
  shows "fieldsFunc startPos s IsSpace = map (\<lambda>(b, e). make_field startPos s b e) (word_spans 0 None s)"
proof -
  obtain start spans where sp: "spans_loop IsSpace (range_str 0 (bytes_of s)) (-1) [] = (start, spans)"
    by (cases "spans_loop IsSpace (range_str 0 (bytes_of s)) (-1) []")
  moreover have "range_str 0 (bytes_of s) = zip [0 ..< 0 + length s] (map unat (bytes_of s))"
    using range_str_ascii [OF assms, of 0] by (simp add: bytes_of_def)
  ultimately have "(if start \<ge> 0 then spans @ [(nat start, length s)] else spans) = word_spans 0 None s"
    using spans_loop_ascii [OF assms, of 0 "-1" "[]" start spans] by (simp split: if_splits)
  moreover have "\<lparr>Key = '''', FieldValue = drop b (take e s), fstart = startPos + int (length (take b s)),
      fend = startPos + int (length (take b s)) + int (length (drop b (take e s)))\<rparr> = make_field startPos s b e"
    if "(b, e) \<in> set (word_spans 0 None s)" for b e
    using word_spans_bounds [OF that] by (simp add: make_field_def)
  ultimately show ?thesis
    unfolding fieldsFunc_def sp by (auto simp: Let_def intro!: map_cong)
qed

lemma fields_eq: "dir_fields startPos s = Some (fieldsFunc startPos s IsSpace)"
proof (cases "setBits s \<ge> 0x80")
  case False
  then have "list_all (\<lambda>b. b < 0x80) (bytes_of s)" using setBits_ascii [of s] by (simp add: not_le)
  with False show ?thesis by (simp add: dir_fields_def fields_ascii_spans fieldsFunc_ascii)
qed (simp add: dir_fields_def)


section \<open>Parsing one directive\<close>

definition lower :: "char \<Rightarrow> bool" where
  "lower c \<longleftrightarrow> CHR ''a'' \<le> c \<and> c \<le> CHR ''z''"

definition digit :: "char \<Rightarrow> bool" where
  "digit c \<longleftrightarrow> CHR ''0'' \<le> c \<and> c \<le> CHR ''9''"

text \<open>The regular expressions \<open>^[a-z]+$\<close> and \<open>^[a-z]([-_a-z0-9]*[a-z0-9])?$\<close>.\<close>

definition nameRe :: "string \<Rightarrow> bool" where
  "nameRe s \<longleftrightarrow> s \<noteq> [] \<and> list_all lower s"

definition tagRe :: "string \<Rightarrow> bool" where
  "tagRe s \<longleftrightarrow> s \<noteq> [] \<and> lower (hd s) \<and> (tl s = [] \<or>
     list_all (\<lambda>c. c = CHR ''-'' \<or> c = CHR ''_'' \<or> lower c \<or> digit c) (butlast (tl s))
     \<and> (lower (last (tl s)) \<or> digit (last (tl s))))"

text \<open>One round of the loop over the fields: the key to remember, the field and the directive.\<close>

definition parse_field ::
  "Field \<Rightarrow> (string \<times> Field) list \<Rightarrow> Directive \<Rightarrow> dir_err + string \<times> Field \<times> Directive" where
  "parse_field f seen d =
     (if HasPrefix (FieldValue f) ''tag:'' then
        let seenKey = FieldValue f; tag = drop 4 (FieldValue f)
        in case map_of seen seenKey of
             Some other \<Rightarrow> Inl (errDuplicateTag seenKey, [at_field other, at_field f])
           | None \<Rightarrow> if \<not> tagRe tag then Inl (errInvalidTag tag, [(fstart f + 4, fend f)])
                     else Inr (seenKey, f, d\<lparr>DirTags := DirTags d @ [f]\<rparr>)
      else case Cut (FieldValue f) (CHR ''='') of
        Some (key, value) \<Rightarrow>
          let f' = f\<lparr>Key := key, FieldValue := value\<rparr>
          in if value = '''' then Inl (errFieldHasNoValue, [at_field f'])
             else if \<not> nameRe key
               then Inl (errInvalidFieldName key, [(fstart f, fstart f + int (length key))])
             else (case map_of seen key of
                 Some other \<Rightarrow> Inl (errDuplicateField key, [at_field f', at_field other])
               | None \<Rightarrow> Inr (key, f', d\<lparr>DirFields := DirFields d @ [f']\<rparr>))
      | None \<Rightarrow>
          if \<not> nameRe (FieldValue f) then Inl (errInvalidOptionName (FieldValue f), [at_field f])
          else (case map_of seen (FieldValue f) of
              Some other \<Rightarrow> Inl (errDuplicateOption (FieldValue f), [at_field f, at_field other])
            | None \<Rightarrow> Inr (FieldValue f, f, d\<lparr>DirOptions := DirOptions d @ [f]\<rparr>)))"

fun parse_fields :: "Field list \<Rightarrow> (string \<times> Field) list \<Rightarrow> Directive \<Rightarrow> dir_err + Directive" where
  "parse_fields [] seen d = Inr d"
| "parse_fields (f # fs) seen d = (case parse_field f seen d of
       Inl e \<Rightarrow> Inl e
     | Inr (seenKey, f', d') \<Rightarrow> parse_fields fs ((seenKey, f') # seen) d')"

definition parseOne :: "int \<Rightarrow> string \<Rightarrow> (dir_err + Directive) option" where
  "parseOne pos line = (case dir_fields (pos + 7) line of
       None \<Rightarrow> None
     | Some [] \<Rightarrow> Some (Inl (errMissingDirectiveName, [(pos, pos + 7 + int (length line))]))
     | Some (n # fs) \<Rightarrow> Some (parse_fields fs []
         \<lparr>DirName = FieldValue n, DirOptions = [], DirFields = [], DirTags = [], dstart = pos,
          nameEnd = pos + 7 + int (length (FieldValue n)), dend = pos + 7 + int (length line)\<rparr>))"


subsection \<open>Which directives are accepted\<close>

datatype item = OptionItem | FieldItem string string | TagItem

definition item_of :: "string \<Rightarrow> item" where
  "item_of v = (if HasPrefix v ''tag:'' then TagItem else case Cut v (CHR ''='') of
     Some (k, x) \<Rightarrow> FieldItem k x | None \<Rightarrow> OptionItem)"

definition item_key :: "string \<Rightarrow> string" where
  "item_key v = (case item_of v of FieldItem k x \<Rightarrow> k | _ \<Rightarrow> v)"

definition item_valid :: "string \<Rightarrow> bool" where
  "item_valid v = (case item_of v of TagItem \<Rightarrow> tagRe (drop 4 v)
     | FieldItem k x \<Rightarrow> nameRe k \<and> x \<noteq> '''' | OptionItem \<Rightarrow> nameRe v)"

definition keyed :: "Field \<Rightarrow> Field" where
  "keyed f = (case item_of (FieldValue f) of FieldItem k x \<Rightarrow> f\<lparr>Key := k, FieldValue := x\<rparr> | _ \<Rightarrow> f)"

definition add_item :: "Field \<Rightarrow> Directive \<Rightarrow> Directive" where
  "add_item f d = (case item_of (FieldValue f) of
       OptionItem \<Rightarrow> d\<lparr>DirOptions := DirOptions d @ [keyed f]\<rparr>
     | FieldItem k x \<Rightarrow> d\<lparr>DirFields := DirFields d @ [keyed f]\<rparr>
     | TagItem \<Rightarrow> d\<lparr>DirTags := DirTags d @ [keyed f]\<rparr>)"

lemma parse_field_iff:
  "parse_field f seen d = Inr (k, f', d') \<longleftrightarrow> item_valid (FieldValue f)
     \<and> item_key (FieldValue f) \<notin> fst ` set seen
     \<and> k = item_key (FieldValue f) \<and> f' = keyed f \<and> d' = add_item f d"
proof -
  have none: "k \<notin> fst ` set seen \<longleftrightarrow> map_of seen k = None" for k by (simp add: map_of_eq_None_iff)
  show ?thesis
    unfolding parse_field_def none
    by (auto simp: item_valid_def item_key_def keyed_def add_item_def item_of_def Let_def
        split: option.splits if_splits)
qed

lemma parse_fields_iff:
  "parse_fields fs seen d = Inr d' \<longleftrightarrow> list_all (\<lambda>f. item_valid (FieldValue f)) fs
     \<and> distinct (map (\<lambda>f. item_key (FieldValue f)) fs)
     \<and> (\<forall>f \<in> set fs. item_key (FieldValue f) \<notin> fst ` set seen) \<and> d' = fold add_item fs d"
proof (induction fs arbitrary: seen d)
  case (Cons f fs)
  show ?case
  proof (cases "parse_field f seen d")
    case (Inl e)
    then have "\<not> (item_valid (FieldValue f) \<and> item_key (FieldValue f) \<notin> fst ` set seen)"
      using parse_field_iff [of f seen d "item_key (FieldValue f)" "keyed f" "add_item f d"] by auto
    with Inl show ?thesis by auto
  next
    case (Inr r)
    then have "r = (item_key (FieldValue f), keyed f, add_item f d)"
      "item_valid (FieldValue f)" "item_key (FieldValue f) \<notin> fst ` set seen"
      using parse_field_iff [of f seen d "fst r" "fst (snd r)" "snd (snd r)"] by (auto simp: prod_eq_iff)
    with Inr Cons.IH [of "(item_key (FieldValue f), keyed f) # seen" "add_item f d"] show ?thesis
      by (auto simp: image_iff)
  qed
qed auto


subsection \<open>Words\<close>

text \<open>The words of a line, which are the values of its fields.\<close>

definition words :: "string \<Rightarrow> string list" where
  "words s = map (\<lambda>(b, e). drop b (take e s)) (word_spans 0 None s)"

definition is_word :: "string \<Rightarrow> bool" where
  "is_word w \<longleftrightarrow> w \<noteq> [] \<and> list_all (\<lambda>c. \<not> asciiSpace c) w"

definition ascii :: "string \<Rightarrow> bool" where
  "ascii s = list_all (\<lambda>c. of_char c < (128 :: nat)) s"

definition unwords :: "string list \<Rightarrow> string" where
  "unwords ws = Join '' '' ws"

lemma ascii_bytes: "ascii s \<longleftrightarrow> list_all (\<lambda>b. b < 0x80) (bytes_of s)"
  by (auto simp: ascii_def bytes_of_def list_all_iff word_less_nat_alt unat_of_nat)

lemma fields_words: "ascii s \<Longrightarrow> \<exists>fs. dir_fields pos s = Some fs \<and> map FieldValue fs = words s \<and> (\<forall>f \<in> set fs. Key f = '''')"
  by (auto simp: fields_eq fieldsFunc_ascii ascii_bytes words_def make_field_def)

lemma word_spans_word:
  assumes "list_all (\<lambda>c. \<not> asciiSpace c) w"
  shows "word_spans i (Some b) (w @ rest) = word_spans (i + length w) (Some b) rest"
  using assms by (induction w arbitrary: i) auto

lemma word_spans_first:
  assumes "is_word w"
  shows "word_spans i None w = [(i, i + length w)]"
    "word_spans i None (w @ CHR '' '' # rest) = (i, i + length w) # word_spans (i + length w + 1) None rest"
proof -
  obtain c w' where w: "w = c # w'" "\<not> asciiSpace c" "list_all (\<lambda>c. \<not> asciiSpace c) w'"
    using assms by (cases w) (auto simp: is_word_def)
  have "asciiSpace (CHR '' '')" by (simp add: asciiSpace_def)
  with w show "word_spans i None w = [(i, i + length w)]"
    "word_spans i None (w @ CHR '' '' # rest) = (i, i + length w) # word_spans (i + length w + 1) None rest"
    using word_spans_word [OF w(3), of "i + 1" i "[]"] word_spans_word [OF w(3), of "i + 1" i "CHR '' '' # rest"]
    by simp_all
qed

lemma spans_unwords:
  assumes "list_all is_word ws"
  shows "map (\<lambda>(b, e). drop b (take e (pre @ unwords ws))) (word_spans (length pre) None (unwords ws)) = ws"
  using assms
proof (induction ws arbitrary: pre)
  case (Cons w ws)
  show ?case
  proof (cases ws)
    case Nil
    with Cons.prems show ?thesis by (simp add: unwords_def word_spans_first)
  next
    case (Cons v vs)
    with Cons.prems Cons.IH [of "pre @ w @ '' ''"] show ?thesis
      by (simp add: unwords_def word_spans_first)
  qed
qed (simp add: unwords_def)

lemma words_unwords: "list_all is_word ws \<Longrightarrow> words (unwords ws) = ws"
  using spans_unwords [of ws "[]"] by (simp add: words_def)

lemma word_spans_words:
  assumes "(b, e) \<in> set (word_spans (length pre) start s)"
    "\<forall>b0 \<in> set_option start. b0 < length pre \<and> list_all (\<lambda>c. \<not> asciiSpace c) (drop b0 pre)"
  shows "is_word (drop b (take e (pre @ s)))"
  using assms
proof (induction s arbitrary: pre start)
  case Nil
  then show ?case by (cases start) (auto simp: is_word_def)
next
  case (Cons c s)
  note IH = Cons.IH [of "pre @ [c]"]
  show ?case
  proof (cases start)
    case None
    with Cons.prems IH [of None] IH [of "Some (length pre)"] show ?thesis by (auto split: if_splits)
  next
    case (Some b0)
    with Cons.prems IH [of None] IH [of "Some b0"] show ?thesis
      by (auto simp: is_word_def split: if_splits)
  qed
qed

lemma words_are_words: "list_all is_word (words s)"
  using word_spans_words [of _ _ "[]" None s] by (auto simp: words_def list_all_iff)

lemma words_ascii: "ascii s \<Longrightarrow> list_all ascii (words s)"
  by (auto simp: words_def ascii_def list_all_iff dest!: in_set_takeD in_set_dropD)


subsection \<open>Printing and parsing\<close>

definition fview :: "Field \<Rightarrow> string \<times> string" where
  "fview f = (Key f, FieldValue f)"

lemma fview_Equal: "map fview fs = map fview gs \<longleftrightarrow> list_all2 Field_Equal fs gs"
  unfolding list.rel_eq [symmetric] list.rel_map
  by (rule arg_cong [where f = "\<lambda>R. list_all2 R fs gs"]) (simp add: fview_def Field_Equal_def fun_eq_iff)

text \<open>What the printed form keeps of a directive: everything but the positions.\<close>

definition dir_view where
  "dir_view d = (DirName d, map fview (DirOptions d), map fview (DirFields d), map fview (DirTags d))"

definition select :: "(item \<Rightarrow> bool) \<Rightarrow> string list \<Rightarrow> (string \<times> string) list" where
  "select P vs = map (\<lambda>v. case item_of v of FieldItem k x \<Rightarrow> (k, x) | _ \<Rightarrow> ('''', v))
     (filter (\<lambda>v. P (item_of v)) vs)"

definition is_field :: "item \<Rightarrow> bool" where
  "is_field i \<longleftrightarrow> i \<noteq> OptionItem \<and> i \<noteq> TagItem"

lemma is_field_simps [simp]: "is_field (FieldItem k x)" "\<not> is_field OptionItem" "\<not> is_field TagItem"
  by (simp_all add: is_field_def)

lemma fold_add_item_view:
  assumes "\<forall>f \<in> set fs. Key f = ''''"
  shows "dir_view (fold add_item fs d) = (DirName d,
    map fview (DirOptions d) @ select (\<lambda>i. i = OptionItem) (map FieldValue fs),
    map fview (DirFields d) @ select is_field (map FieldValue fs),
    map fview (DirTags d) @ select (\<lambda>i. i = TagItem) (map FieldValue fs))"
  using assms
proof (induction fs arbitrary: d)
  case (Cons f fs)
  then show ?case
    by (cases "item_of (FieldValue f)")
      (auto simp: add_item_def keyed_def fview_def select_def)
qed (simp add: dir_view_def select_def)

text \<open>Acceptance in terms of the words of the line.\<close>

lemma parseOne_words:
  assumes "ascii line"
  shows "(\<exists>d. parseOne pos line = Some (Inr d) \<and> dir_view d = V) \<longleftrightarrow>
    (\<exists>n vs. words line = n # vs \<and> list_all item_valid vs \<and> distinct (map item_key vs)
      \<and> V = (n, select (\<lambda>i. i = OptionItem) vs, select is_field vs, select (\<lambda>i. i = TagItem) vs))"
proof -
  obtain fs where fs: "dir_fields (pos + 7) line = Some fs" "map FieldValue fs = words line"
    "\<forall>f \<in> set fs. Key f = ''''"
    using fields_words [OF assms] by blast
  show ?thesis
  proof (cases fs)
    case Nil
    with fs show ?thesis by (auto simp: parseOne_def)
  next
    case (Cons n gs)
    then have "words line = FieldValue n # map FieldValue gs" using fs(2) by simp
    with Cons fs(1,3) show ?thesis
      by (auto simp: parseOne_def parse_fields_iff fold_add_item_view comp_def list.pred_map)
  qed
qed

definition reorder :: "string list \<Rightarrow> string list" where
  "reorder vs = filter (\<lambda>v. item_of v = OptionItem) vs @ filter (\<lambda>v. is_field (item_of v)) vs
     @ filter (\<lambda>v. item_of v = TagItem) vs"

lemma item_of_field: "item_of v = FieldItem k x \<Longrightarrow> v = k @ ''='' @ x"
  by (auto simp: item_of_def Cut_Some_iff split: if_splits option.splits)

lemma print_select:
  "concat (map (\<lambda>f. '' '' @ snd f) (select (\<lambda>i. i = OptionItem) vs))
     = concat (map (\<lambda>v. '' '' @ v) (filter (\<lambda>v. item_of v = OptionItem) vs))"
  "concat (map (\<lambda>f. '' '' @ fst f @ ''='' @ snd f) (select is_field vs))
     = concat (map (\<lambda>v. '' '' @ v) (filter (\<lambda>v. is_field (item_of v)) vs))"
  "concat (map (\<lambda>f. '' '' @ snd f) (select (\<lambda>i. i = TagItem) vs))
     = concat (map (\<lambda>v. '' '' @ v) (filter (\<lambda>v. item_of v = TagItem) vs))"
proof -
  show "concat (map (\<lambda>f. '' '' @ fst f @ ''='' @ snd f) (select is_field vs))
     = concat (map (\<lambda>v. '' '' @ v) (filter (\<lambda>v. is_field (item_of v)) vs))"
    by (induction vs) (auto simp: select_def dest: item_of_field split: item.splits)
qed (induction vs; simp add: select_def)+

lemma unwords_Cons: "unwords (w # ws) = w @ concat (map (\<lambda>v. '' '' @ v) ws)"
  by (induction ws arbitrary: w) (auto simp: unwords_def)

lemma Directive_String_view:
  assumes "dir_view d = (n, select (\<lambda>i. i = OptionItem) vs, select is_field vs, select (\<lambda>i. i = TagItem) vs)"
  shows "Directive_String d = ''encore:'' @ unwords (n # reorder vs)"
proof -
  have "select (\<lambda>i. i = OptionItem) vs = map fview (DirOptions d)" "select is_field vs = map fview (DirFields d)"
    "select (\<lambda>i. i = TagItem) vs = map fview (DirTags d)" "DirName d = n"
    using assms by (simp_all add: dir_view_def)
  then have "Directive_String d = ''encore:'' @ n
     @ concat (map (\<lambda>f. '' '' @ snd f) (select (\<lambda>i. i = OptionItem) vs))
     @ concat (map (\<lambda>f. '' '' @ fst f @ ''='' @ snd f) (select is_field vs))
     @ concat (map (\<lambda>f. '' '' @ snd f) (select (\<lambda>i. i = TagItem) vs))"
    by (simp add: Directive_String_def fview_def comp_def)
  then show ?thesis
    unfolding print_select by (simp only: unwords_Cons reorder_def map_append concat_append append_assoc)
qed

lemma select_reorder:
  "select (\<lambda>i. i = OptionItem) (reorder vs) = select (\<lambda>i. i = OptionItem) vs"
  "select is_field (reorder vs) = select is_field vs"
  "select (\<lambda>i. i = TagItem) (reorder vs) = select (\<lambda>i. i = TagItem) vs"
  by (auto simp: select_def reorder_def filter_empty_conv is_field_def cong: filter_cong)

lemma mset_reorder: "mset (reorder vs) = mset vs"
  by (induction vs) (auto simp: reorder_def is_field_def)

lemma accepted_reparse:
  assumes "parseOne pos line = Some (Inr d)" "ascii line"
  shows "\<exists>d'. parseOne pos' (drop 7 (Directive_String d)) = Some (Inr d') \<and> dir_view d' = dir_view d"
proof -
  obtain n vs where vs: "words line = n # vs" "list_all item_valid vs" "distinct (map item_key vs)"
    "dir_view d = (n, select (\<lambda>i. i = OptionItem) vs, select is_field vs, select (\<lambda>i. i = TagItem) vs)"
    using parseOne_words [OF assms(2), of pos "dir_view d"] assms(1) by auto
  have set: "set (reorder vs) = set vs" using mset_reorder mset_eq_setD by metis
  have line: "drop 7 (Directive_String d) = unwords (n # reorder vs)"
    unfolding Directive_String_view [OF vs(4)] by simp
  have "list_all is_word (n # reorder vs)"
    using words_are_words [of line] vs(1) set by (simp add: list_all_iff)
  then have "words (unwords (n # reorder vs)) = n # reorder vs" by (rule words_unwords)
  moreover have "ascii (unwords (n # reorder vs))"
  proof -
    have "list_all ascii (n # vs)" using words_ascii [OF assms(2)] vs(1) by simp
    then show ?thesis using set by (auto simp: unwords_Cons ascii_def list_all_iff)
  qed
  moreover have "list_all item_valid (reorder vs)" using vs(2) set by (simp add: list_all_iff)
  moreover have "distinct (map item_key (reorder vs))"
    using vs(3) mset_reorder [of vs] by (metis mset_eq_imp_distinct_iff mset_map)
  ultimately show ?thesis
    unfolding line vs(4) using parseOne_words [of "unwords (n # reorder vs)" pos']
    by (auto simp: select_reorder)
qed


section \<open>Comment groups\<close>

text \<open>A comment with its position and text, as \<open>go/ast\<close> has it.\<close>

record Comment =
  Slash :: int
  CText :: string

definition isDirective :: "string \<Rightarrow> bool" where
  "isDirective c \<longleftrightarrow> HasPrefix c ''line '' \<or> HasPrefix c ''extern '' \<or> HasPrefix c ''export '' \<or>
     (let colon = IndexByte c (CHR '':'')
      in 0 < colon \<and> nat colon + 1 < length c \<and>
         list_all (\<lambda>b. lower b \<or> digit b) (take (nat colon) c) \<and>
         (lower (c ! (nat colon + 1)) \<or> digit (c ! (nat colon + 1))))"

definition isWhitespace :: "char \<Rightarrow> bool" where
  "isWhitespace ch \<longleftrightarrow> ch \<in> {CHR '' '', CHR 0x09, CHR 0x0A, CHR 0x0D}"

definition stripTrailingWhitespace :: "string \<Rightarrow> string" where
  "stripTrailingWhitespace s = rev (dropWhile isWhitespace (rev s))"

text \<open>The text of one comment without its markers; no lines for
  directives of the Go toolchain's form, which \<open>CommentGroup.Text\<close> leaves out.\<close>

definition comment_lines :: "string \<Rightarrow> string list" where
  "comment_lines c = (let lines = (\<lambda>t. map stripTrailingWhitespace (Split (CHR 0x0A) t)) in
     if take 1 (drop 1 c) = ''/'' then
       let t = drop 2 c in
       if t = [] then lines t
       else if hd t = CHR '' '' then lines (tl t)
       else if isDirective t then []
       else lines t
     else if take 1 (drop 1 c) = ''*'' then lines (drop 2 (take (length c - 2) c))
     else lines c)"

text \<open>Leading blank lines go, and of several blank lines one stays.\<close>

fun squeeze_blank :: "string list \<Rightarrow> string list \<Rightarrow> string list" where
  "squeeze_blank acc [] = acc"
| "squeeze_blank acc (l # ls) =
     squeeze_blank (if l \<noteq> '''' \<or> (acc \<noteq> [] \<and> last acc \<noteq> '''') then acc @ [l] else acc) ls"

definition CommentGroup_Text :: "Comment list \<Rightarrow> string" where
  "CommentGroup_Text cg = (let lines = squeeze_blank [] (concat (map (\<lambda>c. comment_lines (CText c)) cg))
     in Join [CHR 0x0A] (if lines \<noteq> [] \<and> last lines \<noteq> '''' then lines @ [''''] else lines))"

definition CommentGroup_Pos :: "Comment list \<Rightarrow> int" where
  "CommentGroup_Pos cg = Slash (hd cg)"

text \<open>\<open>bytes.Index\<close> and \<open>strings.TrimSpace\<close>.\<close>

fun Index_from :: "nat \<Rightarrow> string \<Rightarrow> string \<Rightarrow> nat option" where
  "Index_from i [] t = (if t = [] then Some i else None)"
| "Index_from i (c # s) t = (if HasPrefix (c # s) t then Some i else Index_from (i + 1) s t)"

definition TrimSpace :: "string \<Rightarrow> string" where
  "TrimSpace s = (let rs = filter (\<lambda>(i, r). \<not> IsSpace r) (range_str 0 (bytes_of s))
     in if rs = [] then []
        else let b = fst (hd rs); e = fst (last rs)
             in drop b (take (e + snd (DecodeRune (bytes_of (drop e s)))) s))"


section \<open>The directive of a comment group\<close>

text \<open>The outcome of parsing several lines: all directives, or the first failure.\<close>

fun parse_all :: "(int \<times> string) list \<Rightarrow> (dir_err + Directive list) option" where
  "parse_all [] = Some (Inr [])"
| "parse_all ((pos, line) # rest) = (case parseOne pos line of
       None \<Rightarrow> None
     | Some (Inl e) \<Rightarrow> Some (Inl e)
     | Some (Inr d) \<Rightarrow> (case parse_all rest of
           Some (Inr ds) \<Rightarrow> Some (Inr (d # ds))
         | r \<Rightarrow> r))"

definition multiple :: "Directive list \<Rightarrow> dir_err" where
  "multiple dirs = (errMultipleDirectives, map (\<lambda>d. (dstart d, dend d)) dirs)"

definition standard_lines :: "Comment list \<Rightarrow> (int \<times> string) list" where
  "standard_lines cg = map (\<lambda>c. (Slash c + 2, drop 9 (CText c)))
     (filter (\<lambda>c. HasPrefix (CText c) ''//encore:'') cg)"

text \<open>The position of a legacy directive: where its line occurs first in a comment.\<close>

fun legacy_pos :: "Comment list \<Rightarrow> int \<Rightarrow> string \<Rightarrow> int" where
  "legacy_pos [] pos line = pos"
| "legacy_pos (c # cs) pos line = (case Index_from 0 (CText c) line of
       Some i \<Rightarrow> Slash c + int i | None \<Rightarrow> legacy_pos cs pos line)"

definition legacy_lines :: "Comment list \<Rightarrow> (int \<times> string) list" where
  "legacy_lines cg = map (\<lambda>line. (legacy_pos cg (CommentGroup_Pos cg) line, drop 7 line))
     (filter (\<lambda>line. HasPrefix line ''encore:'') (Split (CHR 0x0A) (CommentGroup_Text cg)))"

definition doc_lines :: "Comment list \<Rightarrow> string list" where
  "doc_lines cg = filter (\<lambda>line. \<not> HasPrefix line ''encore:'') (Split (CHR 0x0A) (CommentGroup_Text cg))"

definition Directive_Parse ::
  "Comment list option \<Rightarrow> (dir_err + Directive option \<times> string) option" where
  "Directive_Parse cgo = (case cgo of None \<Rightarrow> Some (Inr (None, ''''))
     | Some cg \<Rightarrow> (case parse_all (standard_lines cg) of
         None \<Rightarrow> None
       | Some (Inl e) \<Rightarrow> Some (Inl e)
       | Some (Inr [d]) \<Rightarrow> Some (Inr (Some d, CommentGroup_Text cg))
       | Some (Inr (d1 # d2 # ds)) \<Rightarrow> Some (Inl (multiple (d1 # d2 # ds)))
       | Some (Inr []) \<Rightarrow> (case parse_all (legacy_lines cg) of
             None \<Rightarrow> None
           | Some (Inl e) \<Rightarrow> Some (Inl e)
           | Some (Inr []) \<Rightarrow> Some (Inr (None, CommentGroup_Text cg))
           | Some (Inr [d]) \<Rightarrow> Some (Inr (Some d, TrimSpace (Join [CHR 0x0A] (doc_lines cg))))
           | Some (Inr ds) \<Rightarrow> Some (Inl (multiple ds)))))"


section \<open>Validation\<close>

text \<open>
  \<open>Validate\<close> calls the functions of its specification, which update a state of the caller (the
  endpoint under construction) or report an error.
\<close>

record ('s, 'e) ValidateSpec =
  AllowedOptions :: "string list"
  AllowedFields :: "string list"
  ValidateOption :: "Field \<Rightarrow> 's \<Rightarrow> 'e + 's"
  ValidateField :: "Field \<Rightarrow> 's \<Rightarrow> 'e + 's"
  ValidateTag :: "Field \<Rightarrow> 's \<Rightarrow> 'e + 's"

fun validate_each :: "('x \<Rightarrow> 's \<Rightarrow> 'e + 's) \<Rightarrow> 'x list \<Rightarrow> 's \<Rightarrow> 'e + 's" where
  "validate_each step [] s = Inr s"
| "validate_each step (x # xs) s = (case step x s of Inl e \<Rightarrow> Inl e | Inr s' \<Rightarrow> validate_each step xs s')"

definition Directive_Validate ::
  "(dir_err \<Rightarrow> 'e) \<Rightarrow> Directive \<Rightarrow> ('s, 'e) ValidateSpec \<Rightarrow> 's \<Rightarrow> 'e + 's" where
  "Directive_Validate wrap d spec s0 =
     (case validate_each (\<lambda>opt s. if FieldValue opt \<notin> set (AllowedOptions spec)
          then Inl (wrap (errUnknownOption (FieldValue opt) (Join '', '' (AllowedOptions spec)), [at_field opt]))
          else ValidateOption spec opt s) (DirOptions d) s0 of
        Inl e \<Rightarrow> Inl e
      | Inr s1 \<Rightarrow>
     (case validate_each (\<lambda>f s. if Key f \<notin> set (AllowedFields spec)
          then Inl (wrap (errUnknownField (Key f) (Join '', '' (AllowedFields spec)), [at_field f]))
          else ValidateField spec f s) (DirFields d) s1 of
        Inl e \<Rightarrow> Inl e
      | Inr s2 \<Rightarrow> validate_each (ValidateTag spec) (DirTags d) s2))"


section \<open>Properties\<close>

definition dir_ok :: "Directive \<Rightarrow> bool" where
  "dir_ok d \<longleftrightarrow> list_all (\<lambda>f. Key f = '''' \<and> nameRe (FieldValue f)) (DirOptions d)
     \<and> list_all (\<lambda>f. nameRe (Key f) \<and> FieldValue f \<noteq> '''') (DirFields d)
     \<and> list_all (\<lambda>f. Key f = '''' \<and> HasPrefix (FieldValue f) ''tag:'' \<and> tagRe (drop 4 (FieldValue f))) (DirTags d)
     \<and> distinct (map FieldValue (DirOptions d) @ map Key (DirFields d) @ map FieldValue (DirTags d))"

lemma item_of_tag: "item_of v = TagItem \<longleftrightarrow> HasPrefix v ''tag:''"
  by (auto simp: item_of_def split: option.splits)

lemma select_keys:
  "map snd (select (\<lambda>i. i = OptionItem) vs) @ map fst (select is_field vs) @ map snd (select (\<lambda>i. i = TagItem) vs)
     = map item_key (reorder vs)"
  by (auto simp: select_def reorder_def item_key_def is_field_def split: item.splits)

lemma view_ok:
  assumes "dir_view d = (n, select (\<lambda>i. i = OptionItem) vs, select is_field vs, select (\<lambda>i. i = TagItem) vs)"
    "list_all item_valid vs" "distinct (map item_key vs)"
  shows "dir_ok d"
proof -
  have views: "map fview (DirOptions d) = select (\<lambda>i. i = OptionItem) vs"
    "map fview (DirFields d) = select is_field vs" "map fview (DirTags d) = select (\<lambda>i. i = TagItem) vs"
    using assms(1) by (simp_all add: dir_view_def)
  have "list_all (\<lambda>x. fst x = '''' \<and> nameRe (snd x)) (map fview (DirOptions d))"
    unfolding views using assms(2) by (auto simp: select_def list_all_iff item_valid_def)
  moreover have "list_all (\<lambda>x. nameRe (fst x) \<and> snd x \<noteq> '''') (map fview (DirFields d))"
    unfolding views using assms(2)
    by (auto simp: select_def list_all_iff item_valid_def is_field_def split: item.splits)
  moreover have "list_all (\<lambda>x. fst x = '''' \<and> HasPrefix (snd x) ''tag:'' \<and> tagRe (drop 4 (snd x))) (map fview (DirTags d))"
    unfolding views using assms(2)
    by (auto simp: select_def list_all_iff item_valid_def simp flip: item_of_tag)
  moreover have "map FieldValue (DirOptions d) @ map Key (DirFields d) @ map FieldValue (DirTags d)
    = map item_key (reorder vs)"
    unfolding select_keys [symmetric] views [symmetric] by (simp add: fview_def comp_def)
  moreover have "distinct (map item_key (reorder vs))"
    using assms(3) mset_reorder [of vs] by (metis mset_eq_imp_distinct_iff mset_map)
  ultimately show ?thesis by (simp add: dir_ok_def fview_def list.pred_map comp_def)
qed

lemma parseOne_view:
  assumes "parseOne pos line = Some (Inr d)"
  shows "\<exists>n vs. list_all item_valid vs \<and> distinct (map item_key vs)
    \<and> dir_view d = (n, select (\<lambda>i. i = OptionItem) vs, select is_field vs, select (\<lambda>i. i = TagItem) vs)"
proof -
  obtain n fs d0 where fs: "dir_fields (pos + 7) line = Some (n # fs)" "parse_fields fs [] d0 = Inr d"
    "DirOptions d0 = []" "DirFields d0 = []" "DirTags d0 = []"
    using assms by (auto simp: parseOne_def split: option.splits list.splits)
  have "\<forall>f \<in> set fs. Key f = ''''"
    using fs(1) by (auto simp: fields_eq fieldsFunc_def Let_def split: prod.splits)
  with fs(2-) show ?thesis
    by (intro exI [of _ "DirName d0"] exI [of _ "map FieldValue fs"])
      (auto simp: parse_fields_iff fold_add_item_view list.pred_map comp_def)
qed

text \<open>C40. The fast path of \<open>fields\<close> for ASCII lines computes the same fields with the same
  positions as the general routine, and never writes beyond the array that its counting pass
  dimensioned.\<close>

theorem fields_fast_path: "dir_fields startPos s = Some (fieldsFunc startPos s IsSpace)"
  by (rule fields_eq)

text \<open>A directive that \<open>parseOne\<close> accepts is well formed: option names and field names
  match their pattern, fields have values, tags match theirs, and no option, field name or tag
  occurs twice.\<close>

theorem directive_wellformed:
  assumes "parseOne pos line = Some (Inr d)"
  shows "dir_ok d"
  using parseOne_view [OF assms] view_ok by blast

definition sample_line :: string where
  "sample_line = ''api public  tag:cache-2 raw path=/a/:id method=GET,POST''"

definition sample_directive :: Directive where
  "sample_directive = projr (the (parseOne 10 sample_line))"

lemma sample_directive_parsed: "parseOne 10 sample_line = Some (Inr sample_directive)"
  by code_simp

theorem directive_wellformed_witness: "dir_ok sample_directive"
  using sample_directive_parsed by (rule directive_wellformed)

text \<open>C39. Printing an accepted ASCII directive and parsing the result, at any position, gives
  a directive with the same name, options, fields and tags.\<close>

theorem directive_roundtrip:
  assumes "parseOne pos line = Some (Inr d)" "ascii line"
  shows "\<exists>d'. parseOne pos' (drop 7 (Directive_String d)) = Some (Inr d') \<and> DirName d' = DirName d
    \<and> list_all2 Field_Equal (DirOptions d') (DirOptions d)
    \<and> list_all2 Field_Equal (DirFields d') (DirFields d) \<and> list_all2 Field_Equal (DirTags d') (DirTags d)"
  using accepted_reparse [OF assms, of pos'] by (auto simp: dir_view_def fview_Equal)

theorem directive_roundtrip_witness:
  "\<exists>d'. parseOne 0 (drop 7 (Directive_String sample_directive)) = Some (Inr d')
    \<and> DirName d' = DirName sample_directive
    \<and> list_all2 Field_Equal (DirOptions d') (DirOptions sample_directive)
    \<and> list_all2 Field_Equal (DirFields d') (DirFields sample_directive)
    \<and> list_all2 Field_Equal (DirTags d') (DirTags sample_directive)"
  using sample_directive_parsed by (rule directive_roundtrip) code_simp

end
