(* ===== verification/Api_Selector.thy ===== *)
theory Api_Selector
  imports Api_Directive
begin

text \<open>
  Selectors of endpoints and the sets of them that middleware and endpoints carry
  (\<open>v2/parser/apis/selector/selector.go\<close>). A set is a slice kept sorted; insertion and lookup
  search it by bisection, and two sets are compared by one walk along both. The lemmas show that
  all operations are those of a finite set of keys.
\<close>

section \<open>Selectors\<close>

definition SelAll :: string where "SelAll = ''all''"
definition SelTag :: string where "SelTag = ''tag''"

record Selector =
  SelType :: string
  SelValue :: string
  sel_startPos :: int
  sel_endPos :: int

definition Selector_String :: "Selector \<Rightarrow> string" where
  "Selector_String s = (if SelType s = SelAll then ''all'' else SelType s @ '':'' @ SelValue s)"

definition Selector_Key :: "Selector \<Rightarrow> string \<times> string" where
  "Selector_Key s = (SelType s, SelValue s)"

definition Selector_Equals :: "Selector \<Rightarrow> Selector \<Rightarrow> bool" where
  "Selector_Equals s other \<longleftrightarrow> Selector_Key s = Selector_Key other"

datatype meta_SelectorType = Selector_UNKNOWN | Selector_ALL | Selector_TAG

definition Selector_ToProto :: "Selector \<Rightarrow> meta_SelectorType \<times> string" where
  "Selector_ToProto s = (if SelType s = SelAll then Selector_ALL
     else if SelType s = SelTag then Selector_TAG else Selector_UNKNOWN, SelValue s)"

datatype sel_err_kind = errMissingSelectorType | errUnknownSelectorType string
  | errInvalidSelectorValue string

type_synonym sel_err = "sel_err_kind \<times> (int \<times> int) list"

definition Selector_Parse :: "int \<Rightarrow> string \<Rightarrow> sel_err + Selector" where
  "Selector_Parse startPos s =
     (if s = ''all'' then Inr \<lparr>SelType = SelAll, SelValue = '''', sel_startPos = 0, sel_endPos = 0\<rparr>
      else case Cut s (CHR '':'') of
        None \<Rightarrow> Inl (errMissingSelectorType, [(startPos, startPos + int (length s))])
      | Some (ty, val) \<Rightarrow>
          let sel = \<lparr>SelType = ty, SelValue = val, sel_startPos = startPos,
                     sel_endPos = startPos + int (length s)\<rparr>
          in if ty = SelTag
             then if \<not> tagRe val then Inl (errInvalidSelectorValue val, [(sel_startPos sel, sel_endPos sel)])
                  else Inr sel
             else Inl (errUnknownSelectorType ty, [(sel_startPos sel, sel_endPos sel)]))"


section \<open>Sets of selectors\<close>

type_synonym selector_set = "Selector list"

definition sel_index :: "selector_set \<Rightarrow> Selector \<Rightarrow> nat" where
  "sel_index vals sel = search (\<lambda>i. SelType (vals ! i) \<ge> SelType sel \<and> SelValue (vals ! i) \<ge> SelValue sel)
     0 (length vals)"

definition SelSet_Add :: "selector_set \<Rightarrow> Selector \<Rightarrow> selector_set \<times> bool" where
  "SelSet_Add vals sel = (let idx = sel_index vals sel in
     if idx < length vals \<and> Selector_Equals (vals ! idx) sel then (vals, False)
     else if idx = length vals then (vals @ [sel], True)
     else let vals' = take (idx + 1) vals @ drop idx vals in (vals'[idx := sel], True))"

definition NewSelSet :: "Selector list \<Rightarrow> selector_set" where
  "NewSelSet sels = fold (\<lambda>sel s. fst (SelSet_Add s sel)) sels []"

definition SelSet_Merge :: "selector_set \<Rightarrow> selector_set \<Rightarrow> selector_set" where
  "SelSet_Merge s other = fold (\<lambda>sel s. fst (SelSet_Add s sel)) other s"

definition SelSet_Contains :: "selector_set \<Rightarrow> Selector \<Rightarrow> bool" where
  "SelSet_Contains vals sel = (let idx = sel_index vals sel
     in idx < length vals \<and> Selector_Equals (vals ! idx) sel)"

text \<open>The walk along two sets.\<close>

function contains_walk :: "selector_set \<Rightarrow> selector_set \<Rightarrow> nat \<Rightarrow> nat \<Rightarrow> bool" where
  "contains_walk s other i j = (if i < length s \<and> j < length other then
       let iv = s ! i; jv = other ! j in
       if SelType iv = SelAll then True
       else if SelType iv = SelType jv then
         if Selector_Equals iv jv then True
         else if SelValue iv < SelValue jv then contains_walk s other (i + 1) j
         else contains_walk s other i (j + 1)
       else if SelType iv < SelType jv then contains_walk s other (i + 1) j
       else contains_walk s other i (j + 1)
     else False)"
  by pat_completeness auto
termination
  by (relation "measure (\<lambda>(s, other, i, j). (length s - i) + (length other - j))") auto

declare contains_walk.simps [simp del]

definition ContainsAny :: "selector_set \<Rightarrow> selector_set \<Rightarrow> bool" where
  "ContainsAny s other \<longleftrightarrow> list_ex (\<lambda>sel. SelType sel = SelAll) s \<or> contains_walk s other 0 0"

definition SelSet_ToProto :: "selector_set \<Rightarrow> (meta_SelectorType \<times> string) list" where
  "SelSet_ToProto s = map Selector_ToProto s"


section \<open>Sets of selectors are sets of keys\<close>

definition selector_ok :: "Selector \<Rightarrow> bool" where
  "selector_ok s \<longleftrightarrow> SelType s = SelAll \<and> SelValue s = '''' \<or> SelType s = SelTag \<and> tagRe (SelValue s)"

definition key_less :: "Selector \<Rightarrow> Selector \<Rightarrow> bool" where
  "key_less a b \<longleftrightarrow> SelType a < SelType b \<or> SelType a = SelType b \<and> SelValue a < SelValue b"

definition sel_set_ok :: "selector_set \<Rightarrow> bool" where
  "sel_set_ok s \<longleftrightarrow> list_all selector_ok s \<and> sorted_wrt key_less s"

definition keys :: "selector_set \<Rightarrow> (string \<times> string) set" where
  "keys s = Selector_Key ` set s"

lemma all_less_tag: "SelAll < SelTag"
  by (simp add: SelAll_def SelTag_def)

lemma key_less_trans: "key_less a b \<Longrightarrow> key_less b c \<Longrightarrow> key_less a c"
  by (auto simp: key_less_def)

lemma key_less_irrefl: "key_less a b \<Longrightarrow> \<not> Selector_Equals a b"
  by (auto simp: key_less_def Selector_Equals_def Selector_Key_def)

lemma key_less_total: "key_less a b \<or> Selector_Equals a b \<or> key_less b a"
  by (auto simp: key_less_def Selector_Equals_def Selector_Key_def)

lemma key_less_asym: "key_less a b \<Longrightarrow> \<not> key_less b a"
  by (auto simp: key_less_def)

text \<open>The test of the search compares type and value separately; on the selectors that exist this
  is the order of the keys.\<close>

lemma search_test:
  "selector_ok v \<Longrightarrow> selector_ok sel \<Longrightarrow>
     (SelType v \<ge> SelType sel \<and> SelValue v \<ge> SelValue sel) \<longleftrightarrow> \<not> key_less v sel"
  using all_less_tag by (auto simp: selector_ok_def key_less_def not_less)

lemma sel_index_split:
  assumes "sel_set_ok vals" "selector_ok sel"
  defines "idx \<equiv> sel_index vals sel"
  shows "idx \<le> length vals" "\<forall>v \<in> set (take idx vals). key_less v sel"
    "\<forall>v \<in> set (drop idx vals). \<not> key_less v sel"
proof -
  define f where "f = (\<lambda>i. SelType (vals ! i) \<ge> SelType sel \<and> SelValue (vals ! i) \<ge> SelValue sel)"
  have f: "f i \<longleftrightarrow> \<not> key_less (vals ! i) sel" if "i < length vals" for i
    using assms(1,2) that by (simp add: f_def search_test sel_set_ok_def list_all_length)
  have mono: "f b" if "a \<le> b" "b < length vals" "f a" for a b
    using that f key_less_trans [of "vals ! a" "vals ! b" sel] assms(1)
    by (cases "a = b") (auto simp: sel_set_ok_def sorted_wrt_iff_nth_less)
  have idx: "idx \<le> length vals" "\<forall>a < idx. \<not> f a" "idx < length vals \<longrightarrow> f idx"
    using search_spec [of 0 "length vals" f] mono by (auto simp: idx_def sel_index_def f_def)
  show "idx \<le> length vals" by (rule idx(1))
  show "\<forall>v \<in> set (take idx vals). key_less v sel"
    using idx f by (auto simp: in_set_conv_nth)
  show "\<forall>v \<in> set (drop idx vals). \<not> key_less v sel"
    using idx f mono [of idx] by (auto simp: in_set_conv_nth)
qed

lemma sel_index_found:
  assumes "sel_set_ok vals" "selector_ok sel"
  defines "idx \<equiv> sel_index vals sel"
  shows "(idx < length vals \<and> Selector_Equals (vals ! idx) sel) \<longleftrightarrow> Selector_Key sel \<in> keys vals"
    and "Selector_Key sel \<notin> keys vals \<Longrightarrow> \<forall>v \<in> set (drop idx vals). key_less sel v"
proof -
  note split = sel_index_split [OF assms(1,2), folded idx_def]
  have in_vals: "v \<in> set vals" if "v \<in> set (drop idx vals)" for v
    using that by (rule in_set_dropD)
  show "\<forall>v \<in> set (drop idx vals). key_less sel v" if new: "Selector_Key sel \<notin> keys vals"
  proof
    fix v assume v: "v \<in> set (drop idx vals)"
    have "\<not> Selector_Equals v sel"
      using new in_vals [OF v] by (auto simp: keys_def Selector_Equals_def image_iff)
    with split(3) v key_less_total [of v sel] show "key_less sel v" by auto
  qed
  show "(idx < length vals \<and> Selector_Equals (vals ! idx) sel) \<longleftrightarrow> Selector_Key sel \<in> keys vals"
  proof
    assume "Selector_Key sel \<in> keys vals"
    then obtain v where v: "v \<in> set vals" "Selector_Equals v sel" by (auto simp: keys_def Selector_Equals_def)
    have "v \<notin> set (take idx vals)" using split(2) key_less_irrefl [of v sel] v(2) by auto
    then have "v \<in> set (drop idx vals)"
      using v(1) set_append [of "take idx vals" "drop idx vals"] by simp
    then obtain r rs where rs: "drop idx vals = r # rs" "v = r \<or> v \<in> set rs"
      by (cases "drop idx vals") auto
    have "sorted_wrt key_less (r # rs)"
      using assms(1) sorted_wrt_drop [of key_less vals idx] rs(1) by (simp add: sel_set_ok_def)
    then have "v = r \<or> key_less r sel"
      using rs(2) v(2) by (auto simp: Selector_Equals_def Selector_Key_def key_less_def)
    with split(3) rs(1) v(2) have "Selector_Equals r sel" by auto
    moreover have "idx < length vals" "vals ! idx = r"
      using rs(1) by (metis drop_eq_Nil linorder_not_less list.discI,
          metis drop_eq_Nil hd_drop_conv_nth linorder_not_less list.discI list.sel(1))
    ultimately show "idx < length vals \<and> Selector_Equals (vals ! idx) sel" by simp
  qed (metis Selector_Equals_def image_eqI keys_def nth_mem)
qed

lemma take_upd_drop: "idx < length xs \<Longrightarrow> (take (idx + 1) xs @ drop idx xs)[idx := x] = take idx xs @ x # drop idx xs"
  by (simp add: list_update_append take_Suc_conv_app_nth)

lemma SelSet_Add_spec:
  assumes "sel_set_ok vals" "selector_ok sel" "SelSet_Add vals sel = (vals', added)"
  shows "sel_set_ok vals' \<and> keys vals' = insert (Selector_Key sel) (keys vals)
    \<and> (added \<longleftrightarrow> Selector_Key sel \<notin> keys vals)"
proof -
  define idx where "idx = sel_index vals sel"
  note split = sel_index_split [OF assms(1,2), folded idx_def]
  note found = sel_index_found [OF assms(1,2), folded idx_def]
  show ?thesis
  proof (cases "Selector_Key sel \<in> keys vals")
    case True
    with found(1) assms show ?thesis by (auto simp: SelSet_Add_def Let_def simp flip: idx_def)
  next
    case False
    have new: "vals' = take idx vals @ sel # drop idx vals" "added"
      using False found(1) assms(3) split(1) take_upd_drop [of idx vals sel]
      by (auto simp: SelSet_Add_def Let_def simp flip: idx_def split: if_splits)
    have "sorted_wrt key_less (take idx vals)" "sorted_wrt key_less (drop idx vals)"
      using assms(1) by (simp_all add: sel_set_ok_def sorted_wrt_take sorted_wrt_drop)
    moreover have "\<forall>a \<in> set (take idx vals). \<forall>b \<in> set (drop idx vals). key_less a b"
      using split(2) found(2) [OF False] key_less_trans by blast
    ultimately have "sorted_wrt key_less vals'"
      using split(2) found(2) [OF False] by (auto simp: new(1) sorted_wrt_append)
    moreover have "set vals' = insert sel (set vals)"
      unfolding new(1) using set_append [of "take idx vals" "drop idx vals"] by auto
    ultimately show ?thesis
      using assms(1,2) False new(2) by (auto simp: sel_set_ok_def keys_def list_all_iff)
  qed
qed

lemma SelSet_Add_fold:
  assumes "sel_set_ok s" "list_all selector_ok sels"
  shows "sel_set_ok (fold (\<lambda>sel s. fst (SelSet_Add s sel)) sels s)
    \<and> keys (fold (\<lambda>sel s. fst (SelSet_Add s sel)) sels s) = keys s \<union> keys sels"
  using assms
proof (induction sels arbitrary: s)
  case (Cons sel sels)
  have "sel_set_ok (fst (SelSet_Add s sel))" "keys (fst (SelSet_Add s sel)) = insert (Selector_Key sel) (keys s)"
    using SelSet_Add_spec [of s sel "fst (SelSet_Add s sel)" "snd (SelSet_Add s sel)"] Cons.prems by simp_all
  with Cons show ?case by (auto simp: keys_def)
qed (simp add: keys_def)

lemma SelSet_Contains_spec:
  "sel_set_ok vals \<Longrightarrow> selector_ok sel \<Longrightarrow> SelSet_Contains vals sel \<longleftrightarrow> Selector_Key sel \<in> keys vals"
  using sel_index_found(1) by (simp add: SelSet_Contains_def Let_def)

text \<open>The head of the smaller key meets nothing in the rest of the other set.\<close>

lemma key_less_rest:
  assumes "sorted_wrt key_less s" "j < length s" "key_less a (s ! j)" "b \<in> set (drop j s)"
  shows "\<not> Selector_Equals a b"
proof -
  have "drop j s = s ! j # drop (j + 1) s" using assms(2) by (simp add: Cons_nth_drop_Suc)
  moreover have "sorted_wrt key_less (drop j s)" using assms(1) by (rule sorted_wrt_drop)
  ultimately have "b = s ! j \<or> key_less (s ! j) b" using assms(4) by auto
  then have "key_less a b" using assms(3) key_less_trans by blast
  then show ?thesis by (rule key_less_irrefl)
qed

lemma Selector_Equals_sym: "Selector_Equals a b \<longleftrightarrow> Selector_Equals b a"
  by (auto simp: Selector_Equals_def)

lemma contains_walk_iff:
  assumes "sorted_wrt key_less s" "sorted_wrt key_less other" "\<forall>v \<in> set s. SelType v \<noteq> SelAll"
  shows "contains_walk s other i j \<longleftrightarrow> (\<exists>a \<in> set (drop i s). \<exists>b \<in> set (drop j other). Selector_Equals a b)"
proof (induction "(length s - i) + (length other - j)" arbitrary: i j rule: less_induct)
  case less
  note IH = less.hyps
  show ?case
  proof (cases "i < length s \<and> j < length other")
    case True
    define iv jv where "iv = s ! i" and "jv = other ! j"
    have drops: "drop i s = iv # drop (i + 1) s" "drop j other = jv # drop (j + 1) other"
      using True by (simp_all add: iv_def jv_def Cons_nth_drop_Suc)
    have not_all: "SelType iv \<noteq> SelAll" using assms(3) True by (simp add: iv_def)
    consider (eq) "Selector_Equals iv jv" | (smaller) "key_less iv jv" | (greater) "key_less jv iv"
      using key_less_total by blast
    then show ?thesis
    proof cases
      case eq
      then have "contains_walk s other i j"
        using True not_all
        by (subst contains_walk.simps) (simp add: Let_def Selector_Equals_def Selector_Key_def flip: iv_def jv_def)
      with eq show ?thesis by (auto simp: drops)
    next
      case smaller
      then have "contains_walk s other i j = contains_walk s other (i + 1) j"
        using True not_all smaller key_less_irrefl [OF smaller]
        by (subst contains_walk.simps) (auto simp: Let_def key_less_def simp flip: iv_def jv_def)
      also have "\<dots> \<longleftrightarrow> (\<exists>a \<in> set (drop (i + 1) s). \<exists>b \<in> set (drop j other). Selector_Equals a b)"
        using True by (intro IH) auto
      also have "\<dots> \<longleftrightarrow> (\<exists>a \<in> set (drop i s). \<exists>b \<in> set (drop j other). Selector_Equals a b)"
        using key_less_rest [OF assms(2) _ smaller [unfolded jv_def]] True unfolding drops(1) by auto
      finally show ?thesis .
    next
      case greater
      have ne: "\<not> Selector_Equals iv jv" using key_less_irrefl [OF greater] Selector_Equals_sym by blast
      moreover have "\<not> SelType iv < SelType jv" "SelType iv = SelType jv \<Longrightarrow> \<not> SelValue iv < SelValue jv"
        using greater by (auto simp: key_less_def)
      ultimately have "contains_walk s other i j = contains_walk s other i (j + 1)"
        using True not_all
        by (subst contains_walk.simps) (simp add: Let_def flip: iv_def jv_def)
      also have "\<dots> \<longleftrightarrow> (\<exists>a \<in> set (drop i s). \<exists>b \<in> set (drop (j + 1) other). Selector_Equals a b)"
        using True by (intro IH) auto
      also have "\<dots> \<longleftrightarrow> (\<exists>a \<in> set (drop i s). \<exists>b \<in> set (drop j other). Selector_Equals a b)"
      proof -
        have "\<not> Selector_Equals a jv" if "a \<in> set (drop i s)" for a
          using key_less_rest [OF assms(1) _ greater [unfolded iv_def] that] True
            Selector_Equals_sym [of a jv] by simp
        then show ?thesis unfolding drops(2) by auto
      qed
      finally show ?thesis .
    qed
  qed (subst contains_walk.simps, auto)
qed

lemma ContainsAny_spec:
  assumes "sel_set_ok s" "sel_set_ok other"
  shows "ContainsAny s other \<longleftrightarrow> (SelAll, '''') \<in> keys s \<or> keys s \<inter> keys other \<noteq> {}"
proof (cases "list_ex (\<lambda>sel. SelType sel = SelAll) s")
  case True
  then obtain v where "v \<in> set s" "SelType v = SelAll" by (auto simp: list_ex_iff)
  moreover have "selector_ok v" using assms(1) \<open>v \<in> set s\<close> by (auto simp: sel_set_ok_def list_all_iff)
  ultimately have "Selector_Key v = (SelAll, '''')"
    using all_less_tag by (auto simp: selector_ok_def Selector_Key_def)
  with True \<open>v \<in> set s\<close> show ?thesis
    by (auto simp: ContainsAny_def keys_def image_iff) (metis)
next
  case False
  then have none: "\<forall>v \<in> set s. SelType v \<noteq> SelAll" by (auto simp: list_ex_iff)
  then have "(SelAll, '''') \<notin> keys s" by (auto simp: keys_def Selector_Key_def)
  moreover have "contains_walk s other 0 0 \<longleftrightarrow> (\<exists>a \<in> set s. \<exists>b \<in> set other. Selector_Equals a b)"
    using contains_walk_iff [of s other 0 0] assms none by (simp add: sel_set_ok_def)
  moreover have "(\<exists>a \<in> set s. \<exists>b \<in> set other. Selector_Equals a b) \<longleftrightarrow> keys s \<inter> keys other \<noteq> {}"
    unfolding keys_def Selector_Equals_def by blast
  ultimately show ?thesis using False by (simp add: ContainsAny_def)
qed

lemma Selector_Parse_sound:
  assumes "Selector_Parse pos s = Inr sel"
  shows "selector_ok sel \<and> Selector_String sel = s"
  using assms all_less_tag
  by (auto simp: Selector_Parse_def selector_ok_def Selector_String_def Let_def Cut_Some_iff
      split: if_splits option.splits)

lemma Selector_Parse_complete:
  assumes "selector_ok sel"
  shows "\<exists>sel'. Selector_Parse pos (Selector_String sel) = Inr sel' \<and> Selector_Equals sel' sel"
proof (cases "SelType sel = SelAll")
  case True
  with assms all_less_tag show ?thesis
    by (auto simp: Selector_Parse_def Selector_String_def Selector_Equals_def Selector_Key_def selector_ok_def)
next
  case False
  with assms have "SelType sel = SelTag" "tagRe (SelValue sel)" by (auto simp: selector_ok_def)
  moreover have "Cut (SelTag @ '':'' @ SelValue sel) (CHR '':'') = Some (SelTag, SelValue sel)"
    by (simp add: Cut_Some_iff SelTag_def)
  ultimately show ?thesis
    using False by (simp add: Selector_Parse_def Selector_String_def Selector_Equals_def Selector_Key_def SelTag_def)
qed


section \<open>Properties\<close>

definition sample_selectors :: "Selector list" where
  "sample_selectors = map (\<lambda>s. projr (Selector_Parse 5 s)) [''tag:db'', ''all'', ''tag:api'']"

lemma sample_selectors_ok: "list_all selector_ok sample_selectors"
  by code_simp

lemma sample_set_ok: "sel_set_ok (NewSelSet sample_selectors)"
  using SelSet_Add_fold [of "[]", OF _ sample_selectors_ok]
  by (simp add: NewSelSet_def sel_set_ok_def)

text \<open>A sorted slice of selectors behaves as a set of keys: \<open>Add\<close> keeps it sorted,
  adds exactly the key of the selector and reports whether it was new, and \<open>Contains\<close> then finds
  exactly the keys of the set by bisection.\<close>

theorem selector_sets_are_sets:
  assumes "sel_set_ok s" "selector_ok sel" "SelSet_Add s sel = (s', added)"
  shows "sel_set_ok s' \<and> keys s' = insert (Selector_Key sel) (keys s)
    \<and> (added \<longleftrightarrow> Selector_Key sel \<notin> keys s)
    \<and> (\<forall>x. selector_ok x \<longrightarrow> (SelSet_Contains s' x \<longleftrightarrow> Selector_Key x \<in> keys s'))"
  using SelSet_Add_spec [OF assms] SelSet_Contains_spec by blast

theorem selector_sets_are_sets_witness:
  "sel_set_ok [hd sample_selectors] \<and> keys [hd sample_selectors] = insert (Selector_Key (hd sample_selectors)) (keys [])
    \<and> Selector_Key (hd sample_selectors) \<notin> keys [] \<and> SelSet_Contains [hd sample_selectors] (hd sample_selectors)"
proof -
  have "SelSet_Add [] (hd sample_selectors) = ([hd sample_selectors], True)" by code_simp
  moreover have "selector_ok (hd sample_selectors)" by code_simp
  moreover have "sel_set_ok []" by (simp add: sel_set_ok_def)
  ultimately show ?thesis
    using selector_sets_are_sets [of "[]" "hd sample_selectors" "[hd sample_selectors]" True] by simp
qed

text \<open>The simultaneous walk of \<open>ContainsAny\<close> decides whether the first set selects
  everything or the two sets have a key in common.\<close>

theorem contains_any_intersects:
  assumes "sel_set_ok s" "sel_set_ok other"
  shows "ContainsAny s other \<longleftrightarrow> (SelAll, '''') \<in> keys s \<or> keys s \<inter> keys other \<noteq> {}"
  using assms by (rule ContainsAny_spec)

theorem contains_any_intersects_witness:
  "ContainsAny (NewSelSet sample_selectors) (NewSelSet sample_selectors) \<longleftrightarrow>
     (SelAll, '''') \<in> keys (NewSelSet sample_selectors)
     \<or> keys (NewSelSet sample_selectors) \<inter> keys (NewSelSet sample_selectors) \<noteq> {}"
  by (rule contains_any_intersects [OF sample_set_ok sample_set_ok])

end
