(* ===== verification/Resource_Path.thy ===== *)
theory Resource_Path
  imports Go_Text
begin

text \<open>
  Paths of API endpoints and cache keys (\<open>v2/internals/resourcepaths/paths.go\<close>): the data
  types, printing, parsing with all its errors, and the translation to the metadata message.
  The central fact is that \<open>Parse\<close> accepts exactly the texts of well-formed paths and that the
  positions it records delimit the segments in the source.
\<close>

section \<open>Data\<close>

datatype SegmentType = Literal | Param | Wildcard | Fallback

datatype BuiltinKind = schema_Invalid | schema_Any | schema_Bool | schema_Int | schema_Int8 | schema_Int16 | schema_Int32 | schema_Int64
  | schema_Uint | schema_Uint8 | schema_Uint16 | schema_Uint32 | schema_Uint64 | schema_Float32 | schema_Float64
  | schema_String | schema_Bytes | schema_Time | schema_UUID | schema_JSON | schema_UserID | schema_Error | schema_unsupported

record Segment =
  SegType :: SegmentType
  Value :: string
  ValueType :: BuiltinKind
  SegStartPos :: int
  SegEndPos :: int

record Path =
  StartPos :: int
  Segments :: "Segment list"

record Options =
  AllowWildcard :: bool
  AllowFallback :: bool
  PrefixSlash :: bool

definition Path_Pos :: "Path \<Rightarrow> int" where
  "Path_Pos p = StartPos p"

definition Segment_Pos :: "Segment \<Rightarrow> int" where
  "Segment_Pos s = SegStartPos s"

definition Segment_End :: "Segment \<Rightarrow> int" where
  "Segment_End s = SegEndPos s"

definition Path_End :: "Path \<Rightarrow> int" where
  "Path_End p = (if Segments p \<noteq> [] then Segment_End (last (Segments p)) else StartPos p)"

fun type_mark :: "SegmentType \<Rightarrow> string" where
  "type_mark Param = '':''"
| "type_mark Wildcard = ''*''"
| "type_mark Fallback = ''!''"
| "type_mark Literal = ''''"

definition Segment_String :: "Segment \<Rightarrow> string" where
  "Segment_String s = type_mark (SegType s) @ Value s"

definition Path_String :: "Path \<Rightarrow> string" where
  "Path_String p = concat (map (\<lambda>s. ''/'' @ type_mark (SegType s) @ Value s) (Segments p))"

definition Path_Params :: "Path \<Rightarrow> Segment list" where
  "Path_Params p = filter (\<lambda>s. SegType s \<noteq> Literal) (Segments p)"

definition NumParams :: "Path \<Rightarrow> nat" where
  "NumParams p = fold (\<lambda>s n. if SegType s \<noteq> Literal then n + 1 else n) (Segments p) 0"

definition HasFallback :: "Path \<Rightarrow> bool" where
  "HasFallback p = list_ex (\<lambda>s. SegType s = Fallback) (Segments p)"


section \<open>Errors\<close>

text \<open>The errors of \<open>errors.go\<close>; a reported error has its positions attached.\<close>

datatype path_err_kind = errEmptyPath | errInvalidPathPrefix | errInvalidPathMissingPrefix
  | errInvalidPathURI | errPathContainedQuery | errEmptySegment | errTrailingSlash
  | errParameterMissingName | errInvalidParamIdentifier | errWildcardNotLastSegment
  | errFallbackNotLastSegment | errDuplicatePath
  | errConflictingParameterizedPath string Path | errConflictingWildcardPath string Path
  | errConflictingLiteralPath string Path | errConflictingFallbackPath string Path

record path_err =
  err :: path_err_kind
  at :: "(int \<times> int) list"

abbreviation err_at :: "path_err_kind \<Rightarrow> (int \<times> int) list \<Rightarrow> path_err" where
  "err_at k ps \<equiv> \<lparr>err = k, at = ps\<rparr>"

definition AtGoNode_seg :: "Segment \<Rightarrow> int \<times> int" where
  "AtGoNode_seg s = (Segment_Pos s, Segment_End s)"

definition AtGoNode_path :: "Path \<Rightarrow> int \<times> int" where
  "AtGoNode_path p = (Path_Pos p, Path_End p)"


section \<open>Parsing\<close>

definition segment_kind :: "Options \<Rightarrow> string \<Rightarrow> SegmentType \<times> string" where
  "segment_kind opts val =
     (if val \<noteq> [] \<and> hd val = CHR '':'' then (Param, tl val)
      else if val \<noteq> [] \<and> hd val = CHR ''*'' \<and> AllowWildcard opts then (Wildcard, tl val)
      else if val \<noteq> [] \<and> hd val = CHR ''!'' \<and> AllowFallback opts then (Fallback, tl val)
      else (Literal, val))"

definition make_segment :: "Options \<Rightarrow> string \<Rightarrow> int \<Rightarrow> Segment" where
  "make_segment opts val segStart = \<lparr>SegType = fst (segment_kind opts val),
     Value = snd (segment_kind opts val), ValueType = schema_String,
     SegStartPos = segStart - 1, SegEndPos = segStart + int (length val) - 1\<rparr>"

text \<open>The loop that splits the path, with the part still to be read, the position of its first
  byte and the segments found so far.\<close>

function parse_segments ::
  "Options \<Rightarrow> string \<Rightarrow> int \<Rightarrow> Segment list \<Rightarrow> path_err + Segment list" where
  "parse_segments opts path0 segStart0 segs =
     (if path0 = [] then Inr segs
      else let slash = (PrefixSlash opts \<or> length segs > 0);
               path = (if slash then tl path0 else path0);
               segStart = (if slash then segStart0 + 1 else segStart0);
               idx = IndexByte path (CHR ''/'')
        in if idx = 0 then Inl (err_at errEmptySegment [(segStart - 1, segStart)])
           else let val = (if idx = -1 then path else take (nat idx) path);
                    rest = (if idx = -1 then [] else drop (nat idx) path);
                    segEnd = segStart + int (length val) - 1
             in parse_segments opts rest (segEnd + 1) (segs @ [make_segment opts val segStart]))"
  by pat_completeness auto
termination
proof (relation "measure (\<lambda>(_, path, _, _). length path)", goal_cases)
  case (2 opts path0 segStart0 segs b path segStart idx val rest segEnd)
  then show ?case
    by (cases path0) (auto simp: IndexByte_def less_Suc_eq_le split: if_splits)
qed simp

declare parse_segments.simps [simp del]

definition param_error :: "unicode_tables \<Rightarrow> Segment \<Rightarrow> path_err option" where
  "param_error U s = (if Value s = '''' then Some (err_at errParameterMissingName [AtGoNode_seg s])
     else if \<not> IsIdentifier U (Value s) then Some (err_at errInvalidParamIdentifier [AtGoNode_seg s])
     else None)"

fun validate_segments :: "unicode_tables \<Rightarrow> Segment list \<Rightarrow> path_err option" where
  "validate_segments U [] = None"
| "validate_segments U (s # rest) =
     (case (case SegType s of
         Literal \<Rightarrow> if Value s = '''' then Some (err_at errTrailingSlash [AtGoNode_seg s]) else None
       | Param \<Rightarrow> param_error U s
       | Wildcard \<Rightarrow> (case param_error U s of
             None \<Rightarrow> if rest \<noteq> [] then Some (err_at errWildcardNotLastSegment [AtGoNode_seg s]) else None
           | e \<Rightarrow> e)
       | Fallback \<Rightarrow> (case param_error U s of
             None \<Rightarrow> if rest \<noteq> [] then Some (err_at errFallbackNotLastSegment [AtGoNode_seg s]) else None
           | e \<Rightarrow> e))
      of Some e \<Rightarrow> Some e | None \<Rightarrow> validate_segments U rest)"

definition Path_Parse ::
  "unicode_tables \<Rightarrow> int \<Rightarrow> string \<Rightarrow> Options \<Rightarrow> path_err + Path" where
  "Path_Parse U startPos path options =
     (let endPos = int (length path) + startPos in
      if path = [] then Inl (err_at errEmptyPath [(startPos, endPos)])
      else if hd path \<noteq> CHR ''/'' \<and> PrefixSlash options
        then Inl (err_at errInvalidPathMissingPrefix [(startPos, endPos)])
      else if hd path = CHR ''/'' \<and> \<not> PrefixSlash options
        then Inl (err_at errInvalidPathPrefix [(startPos, endPos)])
      else let urlPath = (if \<not> PrefixSlash options then ''/'' @ path else path) in
        if \<not> ParseRequestURI_ok urlPath then Inl (err_at errInvalidPathURI [(startPos, endPos)])
        else if IndexByte path (CHR ''?'') \<noteq> -1
          then Inl (err_at errPathContainedQuery [(startPos, endPos)])
        else (case parse_segments options path startPos [] of
            Inl e \<Rightarrow> Inl e
          | Inr segs \<Rightarrow> (case validate_segments U segs of
                Some e \<Rightarrow> Inl e
              | None \<Rightarrow> Inr \<lparr>StartPos = startPos, Segments = segs\<rparr>)))"


section \<open>The grammar of paths\<close>

text \<open>Each segment starts at the slash in front of it and ends at its last byte.\<close>

fun tiled :: "int \<Rightarrow> Segment list \<Rightarrow> bool" where
  "tiled pos [] = True"
| "tiled pos (s # ss) \<longleftrightarrow> SegStartPos s = pos
     \<and> SegEndPos s = pos + int (length (Segment_String s)) \<and> tiled (SegEndPos s + 1) ss"

definition segment_ok :: "unicode_tables \<Rightarrow> Options \<Rightarrow> Segment \<Rightarrow> bool" where
  "segment_ok U opts s \<longleftrightarrow> CHR ''/'' \<notin> set (Value s) \<and> CHR ''?'' \<notin> set (Value s)
     \<and> ValueType s = schema_String
     \<and> (case SegType s of
          Literal \<Rightarrow> Value s \<noteq> [] \<and> hd (Value s) \<noteq> CHR '':''
            \<and> (AllowWildcard opts \<longrightarrow> hd (Value s) \<noteq> CHR ''*'')
            \<and> (AllowFallback opts \<longrightarrow> hd (Value s) \<noteq> CHR ''!'')
        | Param \<Rightarrow> IsIdentifier U (Value s)
        | Wildcard \<Rightarrow> AllowWildcard opts \<and> IsIdentifier U (Value s)
        | Fallback \<Rightarrow> AllowFallback opts \<and> IsIdentifier U (Value s))"

definition rest_last :: "Segment list \<Rightarrow> bool" where
  "rest_last segs = list_all (\<lambda>s. SegType s = Literal \<or> SegType s = Param) (butlast segs)"

definition path_ok :: "unicode_tables \<Rightarrow> Options \<Rightarrow> int \<Rightarrow> Path \<Rightarrow> bool" where
  "path_ok U opts pos p \<longleftrightarrow> StartPos p = pos \<and> Segments p \<noteq> []
     \<and> list_all (segment_ok U opts) (Segments p) \<and> rest_last (Segments p)
     \<and> tiled (if PrefixSlash opts then pos else pos - 1) (Segments p)
     \<and> ParseRequestURI_ok (Path_String p)"

text \<open>The source text of a path: without a leading slash where slashes are not prefixed.\<close>

definition path_text :: "Options \<Rightarrow> Path \<Rightarrow> string" where
  "path_text opts p = (if PrefixSlash opts then Path_String p else tl (Path_String p))"

definition segs_text :: "Segment list \<Rightarrow> string" where
  "segs_text ss = concat (map (\<lambda>s. CHR ''/'' # Segment_String s) ss)"

lemma segs_text_simps [simp]:
  "segs_text [] = []" "segs_text (s # ss) = CHR ''/'' # Segment_String s @ segs_text ss"
  by (simp_all add: segs_text_def)

lemma Path_String_segs: "Path_String p = segs_text (Segments p)"
  by (simp add: Path_String_def segs_text_def Segment_String_def)

definition seg_lex :: "Options \<Rightarrow> Segment \<Rightarrow> bool" where
  "seg_lex opts s \<longleftrightarrow> segment_kind opts (Segment_String s) = (SegType s, Value s)
     \<and> CHR ''/'' \<notin> set (Segment_String s) \<and> ValueType s = schema_String"

lemma Segment_String_make [simp]: "Segment_String (make_segment opts val st) = val"
  by (cases val) (auto simp: Segment_String_def make_segment_def segment_kind_def)

lemma seg_lex_make: "CHR ''/'' \<notin> set val \<Longrightarrow> seg_lex opts (make_segment opts val st)"
  unfolding seg_lex_def Segment_String_make by (simp add: make_segment_def)

lemma make_segment_lex:
  assumes "seg_lex opts s" "SegStartPos s = st - 1"
    "SegEndPos s = st - 1 + int (length (Segment_String s))"
  shows "make_segment opts (Segment_String s) st = s"
  using assms by (simp add: make_segment_def seg_lex_def)

lemma segs_text_hd: "segs_text ss = [] \<or> hd (segs_text ss) = CHR ''/''"
  by (cases ss) auto

lemma parse_segments_step:
  assumes "CHR ''/'' \<notin> set val" "val \<noteq> []" "rest = [] \<or> hd rest = CHR ''/''"
  shows "parse_segments opts ((if PrefixSlash opts \<or> segs \<noteq> [] then CHR ''/'' # val else val) @ rest) st segs
    = (let b = (if PrefixSlash opts \<or> segs \<noteq> [] then st + 1 else st)
       in parse_segments opts rest (b + int (length val)) (segs @ [make_segment opts val b]))"
proof -
  have "IndexByte (val @ rest) (CHR ''/'') = (if rest = [] then -1 else int (length val))"
    using assms by (cases rest) (auto simp: IndexByte_def takeWhile_append)
  with assms show ?thesis
    by (subst parse_segments.simps) (auto simp: Let_def)
qed

text \<open>The loop reads back the text of any list of segments, and returns only such lists.\<close>

lemma parse_segments_complete:
  assumes "list_all (seg_lex opts) new" "list_all (\<lambda>s. Segment_String s \<noteq> []) new"
    "PrefixSlash opts \<or> segs \<noteq> []" "tiled st new"
  shows "parse_segments opts (segs_text new) st segs = Inr (segs @ new)"
  using assms
proof (induction new arbitrary: st segs)
  case (Cons s new)
  have "make_segment opts (Segment_String s) (st + 1) = s"
    using Cons.prems by (intro make_segment_lex) auto
  moreover have "parse_segments opts (segs_text new) (st + 1 + int (length (Segment_String s))) (segs @ [s])
    = Inr ((segs @ [s]) @ new)"
    using Cons.prems by (intro Cons.IH) (auto simp: algebra_simps)
  ultimately show ?case
    using Cons.prems parse_segments_step [of "Segment_String s" "segs_text new" opts segs st]
    by (auto simp: seg_lex_def segs_text_hd Let_def)
qed (simp add: parse_segments.simps)

text \<open>One round of the loop, with the part up to the next slash taken off.\<close>

lemma parse_segments_unfold:
  fixes opts :: Options and segs :: "Segment list" and path0 :: string and st0 :: int
  assumes "path0 \<noteq> []"
  defines "slash \<equiv> PrefixSlash opts \<or> segs \<noteq> []"
  defines "path \<equiv> if slash then tl path0 else path0" and "b \<equiv> if slash then st0 + 1 else st0"
  defines "val \<equiv> takeWhile (\<lambda>c. c \<noteq> CHR ''/'') path"
  shows "parse_segments opts path0 st0 segs =
    (if path \<noteq> [] \<and> hd path = CHR ''/'' then Inl (err_at errEmptySegment [(b - 1, b)])
     else parse_segments opts (dropWhile (\<lambda>c. c \<noteq> CHR ''/'') path) (b + int (length val))
            (segs @ [make_segment opts val b]))"
proof -
  define idx where "idx = IndexByte path (CHR ''/'')"
  have v: "(if idx = -1 then path else take (nat idx) path) = val"
    "(if idx = -1 then [] else drop (nat idx) path) = dropWhile (\<lambda>c. c \<noteq> CHR ''/'') path"
    by (auto simp: idx_def val_def IndexByte_cases nat_IndexByte
        intro!: takeWhile_eq_all_conv [THEN iffD2, symmetric] dropWhile_eq_Nil_conv [THEN iffD2, symmetric])
  have z: "idx = 0 \<longleftrightarrow> path \<noteq> [] \<and> hd path = CHR ''/''"
    by (simp add: idx_def IndexByte_cases)
  have "0 < length segs \<longleftrightarrow> segs \<noteq> []" by simp
  with assms(1) show ?thesis
    by (subst parse_segments.simps)
      (simp add: Let_def v z [symmetric] slash_def [symmetric] path_def [symmetric] b_def [symmetric]
        idx_def [symmetric] del: length_greater_0_conv cong: if_cong)
qed

lemma parse_segments_sound:
  assumes "parse_segments opts path st segs = Inr segs'"
    "path = [] \<or> ((PrefixSlash opts \<or> segs \<noteq> []) \<longleftrightarrow> hd path = CHR ''/'')"
  shows "\<exists>new. segs' = segs @ new \<and> list_all (seg_lex opts) new
    \<and> (path = [] \<and> new = [] \<or> segs_text new = (if PrefixSlash opts \<or> segs \<noteq> [] then path else CHR ''/'' # path))
    \<and> tiled (if PrefixSlash opts \<or> segs \<noteq> [] then st else st - 1) new"
  using assms
proof (induction path arbitrary: st segs rule: length_induct)
  case (1 path0)
  define slash where "slash = (PrefixSlash opts \<or> segs \<noteq> [])"
  define path where "path = (if slash then tl path0 else path0)"
  define b where "b = (if slash then st + 1 else st)"
  define val where "val = takeWhile (\<lambda>c. c \<noteq> CHR ''/'') path"
  define rest where "rest = dropWhile (\<lambda>c. c \<noteq> CHR ''/'') path"
  define s where "s = make_segment opts val b"
  show ?case
  proof (cases "path0 = []")
    case True
    with "1.prems"(1) show ?thesis by (simp add: parse_segments.simps)
  next
    case False
    have ok: "path = [] \<or> hd path \<noteq> CHR ''/''"
      and rec: "parse_segments opts rest (b + int (length val)) (segs @ [s]) = Inr segs'"
      using "1.prems"(1)
      unfolding parse_segments_unfold [OF False] s_def b_def val_def rest_def path_def slash_def
      by (auto split: if_splits)
    have tx: "(if slash then path0 else CHR ''/'' # path0) = CHR ''/'' # val @ rest"
      using False "1.prems"(2) by (cases path0) (auto simp: val_def rest_def path_def slash_def)
    have hd: "rest = [] \<or> hd rest = CHR ''/''"
      unfolding rest_def using hd_dropWhile [of "\<lambda>c. c \<noteq> CHR ''/''" path] by blast
    have len: "length rest < length path0"
      using False ok length_dropWhile_le [of "\<lambda>c. c \<noteq> CHR ''/''" "tl path"]
      by (cases path; cases path0) (auto simp: rest_def path_def split: if_splits)
    obtain new where new: "segs' = (segs @ [s]) @ new" "list_all (seg_lex opts) new"
      "rest = [] \<and> new = [] \<or> segs_text new = rest" "tiled (b + int (length val)) new"
      using "1.IH" [rule_format, OF len rec] hd by auto
    have "seg_lex opts s"
      unfolding s_def by (rule seg_lex_make) (auto simp: val_def dest: set_takeWhileD)
    moreover have "tiled (if slash then st else st - 1) (s # new)"
      using new(4) unfolding tiled.simps s_def Segment_String_make
      by (auto simp: make_segment_def b_def)
    moreover have "segs_text (s # new) = (if slash then path0 else CHR ''/'' # path0)"
      using new(3) tx by (auto simp: s_def)
    ultimately show ?thesis
      using new(1,2) by (intro exI [of _ "s # new"]) (simp add: slash_def del: tiled.simps segs_text_simps)
  qed
qed

definition seg_valid :: "unicode_tables \<Rightarrow> Segment \<Rightarrow> bool" where
  "seg_valid U s \<longleftrightarrow> Value s \<noteq> [] \<and> (SegType s \<noteq> Literal \<longrightarrow> IsIdentifier U (Value s))"

lemma validate_segments_iff:
  "validate_segments U segs = None \<longleftrightarrow> list_all (seg_valid U) segs \<and> rest_last segs"
proof (induction segs)
  case (Cons s segs)
  then show ?case
    by (cases "SegType s"; cases segs)
      (auto simp: seg_valid_def rest_last_def param_error_def split: option.splits if_splits)
qed (simp add: rest_last_def)

lemma segment_ok_iff:
  "segment_ok U opts s \<longleftrightarrow> seg_lex opts s \<and> seg_valid U s \<and> CHR ''?'' \<notin> set (Segment_String s)"
  by (cases "Value s"; cases "SegType s")
    (auto simp: segment_ok_def seg_lex_def seg_valid_def Segment_String_def segment_kind_def
      IsIdentifier_def split: if_splits)

lemma seg_valid_nonempty: "list_all (seg_valid U) segs \<Longrightarrow> list_all (\<lambda>s. Segment_String s \<noteq> []) segs"
  by (auto simp: list_all_iff seg_valid_def Segment_String_def)

lemma query_segs_text:
  "CHR ''?'' \<notin> set (segs_text ss) \<longleftrightarrow> list_all (\<lambda>s. CHR ''?'' \<notin> set (Segment_String s)) ss"
  by (auto simp: segs_text_def list_all_iff)

text \<open>The loop without a leading slash reads its first segment and goes on with slashes.\<close>

lemma parse_segments_first:
  assumes "list_all (seg_lex opts) (s # ss)" "list_all (\<lambda>s. Segment_String s \<noteq> []) (s # ss)"
    "\<not> PrefixSlash opts" "tiled (pos - 1) (s # ss)"
  shows "parse_segments opts (tl (segs_text (s # ss))) pos [] = Inr (s # ss)"
proof -
  have "make_segment opts (Segment_String s) pos = s"
    using assms by (intro make_segment_lex) auto
  moreover have "parse_segments opts (segs_text ss) (pos + int (length (Segment_String s))) [s] = Inr ([s] @ ss)"
    using assms by (intro parse_segments_complete) (auto simp: algebra_simps)
  ultimately show ?thesis
    using assms parse_segments_step [of "Segment_String s" "segs_text ss" opts "[]" pos]
    by (auto simp: seg_lex_def segs_text_hd)
qed

lemma path_text_slash:
  assumes "path_ok U opts pos p"
  shows "path_text opts p \<noteq> []" "hd (path_text opts p) = CHR ''/'' \<longleftrightarrow> PrefixSlash opts"
    "(if \<not> PrefixSlash opts then ''/'' @ path_text opts p else path_text opts p) = Path_String p"
proof -
  obtain s ss where s: "Segments p = s # ss"
    using assms by (cases "Segments p") (auto simp: path_ok_def)
  then have "segment_ok U opts s" using assms by (simp add: path_ok_def)
  then have "Segment_String s \<noteq> []" "CHR ''/'' \<notin> set (Segment_String s)"
    by (auto simp: segment_ok_iff seg_lex_def seg_valid_def Segment_String_def)
  with s obtain c cs where "Path_String p = CHR ''/'' # c # cs" "c \<noteq> CHR ''/''"
    by (cases "Segment_String s") (auto simp: Path_String_segs)
  then show "path_text opts p \<noteq> []" "hd (path_text opts p) = CHR ''/'' \<longleftrightarrow> PrefixSlash opts"
    "(if \<not> PrefixSlash opts then ''/'' @ path_text opts p else path_text opts p) = Path_String p"
    by (simp_all add: path_text_def)
qed

lemma Path_Parse_complete:
  assumes "path_ok U opts pos p"
  shows "Path_Parse U pos (path_text opts p) opts = Inr p"
proof -
  have ok: "list_all (seg_lex opts) (Segments p)" "list_all (seg_valid U) (Segments p)"
    "CHR ''?'' \<notin> set (Path_String p)" "rest_last (Segments p)" "StartPos p = pos"
    using assms by (auto simp: path_ok_def list_all_iff segment_ok_iff Path_String_segs query_segs_text)
  have "parse_segments opts (path_text opts p) pos [] = Inr (Segments p)"
  proof (cases "PrefixSlash opts")
    case True
    with assms ok show ?thesis
      using parse_segments_complete [of opts "Segments p" "[]" pos] seg_valid_nonempty [of U "Segments p"]
      by (simp add: path_text_def Path_String_segs path_ok_def)
  next
    case False
    obtain s ss where s: "Segments p = s # ss"
      using assms by (cases "Segments p") (auto simp: path_ok_def)
    with False assms ok show ?thesis
      using parse_segments_first [of opts s ss pos] seg_valid_nonempty [of U "Segments p"]
      by (simp add: path_text_def Path_String_segs path_ok_def del: tiled.simps segs_text_simps)
  qed
  moreover have "CHR ''?'' \<notin> set (path_text opts p)"
    using ok(3) by (cases "Path_String p") (auto simp: path_text_def)
  moreover have "ParseRequestURI_ok (Path_String p)" using assms by (simp add: path_ok_def)
  ultimately show ?thesis
    using path_text_slash [OF assms] ok validate_segments_iff [of U "Segments p"]
    unfolding Path_Parse_def Let_def by (simp add: IndexByte_cases)
qed

lemma Path_Parse_sound:
  assumes "Path_Parse U pos path opts = Inr p"
  shows "path_ok U opts pos p \<and> path = path_text opts p"
proof -
  have ne: "path \<noteq> []" and hd: "hd path = CHR ''/'' \<longleftrightarrow> PrefixSlash opts"
    and uri: "ParseRequestURI_ok (if \<not> PrefixSlash opts then ''/'' @ path else path)"
    and q: "CHR ''?'' \<notin> set path" and p: "StartPos p = pos"
    and segs: "parse_segments opts path pos [] = Inr (Segments p)"
      "validate_segments U (Segments p) = None"
    using assms by (auto simp: Path_Parse_def Let_def IndexByte_cases split: if_splits sum.splits option.splits)
  have lex: "list_all (seg_lex opts) (Segments p)"
    and tx: "segs_text (Segments p) = (if PrefixSlash opts then path else CHR ''/'' # path)"
    and pos: "tiled (if PrefixSlash opts then pos else pos - 1) (Segments p)"
    using parse_segments_sound [OF segs(1)] ne hd
    by (auto split: if_splits)
  have "Segments p \<noteq> []" using tx ne by (cases "Segments p") (auto split: if_splits)
  moreover have "list_all (segment_ok U opts) (Segments p)"
    using lex segs(2) q tx query_segs_text [of "Segments p"]
    by (auto simp: segment_ok_iff validate_segments_iff list_all_iff split: if_splits)
  moreover have "ParseRequestURI_ok (Path_String p)"
    using uri tx by (simp add: Path_String_segs split: if_splits)
  moreover have "path = path_text opts p" using tx by (simp add: path_text_def Path_String_segs split: if_splits)
  ultimately show ?thesis
    using p pos segs(2) by (simp add: path_ok_def validate_segments_iff)
qed

lemma Path_Parse_iff:
  "Path_Parse U pos path opts = Inr p \<longleftrightarrow> path_ok U opts pos p \<and> path = path_text opts p"
  using Path_Parse_sound Path_Parse_complete by blast


section \<open>Positions of errors\<close>

lemma tiled_bounds:
  assumes "tiled st segs" "s \<in> set segs"
  shows "st \<le> SegStartPos s \<and> SegStartPos s \<le> SegEndPos s \<and> SegEndPos s < st + int (length (segs_text segs))"
  using assms by (induction segs arbitrary: st) (force simp: algebra_simps)+

lemma validate_segments_at:
  "validate_segments U segs = Some e \<Longrightarrow> \<exists>s \<in> set segs. at e = [AtGoNode_seg s]"
  by (induction segs)
    (auto simp: param_error_def split: option.splits if_splits SegmentType.splits)

lemma parse_segments_error_at:
  assumes "parse_segments opts path st segs = Inl e"
    "path = [] \<or> ((PrefixSlash opts \<or> segs \<noteq> []) \<longleftrightarrow> hd path = CHR ''/'')"
  shows "\<exists>a. at e = [(a, a + 1)] \<and> st \<le> a \<and> a + 1 \<le> st + int (length path)"
  using assms
proof (induction path arbitrary: st segs rule: length_induct)
  case (1 path0)
  define slash where "slash = (PrefixSlash opts \<or> segs \<noteq> [])"
  define path where "path = (if slash then tl path0 else path0)"
  define b where "b = (if slash then st + 1 else st)"
  define val where "val = takeWhile (\<lambda>c. c \<noteq> CHR ''/'') path"
  define rest where "rest = dropWhile (\<lambda>c. c \<noteq> CHR ''/'') path"
  have ne: "path0 \<noteq> []" using "1.prems"(1) by (auto simp: parse_segments.simps)
  have len: "int (length path0) = b - st + int (length val) + int (length rest)"
  proof -
    have "length val + length rest = length path"
      unfolding val_def rest_def by (metis length_append takeWhile_dropWhile_id)
    with ne show ?thesis by (cases path0) (auto simp: b_def path_def split: if_splits)
  qed
  show ?case
  proof (cases "path \<noteq> [] \<and> hd path = CHR ''/''")
    case True
    then have "slash" using "1.prems"(2) ne by (auto simp: path_def slash_def split: if_splits)
    moreover have "at e = [(b - 1, b)]"
      using "1.prems"(1) True
      unfolding parse_segments_unfold [OF ne] b_def path_def slash_def by (auto split: if_splits)
    ultimately show ?thesis using True len by (cases path0) (auto simp: b_def path_def)
  next
    case False
    then have rec: "parse_segments opts rest (b + int (length val)) (segs @ [make_segment opts val b]) = Inl e"
      using "1.prems"(1)
      unfolding parse_segments_unfold [OF ne] b_def val_def rest_def path_def slash_def
      by (auto split: if_splits)
    have "rest = [] \<or> hd rest = CHR ''/''"
      unfolding rest_def using hd_dropWhile [of "\<lambda>c. c \<noteq> CHR ''/''" path] by blast
    moreover have "length rest < length path0"
      using False ne length_dropWhile_le [of "\<lambda>c. c \<noteq> CHR ''/''" "tl path"]
      by (cases path; cases path0) (auto simp: rest_def path_def split: if_splits)
    ultimately obtain a where "at e = [(a, a + 1)]" "b + int (length val) \<le> a"
      "a + 1 \<le> b + int (length val) + int (length rest)"
      using "1.IH" [rule_format, OF _ rec] by auto
    with len show ?thesis by (auto simp: b_def split: if_splits)
  qed
qed

lemma Path_Parse_error_at:
  assumes "Path_Parse U pos path opts = Inl e"
  shows "\<exists>a b. at e = [(a, b)] \<and> (if PrefixSlash opts then pos else pos - 1) \<le> a \<and> a \<le> b
    \<and> b \<le> pos + int (length path)"
proof -
  consider (whole) "at e = [(pos, pos + int (length path))]"
    | (split) "parse_segments opts path pos [] = Inl e" "hd path = CHR ''/'' \<longleftrightarrow> PrefixSlash opts"
    | (seg) segs where "parse_segments opts path pos [] = Inr segs" "validate_segments U segs = Some e"
        "hd path = CHR ''/'' \<longleftrightarrow> PrefixSlash opts" "path \<noteq> []"
    using assms
    by (auto simp: Path_Parse_def Let_def algebra_simps split: if_splits sum.splits option.splits)
  then show ?thesis
  proof cases
    case split
    then show ?thesis using parse_segments_error_at [OF split(1)] by fastforce
  next
    case seg
    then obtain s where s: "s \<in> set segs" "at e = [AtGoNode_seg s]"
      using validate_segments_at by blast
    have "tiled (if PrefixSlash opts then pos else pos - 1) segs"
      "segs_text segs = (if PrefixSlash opts then path else CHR ''/'' # path)"
      using parse_segments_sound [OF seg(1)] seg(3,4) by auto
    with tiled_bounds [OF this(1) s(1)] s(2) show ?thesis
      by (auto simp: AtGoNode_seg_def Segment_Pos_def Segment_End_def split: if_splits)
  qed auto
qed


section \<open>Metadata\<close>

datatype PathSegment_SegmentType = PathSegment_LITERAL | PathSegment_PARAM | PathSegment_WILDCARD | PathSegment_FALLBACK

datatype PathSegment_ParamType = PathSegment_STRING | PathSegment_BOOL | PathSegment_INT8 | PathSegment_INT16 | PathSegment_INT32 | PathSegment_INT64 | PathSegment_INT
  | PathSegment_UINT8 | PathSegment_UINT16 | PathSegment_UINT32 | PathSegment_UINT64 | PathSegment_UINT | PathSegment_UUID

datatype Path_Type = Path_URL | Path_CACHE_KEYSPACE

record PathSegment =
  ps_type :: PathSegment_SegmentType
  ps_value :: string
  ps_value_type :: PathSegment_ParamType

record meta_Path =
  mp_segments :: "PathSegment list"
  mp_type :: Path_Type

fun segment_type_proto :: "SegmentType \<Rightarrow> PathSegment_SegmentType" where
  "segment_type_proto Literal = PathSegment_LITERAL"
| "segment_type_proto Param = PathSegment_PARAM"
| "segment_type_proto Wildcard = PathSegment_WILDCARD"
| "segment_type_proto Fallback = PathSegment_FALLBACK"

text \<open>The kinds a path parameter can have; the other kinds make \<open>ToProto\<close> panic.\<close>

fun value_type_proto :: "BuiltinKind \<Rightarrow> PathSegment_ParamType option" where
  "value_type_proto schema_String = Some PathSegment_STRING"
| "value_type_proto schema_Bool = Some PathSegment_BOOL"
| "value_type_proto schema_Int = Some PathSegment_INT"
| "value_type_proto schema_Int8 = Some PathSegment_INT8"
| "value_type_proto schema_Int16 = Some PathSegment_INT16"
| "value_type_proto schema_Int32 = Some PathSegment_INT32"
| "value_type_proto schema_Int64 = Some PathSegment_INT64"
| "value_type_proto schema_Uint = Some PathSegment_UINT"
| "value_type_proto schema_Uint8 = Some PathSegment_UINT8"
| "value_type_proto schema_Uint16 = Some PathSegment_UINT16"
| "value_type_proto schema_Uint32 = Some PathSegment_UINT32"
| "value_type_proto schema_Uint64 = Some PathSegment_UINT64"
| "value_type_proto schema_UUID = Some PathSegment_UUID"
| "value_type_proto _ = None"

text \<open>A literal keeps the zero value of the parameter type, \<open>STRING\<close>.\<close>

definition segment_proto :: "Segment \<Rightarrow> PathSegment option" where
  "segment_proto seg = (let t = segment_type_proto (SegType seg) in
     if t \<noteq> PathSegment_LITERAL
     then map_option (\<lambda>v. \<lparr>ps_type = t, ps_value = Value seg, ps_value_type = v\<rparr>)
            (value_type_proto (ValueType seg))
     else Some \<lparr>ps_type = t, ps_value = Value seg, ps_value_type = PathSegment_STRING\<rparr>)"

definition Path_ToProto :: "Path \<Rightarrow> meta_Path option" where
  "Path_ToProto p = map_option (\<lambda>ss. \<lparr>mp_segments = ss, mp_type = Path_URL\<rparr>)
     (those (map segment_proto (Segments p)))"

lemma NumParams_eq: "NumParams p = length (Path_Params p)"
proof -
  have "fold (\<lambda>s n. if SegType s \<noteq> Literal then n + 1 else n) ss n
    = n + length (filter (\<lambda>s. SegType s \<noteq> Literal) ss)" for ss and n :: nat
    by (induction ss arbitrary: n) auto
  from this [of "Segments p" 0] show ?thesis by (simp add: NumParams_def Path_Params_def)
qed

lemma HasFallback_ok:
  assumes "path_ok U opts pos p"
  shows "HasFallback p \<longleftrightarrow> SegType (last (Segments p)) = Fallback"
proof -
  have "Segments p = butlast (Segments p) @ [last (Segments p)]"
    using assms by (simp add: path_ok_def)
  then have "set (Segments p) = insert (last (Segments p)) (set (butlast (Segments p)))"
    by (metis Un_insert_right append_Nil2 empty_set list.simps(15) set_append sup_bot_right)
  moreover have "\<forall>s \<in> set (butlast (Segments p)). SegType s \<noteq> Fallback"
    using assms by (auto simp: path_ok_def rest_last_def list_all_iff)
  ultimately show ?thesis by (auto simp: HasFallback_def list_ex_iff)
qed

text \<open>A parsed path always has a metadata message: its segments are those of the path.\<close>

lemma ToProto_parsed:
  assumes "path_ok U opts pos p"
  shows "Path_ToProto p = Some \<lparr>mp_segments = map (\<lambda>s. \<lparr>ps_type = segment_type_proto (SegType s),
     ps_value = Value s, ps_value_type = PathSegment_STRING\<rparr>) (Segments p), mp_type = Path_URL\<rparr>"
proof -
  let ?proto = "\<lambda>s. \<lparr>ps_type = segment_type_proto (SegType s), ps_value = Value s,
    ps_value_type = PathSegment_STRING\<rparr>"
  have "list_all (\<lambda>s. ValueType s = schema_String) ss \<Longrightarrow>
    those (map segment_proto ss) = Some (map ?proto ss)" for ss
    by (induction ss) (auto simp: segment_proto_def Let_def)
  moreover have "list_all (\<lambda>s. ValueType s = schema_String) (Segments p)"
    using assms by (auto simp: path_ok_def list_all_iff segment_ok_def)
  ultimately show ?thesis by (simp add: Path_ToProto_def)
qed


section \<open>Properties\<close>

text \<open>C7. Parsing and printing are inverse to each other: \<open>Parse\<close> accepts a text
  as the path \<open>p\<close> exactly when \<open>p\<close> is well formed (non-empty segments, parameters named by
  identifiers, wildcard and fallback only at the end, positions that tile the source text, a valid
  request URI) and the text is the printed form of \<open>p\<close>.\<close>

theorem parse_accepts_grammar:
  "Path_Parse U pos path opts = Inr p \<longleftrightarrow> path_ok U opts pos p \<and> path = path_text opts p"
  by (rule Path_Parse_iff)

text \<open>Every error of \<open>Parse\<close> is reported at exactly one range, which lies within
  the path text (one byte further to the left where paths have no leading slash).\<close>

theorem parse_errors_located:
  assumes "Path_Parse U pos path opts = Inl e"
  shows "\<exists>a b. at e = [(a, b)] \<and> (if PrefixSlash opts then pos else pos - 1) \<le> a \<and> a \<le> b
    \<and> b \<le> pos + int (length path)"
  using assms by (rule Path_Parse_error_at)

definition ascii_only :: unicode_tables where
  "ascii_only = \<lparr>letters = \<lambda>_. False, digits = \<lambda>_. False\<rparr>"

definition api_options :: Options where
  "api_options = \<lparr>AllowWildcard = True, AllowFallback = True, PrefixSlash = True\<rparr>"

theorem parse_errors_located_witness:
  "\<exists>a b. at (err_at errTrailingSlash [(104, 104)]) = [(a, b)]
     \<and> (if PrefixSlash api_options then 100 else 100 - 1) \<le> a \<and> a \<le> b
     \<and> b \<le> 100 + int (length ''/foo/'')"
proof (rule parse_errors_located)
  show "Path_Parse ascii_only 100 ''/foo/'' api_options = Inl (err_at errTrailingSlash [(104, 104)])"
    by code_simp
qed

end
