(* ===== verification/Resource_Set.thy ===== *)
theory Resource_Set
  imports Resource_Path "HOL-Library.Multiset"
begin

text \<open>
  Sets of paths that must not conflict (\<open>v2/internals/resourcepaths/paths.go\<close>, type \<open>Set\<close>). A set
  has one tree of segments per method; \<open>Add\<close> walks down the trees of the methods concerned,
  reports a conflict or extends the tree of its own method. The trees are values here, updated
  along the walk, and what \<open>Add\<close> leaves behind when it reports an error is part of its result.

  The lemmas show that a set behaves like the plain collection of the paths added to it, that
  \<open>Add\<close> accepts exactly the paths that clash with none of them, and that accepted paths are never
  both matched by the same request.
\<close>

section \<open>Trees of segments\<close>

datatype node = Node (node_s: Segment) (node_children: "node list") (node_p: "Path option")

text \<open>The zero value of a segment, which the root of a tree carries.\<close>

definition zero_segment :: Segment where
  "zero_segment = \<lparr>SegType = Literal, Value = '''', ValueType = schema_Invalid,
     SegStartPos = 0, SegEndPos = 0\<rparr>"

definition empty_node :: node where
  "empty_node = Node zero_segment [] None"

text \<open>A call may return, report an error, or panic (\<open>findPath\<close> indexes an empty slice).\<close>

datatype 'a result = Ok 'a | Err path_err | Panic

fun findPath :: "node \<Rightarrow> Path option" where
  "findPath (Node s chs (Some p)) = Some p"
| "findPath (Node s [] None) = None"
| "findPath (Node s (ch # chs) None) = findPath ch"

definition conflict :: "(string \<Rightarrow> Path \<Rightarrow> path_err_kind) \<Rightarrow> Path \<Rightarrow> Segment \<Rightarrow> node \<Rightarrow> nat option result" where
  "conflict k path seg ch = (case findPath ch of
       None \<Rightarrow> Panic
     | Some q \<Rightarrow> Err (err_at (k (Value seg) q) [AtGoNode_path path, AtGoNode_path q]))"

text \<open>The loop over the children; \<open>i\<close> is the index of the first child of the list. The result is
  the index of the child to go on with, if any.\<close>

fun match_children :: "Path \<Rightarrow> Segment \<Rightarrow> nat \<Rightarrow> node list \<Rightarrow> nat option result" where
  "match_children path seg i [] = Ok None"
| "match_children path seg i (ch # chs) =
     (case SegType (node_s ch) of
        Wildcard \<Rightarrow> (case SegType seg of
            Param \<Rightarrow> conflict errConflictingParameterizedPath path seg ch
          | Wildcard \<Rightarrow> conflict errConflictingWildcardPath path seg ch
          | Literal \<Rightarrow> conflict errConflictingLiteralPath path seg ch
          | Fallback \<Rightarrow> match_children path seg (i + 1) chs)
      | Param \<Rightarrow> (case SegType seg of
            Param \<Rightarrow> Ok (Some i)
          | Wildcard \<Rightarrow> conflict errConflictingWildcardPath path seg ch
          | Literal \<Rightarrow> conflict errConflictingLiteralPath path seg ch
          | Fallback \<Rightarrow> match_children path seg (i + 1) chs)
      | Literal \<Rightarrow> (case SegType seg of
            Wildcard \<Rightarrow> conflict errConflictingWildcardPath path seg ch
          | Param \<Rightarrow> conflict errConflictingLiteralPath path seg ch
          | Literal \<Rightarrow> if Value seg = Value (node_s ch) then Ok (Some i)
                       else match_children path seg (i + 1) chs
          | Fallback \<Rightarrow> match_children path seg (i + 1) chs)
      | Fallback \<Rightarrow> (case SegType seg of
            Fallback \<Rightarrow> conflict errConflictingFallbackPath path seg ch
          | _ \<Rightarrow> match_children path seg (i + 1) chs))"

definition Set_match :: "Path \<Rightarrow> Segment \<Rightarrow> node \<Rightarrow> nat option result" where
  "Set_match path seg n = match_children path seg 0 (node_children n)"

text \<open>
  The walk of \<open>Add\<close> down one tree: the tree afterwards and the outcome. \<open>target\<close> says whether the
  tree belongs to the method the path is added for.
\<close>

fun add_walk :: "bool \<Rightarrow> Path \<Rightarrow> Segment list \<Rightarrow> node \<Rightarrow> node \<times> unit result" where
  "add_walk target path [] (Node s chs p) =
     (case p of
        Some q \<Rightarrow> (Node s chs p, Err (err_at errDuplicatePath [AtGoNode_path path, AtGoNode_path q]))
      | None \<Rightarrow> (Node s chs (if target then Some path else None), Ok ()))"
| "add_walk target path (seg # segs) (Node s chs p) =
     (case Set_match path seg (Node s chs p) of
        Panic \<Rightarrow> (Node s chs p, Panic)
      | Err e \<Rightarrow> (Node s chs p, Err e)
      | Ok (Some i) \<Rightarrow> (case add_walk target path segs (chs ! i) of
            (ch, r) \<Rightarrow> (Node s (chs[i := ch]) p, r))
      | Ok None \<Rightarrow>
          if \<not> target then (Node s chs p, Ok ())
          else (case add_walk target path segs (Node seg [] None) of
            (ch, r) \<Rightarrow> (Node s (chs @ [ch]) p, r)))"


section \<open>Sets\<close>

text \<open>The map from methods to trees as an association list in the order of insertion.\<close>

type_synonym path_set = "(string \<times> node) list"

definition NewSet :: path_set where
  "NewSet = []"

text \<open>Go iterates over a map in an unspecified order, here the parameter \<open>order\<close>.\<close>

definition candidates :: "(string list \<Rightarrow> string list) \<Rightarrow> path_set \<Rightarrow> string \<Rightarrow> string list" where
  "candidates order s method =
     (if method = ''*'' then filter (\<lambda>m. m \<noteq> method) (order (map fst s)) else [''*'']) @ [method]"

fun put :: "string \<Rightarrow> node \<Rightarrow> path_set \<Rightarrow> path_set" where
  "put m n [] = [(m, n)]"
| "put m n ((m', n') # s) = (if m = m' then (m, n) # s else (m', n') # put m n s)"

definition tree :: "path_set \<Rightarrow> string \<Rightarrow> node" where
  "tree s m = (case map_of s m of None \<Rightarrow> empty_node | Some n \<Rightarrow> n)"

fun candidate_loop :: "string \<Rightarrow> Path \<Rightarrow> string list \<Rightarrow> path_set \<Rightarrow> path_set \<times> unit result" where
  "candidate_loop method path [] s = (s, Ok ())"
| "candidate_loop method path (m # ms) s =
     (case add_walk (m = method) path (Segments path) (tree s m) of
        (n, Ok _) \<Rightarrow> candidate_loop method path ms (put m n s)
      | (n, r) \<Rightarrow> (put m n s, r))"

definition Set_Add ::
  "(string list \<Rightarrow> string list) \<Rightarrow> path_set \<Rightarrow> string \<Rightarrow> Path \<Rightarrow> path_set \<times> unit result" where
  "Set_Add order s method path = candidate_loop method path (candidates order s method) s"


section \<open>Keys and clashes\<close>

text \<open>What the tree distinguishes in a segment: the names of parameters do not matter.\<close>

datatype key = KLit string | KParam | KWild | KFall

definition seg_key :: "Segment \<Rightarrow> key" where
  "seg_key s = (case SegType s of Literal \<Rightarrow> KLit (Value s) | Param \<Rightarrow> KParam
     | Wildcard \<Rightarrow> KWild | Fallback \<Rightarrow> KFall)"

definition path_keys :: "Path \<Rightarrow> key list" where
  "path_keys p = map seg_key (Segments p)"

fun conflicting :: "key \<Rightarrow> key \<Rightarrow> bool" where
  "conflicting (KLit a) (KLit b) = False"
| "conflicting a b \<longleftrightarrow> a \<noteq> b \<and> a \<noteq> KFall \<and> b \<noteq> KFall"

definition final_key :: "key \<Rightarrow> bool" where
  "final_key k \<longleftrightarrow> k = KWild \<or> k = KFall"

text \<open>Two paths clash when they are equal up to the names of parameters, share a wildcard or
  fallback, or differ first in segments that conflict.\<close>

fun clash :: "key list \<Rightarrow> key list \<Rightarrow> bool" where
  "clash [] [] = True"
| "clash (a # as) (b # bs) = (if a = b then final_key a \<or> clash as bs else conflicting a b)"
| "clash _ _ = False"

lemma conflicting_sym: "conflicting a b \<longleftrightarrow> conflicting b a"
  by (cases a; cases b) auto

lemma conflicting_neq: "conflicting a b \<Longrightarrow> a \<noteq> b"
  by (cases a; cases b) auto

lemma conflicting_irrefl [simp]: "\<not> conflicting a a"
  using conflicting_neq by blast

lemma clash_sym: "clash as bs \<longleftrightarrow> clash bs as"
  by (induction as bs rule: clash.induct) (auto simp: conflicting_sym)

lemma clash_Nil [simp]: "clash [] bs \<longleftrightarrow> bs = []" "clash as [] \<longleftrightarrow> as = []"
  by (cases bs; simp) (cases as; simp)


section \<open>Invariant of the trees\<close>

abbreviation ch_key :: "node \<Rightarrow> key" where
  "ch_key ch \<equiv> seg_key (node_s ch)"

definition compatible :: "key list \<Rightarrow> bool" where
  "compatible ks \<longleftrightarrow> distinct ks \<and> (\<forall>a \<in> set ks. \<forall>b \<in> set ks. \<not> conflicting a b)"

text \<open>Below the keys \<open>ks\<close>: stored paths sit at their keys, the children of a node are compatible
  and every child leads to a path.\<close>

fun wf_node :: "key list \<Rightarrow> node \<Rightarrow> bool" where
  "wf_node ks (Node s chs p) \<longleftrightarrow> (case p of None \<Rightarrow> True | Some q \<Rightarrow> path_keys q = ks)
     \<and> compatible (map ch_key chs) \<and> (\<forall>ch \<in> set chs. findPath ch \<noteq> None \<and> wf_node (ks @ [ch_key ch]) ch)"

fun paths :: "node \<Rightarrow> Path set" where
  "paths (Node s chs p) = set_option p \<union> (\<Union>ch \<in> set chs. paths ch)"

lemma findPath_in_paths: "findPath n = Some q \<Longrightarrow> q \<in> paths n"
  by (induction n rule: findPath.induct) auto

lemma paths_prefix:
  assumes "wf_node ks n" "q \<in> paths n"
  shows "\<exists>rest. path_keys q = ks @ rest"
  using assms
proof (induction n arbitrary: ks)
  case (Node s chs p)
  then consider "p = Some q" | ch where "ch \<in> set chs" "q \<in> paths ch" by auto
  then show ?case
  proof cases
    case 2
    with Node.IH [OF 2(1), of "ks @ [ch_key ch]"] Node.prems(1) show ?thesis by auto
  qed (use Node.prems(1) in auto)
qed

definition below :: "key list \<Rightarrow> Path \<Rightarrow> key list" where
  "below ks q = drop (length ks) (path_keys q)"

lemma below_child:
  assumes "wf_node (ks @ [k]) n" "q \<in> paths n"
  shows "below ks q = k # below (ks @ [k]) q"
  using paths_prefix [OF assms] by (auto simp: below_def)

lemma below_Nil [simp]: "below [] q = path_keys q"
  by (simp add: below_def)

text \<open>What the loop over the children finds, as long as each child leads to a path.\<close>

lemma match_children_cases:
  assumes "\<forall>ch \<in> set chs. findPath ch \<noteq> None"
  obtains (found) j where "match_children path seg i chs = Ok (Some (i + j))" "j < length chs"
      "ch_key (chs ! j) = seg_key seg" "\<not> final_key (seg_key seg)"
  | (clashing) e ch where "match_children path seg i chs = Err e" "ch \<in> set chs"
      "conflicting (seg_key seg) (ch_key ch) \<or> seg_key seg = ch_key ch \<and> final_key (seg_key seg)"
  | (none) "match_children path seg i chs = Ok None"
      "\<forall>ch \<in> set chs. seg_key seg \<noteq> ch_key ch \<and> \<not> conflicting (seg_key seg) (ch_key ch)"
  using assms
proof (induction chs arbitrary: i thesis)
  case (Cons ch chs)
  obtain q where q: "findPath ch = Some q" using Cons.prems(4) by auto
  consider (here) "ch_key ch = seg_key seg" "\<not> final_key (seg_key seg)"
      "match_children path seg i (ch # chs) = Ok (Some i)"
    | (bad) e where "match_children path seg i (ch # chs) = Err e"
      "conflicting (seg_key seg) (ch_key ch) \<or> seg_key seg = ch_key ch \<and> final_key (seg_key seg)"
    | (skip) "match_children path seg i (ch # chs) = match_children path seg (i + 1) chs"
      "seg_key seg \<noteq> ch_key ch \<and> \<not> conflicting (seg_key seg) (ch_key ch)"
    using q by (cases "SegType (node_s ch)"; cases "SegType seg";
        cases "Value seg = Value (node_s ch)") (auto simp: seg_key_def final_key_def conflict_def split: if_splits)
  then show ?case
  proof cases
    case here
    then show ?thesis using Cons.prems(1) [of 0] by simp
  next
    case bad
    then show ?thesis using Cons.prems(2) by auto
  next
    case skip
    show ?thesis
    proof (rule Cons.IH [of "i + 1"])
      fix j assume "match_children path seg (i + 1) chs = Ok (Some (i + 1 + j))" "j < length chs"
        "ch_key (chs ! j) = seg_key seg" "\<not> final_key (seg_key seg)"
      with skip show ?thesis using Cons.prems(1) [of "j + 1"] by simp
    next
      fix e c assume "match_children path seg (i + 1) chs = Err e" "c \<in> set chs"
        "conflicting (seg_key seg) (ch_key c) \<or> seg_key seg = ch_key c \<and> final_key (seg_key seg)"
      with skip show ?thesis using Cons.prems(2) [of e c] by simp
    next
      assume "match_children path seg (i + 1) chs = Ok None"
        "\<forall>ch\<in>set chs. seg_key seg \<noteq> ch_key ch \<and> \<not> conflicting (seg_key seg) (ch_key ch)"
      with skip show ?thesis using Cons.prems(3) by simp
    qed (use Cons.prems(4) in simp)
  qed
qed simp


section \<open>The walk down one tree\<close>

text \<open>A fresh node takes the rest of the path without looking at anything else.\<close>

lemma add_walk_fresh:
  assumes "path_keys path = ks @ map seg_key segs"
  shows "\<exists>n. add_walk True path segs (Node seg [] None) = (n, Ok ()) \<and> wf_node ks n
    \<and> paths n = {path} \<and> node_s n = seg \<and> findPath n \<noteq> None"
  using assms
proof (induction segs arbitrary: seg ks)
  case (Cons s segs)
  then obtain n where "add_walk True path segs (Node s [] None) = (n, Ok ())"
    "wf_node (ks @ [seg_key s]) n" "paths n = {path}" "node_s n = s" "findPath n \<noteq> None"
    by (metis append.assoc append_Cons append_Nil list.simps(9))
  then show ?case by (simp add: Set_match_def compatible_def)
qed (simp add: compatible_def)

lemma set_update_split:
  assumes "j < length xs"
  shows "set xs = insert (xs ! j) (set (take j xs @ drop (Suc j) xs))"
    "set (xs[j := c]) = insert c (set (take j xs @ drop (Suc j) xs))"
  by (subst id_take_nth_drop [OF assms], simp) (simp add: upd_conv_take_nth_drop [OF assms])

definition walk_ok :: "bool \<Rightarrow> Path \<Rightarrow> Segment list \<Rightarrow> key list \<Rightarrow> node \<Rightarrow> node \<times> unit result \<Rightarrow> bool" where
  "walk_ok target path segs ks n res \<longleftrightarrow>
     (if \<exists>q \<in> paths n. clash (map seg_key segs) (below ks q)
      then fst res = n \<and> (\<exists>e. snd res = Err e)
      else snd res = Ok () \<and> node_s (fst res) = node_s n \<and>
        (if target then wf_node ks (fst res) \<and> paths (fst res) = insert path (paths n) \<and> findPath (fst res) \<noteq> None
         else fst res = n))"

lemma findPath_children:
  "chs \<noteq> [] \<Longrightarrow> \<forall>ch \<in> set chs. findPath ch \<noteq> None \<Longrightarrow> findPath (Node s chs p) \<noteq> None"
  by (cases p; cases chs) simp_all

lemma clash_at_node:
  assumes "wf_node ks (Node s chs p)"
  shows "(\<exists>q \<in> paths (Node s chs p). clash (k # as) (below ks q)) \<longleftrightarrow>
    (\<exists>ch \<in> set chs. \<exists>q \<in> paths ch. if k = ch_key ch then final_key k \<or> clash as (below (ks @ [k]) q)
       else conflicting k (ch_key ch))"
proof -
  have child: "below ks q = ch_key ch # below (ks @ [ch_key ch]) q" if "ch \<in> set chs" "q \<in> paths ch" for ch q
    using assms that by (intro below_child) auto
  have nil: "below ks q = []" if "p = Some q" for q
    using assms that by (simp add: below_def)
  from child have "clash (k # as) (below ks q) \<longleftrightarrow> (if k = ch_key ch
      then final_key k \<or> clash as (below (ks @ [k]) q) else conflicting k (ch_key ch))"
    if "ch \<in> set chs" "q \<in> paths ch" for ch q using that by simp
  with nil show ?thesis by (cases p) auto
qed

lemma child_has_path: "wf_node ks (Node s chs p) \<Longrightarrow> ch \<in> set chs \<Longrightarrow> \<exists>q. q \<in> paths ch"
  using findPath_in_paths [of ch "the (findPath ch)"] by auto

lemma walk_found:
  assumes wf: "wf_node ks (Node s chs p)" and j: "j < length chs" "ch_key (chs ! j) = k" "\<not> final_key k"
    and res: "walk_ok target path segs (ks @ [k]) (chs ! j) (c, r)" and k: "k = seg_key seg"
  shows "walk_ok target path (seg # segs) ks (Node s chs p) (Node s (chs[j := c]) p, r)"
proof -
  have comp: "compatible (map ch_key chs)" using wf by simp
  have uniq: "ch = chs ! j" if "ch \<in> set chs" "ch_key ch = k" for ch
    using that j comp by (auto simp: compatible_def distinct_map inj_on_def)
  have free: "\<not> conflicting k (ch_key ch)" if "ch \<in> set chs" for ch
    using that j comp nth_mem [OF j(1)] by (auto simp: compatible_def)
  have iff: "(\<exists>q \<in> paths (Node s chs p). clash (map seg_key (seg # segs)) (below ks q)) \<longleftrightarrow>
    (\<exists>q \<in> paths (chs ! j). clash (map seg_key segs) (below (ks @ [k]) q))"
    unfolding list.map k [symmetric] clash_at_node [OF wf]
  proof
    assume "\<exists>ch \<in> set chs. \<exists>q \<in> paths ch. if k = ch_key ch then final_key k \<or> clash (map seg_key segs) (below (ks @ [k]) q)
       else conflicting k (ch_key ch)"
    then obtain ch q where "ch \<in> set chs" "q \<in> paths ch" "ch_key ch = k"
      "clash (map seg_key segs) (below (ks @ [k]) q)"
      using free j(3) by (auto split: if_splits)
    with uniq [of ch] show "\<exists>q \<in> paths (chs ! j). clash (map seg_key segs) (below (ks @ [k]) q)"
      by auto
  next
    assume "\<exists>q \<in> paths (chs ! j). clash (map seg_key segs) (below (ks @ [k]) q)"
    with j show "\<exists>ch \<in> set chs. \<exists>q \<in> paths ch. if k = ch_key ch
       then final_key k \<or> clash (map seg_key segs) (below (ks @ [k]) q) else conflicting k (ch_key ch)"
      by (intro bexI [of _ "chs ! j"]) auto
  qed
  show ?thesis
  proof (cases "\<exists>q \<in> paths (chs ! j). clash (map seg_key segs) (below (ks @ [k]) q)")
    case True
    with res have "c = chs ! j" "\<exists>e. r = Err e" by (auto simp: walk_ok_def)
    with True iff show ?thesis by (simp add: walk_ok_def del: paths.simps)
  next
    case False
    with res have r: "r = Ok ()" "node_s c = node_s (chs ! j)"
      "if target then wf_node (ks @ [k]) c \<and> paths c = insert path (paths (chs ! j)) \<and> findPath c \<noteq> None
       else c = chs ! j"
      by (auto simp: walk_ok_def)
    show ?thesis
    proof (cases target)
      case True
      have "map ch_key (chs[j := c]) = map ch_key chs"
        using j r(2) by (metis list_update_id map_update)
      then have "wf_node ks (Node s (chs[j := c]) p)"
        using wf r True j(2) by (auto simp: set_update_split(2) [OF j(1)] set_update_split(1) [OF j(1)])
      moreover have "paths (Node s (chs[j := c]) p) = insert path (paths (Node s chs p))"
        using r True by (auto simp: set_update_split(2) [OF j(1)] set_update_split(1) [OF j(1)])
      moreover have "findPath (Node s (chs[j := c]) p) \<noteq> None"
        using wf r True j(1)
        by (intro findPath_children) (auto simp: set_update_split(2) [OF j(1)] set_update_split(1) [OF j(1)])
      ultimately show ?thesis
        using iff False True r(1) unfolding walk_ok_def by simp
    qed (use r iff False in \<open>simp add: walk_ok_def\<close>)
  qed
qed

lemma walk_none:
  assumes wf: "wf_node ks (Node s chs p)" and path: "path_keys path = ks @ map seg_key (seg # segs)"
    and free: "\<forall>ch \<in> set chs. seg_key seg \<noteq> ch_key ch \<and> \<not> conflicting (seg_key seg) (ch_key ch)"
    and c: "wf_node (ks @ [seg_key seg]) c" "paths c = {path}" "node_s c = seg" "findPath c \<noteq> None"
  shows "wf_node ks (Node s (chs @ [c]) p) \<and> findPath (Node s (chs @ [c]) p) \<noteq> None
    \<and> paths (Node s (chs @ [c]) p) = insert path (paths (Node s chs p))"
proof -
  have "compatible (map ch_key (chs @ [c]))"
    using wf free c(3) by (auto simp: compatible_def conflicting_sym [of "ch_key _" "seg_key seg"])
  then show ?thesis
    using wf c findPath_children [of "chs @ [c]" s p] by auto
qed

lemma add_walk_ok:
  assumes "wf_node ks n" "target \<Longrightarrow> path_keys path = ks @ map seg_key segs"
  shows "walk_ok target path segs ks n (add_walk target path segs n)"
  using assms
proof (induction segs arbitrary: ks n)
  case Nil
  obtain s chs p where n: "n = Node s chs p" by (cases n)
  have "below ks q \<noteq> []" if "ch \<in> set chs" "q \<in> paths ch" for ch q
    using Nil.prems(1) that below_child [of ks "ch_key ch" ch q] by (auto simp: n)
  with Nil.prems show ?case
    by (cases p) (auto simp: walk_ok_def n below_def split: if_splits)
next
  case (Cons seg segs)
  obtain s chs p where n: "n = Node s chs p" by (cases n)
  note wf = Cons.prems(1) [unfolded n]
  have "\<forall>ch \<in> set chs. findPath ch \<noteq> None" using wf by simp
  then show ?case
  proof (cases rule: match_children_cases [of chs path seg 0])
    case (found j)
    obtain c r where c: "add_walk target path segs (chs ! j) = (c, r)" by (cases "add_walk target path segs (chs ! j)")
    have "wf_node (ks @ [seg_key seg]) (chs ! j)"
      using wf nth_mem [OF found(2)] unfolding found(3) [symmetric] by simp
    then have "walk_ok target path segs (ks @ [seg_key seg]) (chs ! j) (c, r)"
      unfolding c [symmetric] using Cons.prems(2) by (intro Cons.IH) auto
    from walk_found [OF wf found(2-4) this refl] show ?thesis
      using found(1) c by (simp add: n Set_match_def)
  next
    case (clashing e ch)
    then obtain q where "q \<in> paths ch" using child_has_path [OF wf] by blast
    with clashing have "\<exists>q \<in> paths n. clash (map seg_key (seg # segs)) (below ks q)"
      unfolding n list.map clash_at_node [OF wf] using conflicting_neq by fastforce
    with clashing(1) show ?thesis by (simp add: walk_ok_def n Set_match_def)
  next
    case none
    then have "\<not> (\<exists>q \<in> paths n. clash (map seg_key (seg # segs)) (below ks q))"
      unfolding n list.map clash_at_node [OF wf] by auto
    moreover obtain c where "target \<Longrightarrow> add_walk True path segs (Node seg [] None) = (c, Ok ())
      \<and> wf_node (ks @ [seg_key seg]) c \<and> paths c = {path} \<and> node_s c = seg \<and> findPath c \<noteq> None"
      using Cons.prems(2) add_walk_fresh [of path "ks @ [seg_key seg]" segs seg] by (cases target) auto
    ultimately show ?thesis
      using none walk_none [OF wf, of path seg segs c] Cons.prems(2)
      by (cases target) (simp_all add: walk_ok_def n Set_match_def)
  qed
qed

lemmas add_walk_root = add_walk_ok [of "[]", simplified below_Nil append_Nil]


section \<open>Sets\<close>

definition wf_set :: "path_set \<Rightarrow> bool" where
  "wf_set s \<longleftrightarrow> (\<forall>m. wf_node [] (tree s m))"

definition stored :: "path_set \<Rightarrow> (string \<times> Path) set" where
  "stored s = {(m, q). q \<in> paths (tree s m)}"

text \<open>The methods that share requests: equal ones, and any method with the wildcard.\<close>

definition related :: "string \<Rightarrow> string \<Rightarrow> bool" where
  "related m m' \<longleftrightarrow> m = m' \<or> m = ''*'' \<or> m' = ''*''"

definition clashes :: "string \<times> Path \<Rightarrow> string \<times> Path \<Rightarrow> bool" where
  "clashes x y \<longleftrightarrow> related (fst x) (fst y) \<and> clash (path_keys (snd x)) (path_keys (snd y))"

lemma map_of_put: "map_of (put m n s) = (map_of s)(m \<mapsto> n)"
  by (induction s) (auto simp: fun_eq_iff)

lemma tree_put [simp]: "tree (put m n s) = (tree s)(m := n)"
  by (auto simp: tree_def map_of_put fun_eq_iff)

lemma wf_empty: "wf_node [] empty_node" "paths empty_node = {}"
  by (simp_all add: empty_node_def compatible_def)

lemma wf_NewSet: "wf_set NewSet" "stored NewSet = {}"
  by (simp_all add: wf_set_def stored_def NewSet_def tree_def wf_empty)

lemma stored_methods: "(m, q) \<in> stored s \<Longrightarrow> m \<in> fst ` set s"
  using map_of_eq_None_iff [of s m] by (auto simp: stored_def tree_def wf_empty split: option.splits)

text \<open>The candidates before the target are only looked at.\<close>

lemma candidate_loop_others:
  assumes "wf_set s" "method \<notin> set ms"
  shows "if \<exists>m \<in> set ms. \<exists>q \<in> paths (tree s m). clash (path_keys path) (path_keys q)
    then tree (fst (candidate_loop method path (ms @ rest) s)) = tree s
      \<and> (\<exists>e. snd (candidate_loop method path (ms @ rest) s) = Err e)
    else (\<exists>s'. candidate_loop method path (ms @ rest) s = candidate_loop method path rest s' \<and> tree s' = tree s)"
  using assms
proof (induction ms arbitrary: s)
  case (Cons m ms)
  let ?w = "add_walk (m = method) path (Segments path) (tree s m)"
  have w: "walk_ok False path (Segments path) [] (tree s m) ?w"
    using Cons.prems add_walk_root [of "tree s m" False path "Segments path"] by (auto simp: wf_set_def)
  show ?case
  proof (cases "\<exists>q \<in> paths (tree s m). clash (path_keys path) (path_keys q)")
    case True
    with w obtain e where "?w = (tree s m, Err e)"
      by (cases ?w) (auto simp: walk_ok_def path_keys_def)
    with True show ?thesis by auto
  next
    case False
    with w have "?w = (tree s m, Ok ())" by (cases ?w) (auto simp: walk_ok_def path_keys_def)
    moreover have "tree (put m (tree s m) s) = tree s" by simp
    ultimately show ?thesis
      using Cons.IH [of "put m (tree s m) s"] Cons.prems False
      by (cases "\<exists>m \<in> set ms. \<exists>q \<in> paths (tree s m). clash (path_keys path) (path_keys q)")
        (simp_all add: wf_set_def)
  qed
qed auto

text \<open>The target is checked last, and extended if nothing in its tree clashes.\<close>

lemma candidate_loop_target:
  assumes "wf_set s"
  shows "let (s', r) = candidate_loop method path [method] s in
    if \<exists>q \<in> paths (tree s method). clash (path_keys path) (path_keys q)
    then tree s' = tree s \<and> (\<exists>e. r = Err e)
    else r = Ok () \<and> wf_set s' \<and> stored s' = insert (method, path) (stored s)"
proof -
  let ?w = "add_walk True path (Segments path) (tree s method)"
  have w: "walk_ok True path (Segments path) [] (tree s method) ?w"
    using assms add_walk_root [of "tree s method" True path "Segments path"]
    by (auto simp: wf_set_def path_keys_def)
  obtain n r where n: "?w = (n, r)" by (cases ?w)
  show ?thesis
  proof (cases "\<exists>q \<in> paths (tree s method). clash (path_keys path) (path_keys q)")
    case True
    with w n obtain e where "n = tree s method" "r = Err e"
      by (auto simp: walk_ok_def path_keys_def)
    with True n show ?thesis by simp
  next
    case False
    with w n have "r = Ok ()" "wf_node [] n" "paths n = insert path (paths (tree s method))"
      by (auto simp: walk_ok_def path_keys_def)
    with False n assms show ?thesis by (auto simp: wf_set_def stored_def split: if_splits)
  qed
qed

lemma candidates_related:
  assumes "mset (order (map fst s)) = mset (map fst s)"
  shows "candidates order s method = butlast (candidates order s method) @ [method]"
    "method \<notin> set (butlast (candidates order s method))"
    "(m, q) \<in> stored s \<Longrightarrow> m \<in> set (candidates order s method) \<longleftrightarrow> related method m"
proof -
  show "candidates order s method = butlast (candidates order s method) @ [method]"
    "method \<notin> set (butlast (candidates order s method))"
    by (auto simp: candidates_def)
  have "set (order (map fst s)) = fst ` set s"
    using assms by (metis list.set_map mset_eq_setD)
  then show "(m, q) \<in> stored s \<Longrightarrow> m \<in> set (candidates order s method) \<longleftrightarrow> related method m"
    using stored_methods [of m q s] by (auto simp: candidates_def related_def)
qed

text \<open>\<open>Add\<close> in terms of the collection of stored paths.\<close>

lemma Set_Add_spec:
  assumes wf: "wf_set s" and order: "mset (order (map fst s)) = mset (map fst s)"
    and add: "Set_Add order s method path = (s', r)"
  shows "wf_set s' \<and> (if \<exists>x \<in> stored s. clashes (method, path) x
    then stored s' = stored s \<and> (\<exists>e. r = Err e)
    else stored s' = insert (method, path) (stored s) \<and> r = Ok ())"
proof -
  define ms where "ms = butlast (candidates order s method)"
  have cands: "candidates order s method = ms @ [method]" "method \<notin> set ms"
    using candidates_related(1,2) [of order s "method", OF order] by (simp_all add: ms_def)
  have cl: "(\<exists>x \<in> stored s. clashes (method, path) x) \<longleftrightarrow>
      (\<exists>m \<in> set ms. \<exists>q \<in> paths (tree s m). clash (path_keys path) (path_keys q))
      \<or> (\<exists>q \<in> paths (tree s method). clash (path_keys path) (path_keys q))"
    using candidates_related(3) [of order s _ _ "method", OF order] unfolding cands clashes_def
    by (fastforce simp: stored_def)
  note others = candidate_loop_others [OF wf cands(2), where path = path and rest = "[method]"]
  show ?thesis
  proof (cases "\<exists>m \<in> set ms. \<exists>q \<in> paths (tree s m). clash (path_keys path) (path_keys q)")
    case True
    then show ?thesis using others add cl wf
      by (auto simp: Set_Add_def cands wf_set_def stored_def)
  next
    case False
    then obtain s1 where s1: "candidate_loop method path [method] s1 = (s', r)" "tree s1 = tree s"
      using others add by (auto simp: Set_Add_def cands)
    then have "wf_set s1" "stored s1 = stored s" using wf by (simp_all add: wf_set_def stored_def)
    with candidate_loop_target [OF this(1), of "method" path] s1 False cl wf show ?thesis
      by (auto simp: wf_set_def stored_def split: if_splits)
  qed
qed


section \<open>Registering a sequence of paths\<close>

text \<open>
  The clients of a set (\<open>validateAPIs\<close>, \<open>validateCaches\<close>) call \<open>Add\<close> for one path after the
  other and go on after an error. \<open>register\<close> is that loop over an operation \<open>add\<close>; each call comes
  with the choice the environment makes in it. \<open>accept_all\<close> is the specification of the loop: keep
  what clashes with nothing kept before.
\<close>

fun register :: "('c \<Rightarrow> 's \<Rightarrow> 'x \<Rightarrow> 's \<times> bool) \<Rightarrow> 's \<Rightarrow> ('c \<times> 'x) list \<Rightarrow> 's \<times> bool list" where
  "register add s [] = (s, [])"
| "register add s ((c, x) # calls) =
     (case add c s x of (s', ok) \<Rightarrow> (case register add s' calls of (s'', oks) \<Rightarrow> (s'', ok # oks)))"

fun accept_all :: "('x \<Rightarrow> 'x \<Rightarrow> bool) \<Rightarrow> 'x set \<Rightarrow> 'x list \<Rightarrow> 'x set \<times> bool list" where
  "accept_all cl S [] = (S, [])"
| "accept_all cl S (x # xs) =
     (let ok = (\<forall>y \<in> S. \<not> cl x y)
      in case accept_all cl (if ok then insert x S else S) xs of (S', oks) \<Rightarrow> (S', ok # oks))"

locale registry =
  fixes add :: "'c \<Rightarrow> 's \<Rightarrow> 'x \<Rightarrow> 's \<times> bool"
    and choice_ok :: "'c \<Rightarrow> bool"
    and inv :: "'s \<Rightarrow> bool"
    and held :: "'s \<Rightarrow> 'x set"
    and cl :: "'x \<Rightarrow> 'x \<Rightarrow> bool"
  assumes add_law: "inv s \<Longrightarrow> choice_ok c \<Longrightarrow> add c s x = (s', ok) \<Longrightarrow> inv s'
      \<and> (ok \<longleftrightarrow> (\<forall>y \<in> held s. \<not> cl x y)) \<and> held s' = (if ok then insert x (held s) else held s)"
    and cl_sym: "cl x y \<longleftrightarrow> cl y x"
begin

lemma register_refines:
  assumes "inv s" "\<forall>c \<in> fst ` set calls. choice_ok c" "register add s calls = (s', oks)"
  shows "inv s' \<and> accept_all cl (held s) (map snd calls) = (held s', oks)"
  using assms
proof (induction calls arbitrary: s oks)
  case (Cons call calls)
  obtain c x where call: "call = (c, x)" by (cases call)
  obtain s1 ok where s1: "add c s x = (s1, ok)" by (cases "add c s x")
  obtain oks' where oks: "register add s1 calls = (s', oks')" "oks = ok # oks'"
    using Cons.prems(3) by (auto simp: call s1 split: prod.splits)
  have law: "inv s1" "ok \<longleftrightarrow> (\<forall>y \<in> held s. \<not> cl x y)"
    "held s1 = (if ok then insert x (held s) else held s)"
    using add_law [OF Cons.prems(1) _ s1] Cons.prems(2) by (auto simp: call)
  have "inv s' \<and> accept_all cl (held s1) (map snd calls) = (held s', oks')"
    using Cons.prems(2) law(1) oks(1) by (intro Cons.IH) auto
  with law oks(2) show ?case by (simp add: call Let_def split: if_splits)
qed simp

lemma accept_all_pairwise:
  assumes "\<forall>x \<in> S. \<forall>y \<in> S. x \<noteq> y \<longrightarrow> \<not> cl x y" "accept_all cl S xs = (S', oks)"
  shows "\<forall>x \<in> S'. \<forall>y \<in> S'. x \<noteq> y \<longrightarrow> \<not> cl x y"
  using assms
proof (induction xs arbitrary: S oks)
  case (Cons x xs)
  define S1 where "S1 = (if \<forall>y \<in> S. \<not> cl x y then insert x S else S)"
  have "\<forall>x \<in> S1. \<forall>y \<in> S1. x \<noteq> y \<longrightarrow> \<not> cl x y"
    using Cons.prems(1) cl_sym by (auto simp: S1_def)
  moreover obtain oks' where "accept_all cl S1 xs = (S', oks')"
    using Cons.prems(2) by (auto simp: S1_def Let_def split: prod.splits)
  ultimately show ?case by (rule Cons.IH)
qed simp

lemma accept_all_subset:
  "accept_all cl S xs = (S', oks) \<Longrightarrow> S \<subseteq> S' \<and> S' \<subseteq> S \<union> set xs"
  by (induction xs arbitrary: S oks) (fastforce simp: Let_def split: prod.splits if_splits)+

lemma held_pairwise:
  assumes "inv s" "held s = {}" "\<forall>c \<in> fst ` set calls. choice_ok c" "register add s calls = (s', oks)"
    "x \<in> held s'" "y \<in> held s'" "cl x y"
  shows "x = y"
  using register_refines [OF assms(1,3,4)] accept_all_pairwise [of "{}" "map snd calls"] assms(2,5-)
  by auto

lemma accept_all_flags:
  assumes "accept_all cl S xs = (S', oks)" "list_all (\<lambda>ok. ok) oks"
  shows "(\<forall>x \<in> set xs. \<forall>y \<in> S. \<not> cl x y) \<and> (\<forall>i j. i < j \<longrightarrow> j < length xs \<longrightarrow> \<not> cl (xs ! j) (xs ! i))"
  using assms
proof (induction xs arbitrary: S oks)
  case (Cons x xs)
  then obtain oks' where new: "\<forall>y \<in> S. \<not> cl x y" "accept_all cl (insert x S) xs = (S', oks')" "list_all (\<lambda>ok. ok) oks'"
    by (auto simp: Let_def split: prod.splits if_splits)
  from Cons.IH [OF new(2,3)] have rest: "\<forall>z \<in> set xs. \<forall>y \<in> insert x S. \<not> cl z y"
    "\<forall>i j. i < j \<longrightarrow> j < length xs \<longrightarrow> \<not> cl (xs ! j) (xs ! i)" by auto
  have "\<not> cl ((x # xs) ! j) ((x # xs) ! i)" if "i < j" "j < length (x # xs)" for i j
    using that rest by (cases j; cases i) auto
  with new(1) rest(1) show ?case by auto
qed simp

lemma all_accepted:
  assumes "inv s" "held s = {}" "\<forall>c \<in> fst ` set calls. choice_ok c" "register add s calls = (s', oks)"
    "list_all (\<lambda>ok. ok) oks" "i < j" "j < length calls"
  shows "\<not> cl (snd (calls ! i)) (snd (calls ! j))"
  using register_refines [OF assms(1,3,4)] accept_all_flags [of "{}" "map snd calls"] assms(2,5-) cl_sym
  by auto

lemma held_registered:
  assumes "inv s" "held s = {}" "\<forall>c \<in> fst ` set calls. choice_ok c" "register add s calls = (s', oks)"
  shows "held s' \<subseteq> snd ` set calls"
  using register_refines [OF assms(1,3,4)] accept_all_subset [of "{}" "map snd calls"] assms(2) by auto

end

definition order_ok :: "(string list \<Rightarrow> string list) \<Rightarrow> bool" where
  "order_ok order \<longleftrightarrow> (\<forall>xs. mset (order xs) = mset xs)"

definition set_add :: "(string list \<Rightarrow> string list) \<Rightarrow> path_set \<Rightarrow> string \<times> Path \<Rightarrow> path_set \<times> bool" where
  "set_add order s x = (case Set_Add order s (fst x) (snd x) of (s', r) \<Rightarrow> (s', r = Ok ()))"

lemma clashes_sym: "clashes x y \<longleftrightarrow> clashes y x"
  by (auto simp: clashes_def related_def clash_sym)

interpretation ps: registry set_add order_ok wf_set stored clashes
proof
  show "wf_set s' \<and> (ok \<longleftrightarrow> (\<forall>y \<in> stored s. \<not> clashes x y))
      \<and> stored s' = (if ok then insert x (stored s) else stored s)"
    if "wf_set s" "order_ok c" "set_add c s x = (s', ok)" for s c x s' ok
    using that Set_Add_spec [of s c "fst x" "snd x" s']
    by (auto simp: set_add_def order_ok_def split: prod.splits if_splits)
qed (rule clashes_sym)


section \<open>Requests\<close>

text \<open>
  Which requests a path serves; a request is the list of the parts of its URL between slashes. A
  parameter stands for one non-empty part, a fallback for any rest, a wildcard for a rest of at
  least one part, or, with \<open>zero\<close>, for any rest.
\<close>

fun serves :: "bool \<Rightarrow> key list \<Rightarrow> string list \<Rightarrow> bool" where
  "serves zero [] us \<longleftrightarrow> us = []"
| "serves zero (KLit v # ks) us \<longleftrightarrow> us \<noteq> [] \<and> hd us = v \<and> serves zero ks (tl us)"
| "serves zero (KParam # ks) us \<longleftrightarrow> us \<noteq> [] \<and> hd us \<noteq> [] \<and> serves zero ks (tl us)"
| "serves zero (KWild # ks) us \<longleftrightarrow> zero \<or> us \<noteq> []"
| "serves zero (KFall # ks) us \<longleftrightarrow> True"

text \<open>A fallback yields to every other path and to a longer fallback.\<close>

definition same_rank :: "key list \<Rightarrow> key list \<Rightarrow> bool" where
  "same_rank as bs \<longleftrightarrow> (KFall \<in> set as \<longleftrightarrow> KFall \<in> set bs)
     \<and> (KFall \<in> set as \<longrightarrow> length as = length bs)"

definition final_last :: "key list \<Rightarrow> bool" where
  "final_last ks = list_all (\<lambda>k. \<not> final_key k) (butlast ks)"

lemma final_last_Cons: "final_last (k # ks) \<longleftrightarrow> ks = [] \<or> \<not> final_key k \<and> final_last ks"
  by (simp add: final_last_def)

lemma nothing_served:
  "serves False (k # ks) us \<Longrightarrow> serves False [] us \<Longrightarrow> \<not> same_rank [] (k # ks) \<and> \<not> same_rank (k # ks) []"
  by (cases k) (auto simp: same_rank_def)

lemma served_twice_clash:
  assumes "serves False as us" "serves False bs us" "same_rank as bs" "final_last as" "final_last bs"
  shows "clash as bs"
  using assms
proof (induction as bs arbitrary: us rule: clash.induct)
  case (2 a as b bs)
  show ?case
  proof (cases "a = b \<and> \<not> final_key a")
    case True
    then have "clash as bs"
      using "2.prems" by (intro "2.IH" [of "tl us"])
        (cases a; auto simp: same_rank_def final_key_def final_last_Cons; auto simp: final_last_def)+
    with True show ?thesis by simp
  next
    case False
    then show ?thesis
      using "2.prems" by (cases a; cases b) (auto simp: same_rank_def final_key_def final_last_Cons)
  qed
next
  case "3_1"
  then show ?case by (simp add: nothing_served)
next
  case "3_2"
  then show ?case by (simp add: nothing_served)
qed simp

lemma path_ok_final: "path_ok U opts pos p \<Longrightarrow> final_last (path_keys p)"
  by (auto simp: path_ok_def rest_last_def final_last_def path_keys_def list_all_iff final_key_def
      seg_key_def simp flip: map_butlast split: SegmentType.splits)


section \<open>Properties\<close>

text \<open>The sets a program can build, whatever orders its map iterations take.\<close>

inductive reachable_set :: "path_set \<Rightarrow> bool" where
  new: "reachable_set NewSet"
| add: "reachable_set s \<Longrightarrow> order_ok order \<Longrightarrow> reachable_set (fst (Set_Add order s method path))"

lemma reachable_wf: "reachable_set s \<Longrightarrow> wf_set s"
proof (induction rule: reachable_set.induct)
  case (add s order meth path)
  then show ?case
    using Set_Add_spec [of s order meth path "fst (Set_Add order s meth path)"
        "snd (Set_Add order s meth path)"] by (simp add: order_ok_def)
qed (rule wf_NewSet)

definition sample_path :: "string \<Rightarrow> Path" where
  "sample_path s = projr (Path_Parse ascii_only 0 s api_options)"

lemma sample_path_parsed:
  "\<not> isl (Path_Parse ascii_only 0 s api_options) \<Longrightarrow> Path_Parse ascii_only 0 s api_options = Inr (sample_path s)"
  by (cases "Path_Parse ascii_only 0 s api_options") (simp_all add: sample_path_def)

definition sample_calls :: "((string list \<Rightarrow> string list) \<times> string \<times> Path) list" where
  "sample_calls = [(\<lambda>ms. ms, ''GET'', sample_path ''/a/:id''), (rev, ''*'', sample_path ''/a/x''),
     (rev, ''POST'', sample_path ''/a/x''), (\<lambda>ms. ms, ''GET'', sample_path ''/!rest'')]"

lemma sample_orders: "\<forall>c \<in> fst ` set sample_calls. order_ok c"
  by (simp add: sample_calls_def order_ok_def)

text \<open>C6. A set of paths implements a plain collection: whatever paths are added
  for whatever methods, and however Go orders its map iterations, the calls that succeed are
  exactly those whose path clashes with none of the paths kept before for a related method, and
  the set then holds exactly the paths of the successful calls.\<close>

theorem set_refines_collection:
  assumes "\<forall>c \<in> fst ` set calls. order_ok c" "register set_add NewSet calls = (s, oks)"
  shows "accept_all clashes {} (map snd calls) = (stored s, oks)"
  using ps.register_refines [OF wf_NewSet(1) assms] by (simp add: wf_NewSet)

theorem set_refines_collection_witness:
  "accept_all clashes {} (map snd sample_calls)
     = (stored (fst (register set_add NewSet sample_calls)), [True, False, True, True])"
proof -
  have "snd (register set_add NewSet sample_calls) = [True, False, True, True]"
    by code_simp
  then have "register set_add NewSet sample_calls
    = (fst (register set_add NewSet sample_calls), [True, False, True, True])"
    by (metis prod.collapse)
  with sample_orders show ?thesis by (rule set_refines_collection)
qed



text \<open>\<open>Add\<close> never runs into the end of an empty list of children while it looks for
  the path to name in an error, in no set that calls of \<open>Add\<close> can build.\<close>

theorem add_never_panics:
  assumes "reachable_set s" "order_ok order"
  shows "snd (Set_Add order s method path) \<noteq> Panic"
  using Set_Add_spec [OF reachable_wf [OF assms(1)], of order "method" path
      "fst (Set_Add order s method path)" "snd (Set_Add order s method path)"] assms(2)
  by (auto simp: order_ok_def split: if_splits)

theorem add_never_panics_witness:
  "snd (Set_Add rev (fst (Set_Add rev NewSet ''GET'' (sample_path ''/a/*w''))) ''GET'' (sample_path ''/a/b'')) \<noteq> Panic"
  by (rule add_never_panics) (simp_all add: order_ok_def reachable_set.intros)

text \<open>A path and the same path followed by a wildcard are accepted together, although
  both serve the request for the path itself if a wildcard stands for zero or more segments.\<close>

lemma wildcard_beside_parent:
  "snd (register set_add NewSet [(order1, ''GET'', sample_path ''/a''), (order2, ''GET'', sample_path ''/a/*w'')])
     = [True, True]
   \<and> serves True (path_keys (sample_path ''/a'')) [''a''] \<and> serves True (path_keys (sample_path ''/a/*w'')) [''a'']"
proof -
  have get: "set_add order s (''GET'', p) = set_add (\<lambda>ms. ms) s (''GET'', p)" for order s p
    by (simp add: set_add_def Set_Add_def candidates_def)
  have "snd (register set_add NewSet [(\<lambda>ms. ms, ''GET'', sample_path ''/a''),
    (\<lambda>ms. ms, ''GET'', sample_path ''/a/*w'')]) = [True, True]"
    by code_simp
  then have "snd (register set_add NewSet [(order1, ''GET'', sample_path ''/a''),
    (order2, ''GET'', sample_path ''/a/*w'')]) = [True, True]"
    by (simp add: get [of order1] get [of order2])
  moreover have "serves True (path_keys (sample_path ''/a'')) [''a'']"
    "serves True (path_keys (sample_path ''/a/*w'')) [''a'']"
    by code_simp+
  ultimately show ?thesis by simp
qed

end
