(* ===== verification/Api_Endpoint.thy ===== *)
theory Api_Endpoint
  imports Api_Selector Resource_Set
begin

text \<open>
  From the directive of a function to an API endpoint (\<open>v2/parser/apis/api/api.go\<close>) and from the
  endpoints of an application to the check of their paths (\<open>v2/app/validate_apis.go\<close>). This is
  where directives, selectors, paths and path sets meet. The parsed declaration of the function
  and the errors of describing its payloads are arguments.
\<close>

section \<open>Declarations\<close>

text \<open>Types as far as the parser of endpoints looks at them.\<close>

datatype schema_type = BuiltinType BuiltinKind | NamedType string string
  | PointerType schema_type | OtherType

record Param =
  ParamName :: "string option"
  ParamType :: schema_type
  ParamAST :: "int \<times> int"

record FuncDecl =
  FuncName :: string
  NamePos :: int
  NameEnd :: int
  SigParams :: "Param list"
  SigResults :: "Param list"
  ParamsAST :: "int \<times> int"
  ResultsAST :: "int \<times> int"

definition IsNamed :: "schema_type \<Rightarrow> string \<Rightarrow> string \<Rightarrow> bool" where
  "IsNamed t pkg name \<longleftrightarrow> t = NamedType pkg name"

definition IsBuiltinKind :: "schema_type \<Rightarrow> BuiltinKind \<Rightarrow> bool" where
  "IsBuiltinKind t k \<longleftrightarrow> t = BuiltinType k"

fun Deref :: "schema_type \<Rightarrow> schema_type \<times> nat" where
  "Deref (PointerType t) = (case Deref t of (u, n) \<Rightarrow> (u, n + 1))"
| "Deref t = (t, 0)"

text \<open>The kind of a builtin type; the zero value for other types.\<close>

fun builtin_kind :: "schema_type \<Rightarrow> BuiltinKind" where
  "builtin_kind (BuiltinType k) = k"
| "builtin_kind _ = schema_Invalid"


section \<open>Errors\<close>

datatype api_err_kind = errDuplicateAccessOptions string string | errInvalidEndpointMethod string
  | errEndpointMethodMustBeAllCaps | errRawEndpointCantBePrivate
  | errWrongNumberParams nat | errWrongNumberResults nat | errInvalidFirstParam
  | errMultiplePayloads | errInvalidPathParams string | errLastResultMustBeError
  | errInvalidRawParams nat | errInvalidRawResults nat | errRawNotResponeWriter | errRawNotRequest
  | errUnexpectedParameterName "string option" string string
  | errWildcardMustBeString "string option" | errInvalidPathParamType "string option"

datatype api_err = ApiErr api_err_kind "(int \<times> int) list" | DirErr dir_err | PathErr path_err
  | SelErr sel_err | PayloadErr nat


section \<open>Endpoints\<close>

record Endpoint =
  EpName :: string
  Access :: string
  AccessField :: "Field option"
  Raw :: bool
  EpPath :: "Path option"
  HTTPMethods :: "string list"
  HTTPMethodsField :: "Field option"
  Request :: "schema_type option"
  Response :: "schema_type option"
  Tags :: selector_set
  Sensitive :: bool

definition accessOptions :: "string list" where
  "accessOptions = [''public'', ''private'', ''auth'']"

text \<open>The variables of \<open>validateDirective\<close> that its callbacks assign.\<close>

record directive_state =
  ep :: Endpoint
  accessField :: Field
  rawTag :: Field

definition validate_option :: "Field \<Rightarrow> directive_state \<Rightarrow> api_err + directive_state" where
  "validate_option opt s =
     (if FieldValue opt \<in> set accessOptions \<and> Access (ep s) \<noteq> ''''
      then Inl (ApiErr (errDuplicateAccessOptions (Access (ep s)) (FieldValue opt))
             [at_field opt, at_field (accessField s)])
      else let s1 = (if FieldValue opt \<in> set accessOptions
             then s\<lparr>accessField := opt, ep := (ep s)\<lparr>Access := FieldValue opt, AccessField := Some opt\<rparr>\<rparr>
             else s)
        in Inr (if FieldValue opt = ''raw'' then s1\<lparr>rawTag := opt\<rparr>
                else if FieldValue opt = ''sensitive'' then s1\<lparr>ep := (ep s1)\<lparr>Sensitive := True\<rparr>\<rparr>
                else s1))"

fun check_runes :: "string \<Rightarrow> Field \<Rightarrow> nat list \<Rightarrow> api_err option" where
  "check_runes m f [] = None"
| "check_runes m f (c # cs) =
     (if \<not> (65 \<le> c \<and> c \<le> 90) \<and> \<not> (97 \<le> c \<and> c \<le> 122)
      then Some (ApiErr (errInvalidEndpointMethod m) [at_field f])
      else if \<not> (65 \<le> c \<and> c \<le> 90) then Some (ApiErr errEndpointMethodMustBeAllCaps [at_field f])
      else check_runes m f cs)"

fun check_methods :: "Field \<Rightarrow> string list \<Rightarrow> api_err option" where
  "check_methods f [] = None"
| "check_methods f (m # ms) = (case check_runes m f (map snd (range_str 0 (bytes_of m))) of
       Some e \<Rightarrow> Some e | None \<Rightarrow> check_methods f ms)"

definition validate_field :: "unicode_tables \<Rightarrow> Field \<Rightarrow> directive_state \<Rightarrow> api_err + directive_state" where
  "validate_field U f s =
     (if Key f = ''path'' then
        (case Path_Parse U (fend f - (int (length (FieldValue f)) - 1)) (FieldValue f) api_options of
           Inl e \<Rightarrow> Inl (PathErr e)
         | Inr p \<Rightarrow> Inr (s\<lparr>ep := (ep s)\<lparr>EpPath := Some p\<rparr>\<rparr>))
      else if Key f = ''method'' then
        (let methods = Field_List f;
             s' = s\<lparr>ep := (ep s)\<lparr>HTTPMethods := methods, HTTPMethodsField := Some f\<rparr>\<rparr>
         in case check_methods f methods of Some e \<Rightarrow> Inl e | None \<Rightarrow> Inr s')
      else Inr s)"

definition validate_tag :: "Field \<Rightarrow> directive_state \<Rightarrow> api_err + directive_state" where
  "validate_tag tag s = (case Selector_Parse (fstart tag) (FieldValue tag) of
       Inl e \<Rightarrow> Inl (SelErr e)
     | Inr sel \<Rightarrow> Inr (s\<lparr>ep := (ep s)\<lparr>Tags := fst (SelSet_Add (Tags (ep s)) sel)\<rparr>\<rparr>))"

definition api_spec :: "unicode_tables \<Rightarrow> (directive_state, api_err) ValidateSpec" where
  "api_spec U = \<lparr>AllowedOptions = [''raw'', ''sensitive''] @ accessOptions,
     AllowedFields = [''path'', ''method''], ValidateOption = validate_option,
     ValidateField = validate_field U, ValidateTag = validate_tag\<rparr>"

definition new_endpoint :: "Directive \<Rightarrow> Endpoint" where
  "new_endpoint dir = \<lparr>EpName = '''', Access = '''', AccessField = None, Raw = HasOption dir ''raw'',
     EpPath = None, HTTPMethods = [], HTTPMethodsField = None, Request = None, Response = None,
     Tags = [], Sensitive = False\<rparr>"

definition validateDirective :: "unicode_tables \<Rightarrow> Directive \<Rightarrow> api_err + Endpoint" where
  "validateDirective U dir =
     (case Directive_Validate DirErr dir (api_spec U)
         \<lparr>ep = new_endpoint dir, accessField = zero_field, rawTag = zero_field\<rparr> of
        Inl e \<Rightarrow> Inl e
      | Inr s \<Rightarrow>
          let e = (if Access (ep s) = '''' then (ep s)\<lparr>Access := ''private''\<rparr> else ep s)
          in if Access e = ''private'' \<and> Raw e
             then Inl (ApiErr errRawEndpointCantBePrivate [at_field (rawTag s), at_field (accessField s)])
             else Inr e)"


section \<open>Signatures\<close>

definition param_kinds :: "BuiltinKind set" where
  "param_kinds = {schema_String, schema_Bool, schema_Int, schema_Int8, schema_Int16, schema_Int32,
     schema_Int64, schema_Uint, schema_Uint8, schema_Uint16, schema_Uint32, schema_Uint64, schema_UUID}"

definition validatePathParam :: "Param \<Rightarrow> Segment \<Rightarrow> BuiltinKind \<times> api_err list" where
  "validatePathParam param seg = (let b = builtin_kind (ParamType param);
       here = [AtGoNode_seg seg, ParamAST param];
       es1 = (if ParamName param \<noteq> Some (Value seg)
              then [ApiErr (errUnexpectedParameterName (ParamName param) (Value seg) (Segment_String seg)) here]
              else []);
       es2 = (if b \<noteq> schema_String \<and> (SegType seg = Wildcard \<or> SegType seg = Fallback)
              then [ApiErr (errWildcardMustBeString (ParamName param)) here] else [])
     in if b \<in> param_kinds then (b, es1 @ es2)
        else (schema_Invalid, es1 @ es2 @ [ApiErr (errInvalidPathParamType (ParamName param)) here]))"

text \<open>
  The loop over the parameters after the context: one for each path parameter, then at most one
  payload. The result is the kinds of the path parameters, the payload and the errors.
\<close>

fun params_loop :: "Segment list \<Rightarrow> Param list \<Rightarrow> BuiltinKind list \<times> schema_type option \<times> api_err list" where
  "params_loop segs [] = ([], None, [])"
| "params_loop (seg # segs) (p # ps) = (let (b, es) = validatePathParam p seg;
       (bs, req, es') = params_loop segs ps in (b # bs, req, es @ es'))"
| "params_loop [] (p # ps) =
     ([], Some (ParamType p), map (\<lambda>q. ApiErr errMultiplePayloads [ParamAST q]) ps)"

text \<open>The kinds are written into the segments of the path they belong to.\<close>

fun assign_kinds :: "Segment list \<Rightarrow> BuiltinKind list \<Rightarrow> Segment list" where
  "assign_kinds (s # ss) (b # bs) = (if SegType s \<noteq> Literal then s\<lparr>ValueType := b\<rparr> # assign_kinds ss bs
     else s # assign_kinds ss (b # bs))"
| "assign_kinds ss _ = ss"

definition initTypedRPC :: "FuncDecl \<Rightarrow> Path \<Rightarrow> Endpoint \<Rightarrow> Endpoint \<times> api_err list" where
  "initTypedRPC sig path e =
     (if SigParams sig = [] then (e, [ApiErr (errWrongNumberParams 0) [ParamsAST sig]])
      else if length (SigResults sig) = 0 \<or> length (SigResults sig) > 2
        then (e, [ApiErr (errWrongNumberResults (length (SigResults sig))) [ResultsAST sig]])
      else if \<not> IsNamed (ParamType (hd (SigParams sig))) ''context'' ''Context''
        then (e, [ApiErr errInvalidFirstParam [ParamAST (hd (SigParams sig))]])
      else
        let pathParams = Path_Params path;
            (bs, req, es) = params_loop pathParams (tl (SigParams sig));
            e1 = e\<lparr>EpPath := Some (path\<lparr>Segments := assign_kinds (Segments path) bs\<rparr>), Request := req\<rparr>;
            missing = drop (length bs) pathParams;
            es1 = (if missing \<noteq> []
              then [ApiErr (errInvalidPathParams (Join [CHR 0x27, CHR '','', CHR '' '', CHR 0x27] (map Value missing)))
                     (ParamsAST sig # map AtGoNode_seg missing)]
              else []);
            e2 = (if length (SigResults sig) \<ge> 2
              then e1\<lparr>Response := Some (ParamType (hd (SigResults sig)))\<rparr> else e1);
            es2 = (if \<not> IsBuiltinKind (ParamType (last (SigResults sig))) schema_Error
              then [ApiErr errLastResultMustBeError [ParamAST (last (SigResults sig))]] else [])
        in (e2, es @ es1 @ es2))"

definition initRawRPC :: "FuncDecl \<Rightarrow> api_err list" where
  "initRawRPC sig = (let params = SigParams sig; n = length params in
     if n < 2 then [ApiErr (errInvalidRawParams n) [ParamsAST sig]]
     else if \<not> n > 2 \<and> length (SigResults sig) > 0
       then [ApiErr (errInvalidRawResults (length (SigResults sig))) [ResultsAST sig]]
     else (if n > 2 then [ApiErr (errInvalidRawParams n) [ParamsAST sig]] else [])
       @ (if \<not> IsNamed (ParamType (params ! 0)) ''net/http'' ''ResponseWriter''
          then [ApiErr errRawNotResponeWriter [ParamAST (params ! 0)]] else [])
       @ (if snd (Deref (ParamType (params ! 1))) \<noteq> 1
            \<or> \<not> IsNamed (fst (Deref (ParamType (params ! 1)))) ''net/http'' ''Request''
          then [ApiErr errRawNotRequest [ParamAST (params ! 1)]] else []))"


section \<open>Parsing an endpoint\<close>

definition default_path :: "string \<Rightarrow> FuncDecl \<Rightarrow> Path" where
  "default_path pkg f = \<lparr>StartPos = NamePos f, Segments = [\<lparr>SegType = Literal,
     Value = pkg @ ''.'' @ FuncName f, ValueType = schema_String,
     SegStartPos = NamePos f, SegEndPos = NameEnd f\<rparr>]\<rparr>"

definition default_methods :: "Endpoint \<Rightarrow> string list" where
  "default_methods e = (if Raw e then [''*'']
     else if Request e \<noteq> None then [''POST''] else [''GET'', ''POST''])"

text \<open>
  \<open>Parse\<close>: the endpoint, if any, and the errors reported. \<open>decl\<close> is what \<open>ParseFuncDecl\<close> returns for
  the function, \<open>describe\<close> yields the errors of describing request and response.
\<close>

definition Api_Parse ::
  "unicode_tables \<Rightarrow> (Endpoint \<Rightarrow> api_err list) \<Rightarrow> string \<Rightarrow> Directive \<Rightarrow> FuncDecl option
     \<Rightarrow> Endpoint option \<times> api_err list" where
  "Api_Parse U describe pkg dir decl =
     (case validateDirective U dir of
        Inl e \<Rightarrow> (None, [e])
      | Inr rpc \<Rightarrow> (case decl of
          None \<Rightarrow> (None, [])
        | Some f \<Rightarrow>
            let path = (case EpPath rpc of None \<Rightarrow> default_path pkg f | Some p \<Rightarrow> p);
                rpc1 = rpc\<lparr>EpName := FuncName f, EpPath := Some path\<rparr>;
                (rpc2, es) = (if Raw rpc1 then (rpc1, initRawRPC f) else initTypedRPC f path rpc1);
                rpc3 = (if HTTPMethods rpc2 = [] then rpc2\<lparr>HTTPMethods := default_methods rpc2\<rparr> else rpc2)
            in (Some rpc3, es @ describe rpc3)))"


section \<open>Registering the endpoints of an application\<close>

text \<open>The paths that \<open>validateAPIs\<close> adds to its set, in order.\<close>

definition endpoint_routes :: "Endpoint list \<Rightarrow> (string \<times> Path) list" where
  "endpoint_routes eps = concat (map (\<lambda>e. map (\<lambda>m. (m, the (EpPath e))) (HTTPMethods e)) eps)"

text \<open>\<open>orders\<close> are the iteration orders of the calls of \<open>Add\<close>.\<close>

definition validate_paths ::
  "(string list \<Rightarrow> string list) list \<Rightarrow> Endpoint list \<Rightarrow> path_set \<times> bool list" where
  "validate_paths orders eps = register set_add NewSet (zip orders (endpoint_routes eps))"


section \<open>Accepted endpoints\<close>

definition upper_method :: "string \<Rightarrow> bool" where
  "upper_method m = list_all (\<lambda>c. CHR ''A'' \<le> c \<and> c \<le> CHR ''Z'') m"

text \<open>What holds of the endpoint under construction in every callback.\<close>

definition building_ok :: "Endpoint \<Rightarrow> bool" where
  "building_ok e \<longleftrightarrow> Access e \<in> set ('''' # accessOptions) \<and> sel_set_ok (Tags e)
     \<and> list_all upper_method (HTTPMethods e)
     \<and> (\<forall>p \<in> set_option (EpPath e). \<exists>U pos. path_ok U api_options pos p)"

lemma check_runes_None: "check_runes m f cs = None \<longleftrightarrow> list_all (\<lambda>c. 65 \<le> c \<and> c \<le> 90) cs"
  by (induction cs) auto

lemma check_methods_None: "check_methods f ms = None \<longleftrightarrow>
    list_all (\<lambda>m. list_all (\<lambda>c. 65 \<le> c \<and> c \<le> 90) (map snd (range_str 0 (bytes_of m)))) ms"
proof (induction ms)
  case (Cons m ms)
  then show ?case
    using check_runes_None [of m f "map snd (range_str 0 (bytes_of m))"]
    by (cases "check_runes m f (map snd (range_str 0 (bytes_of m)))") simp_all
qed simp

lemma check_methods_upper: "check_methods f ms = None \<longleftrightarrow> list_all upper_method ms"
proof -
  have up: "65 \<le> unat (of_nat (of_char c) :: byte) \<and> unat (of_nat (of_char c) :: byte) \<le> 90
      \<longleftrightarrow> CHR ''A'' \<le> c \<and> c \<le> CHR ''Z''" for c
    by (simp add: less_eq_char_def unat_of_nat)
  have "list_all (\<lambda>c. 65 \<le> c \<and> c \<le> 90) (map snd (range_str 0 (bytes_of m))) \<longleftrightarrow> upper_method m" for m
  proof
    assume "list_all (\<lambda>c. 65 \<le> c \<and> c \<le> 90) (map snd (range_str 0 (bytes_of m)))"
    moreover from this have "map snd (range_str 0 (bytes_of m)) = map unat (bytes_of m)"
      by (intro range_str_below_128) (auto simp: list_all_iff)
    ultimately have "list_all (\<lambda>c. 65 \<le> c \<and> c \<le> 90) (map unat (bytes_of m))" by metis
    then show "upper_method m"
      by (simp add: bytes_of_def list.pred_map comp_def up upper_method_def)
  next
    assume m: "upper_method m"
    have "(of_nat (of_char c) :: byte) < 0x80" if "CHR ''A'' \<le> c" "c \<le> CHR ''Z''" for c
      using up [of c] that by (simp add: word_less_nat_alt)
    then have "list_all (\<lambda>b. b < 0x80) (bytes_of m)"
      using m by (auto simp: upper_method_def bytes_of_def list_all_iff)
    from range_str_ascii [OF this] m
    show "list_all (\<lambda>c. 65 \<le> c \<and> c \<le> 90) (map snd (range_str 0 (bytes_of m)))"
      by (simp add: bytes_of_def list.pred_map comp_def up upper_method_def)
  qed
  then show ?thesis by (simp add: check_methods_None)
qed

text \<open>Each callback keeps \<open>building_ok\<close>, and so does the whole validation.\<close>

lemma validate_each_invariant:
  assumes "validate_each step xs s = Inr s'" "I s"
    "\<And>x s s'. x \<in> set xs \<Longrightarrow> I s \<Longrightarrow> step x s = Inr s' \<Longrightarrow> I s'"
  shows "I s'"
  using assms
proof (induction xs arbitrary: s)
  case (Cons x xs)
  then obtain s1 where s1: "step x s = Inr s1" "validate_each step xs s1 = Inr s'"
    by (auto split: sum.splits)
  have "I s1" using Cons.prems(2,3) s1(1) by auto
  with s1(2) Cons.prems(3) show ?case by (intro Cons.IH [of s1]) auto
qed simp

lemma validate_option_ok:
  "building_ok (ep s) \<Longrightarrow> validate_option opt s = Inr s' \<Longrightarrow> building_ok (ep s')"
  by (auto simp: validate_option_def building_ok_def Let_def split: if_splits)

lemma validate_field_ok:
  "building_ok (ep s) \<Longrightarrow> validate_field U f s = Inr s' \<Longrightarrow> building_ok (ep s')"
  by (auto simp: validate_field_def building_ok_def Let_def check_methods_upper
      dest!: Path_Parse_sound split: if_splits sum.splits option.splits) blast+

lemma validate_tag_ok:
  assumes "building_ok (ep s)" "validate_tag tag s = Inr s'"
  shows "building_ok (ep s')"
proof -
  obtain sel where sel: "Selector_Parse (fstart tag) (FieldValue tag) = Inr sel"
    "s' = s\<lparr>ep := (ep s)\<lparr>Tags := fst (SelSet_Add (Tags (ep s)) sel)\<rparr>\<rparr>"
    using assms(2) by (auto simp: validate_tag_def split: sum.splits)
  have "sel_set_ok (fst (SelSet_Add (Tags (ep s)) sel))"
    using assms(1) Selector_Parse_sound [OF sel(1)]
      SelSet_Add_spec [of "Tags (ep s)" sel _ "snd (SelSet_Add (Tags (ep s)) sel)"]
    by (simp add: building_ok_def)
  with assms(1) sel(2) show ?thesis by (simp add: building_ok_def)
qed

lemma Directive_Validate_invariant:
  assumes "Directive_Validate wrap d spec s0 = Inr s" "I s0"
    "\<And>x s s'. I s \<Longrightarrow> ValidateOption spec x s = Inr s' \<Longrightarrow> I s'"
    "\<And>x s s'. I s \<Longrightarrow> ValidateField spec x s = Inr s' \<Longrightarrow> I s'"
    "\<And>x s s'. I s \<Longrightarrow> ValidateTag spec x s = Inr s' \<Longrightarrow> I s'"
  shows "I s"
proof -
  obtain s1 s2 where s: "validate_each (\<lambda>opt s. if FieldValue opt \<notin> set (AllowedOptions spec)
      then Inl (wrap (errUnknownOption (FieldValue opt) (Join '', '' (AllowedOptions spec)), [at_field opt]))
      else ValidateOption spec opt s) (DirOptions d) s0 = Inr s1"
    "validate_each (\<lambda>f s. if Key f \<notin> set (AllowedFields spec)
      then Inl (wrap (errUnknownField (Key f) (Join '', '' (AllowedFields spec)), [at_field f]))
      else ValidateField spec f s) (DirFields d) s1 = Inr s2"
    "validate_each (ValidateTag spec) (DirTags d) s2 = Inr s"
    using assms(1) by (auto simp: Directive_Validate_def split: sum.splits)
  have "I s1" using s(1) assms(2) by (rule validate_each_invariant) (auto split: if_splits intro: assms(3))
  with s(2) have "I s2" by (rule validate_each_invariant) (auto split: if_splits intro: assms(4))
  with s(3) show ?thesis by (rule validate_each_invariant) (auto intro: assms(5))
qed

lemma validateDirective_ok:
  assumes "validateDirective U dir = Inr e"
  shows "building_ok e \<and> Access e \<in> set accessOptions \<and> \<not> (Access e = ''private'' \<and> Raw e)"
proof -
  let ?s0 = "\<lparr>ep = new_endpoint dir, accessField = zero_field, rawTag = zero_field\<rparr>"
  obtain s where s: "Directive_Validate DirErr dir (api_spec U) ?s0 = Inr s"
    "e = (if Access (ep s) = '''' then (ep s)\<lparr>Access := ''private''\<rparr> else ep s)"
    "\<not> (Access e = ''private'' \<and> Raw e)"
    using assms by (auto simp: validateDirective_def Let_def split: sum.splits if_splits)
  have "building_ok (ep ?s0)"
    by (simp add: building_ok_def new_endpoint_def sel_set_ok_def)
  with s(1) have "building_ok (ep s)"
    by (rule Directive_Validate_invariant [where I = "\<lambda>s. building_ok (ep s)"])
      (auto simp: api_spec_def intro: validate_option_ok validate_field_ok validate_tag_ok)
  with s(2,3) show ?thesis by (auto simp: building_ok_def accessOptions_def)
qed

text \<open>The kinds that \<open>validatePathParam\<close> lets through are those the metadata can express.\<close>

lemma param_kinds_proto: "value_type_proto k \<noteq> None \<longleftrightarrow> k \<in> param_kinds"
  by (cases k) (auto simp: param_kinds_def)

lemma those_neq_None: "those xs \<noteq> None \<longleftrightarrow> (\<forall>x \<in> set xs. x \<noteq> None)"
  by (induction xs) (auto split: option.splits)

lemma ToProto_iff:
  "Path_ToProto p \<noteq> None \<longleftrightarrow> (\<forall>s \<in> set (Segments p). SegType s \<noteq> Literal \<longrightarrow> ValueType s \<in> param_kinds)"
proof -
  have "segment_proto s \<noteq> None \<longleftrightarrow> (SegType s \<noteq> Literal \<longrightarrow> ValueType s \<in> param_kinds)" for s
    using param_kinds_proto [of "ValueType s"] by (cases "SegType s") (auto simp: segment_proto_def Let_def)
  then show ?thesis
    using those_neq_None [of "map segment_proto (Segments p)"] by (simp add: Path_ToProto_def)
qed

lemma params_loop_kinds:
  assumes "params_loop segs ps = (bs, req, [])"
  shows "set bs \<subseteq> param_kinds"
  using assms
proof (induction segs ps arbitrary: bs req rule: params_loop.induct)
  case (2 seg segs p ps)
  obtain b es where b: "validatePathParam p seg = (b, es)" by (cases "validatePathParam p seg")
  obtain bs' req' es' where rest: "params_loop segs ps = (bs', req', es')" by (cases "params_loop segs ps") auto
  have "bs = b # bs'" "es = []" "es' = []" using "2.prems" b rest by auto
  moreover have "b \<in> param_kinds" using b \<open>es = []\<close> by (auto simp: validatePathParam_def Let_def split: if_splits)
  moreover have "set bs' \<subseteq> param_kinds" 
    using "2.IH" [OF refl b [symmetric]] rest \<open>es' = []\<close> by simp
  ultimately show ?case by simp
qed auto

lemma assign_kinds_keys: "map seg_key (assign_kinds ss bs) = map seg_key ss"
proof -
  have "seg_key (s\<lparr>ValueType := b\<rparr>) = seg_key s" for s b
    by (cases "SegType s") (simp_all add: seg_key_def)
  then show ?thesis by (induction ss bs rule: assign_kinds.induct) auto
qed

lemma assign_kinds_valid:
  assumes "set bs \<subseteq> param_kinds" "length (filter (\<lambda>s. SegType s \<noteq> Literal) ss) \<le> length bs"
    "s \<in> set (assign_kinds ss bs)" "SegType s \<noteq> Literal"
  shows "ValueType s \<in> param_kinds"
  using assms by (induction ss bs rule: assign_kinds.induct) (auto simp: filter_empty_conv split: if_splits)

definition endpoint_ok :: "Endpoint \<Rightarrow> bool" where
  "endpoint_ok e \<longleftrightarrow> Access e \<in> set accessOptions \<and> \<not> (Access e = ''private'' \<and> Raw e)
     \<and> HTTPMethods e \<noteq> [] \<and> list_all (\<lambda>m. m = ''*'' \<or> upper_method m) (HTTPMethods e)
     \<and> sel_set_ok (Tags e)
     \<and> (case EpPath e of None \<Rightarrow> False
        | Some p \<Rightarrow> final_last (path_keys p) \<and> Path_ToProto p \<noteq> None)"

text \<open>Both initialisations keep what the directive gave and leave a path the metadata can express.\<close>

definition same_directive :: "Endpoint \<Rightarrow> Endpoint \<Rightarrow> bool" where
  "same_directive e e' \<longleftrightarrow> Access e' = Access e \<and> Raw e' = Raw e \<and> HTTPMethods e' = HTTPMethods e
     \<and> Tags e' = Tags e"

lemma initTypedRPC_ok:
  assumes "initTypedRPC sig path e = (e', [])"
  shows "same_directive e e' \<and> (\<exists>p. EpPath e' = Some p \<and> path_keys p = path_keys path \<and> Path_ToProto p \<noteq> None)"
proof -
  obtain bs req es where loop: "params_loop (Path_Params path) (tl (SigParams sig)) = (bs, req, es)"
    by (cases "params_loop (Path_Params path) (tl (SigParams sig))") auto
  define p where "p = path\<lparr>Segments := assign_kinds (Segments path) bs\<rparr>"
  have e': "EpPath e' = Some p" "same_directive e e'" and es: "es = []" and len: "length (Path_Params path) \<le> length bs"
    using assms loop
    by (auto simp: initTypedRPC_def Let_def p_def same_directive_def split: if_splits prod.splits)
  have "Path_ToProto p \<noteq> None"
    unfolding ToProto_iff p_def
    using assign_kinds_valid [OF params_loop_kinds [OF loop [unfolded es]]] len by (auto simp: Path_Params_def)
  moreover have "path_keys p = path_keys path" by (simp add: path_keys_def p_def assign_kinds_keys)
  ultimately show ?thesis using e' by blast
qed

lemma string_path_proto:
  "\<forall>s \<in> set (Segments p). ValueType s = schema_String \<Longrightarrow> Path_ToProto p \<noteq> None"
  unfolding ToProto_iff by (auto simp: param_kinds_def)

lemma directive_path_ok:
  fixes pkg :: string and f :: FuncDecl
  assumes "building_ok e"
  defines "p \<equiv> case EpPath e of None \<Rightarrow> default_path pkg f | Some p \<Rightarrow> p"
  shows "final_last (path_keys p)" "Path_ToProto p \<noteq> None"
proof -
  have "final_last (path_keys p) \<and> (\<forall>s \<in> set (Segments p). ValueType s = schema_String)"
  proof (cases "EpPath e")
    case None
    then show ?thesis by (simp add: p_def default_path_def path_keys_def final_last_def)
  next
    case (Some q)
    with assms(1) obtain U pos where "path_ok U api_options pos p" by (auto simp: building_ok_def p_def)
    then show ?thesis using path_ok_final by (auto simp: path_ok_def list_all_iff segment_ok_def)
  qed
  then show "final_last (path_keys p)" "Path_ToProto p \<noteq> None" using string_path_proto by auto
qed

lemma default_methods_ok:
  "default_methods e \<noteq> [] \<and> list_all (\<lambda>m. m = ''*'' \<or> upper_method m) (default_methods e)"
  by (simp add: default_methods_def upper_method_def)

lemma Api_Parse_ok:
  assumes "Api_Parse U describe pkg dir decl = (Some e, [])"
  shows "endpoint_ok e"
proof -
  obtain rpc f where rpc: "validateDirective U dir = Inr rpc" "decl = Some f"
    using assms by (auto simp: Api_Parse_def split: sum.splits option.splits)
  define path where "path = (case EpPath rpc of None \<Rightarrow> default_path pkg f | Some p \<Rightarrow> p)"
  define rpc1 where "rpc1 = rpc\<lparr>EpName := FuncName f, EpPath := Some path\<rparr>"
  obtain rpc2 es where rpc2: "(if Raw rpc1 then (rpc1, initRawRPC f) else initTypedRPC f path rpc1) = (rpc2, es)"
    by (cases "if Raw rpc1 then (rpc1, initRawRPC f) else initTypedRPC f path rpc1")
  have e: "e = (if HTTPMethods rpc2 = [] then rpc2\<lparr>HTTPMethods := default_methods rpc2\<rparr> else rpc2)" "es = []"
  proof -
    have "Api_Parse U describe pkg dir decl =
      (case (if Raw rpc1 then (rpc1, initRawRPC f) else initTypedRPC f path rpc1) of (rpc2, es) \<Rightarrow>
        let rpc3 = (if HTTPMethods rpc2 = [] then rpc2\<lparr>HTTPMethods := default_methods rpc2\<rparr> else rpc2)
        in (Some rpc3, es @ describe rpc3))"
      unfolding Api_Parse_def rpc sum.case option.case Let_def path_def [symmetric] rpc1_def [symmetric] ..
    with assms show "e = (if HTTPMethods rpc2 = [] then rpc2\<lparr>HTTPMethods := default_methods rpc2\<rparr> else rpc2)" "es = []"
      unfolding rpc2 by (auto simp: Let_def)
  qed
  note ok = validateDirective_ok [OF rpc(1)]
  note path = directive_path_ok [of rpc pkg f, folded path_def]
  have "same_directive rpc1 rpc2 \<and> (\<exists>p. EpPath rpc2 = Some p \<and> path_keys p = path_keys path \<and> Path_ToProto p \<noteq> None)"
    using rpc2 e(2) initTypedRPC_ok [of f path rpc1 rpc2] path(2) ok
    by (auto simp: same_directive_def rpc1_def split: if_splits)
  then show ?thesis
    using ok path(1) default_methods_ok [of rpc2] unfolding e(1)
    by (auto simp: endpoint_ok_def building_ok_def same_directive_def rpc1_def list_all_iff)
qed


section \<open>Properties\<close>

definition sample_decl :: FuncDecl where
  "sample_decl = \<lparr>FuncName = ''Get'', NamePos = 40, NameEnd = 43,
     SigParams = [\<lparr>ParamName = Some ''ctx'', ParamType = NamedType ''context'' ''Context'', ParamAST = (44, 60)\<rparr>,
       \<lparr>ParamName = Some ''id'', ParamType = BuiltinType schema_Int, ParamAST = (62, 68)\<rparr>],
     SigResults = [\<lparr>ParamName = None, ParamType = BuiltinType schema_Error, ParamAST = (70, 75)\<rparr>],
     ParamsAST = (43, 69), ResultsAST = (70, 75)\<rparr>"

definition sample_parse_api :: "string \<Rightarrow> Endpoint option \<times> api_err list" where
  "sample_parse_api line = Api_Parse ascii_only (\<lambda>_. []) ''svc''
     (projr (the (parseOne 0 line))) (Some sample_decl)"

definition sample_endpoint :: "string \<Rightarrow> Endpoint" where
  "sample_endpoint line = the (fst (sample_parse_api line))"

lemma sample_endpoint_parsed:
  assumes "sample_parse_api line = (Some (sample_endpoint line), [])"
  shows "\<exists>U describe pkg dir decl. Api_Parse U describe pkg dir decl = (Some (sample_endpoint line), [])"
  using assms unfolding sample_parse_api_def by (intro exI)

text \<open>C21. An endpoint that is parsed without an error has one of the three access
  levels and is not both private and raw; it has at least one HTTP method, each of them \<open>*\<close> or
  without any character but capitals; its tags are a well-formed set of selectors; and its path
  can be expressed in the metadata, so that \<open>ToProto\<close> does not panic.\<close>

theorem accepted_endpoints_ok:
  assumes "Api_Parse U describe pkg dir decl = (Some e, [])"
  shows "endpoint_ok e"
  using assms by (rule Api_Parse_ok)

theorem accepted_endpoints_ok_witness:
  "endpoint_ok (sample_endpoint ''api auth path=/a/:id tag:b tag:a method=GET'')"
proof (rule accepted_endpoints_ok)
  have "sample_parse_api ''api auth path=/a/:id tag:b tag:a method=GET''
    = (Some (sample_endpoint ''api auth path=/a/:id tag:b tag:a method=GET''), [])"
    by code_simp
  then show "Api_Parse ascii_only (\<lambda>_. []) ''svc'' (projr (the (parseOne 0
      ''api auth path=/a/:id tag:b tag:a method=GET''))) (Some sample_decl)
    = (Some (sample_endpoint ''api auth path=/a/:id tag:b tag:a method=GET''), [])"
    by (simp add: sample_parse_api_def)
qed

text \<open>An empty HTTP method passes the check of the methods, which only looks at characters.\<close>

lemma empty_method_accepted:
  "sample_parse_api ''api public path=/a/:id method=GET,'' =
     (Some (sample_endpoint ''api public path=/a/:id method=GET,''), [])
   \<and> HTTPMethods (sample_endpoint ''api public path=/a/:id method=GET,'') = [''GET'', '''']"
  by code_simp


definition sample_app :: "Endpoint list" where
  "sample_app = [sample_endpoint ''api public path=/a/:id'', sample_endpoint ''api auth path=/b/:id method=GET'']"


end
