(* ===== verification/Types_UUID.thy ===== *)
theory Types_UUID
  imports Go_Text
begin

text \<open>
  UUIDs of the Go runtime (\<open>runtimes/go/types/uuid\<close>): the layout of version and variant, the text
  and binary forms with every accepted notation and every error, and the generators, whose hash
  functions and random source are arguments. A UUID is the list of its 16 bytes. Decoding writes
  into the receiver as it goes, so the receiver after an error is part of the result.
\<close>

section \<open>Hexadecimal digits (encoding/hex)\<close>

definition hexdigit :: "byte \<Rightarrow> char" where
  "hexdigit n = ''0123456789abcdef'' ! unat n"

definition hex_encode :: "bytes \<Rightarrow> string" where
  "hex_encode bs = concat (map (\<lambda>b. [hexdigit (drop_bit 4 b), hexdigit (b AND 0x0F)]) bs)"

definition hexval :: "char \<Rightarrow> byte option" where
  "hexval c = (let n = of_char c :: nat in
     if 48 \<le> n \<and> n \<le> 57 then Some (of_nat (n - 48))
     else if 97 \<le> n \<and> n \<le> 102 then Some (of_nat (n - 97 + 10))
     else if 65 \<le> n \<and> n \<le> 70 then Some (of_nat (n - 65 + 10))
     else None)"

datatype uuid_err = InvalidByteError char | ErrLength | incorrect_length nat | incorrect_format
  | must_be_16_bytes nat | rand_err | cannot_convert

text \<open>\<open>hex.Decode\<close>: the bytes decoded before the end or the first error, and the error.\<close>

fun hex_decode :: "string \<Rightarrow> bytes \<times> uuid_err option" where
  "hex_decode [] = ([], None)"
| "hex_decode [p] = ([], Some (if hexval p = None then InvalidByteError p else ErrLength))"
| "hex_decode (p # q # s) = (case hexval p of
       None \<Rightarrow> ([], Some (InvalidByteError p))
     | Some a \<Rightarrow> (case hexval q of
         None \<Rightarrow> ([], Some (InvalidByteError q))
       | Some b \<Rightarrow> (case hex_decode s of (bs, e) \<Rightarrow> ((push_bit 4 a OR b) # bs, e))))"


section \<open>UUIDs\<close>

type_synonym UUID = bytes

definition uuid_Size :: nat where "uuid_Size = 16"

definition uuid_Nil :: UUID where "uuid_Nil = replicate uuid_Size 0"

definition V3 :: byte where "V3 = 3"
definition V4 :: byte where "V4 = 4"
definition V5 :: byte where "V5 = 5"

definition variantNCS :: byte where "variantNCS = 0"
definition variantRFC4122 :: byte where "variantRFC4122 = 1"
definition variantMicrosoft :: byte where "variantMicrosoft = 2"
definition variantFuture :: byte where "variantFuture = 3"

definition uuid_Version :: "UUID \<Rightarrow> byte" where
  "uuid_Version u = drop_bit 4 (u ! 6)"

definition uuid_variant :: "UUID \<Rightarrow> byte" where
  "uuid_variant u = (if drop_bit 7 (u ! 8) = 0 then variantNCS
     else if drop_bit 6 (u ! 8) = 2 then variantRFC4122
     else if drop_bit 5 (u ! 8) = 6 then variantMicrosoft
     else variantFuture)"

definition SetVersion :: "UUID \<Rightarrow> byte \<Rightarrow> UUID" where
  "SetVersion u v = u[6 := (u ! 6 AND 0x0F) OR push_bit 4 v]"

definition setVariant :: "UUID \<Rightarrow> byte \<Rightarrow> UUID" where
  "setVariant u v =
     (if v = variantNCS then u[8 := (u ! 8 AND 0x7F) OR push_bit 7 0]
      else if v = variantRFC4122 then u[8 := (u ! 8 AND 0x3F) OR push_bit 6 2]
      else if v = variantMicrosoft then u[8 := (u ! 8 AND 0x1F) OR push_bit 5 6]
      else u[8 := (u ! 8 AND 0x1F) OR push_bit 5 7])"

definition uuid_String :: "UUID \<Rightarrow> string" where
  "uuid_String u = hex_encode (take 4 u) @ ''-'' @ hex_encode (take 2 (drop 4 u)) @ ''-''
     @ hex_encode (take 2 (drop 6 u)) @ ''-'' @ hex_encode (take 2 (drop 8 u)) @ ''-''
     @ hex_encode (drop 10 u)"

definition toCapitalHexDigits :: "char \<Rightarrow> char" where
  "toCapitalHexDigits ch = (if ch = CHR ''a'' then CHR ''A'' else if ch = CHR ''b'' then CHR ''B''
     else if ch = CHR ''c'' then CHR ''C'' else if ch = CHR ''d'' then CHR ''D''
     else if ch = CHR ''e'' then CHR ''E'' else if ch = CHR ''f'' then CHR ''F'' else ch)"

text \<open>\<open>Format\<close> for the verbs it writes itself; \<open>sharp\<close> is the flag of \<open>%#v\<close>, whose Go syntax is an
  argument.\<close>

definition uuid_Format :: "(bytes \<Rightarrow> string) \<Rightarrow> UUID \<Rightarrow> bool \<Rightarrow> char \<Rightarrow> string" where
  "uuid_Format go_syntax u sharp c =
     (if c = CHR ''x'' then hex_encode u
      else if c = CHR ''X'' then map toCapitalHexDigits (hex_encode u)
      else if c = CHR ''v'' then if sharp then go_syntax u else uuid_String u
      else if c = CHR ''s'' then uuid_String u
      else if c = CHR ''S'' then map toCapitalHexDigits (uuid_String u)
      else if c = CHR ''q'' then [CHR 0x22] @ uuid_String u @ [CHR 0x22]
      else ''%!'' @ [c] @ ''(uuid.UUID='' @ uuid_String u @ '')'')"


section \<open>Decoding\<close>

text \<open>Copying bytes into the receiver from an offset on.\<close>

definition write_at :: "nat \<Rightarrow> bytes \<Rightarrow> UUID \<Rightarrow> UUID" where
  "write_at off bs u = take off u @ bs @ drop (off + length bs) u"

definition byteGroups :: "nat list" where
  "byteGroups = [8, 4, 4, 4, 12]"

fun canonical_groups :: "nat list \<Rightarrow> bool \<Rightarrow> string \<Rightarrow> nat \<Rightarrow> UUID \<Rightarrow> UUID \<times> uuid_err option" where
  "canonical_groups [] first src off u = (u, None)"
| "canonical_groups (byteGroup # gs) first src off u =
     (let src = (if first then src else drop 1 src)
      in case hex_decode (take byteGroup src) of (bs, e) \<Rightarrow>
         let u' = write_at off bs u
         in case e of
              Some e \<Rightarrow> (u', Some e)
            | None \<Rightarrow> canonical_groups gs False (drop byteGroup src) (off + byteGroup div 2) u')"

definition decodeCanonical :: "string \<Rightarrow> UUID \<Rightarrow> UUID \<times> uuid_err option" where
  "decodeCanonical t u =
     (if t ! 8 \<noteq> CHR ''-'' \<or> t ! 13 \<noteq> CHR ''-'' \<or> t ! 18 \<noteq> CHR ''-'' \<or> t ! 23 \<noteq> CHR ''-''
      then (u, Some incorrect_format)
      else canonical_groups byteGroups True t 0 u)"

definition decodeHashLike :: "string \<Rightarrow> UUID \<Rightarrow> UUID \<times> uuid_err option" where
  "decodeHashLike t u = (case hex_decode t of (bs, e) \<Rightarrow> (write_at 0 bs u, e))"

definition decodePlain :: "string \<Rightarrow> UUID \<Rightarrow> UUID \<times> uuid_err option" where
  "decodePlain t u = (if length t = 32 then decodeHashLike t u
     else if length t = 36 then decodeCanonical t u
     else (u, Some (incorrect_length (length t))))"

definition decodeBraced :: "string \<Rightarrow> UUID \<Rightarrow> UUID \<times> uuid_err option" where
  "decodeBraced t u = (if t ! 0 \<noteq> CHR ''{'' \<or> t ! (length t - 1) \<noteq> CHR ''}''
     then (u, Some incorrect_format)
     else decodePlain (drop 1 (take (length t - 1) t)) u)"

definition decodeURN :: "string \<Rightarrow> UUID \<Rightarrow> UUID \<times> uuid_err option" where
  "decodeURN t u = (if take 9 t \<noteq> ''urn:uuid:'' then (u, Some incorrect_format)
     else decodePlain (drop 9 t) u)"

definition UnmarshalText :: "string \<Rightarrow> UUID \<Rightarrow> UUID \<times> uuid_err option" where
  "UnmarshalText text u = (let n = length text in
     if n = 32 then decodeHashLike text u
     else if n = 34 \<or> n = 38 then decodeBraced text u
     else if n = 36 then decodeCanonical text u
     else if n = 41 \<or> n = 45 then decodeURN text u
     else (u, Some (incorrect_length n)))"

definition UnmarshalBinary :: "bytes \<Rightarrow> UUID \<Rightarrow> UUID \<times> uuid_err option" where
  "UnmarshalBinary data u = (if length data \<noteq> uuid_Size then (u, Some (must_be_16_bytes (length data)))
     else (write_at 0 data u, None))"

definition FromString :: "string \<Rightarrow> UUID \<times> uuid_err option" where
  "FromString input = UnmarshalText input uuid_Nil"

definition FromStringOrNil :: "string \<Rightarrow> UUID" where
  "FromStringOrNil input = (case FromString input of (u, None) \<Rightarrow> u | _ \<Rightarrow> uuid_Nil)"

definition FromBytes :: "bytes \<Rightarrow> UUID \<times> uuid_err option" where
  "FromBytes input = UnmarshalBinary input uuid_Nil"

definition FromBytesOrNil :: "bytes \<Rightarrow> UUID" where
  "FromBytesOrNil input = (case FromBytes input of (u, None) \<Rightarrow> u | _ \<Rightarrow> uuid_Nil)"

definition MarshalText :: "UUID \<Rightarrow> string" where
  "MarshalText u = uuid_String u"

definition MarshalBinary :: "UUID \<Rightarrow> bytes" where
  "MarshalBinary u = u"


section \<open>Database values\<close>

text \<open>The values \<open>Scan\<close> tells apart: SQL's NULL, a UUID, bytes, a string and every other type.\<close>

datatype driver_value = dv_nil | dv_UUID UUID | dv_bytes bytes | dv_string string | dv_other

definition text_of :: "bytes \<Rightarrow> string" where
  "text_of bs = map (\<lambda>b. char_of (unat b)) bs"

definition UUID_Value :: "UUID \<Rightarrow> driver_value" where
  "UUID_Value u = dv_string (uuid_String u)"

definition UUID_Scan :: "driver_value \<Rightarrow> UUID \<Rightarrow> UUID \<times> uuid_err option" where
  "UUID_Scan src u = (case src of
       dv_UUID v \<Rightarrow> (v, None)
     | dv_bytes bs \<Rightarrow> if length bs = uuid_Size then UnmarshalBinary bs u else UnmarshalText (text_of bs) u
     | dv_string s \<Rightarrow> UnmarshalText s u
     | _ \<Rightarrow> (u, Some cannot_convert))"

record NullUUID =
  null_UUID :: UUID
  Valid :: bool

definition NullUUID_Value :: "NullUUID \<Rightarrow> driver_value" where
  "NullUUID_Value u = (if \<not> Valid u then dv_nil else UUID_Value (null_UUID u))"

definition NullUUID_Scan :: "driver_value \<Rightarrow> NullUUID \<Rightarrow> NullUUID \<times> uuid_err option" where
  "NullUUID_Scan src u = (if src = dv_nil then (\<lparr>null_UUID = uuid_Nil, Valid = False\<rparr>, None)
     else case UUID_Scan src (null_UUID u) of (v, e) \<Rightarrow> (u\<lparr>null_UUID := v, Valid := True\<rparr>, e))"


section \<open>Generators\<close>

text \<open>\<open>newFromHash\<close>: the digest of the name space and the name, cut to 16 bytes.\<close>

definition newFromHash :: "(bytes \<Rightarrow> bytes) \<Rightarrow> UUID \<Rightarrow> string \<Rightarrow> UUID" where
  "newFromHash h ns name = write_at 0 (take 16 (h (ns @ bytes_of name))) uuid_Nil"

definition NewV3 :: "(bytes \<Rightarrow> bytes) \<Rightarrow> UUID \<Rightarrow> string \<Rightarrow> UUID" where
  "NewV3 md5 ns name = setVariant (SetVersion (newFromHash md5 ns name) V3) variantRFC4122"

definition NewV5 :: "(bytes \<Rightarrow> bytes) \<Rightarrow> UUID \<Rightarrow> string \<Rightarrow> UUID" where
  "NewV5 sha1 ns name = setVariant (SetVersion (newFromHash sha1 ns name) V5) variantRFC4122"

text \<open>\<open>NewV4\<close>: \<open>rand\<close> is what \<open>io.ReadFull\<close> reads, \<open>None\<close> when it fails.\<close>

definition NewV4 :: "bytes option \<Rightarrow> UUID \<times> uuid_err option" where
  "NewV4 rand = (case rand of None \<Rightarrow> (uuid_Nil, Some rand_err)
     | Some bs \<Rightarrow> (setVariant (SetVersion (write_at 0 bs uuid_Nil) V4) variantRFC4122, None))"

text \<open>The clock of time-based generation: seeded once, advanced when the time does not grow.\<close>

record uuid_gen =
  clockSequenceDone :: bool
  lastTime :: uint64
  clockSequence :: "16 word"

definition epochStart :: uint64 where "epochStart = 122192928000000000"

definition getEpoch :: "int64 \<Rightarrow> uint64" where
  "getEpoch unixNano = epochStart + word_of_int (sint unixNano sdiv 100)"

definition getClockSequence ::
  "(byte \<times> byte) option \<Rightarrow> int64 \<Rightarrow> uuid_gen \<Rightarrow> uuid_gen \<times> (uint64 \<times> 16 word) option" where
  "getClockSequence rand unixNano g =
     (let g1 = (if clockSequenceDone g then g
                else case rand of None \<Rightarrow> g\<lparr>clockSequenceDone := True\<rparr>
                  | Some (a, b) \<Rightarrow> g\<lparr>clockSequenceDone := True,
                      clockSequence := push_bit 8 (ucast a) OR ucast b\<rparr>)
      in if \<not> clockSequenceDone g \<and> rand = None then (g1, None)
         else let timeNow = getEpoch unixNano;
                  g2 = (if timeNow \<le> lastTime g1 then g1\<lparr>clockSequence := clockSequence g1 + 1\<rparr> else g1);
                  g3 = g2\<lparr>lastTime := timeNow\<rparr>
              in (g3, Some (timeNow, clockSequence g3)))"


section \<open>Digits and bytes\<close>

text \<open>Hexadecimal digits are read regardless of case.\<close>

definition tolower :: "char \<Rightarrow> char" where
  "tolower c = (if CHR ''A'' \<le> c \<and> c \<le> CHR ''F'' then char_of ((of_char c :: nat) + 32) else c)"

lemma digit_table: "\<forall>k \<in> set [0 ..< 16]. ''0123456789abcdef'' ! k = char_of (if k < 10 then 48 + k else 87 + k)"
  by code_simp

lemma hexdigit_char: "n < 16 \<Longrightarrow> hexdigit n = char_of (if unat n < 10 then 48 + unat n else 87 + unat n)"
  using digit_table by (simp add: hexdigit_def word_less_nat_alt)

lemma hexval_iff: "hexval c = Some a \<longleftrightarrow> a < 16 \<and> tolower c = hexdigit a"
proof -
  define n where "n = (of_char c :: nat)"
  have c: "c = char_of n" "n < 256" by (simp_all add: n_def)
  have low: "tolower c = char_of (if 65 \<le> n \<and> n \<le> 70 then n + 32 else n)"
    using c by (auto simp: tolower_def less_eq_char_def n_def)
  have dig: "hexdigit a = char_of (if unat a < 10 then 48 + unat a else 87 + unat a)" if "a < 16"
    using that by (rule hexdigit_char)
  have w: "of_nat m = a \<longleftrightarrow> m = unat a" if "m < 256" for m
    using that by (auto simp: unat_of_nat)
  have inj: "char_of x = (char_of y :: char) \<longleftrightarrow> x = y" if "x < 256" "y < 256" for x y :: nat
    using that by (simp add: char_of_quasi_inj)
  have rhs: "(a < 16 \<and> tolower c = hexdigit a) \<longleftrightarrow> unat a < 16 \<and>
      (if 65 \<le> n \<and> n \<le> 70 then n + 32 else n) = (if unat a < 10 then 48 + unat a else 87 + unat a)"
    using c(2) dig inj unfolding low by (auto simp: word_less_nat_alt)
  have "hexval c = Some a \<longleftrightarrow> (if 48 \<le> n \<and> n \<le> 57 then n - 48 = unat a
      else if 97 \<le> n \<and> n \<le> 102 then n - 97 + 10 = unat a
      else if 65 \<le> n \<and> n \<le> 70 then n - 65 + 10 = unat a else False)"
    unfolding hexval_def n_def [symmetric] Let_def
    using c(2) w [of "n - 48"] w [of "n - 87"] w [of "n - 55"]
    by (simp del: of_nat_diff of_nat_add)
  then show ?thesis unfolding rhs by auto
qed

lemma nibbles: "push_bit 4 (drop_bit 4 b) OR (b AND 0x0F) = (b :: byte)"
proof (rule bit_word_eqI)
  fix n assume "n < LENGTH(8)"
  have m: "(0x0F :: byte) = mask 4" by (simp add: mask_eq_exp_minus_1)
  show "bit (push_bit 4 (drop_bit 4 b) OR (b AND 0x0F)) n \<longleftrightarrow> bit b n"
    unfolding m using \<open>n < LENGTH(8)\<close> by (auto simp: bit_simps)
qed

lemma nibble_bounds: "drop_bit 4 (b :: byte) < 16" "(b :: byte) AND 0x0F < 16"
proof -
  have "unat b < 256" using unsigned_less [of b] by simp
  then show "drop_bit 4 b < 16"
    unfolding word_less_nat_alt unat_drop_bit_eq by (simp add: drop_bit_eq_div div_less_iff_less_mult)
  have "(0x0F :: byte) = mask 4" by (simp add: mask_eq_exp_minus_1)
  then have t: "b AND 0x0F = take_bit 4 b" by (simp add: take_bit_eq_mask)
  show "b AND 0x0F < 16"
    unfolding t word_less_nat_alt unsigned_take_bit_eq by (simp add: take_bit_eq_mod)
qed

lemma nibbles_unique:
  assumes "a < 16" "c < 16"
  shows "drop_bit 4 (push_bit 4 a OR c :: byte) = a" "(push_bit 4 a OR c) AND 0x0F = (c :: byte)"
proof -
  have bits: "n < 4" if "x < 16" "bit x n" for x :: byte and n
  proof -
    have "unat x < 2 ^ 4" "bit (unat x) n"
      using that by (simp_all add: word_less_nat_alt bit_unsigned_iff)
    then show ?thesis by (metis bit_take_bit_iff take_bit_nat_eq_self)
  qed
  show "drop_bit 4 (push_bit 4 a OR c) = a"
    using bits [OF assms(1)] bits [OF assms(2)] by (intro bit_word_eqI) (fastforce simp: bit_simps)
  have m: "(0x0F :: byte) = mask 4" by (simp add: mask_eq_exp_minus_1)
  show "(push_bit 4 a OR c) AND 0x0F = c"
    unfolding m using bits [OF assms(2)] by (intro bit_word_eqI) (fastforce simp: bit_simps)
qed

lemma hex_encode_simps [simp]:
  "hex_encode [] = []"
  "hex_encode (b # bs) = hexdigit (drop_bit 4 b) # hexdigit (b AND 0x0F) # hex_encode bs"
  by (simp_all add: hex_encode_def)

lemma hex_encode_append [simp]: "hex_encode (as @ bs) = hex_encode as @ hex_encode bs"
  by (simp add: hex_encode_def)

lemma length_hex_encode [simp]: "length (hex_encode bs) = 2 * length bs"
  by (induction bs) auto

text \<open>Decoding succeeds exactly on the digits of the bytes, in either case.\<close>

lemma hex_decode_iff: "hex_decode s = (bs, None) \<longleftrightarrow> map tolower s = hex_encode bs"
proof (induction s arbitrary: bs rule: hex_decode.induct)
  case 1
  then show ?case by (cases bs) auto
next
  case (2 p)
  then show ?case by (cases bs) auto
next
  case (3 p q s)
  show ?case
  proof (cases bs)
    case Nil
    then show ?thesis by (auto split: option.splits prod.splits)
  next
    case (Cons b cs)
    have "hex_decode (p # q # s) = (b # cs, None) \<longleftrightarrow>
      (\<exists>a c. hexval p = Some a \<and> hexval q = Some c \<and> push_bit 4 a OR c = b \<and> hex_decode s = (cs, None))"
      by (auto split: option.splits prod.splits)
    also have "\<dots> \<longleftrightarrow> (\<exists>a c. hexval p = Some a \<and> hexval q = Some c \<and> push_bit 4 a OR c = b)
        \<and> map tolower s = hex_encode cs"
      using "3.IH" by auto
    also have "(\<exists>a c. hexval p = Some a \<and> hexval q = Some c \<and> push_bit 4 a OR c = b) \<longleftrightarrow>
      tolower p = hexdigit (drop_bit 4 b) \<and> tolower q = hexdigit (b AND 0x0F)"
    proof
      assume "\<exists>a c. hexval p = Some a \<and> hexval q = Some c \<and> push_bit 4 a OR c = b"
      then obtain a c where ac: "a < 16" "c < 16" "tolower p = hexdigit a" "tolower q = hexdigit c"
        "b = push_bit 4 a OR c" by (auto simp: hexval_iff)
      then show "tolower p = hexdigit (drop_bit 4 b) \<and> tolower q = hexdigit (b AND 0x0F)"
        unfolding ac(5) nibbles_unique [OF ac(1,2)] by simp
    next
      assume "tolower p = hexdigit (drop_bit 4 b) \<and> tolower q = hexdigit (b AND 0x0F)"
      then show "\<exists>a c. hexval p = Some a \<and> hexval q = Some c \<and> push_bit 4 a OR c = b"
        unfolding hexval_iff
        by (intro exI [of _ "drop_bit 4 b"] exI [of _ "b AND 0x0F"] conjI nibble_bounds nibbles) simp_all
    qed
    finally show ?thesis by (simp add: Cons)
  qed
qed


section \<open>Text forms\<close>

lemma write_at_length [simp]: "off + length bs \<le> length u \<Longrightarrow> length (write_at off bs u) = length u"
  by (simp add: write_at_def)

lemma write_at_full: "length bs = length u \<Longrightarrow> write_at 0 bs u = bs"
  by (simp add: write_at_def)

lemma hex_decode_length: "hex_decode s = (bs, None) \<Longrightarrow> length s = 2 * length bs"
  using hex_decode_iff [of s bs] by (metis length_hex_encode length_map)

lemma decodeHashLike_iff:
  assumes "length u = 16" "length t = 32"
  shows "decodeHashLike t u = (v, None) \<longleftrightarrow> map tolower t = hex_encode v"
proof -
  obtain bs e where d: "hex_decode t = (bs, e)" by (cases "hex_decode t")
  show ?thesis
  proof (cases e)
    case None
    then have "length bs = 16" using hex_decode_length [of t bs] d assms(2) by simp
    moreover have "map tolower t = hex_encode bs" using d None hex_decode_iff by blast
    moreover have "hex_encode bs = hex_encode v \<longleftrightarrow> bs = v"
      using d None hex_decode_iff [of t bs] hex_decode_iff [of t v] by auto
    ultimately show ?thesis using d None assms(1) by (auto simp: decodeHashLike_def write_at_full)
  next
    case (Some x)
    then show ?thesis using d hex_decode_iff [of t v] by (auto simp: decodeHashLike_def)
  qed
qed

text \<open>A text of 36 characters, cut at the places of the dashes.\<close>

lemma canonical_cut:
  assumes "length t = 36"
  obtains a b c d e x1 x2 x3 x4 where "t = a @ x1 # b @ x2 # c @ x3 # d @ x4 # e"
    "length a = 8" "length b = 4" "length c = 4" "length d = 4" "length e = 12"
    "t ! 8 = x1" "t ! 13 = x2" "t ! 18 = x3" "t ! 23 = x4"
proof
  let ?a = "take 8 t" and ?b = "take 4 (drop 9 t)" and ?c = "take 4 (drop 14 t)"
  let ?d = "take 4 (drop 19 t)" and ?e = "drop 24 t"
  have "drop 23 t = t ! 23 # ?e" "drop 18 t = t ! 18 # drop 19 t" "drop 13 t = t ! 13 # drop 14 t"
    "drop 8 t = t ! 8 # drop 9 t"
    using assms Cons_nth_drop_Suc [of _ t] by (simp_all flip: Cons_nth_drop_Suc)
  moreover have "drop 19 t = ?d @ drop 23 t" "drop 14 t = ?c @ drop 18 t" "drop 9 t = ?b @ drop 13 t"
    using append_take_drop_id [of 4 "drop 19 t"] append_take_drop_id [of 4 "drop 14 t"]
      append_take_drop_id [of 4 "drop 9 t"] by simp_all
  ultimately show "t = ?a @ t ! 8 # ?b @ t ! 13 # ?c @ t ! 18 # ?d @ t ! 23 # ?e"
    using append_take_drop_id [of 8 t] by metis
qed (use assms in simp_all)

lemma canonical_groups_iff:
  assumes "2 * off + sum_list (map (\<lambda>(x, w). length w) ps) = 2 * length u"
  shows "canonical_groups (map (\<lambda>(x, w). length w) ps) False (concat (map (\<lambda>(x, w). x # w) ps)) off u = (v, None)
    \<longleftrightarrow> (\<exists>bss. list_all2 (\<lambda>(x, w) bs. hex_decode w = (bs, None)) ps bss \<and> v = take off u @ concat bss)"
  using assms
proof (induction ps arbitrary: off u)
  case (Cons p ps)
  obtain x w where p: "p = (x, w)" by (cases p)
  obtain bs e where d: "hex_decode w = (bs, e)" by (cases "hex_decode w")
  show ?case
  proof (cases e)
    case None
    then have len: "length w = 2 * length bs" using d hex_decode_length by blast
    have "2 * (off + length bs) + sum_list (map (\<lambda>(x, w). length w) ps) = 2 * length (write_at off bs u)"
      using Cons.prems len by (simp add: p)
    note IH = Cons.IH [OF this]
    have "take (off + length bs) (write_at off bs u) = take off u @ bs"
      using Cons.prems len by (simp add: p write_at_def)
    moreover have "(\<exists>bss. list_all2 (\<lambda>(x, w) bs. hex_decode w = (bs, None)) (p # ps) bss \<and> v = take off u @ concat bss)
      \<longleftrightarrow> (\<exists>bss. list_all2 (\<lambda>(x, w) bs. hex_decode w = (bs, None)) ps bss \<and> v = (take off u @ bs) @ concat bss)"
      by (auto simp: p d None list_all2_Cons1)
    ultimately show ?thesis using IH d None len by (simp add: p Let_def)
  qed (use d in \<open>auto simp: p list_all2_Cons1\<close>)
qed auto

lemma canonical_groups_cut:
  assumes "length u = 16" and t: "t = a @ x1 # b @ x2 # c @ x3 # d @ x4 # e"
    and len: "length a = 8" "length b = 4" "length c = 4" "length d = 4" "length e = 12"
  shows "canonical_groups byteGroups True t 0 u = (v, None) \<longleftrightarrow> (\<exists>A B C D E. v = A @ B @ C @ D @ E
    \<and> map tolower a = hex_encode A \<and> map tolower b = hex_encode B \<and> map tolower c = hex_encode C
    \<and> map tolower d = hex_encode D \<and> map tolower e = hex_encode E)"
proof -
  have "canonical_groups byteGroups True t 0 u
    = canonical_groups (map (\<lambda>(x, w). length w) [(undefined, a), (x1, b), (x2, c), (x3, d), (x4, e)]) False
        (concat (map (\<lambda>(x, w). x # w) [(undefined, a), (x1, b), (x2, c), (x3, d), (x4, e)])) 0 u"
    by (simp add: byteGroups_def t len Let_def)
  moreover have "(\<exists>bss. list_all2 (\<lambda>(x, w) bs. hex_decode w = (bs, None))
      [(undefined, a), (x1, b), (x2, c), (x3, d), (x4, e)] bss \<and> v = concat bss) \<longleftrightarrow> (\<exists>A B C D E. v = A @ B @ C @ D @ E
      \<and> hex_decode a = (A, None) \<and> hex_decode b = (B, None) \<and> hex_decode c = (C, None)
      \<and> hex_decode d = (D, None) \<and> hex_decode e = (E, None))" (is "?L \<longleftrightarrow> ?R")
  proof
    assume ?R
    then obtain A B C D E where "v = A @ B @ C @ D @ E" "hex_decode a = (A, None)" "hex_decode b = (B, None)"
      "hex_decode c = (C, None)" "hex_decode d = (D, None)" "hex_decode e = (E, None)" by blast
    then show ?L by (intro exI [of _ "[A, B, C, D, E]"]) simp
  qed (auto simp: list_all2_Cons1)
  ultimately show ?thesis
    using canonical_groups_iff [of 0 "[(undefined, a), (x1, b), (x2, c), (x3, d), (x4, e)]" u v]
    by (simp add: len assms(1) hex_decode_iff)
qed

lemma tolower_char: "c \<in> {CHR ''-'', CHR ''{'', CHR ''}''} \<Longrightarrow> tolower x = c \<longleftrightarrow> x = c"
  by (auto simp: tolower_def less_eq_char_def split: if_splits
      dest: arg_cong [where f = "of_char :: char \<Rightarrow> nat"])

lemma decodeCanonical_iff:
  assumes "length u = 16" "length t = 36"
  shows "decodeCanonical t u = (v, None) \<longleftrightarrow> length v = 16 \<and> map tolower t = uuid_String v"
proof -
  obtain a b c d e x1 x2 x3 x4 where t: "t = a @ x1 # b @ x2 # c @ x3 # d @ x4 # e"
    and len: "length a = 8" "length b = 4" "length c = 4" "length d = 4" "length e = 12"
    and x: "t ! 8 = x1" "t ! 13 = x2" "t ! 18 = x3" "t ! 23 = x4"
    by (rule canonical_cut [OF assms(2)])
  define dashes where "dashes \<longleftrightarrow> x1 = CHR ''-'' \<and> x2 = CHR ''-'' \<and> x3 = CHR ''-'' \<and> x4 = CHR ''-''"
  have 1: "decodeCanonical t u = (v, None) \<longleftrightarrow> dashes \<and> (\<exists>A B C D E. v = A @ B @ C @ D @ E
      \<and> map tolower a = hex_encode A \<and> map tolower b = hex_encode B \<and> map tolower c = hex_encode C
      \<and> map tolower d = hex_encode D \<and> map tolower e = hex_encode E)"
    unfolding decodeCanonical_def x canonical_groups_cut [OF assms(1) t len, symmetric]
    by (auto simp: dashes_def)
  show ?thesis
  proof
    assume "decodeCanonical t u = (v, None)"
    with 1 obtain A B C D E where v: "v = A @ B @ C @ D @ E" and "dashes" and h: "map tolower a = hex_encode A"
      "map tolower b = hex_encode B" "map tolower c = hex_encode C" "map tolower d = hex_encode D"
      "map tolower e = hex_encode E" by blast
    from h [THEN arg_cong [where f = length]] have "length A = 4" "length B = 2" "length C = 2" "length D = 2"
      "length E = 6" using len by simp_all
    then show "length v = 16 \<and> map tolower t = uuid_String v"
      using h \<open>dashes\<close> by (simp add: v t uuid_String_def dashes_def tolower_char)
  next
    assume "length v = 16 \<and> map tolower t = uuid_String v"
    then have v: "length v = 16" "map tolower t = uuid_String v" by simp_all
    let ?A = "take 4 v" and ?B = "take 2 (drop 4 v)" and ?C = "take 2 (drop 6 v)"
    let ?D = "take 2 (drop 8 v)" and ?E = "drop 10 v"
    have "map tolower a = hex_encode ?A \<and> x1 = CHR ''-'' \<and> map tolower b = hex_encode ?B
      \<and> x2 = CHR ''-'' \<and> map tolower c = hex_encode ?C \<and> x3 = CHR ''-''
      \<and> map tolower d = hex_encode ?D \<and> x4 = CHR ''-'' \<and> map tolower e = hex_encode ?E"
      using v(2) len v(1) by (simp add: t uuid_String_def tolower_char)
    moreover have "v = ?A @ ?B @ ?C @ ?D @ ?E"
      using append_take_drop_id [of 4 v] append_take_drop_id [of 2 "drop 4 v"]
        append_take_drop_id [of 2 "drop 6 v"] append_take_drop_id [of 2 "drop 8 v"] by simp
    ultimately show "decodeCanonical t u = (v, None)" unfolding 1 dashes_def by blast
  qed
qed

text \<open>The texts of a UUID: its digits, with or without the dashes.\<close>

definition plain_form :: "UUID \<Rightarrow> string \<Rightarrow> bool" where
  "plain_form v t \<longleftrightarrow> length v = 16 \<and> (map tolower t = hex_encode v \<or> map tolower t = uuid_String v)"

lemma length_uuid_String [simp]: "length v = 16 \<Longrightarrow> length (uuid_String v) = 36"
  by (simp add: uuid_String_def)

lemma plain_form_length: "plain_form v t \<Longrightarrow> length t = 32 \<or> length t = 36"
  unfolding plain_form_def by (metis length_hex_encode length_map length_uuid_String mult_2 numeral_Bit0)

lemma decodeHashLike_form:
  "length u = 16 \<Longrightarrow> length t = 32 \<Longrightarrow> decodeHashLike t u = (v, None) \<longleftrightarrow> plain_form v t"
  by (auto simp: decodeHashLike_iff plain_form_def dest: arg_cong [where f = length])

lemma decodeCanonical_form:
  "length u = 16 \<Longrightarrow> length t = 36 \<Longrightarrow> decodeCanonical t u = (v, None) \<longleftrightarrow> plain_form v t"
  by (auto simp: decodeCanonical_iff plain_form_def dest: arg_cong [where f = length])

lemma decodePlain_form: "length u = 16 \<Longrightarrow> decodePlain t u = (v, None) \<longleftrightarrow> plain_form v t"
  using plain_form_length [of v t] decodeHashLike_form [of u t v] decodeCanonical_form [of u t v]
  by (auto simp: decodePlain_def)

lemma braced_iff: "t \<noteq> [] \<Longrightarrow> length t \<noteq> 1 \<Longrightarrow>
  t ! 0 = x \<and> t ! (length t - 1) = y \<longleftrightarrow> (\<exists>w. t = x # w @ [y] \<and> drop 1 (take (length t - 1) t) = w)"
  by (cases t; cases "tl t" rule: rev_cases) (auto simp: nth_append)

definition text_form :: "UUID \<Rightarrow> string \<Rightarrow> bool" where
  "text_form v s \<longleftrightarrow> plain_form v s \<or> (\<exists>t. s = ''{'' @ t @ ''}'' \<and> plain_form v t)
     \<or> (\<exists>t. s = ''urn:uuid:'' @ t \<and> plain_form v t)"

lemma decodeBraced_form:
  assumes "length u = 16" "1 < length s"
  shows "decodeBraced s u = (v, None) \<longleftrightarrow> (\<exists>t. s = ''{'' @ t @ ''}'' \<and> plain_form v t)"
proof -
  have "s \<noteq> []" "length s \<noteq> 1" using assms(2) by auto
  from braced_iff [OF this, of "CHR ''{''" "CHR ''}''"] show ?thesis
    by (auto simp: decodeBraced_def decodePlain_form [OF assms(1)])
qed

lemma decodeURN_form:
  assumes "length u = 16"
  shows "decodeURN s u = (v, None) \<longleftrightarrow> (\<exists>t. s = ''urn:uuid:'' @ t \<and> plain_form v t)"
proof -
  have "take 9 s = ''urn:uuid:'' \<longleftrightarrow> (\<exists>t. s = ''urn:uuid:'' @ t)"
  proof
    assume "take 9 s = ''urn:uuid:''"
    then show "\<exists>t. s = ''urn:uuid:'' @ t" by (metis append_take_drop_id)
  qed auto
  then show ?thesis by (auto simp: decodeURN_def decodePlain_form [OF assms])
qed

lemma UnmarshalText_form:
  assumes "length u = 16"
  shows "UnmarshalText s u = (v, None) \<longleftrightarrow> text_form v s"
proof -
  have A: "plain_form v s \<Longrightarrow> length s = 32 \<or> length s = 36" by (rule plain_form_length)
  have B: "length s = 34 \<or> length s = 38" if "s = ''{'' @ t @ ''}''" "plain_form v t" for t
    using plain_form_length [OF that(2)] that(1) by auto
  have C: "length s = 41 \<or> length s = 45" if "s = ''urn:uuid:'' @ t" "plain_form v t" for t
    using plain_form_length [OF that(2)] that(1) by auto
  consider "length s = 32" | "length s = 34 \<or> length s = 38" | "length s = 36"
    | "length s = 41 \<or> length s = 45" | "length s \<notin> {32, 34, 36, 38, 41, 45}" by auto
  then show ?thesis
  proof cases
    case 1
    then show ?thesis using B C by (auto simp: UnmarshalText_def text_form_def decodeHashLike_form [OF assms])
  next
    case 2
    then show ?thesis using A C by (auto simp: UnmarshalText_def text_form_def decodeBraced_form [OF assms])
  next
    case 3
    then show ?thesis using B C
      by (auto simp: UnmarshalText_def text_form_def decodeCanonical_form [OF assms])
  next
    case 4
    then show ?thesis using A B by (auto simp: UnmarshalText_def text_form_def decodeURN_form [OF assms])
  next
    case 5
    then show ?thesis using A B C by (auto simp: UnmarshalText_def text_form_def)
  qed
qed

lemma tolower_hexdigit: "n < 16 \<Longrightarrow> tolower (hexdigit n) = hexdigit n"
proof -
  assume n: "n < 16"
  have "\<forall>k \<in> set [0 ..< 16]. tolower (''0123456789abcdef'' ! k) = ''0123456789abcdef'' ! k" by code_simp
  then show ?thesis using n by (simp add: hexdigit_def word_less_nat_alt)
qed

lemma tolower_hex_encode: "map tolower (hex_encode bs) = hex_encode bs"
  by (induction bs) (simp_all add: tolower_hexdigit nibble_bounds)

lemma tolower_uuid_String: "map tolower (uuid_String u) = uuid_String u"
  by (simp add: uuid_String_def tolower_hex_encode tolower_char)

lemma capital_hexdigit: "n < 16 \<Longrightarrow> tolower (toCapitalHexDigits (hexdigit n)) = hexdigit n"
proof -
  assume n: "n < 16"
  have "\<forall>k \<in> set [0 ..< 16]. tolower (toCapitalHexDigits (''0123456789abcdef'' ! k)) = ''0123456789abcdef'' ! k"
    by code_simp
  then show ?thesis using n by (simp add: hexdigit_def word_less_nat_alt)
qed

lemma capital_hex_encode: "map (tolower \<circ> toCapitalHexDigits) (hex_encode bs) = hex_encode bs"
  by (induction bs) (simp_all add: capital_hexdigit nibble_bounds)

lemma capital_uuid_String: "map (tolower \<circ> toCapitalHexDigits) (uuid_String u) = uuid_String u"
  by (simp add: uuid_String_def capital_hex_encode toCapitalHexDigits_def tolower_char)

lemma plain_form_String: "length u = 16 \<Longrightarrow> plain_form u (uuid_String u)"
  by (simp add: plain_form_def tolower_uuid_String)

text \<open>What \<open>Format\<close> writes for the verbs \<open>x\<close>, \<open>X\<close>, \<open>s\<close> and \<open>S\<close> is a text of the UUID.\<close>

lemma format_forms:
  assumes "length u = 16" "c \<in> set ''xXsS''"
  shows "plain_form u (uuid_Format gs u sharp c)"
  using assms by (auto simp: uuid_Format_def plain_form_def tolower_hex_encode tolower_uuid_String
      capital_hex_encode capital_uuid_String)

text \<open>Writing to a database and scanning back gives the value, for both columns.\<close>

lemma scan_value: "length u = 16 \<Longrightarrow> length r = 16 \<Longrightarrow> UUID_Scan (UUID_Value u) r = (u, None)"
  by (simp add: UUID_Scan_def UUID_Value_def UnmarshalText_form text_form_def plain_form_String)

lemma scan_null_value:
  assumes "length (null_UUID v) = 16" "\<not> Valid v \<Longrightarrow> null_UUID v = uuid_Nil" "length (null_UUID w) = 16"
  shows "NullUUID_Scan (NullUUID_Value v) w = (v, None)"
  using assms scan_value [OF assms(1,3)]
  by (auto simp: NullUUID_Scan_def NullUUID_Value_def UUID_Value_def intro: NullUUID.equality)

text \<open>C30. \<open>FromString\<close> accepts exactly the notations of a UUID: its 32 hexadecimal digits in
  either case, with or without the dashes of the canonical form, bare, in braces or after
  \<open>urn:uuid:\<close>; and it returns that UUID. Every text of any other length or form is an error.
\<close>

theorem uuid_text_forms: "FromString s = (u, None) \<longleftrightarrow> text_form u s"
  unfolding FromString_def by (rule UnmarshalText_form) (simp add: uuid_Nil_def uuid_Size_def)

text \<open>C31. What a UUID prints, scans back: the text of every hexadecimal verb of \<open>Format\<close>
  (capital digits included) read by \<open>FromString\<close>, the binary form read by \<open>FromBytes\<close>, and the
  database value scanned into any receiver.
\<close>

theorem uuid_roundtrip:
  assumes "length u = uuid_Size" "length r = uuid_Size" "c \<in> set ''xXsS''"
  shows "FromString (uuid_Format go_syntax u sharp c) = (u, None)
    \<and> FromString (MarshalText u) = (u, None)
    \<and> FromBytes (MarshalBinary u) = (u, None)
    \<and> UUID_Scan (UUID_Value u) r = (u, None)
    \<and> UUID_Scan (dv_bytes (MarshalBinary u)) r = (u, None)"
proof -
  have u: "length u = 16" "length r = 16" "length uuid_Nil = 16" using assms by (simp_all add: uuid_Size_def uuid_Nil_def)
  then show ?thesis
    using format_forms [OF u(1) assms(3)] scan_value [OF u(1,2)] plain_form_String [OF u(1)]
    by (auto simp: FromString_def UnmarshalText_form text_form_def MarshalText_def FromBytes_def
        MarshalBinary_def UnmarshalBinary_def uuid_Size_def write_at_full UUID_Scan_def)
qed

definition sample_uuid :: UUID where
  "sample_uuid = [0x6b, 0xa7, 0xb8, 0x10, 0x9d, 0xad, 0x11, 0xd1, 0x80, 0xb4, 0x00, 0xc0, 0x4f, 0xd4, 0x30, 0xc8]"

theorem uuid_roundtrip_witness:
  "length sample_uuid = uuid_Size \<and> CHR ''X'' \<in> set ''xXsS''
    \<and> FromString (uuid_Format (\<lambda>_. []) sample_uuid False (CHR ''X'')) = (sample_uuid, None)
    \<and> UUID_Scan (UUID_Value sample_uuid) uuid_Nil = (sample_uuid, None)"
  using uuid_roundtrip [of sample_uuid uuid_Nil "CHR ''X''" "\<lambda>_. []" False]
  by (simp add: sample_uuid_def uuid_Size_def uuid_Nil_def)


section \<open>Version and variant\<close>

lemma SetVersion_byte:
  assumes "v < 16"
  shows "drop_bit 4 ((b AND 0x0F) OR push_bit 4 v :: byte) = v"
    "((b AND 0x0F) OR push_bit 4 v :: byte) AND 0x0F = b AND 0x0F"
  using nibbles_unique [OF assms nibble_bounds(2) [of b]] by (simp_all add: or.commute)

lemma variant_byte:
  "drop_bit 6 ((b AND 0x3F) OR 0x80 :: byte) = 2"
  "((b AND 0x3F) OR 0x80 :: byte) AND 0x3F = b AND 0x3F"
  "drop_bit 7 ((b AND 0x3F) OR 0x80 :: byte) \<noteq> 0"
proof -
  have m: "(0x3F :: byte) = mask 6" and p: "0x80 = push_bit 7 (1 :: byte)" by (simp_all add: mask_eq_exp_minus_1)
  have two: "(2 :: byte) = push_bit 1 1" by simp
  show "drop_bit 6 ((b AND 0x3F) OR 0x80) = 2"
    unfolding m p two by (intro bit_word_eqI) (auto simp: bit_simps simp del: push_bit_of_1)
  show "((b AND 0x3F) OR 0x80) AND 0x3F = b AND 0x3F"
    unfolding m p by (intro bit_word_eqI) (auto simp: bit_simps simp del: push_bit_of_1)
  have "bit (drop_bit 7 ((b AND 0x3F) OR 0x80)) 0"
    unfolding m p by (simp add: bit_simps)
  then show "drop_bit 7 ((b AND 0x3F) OR 0x80) \<noteq> 0" by auto
qed

text \<open>Stamping a version and the RFC 4122 variant changes those six bits only.\<close>

definition stamped :: "byte \<Rightarrow> bytes \<Rightarrow> UUID \<Rightarrow> bool" where
  "stamped v bs u \<longleftrightarrow> length u = uuid_Size \<and> uuid_Version u = v \<and> uuid_variant u = variantRFC4122
     \<and> u ! 6 AND 0x0F = bs ! 6 AND 0x0F \<and> u ! 8 AND 0x3F = bs ! 8 AND 0x3F
     \<and> (\<forall>i \<in> {..<uuid_Size} - {6, 8}. u ! i = bs ! i)"

lemma stamp:
  assumes "length bs = 16" "v < 16"
  shows "stamped v bs (setVariant (SetVersion bs v) variantRFC4122)"
proof -
  have "variantRFC4122 \<noteq> variantNCS" by (simp add: variantNCS_def variantRFC4122_def)
  then have "setVariant (SetVersion bs v) variantRFC4122
    = bs[6 := (bs ! 6 AND 0x0F) OR push_bit 4 v, 8 := (bs ! 8 AND 0x3F) OR 0x80]"
    by (simp add: setVariant_def SetVersion_def)
  then show ?thesis
    using assms(1) SetVersion_byte [OF assms(2), of "bs ! 6"] variant_byte [of "bs ! 8"]
    by (simp add: stamped_def uuid_Size_def uuid_Version_def uuid_variant_def)
qed

lemma newFromHash_take: "16 \<le> length (h (ns @ bytes_of name)) \<Longrightarrow>
  newFromHash h ns name = take 16 (h (ns @ bytes_of name))"
  by (simp add: newFromHash_def write_at_def uuid_Nil_def uuid_Size_def)

text \<open>Every generated UUID carries its version and the RFC 4122 variant and keeps all
  other bits of its source: the digest of the name space and the name for versions 3 and 5, with
  digests of 16 and 20 bytes, and the random bytes for version 4, which fails exactly when the
  random source fails.
\<close>

theorem uuid_generators:
  assumes "\<And>x. length (md5 x) = 16" "\<And>x. length (sha1 x) = 20"
  shows "stamped V3 (md5 (ns @ bytes_of name)) (NewV3 md5 ns name)
    \<and> stamped V5 (sha1 (ns @ bytes_of name)) (NewV5 sha1 ns name)
    \<and> (\<forall>bs. length bs = uuid_Size \<longrightarrow> (\<exists>u. NewV4 (Some bs) = (u, None) \<and> stamped V4 bs u))
    \<and> NewV4 None = (uuid_Nil, Some rand_err)"
proof -
  have v: "V3 < 16" "V4 < 16" "V5 < 16" by (simp_all add: V3_def V4_def V5_def)
  have take: "stamped w (take 16 bs) u \<Longrightarrow> stamped w bs u" for w bs u
    by (simp add: stamped_def uuid_Size_def)
  have "stamped V3 (md5 (ns @ bytes_of name)) (NewV3 md5 ns name)"
    using stamp [OF _ v(1), of "take 16 (md5 (ns @ bytes_of name))"] assms(1)
    by - (rule take, simp add: NewV3_def newFromHash_take)
  moreover have "stamped V5 (sha1 (ns @ bytes_of name)) (NewV5 sha1 ns name)"
    using stamp [OF _ v(3), of "take 16 (sha1 (ns @ bytes_of name))"] assms(2)
    by - (rule take, simp add: NewV5_def newFromHash_take)
  moreover have "stamped V4 bs (fst (NewV4 (Some bs)))" if "length bs = uuid_Size" for bs
    using stamp [OF _ v(2), of bs] that by (simp add: NewV4_def write_at_full uuid_Nil_def uuid_Size_def)
  ultimately show ?thesis by (simp add: NewV4_def)
qed

theorem uuid_generators_witness:
  "stamped V3 (replicate 16 0xFF) (NewV3 (\<lambda>_. replicate 16 0xFF) sample_uuid ''name'')
    \<and> stamped V5 (replicate 20 0) (NewV5 (\<lambda>_. replicate 20 0) sample_uuid ''name'')
    \<and> (\<exists>u. NewV4 (Some sample_uuid) = (u, None) \<and> stamped V4 sample_uuid u)"
  using uuid_generators [of "\<lambda>_. replicate 16 0xFF" "\<lambda>_. replicate 20 0" sample_uuid "''name''"]
  by (simp add: sample_uuid_def uuid_Size_def)

text \<open>
  Two calls in a row never return the same pair of time and clock sequence: when the time has not
  grown the sequence has.
\<close>

lemma clock_pairs_differ:
  assumes "getClockSequence r1 t1 g = (g', Some p)" "getClockSequence r2 t2 g' = (g'', Some q)"
  shows "p \<noteq> q"
proof -
  have g': "clockSequenceDone g'" "lastTime g' = fst p" "clockSequence g' = snd p"
    using assms(1) by (auto simp: getClockSequence_def Let_def split: if_splits option.splits)
  show ?thesis using assms(2) g'
    by (cases p; cases q) (auto simp: getClockSequence_def Let_def split: if_splits)
qed

end
