(* ===== verification/Tar_Stream.thy ===== *)
theory Tar_Stream
  imports Go_Text
begin

text \<open>
  Tarballs assembled from pieces (\<open>pkg/tarstream\<close>): a \<open>TarVec\<close> is a reader over a sequence of memory
  blocks, files and padding that keeps at most one piece open. The lemmas show that it behaves as a
  reader of one contiguous byte sequence, whatever the pieces and the sizes of the reads. Files are
  what the process can read at the moment of a call, an argument of the operations.
\<close>

section \<open>Pieces\<close>

datatype Datavec = MemVec bytes | PathVec string int | PadVec int

datatype DataReader = bytesReader bytes | osFile string | padReader int

datatype io_err = io_EOF | open_error | read_error | negative_offset | ErrInvalid

type_synonym files = "string \<Rightarrow> bytes option"

text \<open>64-bit arithmetic on signed values.\<close>

definition i64 :: "int \<Rightarrow> int" where
  "i64 x = sint (word_of_int x :: int64)"

fun GetSize :: "Datavec \<Rightarrow> int" where
  "GetSize (MemVec d) = int (length d)"
| "GetSize (PathVec p sz) = sz"
| "GetSize (PadVec n) = n"

fun Datavec_Open :: "files \<Rightarrow> Datavec \<Rightarrow> io_err + DataReader" where
  "Datavec_Open fs (MemVec d) = Inr (bytesReader d)"
| "Datavec_Open fs (PathVec p sz) = (if fs p = None then Inl open_error else Inr (osFile p))"
| "Datavec_Open fs (PadVec n) = Inr (padReader n)"

text \<open>\<open>ReadAt\<close> into a buffer of \<open>k\<close> bytes: the count, the bytes stored and the error. The first two
  readers are \<open>bytes.Reader\<close> and \<open>os.File\<close>; only the latter accepts an empty buffer at its end.\<close>

fun ReadAt :: "files \<Rightarrow> DataReader \<Rightarrow> nat \<Rightarrow> int \<Rightarrow> int \<times> bytes \<times> io_err option" where
  "ReadAt fs (bytesReader d) k off =
     (if off < 0 then (0, [], Some negative_offset)
      else if int (length d) \<le> off then (0, [], Some io_EOF)
      else let bs = take k (drop (nat off) d)
        in (int (length bs), bs, if length bs < k then Some io_EOF else None))"
| "ReadAt fs (osFile p) k off =
     (if off < 0 then (0, [], Some negative_offset)
      else case fs p of
        None \<Rightarrow> (0, [], Some read_error)
      | Some d \<Rightarrow> let bs = take k (drop (nat off) d)
        in (int (length bs), bs, if length bs < k then Some io_EOF else None))"
| "ReadAt fs (padReader sz) k off =
     (let rem = i64 (sz - off)
      in if rem = 0 then (0, [], Some io_EOF)
         else let n = min rem (int k) in (n, replicate (nat n) 0, None))"


section \<open>The reader\<close>

record currReader =
  cr_idx :: nat
  cr_size :: int
  cr_data :: DataReader

record TarVec =
  vecs :: "Datavec list"
  starts :: "int list"
  ends :: "int list"
  tv_size :: int
  tv_pos :: int
  tv_curr :: "currReader option"

fun sizes_loop :: "Datavec list \<Rightarrow> int \<Rightarrow> int list \<times> int list \<times> int" where
  "sizes_loop [] totalSize = ([], [], totalSize)"
| "sizes_loop (dv # dvs) totalSize =
     (let size = GetSize dv
      in case sizes_loop dvs (i64 (totalSize + size)) of (ss, es, t) \<Rightarrow>
         (totalSize # ss, i64 (totalSize + size) # es, t))"

definition NewTarVec :: "Datavec list \<Rightarrow> TarVec" where
  "NewTarVec vs = (case sizes_loop vs 0 of (ss, es, t) \<Rightarrow>
     \<lparr>vecs = vs, starts = ss, ends = es, tv_size = t, tv_pos = 0, tv_curr = None\<rparr>)"

definition TarVec_Size :: "TarVec \<Rightarrow> int" where
  "TarVec_Size tv = tv_size tv"

text \<open>\<open>Clone\<close> leaves \<open>size\<close> at its zero value.\<close>

definition TarVec_Clone :: "TarVec \<Rightarrow> TarVec" where
  "TarVec_Clone tv = \<lparr>vecs = vecs tv, starts = starts tv, ends = ends tv, tv_size = 0,
     tv_pos = tv_pos tv, tv_curr = None\<rparr>"

text \<open>Opening the piece that contains the current position.\<close>

definition openReader :: "files \<Rightarrow> TarVec \<Rightarrow> TarVec \<times> (io_err + currReader)" where
  "openReader fs tv =
     (let candidate = search (\<lambda>i. ends tv ! i > tv_pos tv) 0 (length (ends tv))
      in if candidate = length (ends tv) then (tv, Inl io_EOF)
         else case Datavec_Open fs (vecs tv ! candidate) of
             Inl e \<Rightarrow> (tv, Inl open_error)
           | Inr d \<Rightarrow> let c = \<lparr>cr_idx = candidate, cr_size = GetSize (vecs tv ! candidate), cr_data = d\<rparr>
               in (tv\<lparr>tv_curr := Some c\<rparr>, Inr c))"

definition getReader :: "files \<Rightarrow> TarVec \<Rightarrow> TarVec \<times> (io_err + currReader)" where
  "getReader fs tv = (case tv_curr tv of
       None \<Rightarrow> openReader fs tv
     | Some c \<Rightarrow> if tv_pos tv \<ge> starts tv ! cr_idx c \<and> tv_pos tv < ends tv ! cr_idx c
         then (tv, Inr c) else openReader fs (tv\<lparr>tv_curr := None\<rparr>))"

datatype read_result = Panicked | Returned int bytes "io_err option"

definition TarVec_Read :: "files \<Rightarrow> nat \<Rightarrow> TarVec \<Rightarrow> TarVec \<times> read_result" where
  "TarVec_Read fs k tv = (case getReader fs tv of
       (tv1, Inl e) \<Rightarrow> (tv1, Returned 0 [] (Some e))
     | (tv1, Inr cr) \<Rightarrow>
         let off = i64 (tv_pos tv1 - starts tv1 ! cr_idx cr);
             remaining = i64 (cr_size cr - off);
             hasMoreVecs = cr_idx cr + 1 < length (vecs tv1)
         in if remaining < 0 then (tv1, Panicked)
            else if remaining = 0 \<and> hasMoreVecs \<and> cr_size cr > 0 then (tv1, Panicked)
            else case ReadAt fs (cr_data cr) k off of (n, bs, err) \<Rightarrow>
              let err' = (if err = Some io_EOF then None else err)
              in if n = 0 \<and> k > 0 \<and> (err' = None \<or> err' = Some io_EOF) then (tv1, Panicked)
                 else (tv1\<lparr>tv_pos := i64 (tv_pos tv1 + n)\<rparr>, Returned n bs err'))"

definition TarVec_Seek :: "int \<Rightarrow> int \<Rightarrow> TarVec \<Rightarrow> TarVec \<times> int \<times> io_err option" where
  "TarVec_Seek offset whence tv =
     (if whence = 0 then
        if offset < 0 then (tv, 0, Some ErrInvalid)
        else (tv\<lparr>tv_pos := offset\<rparr>, offset, None)
      else if whence = 1 then
        if i64 (tv_pos tv + offset) < 0 then (tv, 0, Some ErrInvalid)
        else (tv\<lparr>tv_pos := i64 (tv_pos tv + offset)\<rparr>, i64 (tv_pos tv + offset), None)
      else if whence = 2 then
        if i64 (tv_size tv + offset) < 0 then (tv, 0, Some ErrInvalid)
        else (tv\<lparr>tv_pos := i64 (tv_size tv + offset)\<rparr>, i64 (tv_size tv + offset), None)
      else (tv, 0, Some ErrInvalid))"

definition TarVec_Close :: "TarVec \<Rightarrow> TarVec" where
  "TarVec_Close tv = tv\<lparr>tv_curr := None\<rparr>"


section \<open>Image layers\<close>

text \<open>
  \<open>Opener\<close> of \<open>pkg/dockerbuild/tarcopy.go\<close>. Of a tar header it reads size and kind; what
  \<open>archive/tar\<close> writes for it is an argument.
\<close>

record tarHeader =
  hdr_name :: string
  hdr_size :: int
  hdr_dir :: bool

record tarEntry =
  ent_header :: tarHeader
  ent_data :: "bytes option"
  ent_hostPath :: "string option"

definition entry_data :: "tarEntry \<Rightarrow> Datavec option" where
  "entry_data e = (case ent_hostPath e of
       Some p \<Rightarrow> Some (PathVec p (hdr_size (ent_header e)))
     | None \<Rightarrow> map_option MemVec (ent_data e))"

definition entry_padding :: "tarEntry \<Rightarrow> Datavec \<Rightarrow> Datavec list" where
  "entry_padding e dataEntry = (let size = GetSize dataEntry in
     if \<not> hdr_dir (ent_header e) \<and> size smod 512 \<noteq> 0 then [PadVec (512 - size smod 512)] else [])"

fun entries_loop :: "(tarHeader \<Rightarrow> bytes option) \<Rightarrow> tarEntry list \<Rightarrow> Datavec list option" where
  "entries_loop write_header [] = Some []"
| "entries_loop write_header (e # es) = (case write_header (ent_header e) of
       None \<Rightarrow> None
     | Some buf \<Rightarrow>
         let dvecs = MemVec buf # (case entry_data e of None \<Rightarrow> [] | Some d \<Rightarrow> d # entry_padding e d)
         in map_option (\<lambda>rest. dvecs @ rest) (entries_loop write_header es))"

text \<open>The reader an opened layer is; nothing when a header cannot be written.\<close>

definition Opener :: "(tarHeader \<Rightarrow> bytes option) \<Rightarrow> tarEntry list \<Rightarrow> TarVec option" where
  "Opener write_header entries =
     map_option (\<lambda>dvecs. TarVec_Clone (NewTarVec dvecs)) (entries_loop write_header entries)"


section \<open>The contiguous sequence\<close>

text \<open>What a piece holds, and the sequence a tarball stands for.\<close>

fun vec_bytes :: "files \<Rightarrow> Datavec \<Rightarrow> bytes" where
  "vec_bytes fs (MemVec d) = d"
| "vec_bytes fs (PathVec p sz) = the (fs p)"
| "vec_bytes fs (PadVec n) = replicate (nat n) 0"

text \<open>A file must be readable and have the size that was recorded for it.\<close>

fun vec_ok :: "files \<Rightarrow> Datavec \<Rightarrow> bool" where
  "vec_ok fs (MemVec d) \<longleftrightarrow> True"
| "vec_ok fs (PathVec p sz) \<longleftrightarrow> fs p \<noteq> None \<and> int (length (the (fs p))) = sz"
| "vec_ok fs (PadVec n) \<longleftrightarrow> 0 \<le> n"

definition all_bytes :: "files \<Rightarrow> Datavec list \<Rightarrow> bytes" where
  "all_bytes fs vs = concat (map (vec_bytes fs) vs)"

definition start_of :: "files \<Rightarrow> Datavec list \<Rightarrow> nat \<Rightarrow> int" where
  "start_of fs vs i = int (length (all_bytes fs (take i vs)))"

definition vecs_ok :: "files \<Rightarrow> Datavec list \<Rightarrow> bool" where
  "vecs_ok fs vs \<longleftrightarrow> list_all (vec_ok fs) vs \<and> int (length (all_bytes fs vs)) < 2 ^ 63"

text \<open>The state of a reader over given pieces; \<open>sized\<close> says whether it knows its total size.\<close>

definition tv_ok :: "files \<Rightarrow> bool \<Rightarrow> TarVec \<Rightarrow> bool" where
  "tv_ok fs sized tv \<longleftrightarrow> vecs_ok fs (vecs tv)
     \<and> starts tv = map (start_of fs (vecs tv)) [0..<length (vecs tv)]
     \<and> ends tv = map (\<lambda>i. start_of fs (vecs tv) (Suc i)) [0..<length (vecs tv)]
     \<and> (sized \<longrightarrow> tv_size tv = int (length (all_bytes fs (vecs tv))))
     \<and> 0 \<le> tv_pos tv \<and> tv_pos tv < 2 ^ 63
     \<and> (\<forall>c. tv_curr tv = Some c \<longrightarrow> cr_idx c < length (vecs tv) \<and> cr_size c = GetSize (vecs tv ! cr_idx c)
          \<and> Datavec_Open fs (vecs tv ! cr_idx c) = Inr (cr_data c))"

lemma i64_small: "- (2 ^ 63) \<le> x \<Longrightarrow> x < 2 ^ 63 \<Longrightarrow> i64 x = x"
  by (simp add: i64_def sint_small)

lemma GetSize_bytes: "vec_ok fs v \<Longrightarrow> GetSize v = int (length (vec_bytes fs v))"
  by (cases v) auto

lemma Open_ok: "vec_ok fs v \<Longrightarrow> \<exists>d. Datavec_Open fs v = Inr d"
  by (cases v) auto

lemma all_bytes_simps [simp]:
  "all_bytes fs [] = []" "all_bytes fs (v # vs) = vec_bytes fs v @ all_bytes fs vs"
  "all_bytes fs (vs @ ws) = all_bytes fs vs @ all_bytes fs ws"
  by (simp_all add: all_bytes_def)

lemma start_of_Suc: "i < length vs \<Longrightarrow> start_of fs vs (Suc i) = start_of fs vs i + int (length (vec_bytes fs (vs ! i)))"
  by (simp add: start_of_def take_Suc_conv_app_nth)

lemma start_of_mono: "i \<le> j \<Longrightarrow> start_of fs vs i \<le> start_of fs vs j"
proof -
  assume "i \<le> j"
  then have "take j vs = take i vs @ take (j - i) (drop i vs)" by (metis take_add le_add_diff_inverse)
  then show ?thesis by (simp add: start_of_def)
qed

lemma start_of_le: "start_of fs vs i \<le> int (length (all_bytes fs vs))"
proof -
  have "all_bytes fs vs = all_bytes fs (take i vs) @ all_bytes fs (drop i vs)"
    by (metis append_take_drop_id all_bytes_simps(3))
  then show ?thesis by (simp add: start_of_def)
qed

lemma start_of_length: "start_of fs vs (length vs) = int (length (all_bytes fs vs))"
  by (simp add: start_of_def)

lemma vecs_ok_small: "vecs_ok fs vs \<Longrightarrow> 0 \<le> start_of fs vs i \<and> start_of fs vs i < 2 ^ 63"
  using start_of_le [of fs vs i] by (simp add: vecs_ok_def start_of_def)

lemma sizes_loop_starts:
  assumes "vecs_ok fs (ws @ vs)"
  shows "sizes_loop vs (start_of fs (ws @ vs) (length ws))
    = (map (\<lambda>i. start_of fs (ws @ vs) (length ws + i)) [0..<length vs],
       map (\<lambda>i. start_of fs (ws @ vs) (Suc (length ws + i))) [0..<length vs],
       start_of fs (ws @ vs) (length (ws @ vs)))"
  using assms
proof (induction vs arbitrary: ws)
  case (Cons v vs)
  have "vec_ok fs v" using Cons.prems by (simp add: vecs_ok_def)
  then have "start_of fs (ws @ v # vs) (length ws) + GetSize v = start_of fs (ws @ v # vs) (Suc (length ws))"
    by (simp add: start_of_Suc GetSize_bytes nth_append)
  moreover have "i64 (start_of fs (ws @ v # vs) (Suc (length ws))) = start_of fs (ws @ v # vs) (Suc (length ws))"
    using vecs_ok_small [OF Cons.prems, of "Suc (length ws)"] by (simp add: i64_small)
  ultimately show ?case
    using Cons.IH [of "ws @ [v]"] Cons.prems
    by (simp add: Let_def upt_conv_Cons map_Suc_upt [symmetric] o_def del: upt_Suc map_Suc_upt)
qed simp

lemma NewTarVec_ok: "vecs_ok fs vs \<Longrightarrow> tv_ok fs True (NewTarVec vs)"
  using sizes_loop_starts [of fs "[]" vs] vecs_ok_small [of fs vs "length vs"]
  by (auto simp: NewTarVec_def tv_ok_def start_of_length) (auto simp: start_of_def)

lemma openReader_spec:
  assumes "tv_ok fs sized tv" "openReader fs tv = (tv1, r)"
  shows "if tv_pos tv < int (length (all_bytes fs (vecs tv)))
    then \<exists>c. r = Inr c \<and> tv1 = tv\<lparr>tv_curr := Some c\<rparr> \<and> tv_ok fs sized tv1
      \<and> starts tv ! cr_idx c \<le> tv_pos tv \<and> tv_pos tv < ends tv ! cr_idx c
    else r = Inl io_EOF \<and> tv1 = tv"
proof -
  let ?vs = "vecs tv" and ?n = "length (vecs tv)"
  define P where "P = (\<lambda>i. ends tv ! i > tv_pos tv)"
  have P: "P i \<longleftrightarrow> start_of fs ?vs (Suc i) > tv_pos tv" if "i < ?n" for i
    using assms(1) that by (simp add: P_def tv_ok_def)
  have le: "length (ends tv) = ?n" using assms(1) by (simp add: tv_ok_def)
  have mono: "P b" if "a \<le> b" "b < ?n" "P a" for a b
    using that P [of a] P [of b] start_of_mono [of "Suc a" "Suc b" fs ?vs] by simp
  define k where "k = search P 0 ?n"
  have k: "k \<le> ?n" "\<And>a. a < k \<Longrightarrow> \<not> P a" "k < ?n \<Longrightarrow> P k"
    using search_spec [of 0 ?n P] mono by (auto simp: k_def)
  have low: "start_of fs ?vs k \<le> tv_pos tv"
  proof (cases k)
    case 0
    then show ?thesis using assms(1) by (simp add: tv_ok_def start_of_def)
  next
    case (Suc j)
    then show ?thesis using k(2) [of j] P [of j] k(1) by simp
  qed
  have high: "tv_pos tv < start_of fs ?vs (Suc k)" if "k < ?n" using k(3) P that by simp
  have eof: "k = ?n \<longleftrightarrow> \<not> tv_pos tv < int (length (all_bytes fs ?vs))"
    using low high k(1) start_of_le [of fs ?vs "Suc k"] start_of_length [of fs ?vs] by (cases "k < ?n") auto
  have "\<exists>d. Datavec_Open fs (?vs ! k) = Inr d" if "k < ?n"
    using assms(1) that by (auto simp: tv_ok_def vecs_ok_def list_all_length intro: Open_ok)
  moreover have o: "(tv1, r) = (if k = ?n then (tv, Inl io_EOF)
      else case Datavec_Open fs (?vs ! k) of Inl e \<Rightarrow> (tv, Inl open_error)
        | Inr d \<Rightarrow> let c = \<lparr>cr_idx = k, cr_size = GetSize (?vs ! k), cr_data = d\<rparr> in (tv\<lparr>tv_curr := Some c\<rparr>, Inr c))"
    using assms(2) unfolding openReader_def Let_def le P_def [symmetric] k_def [symmetric] by simp
  ultimately show ?thesis
    using eof low high k(1) assms(1) by (cases "k = ?n") (auto simp: Let_def tv_ok_def)
qed

lemma getReader_spec:
  assumes "tv_ok fs sized tv" "getReader fs tv = (tv1, r)"
  shows "if tv_pos tv < int (length (all_bytes fs (vecs tv)))
    then \<exists>c. r = Inr c \<and> tv1 = tv\<lparr>tv_curr := Some c\<rparr> \<and> tv_ok fs sized tv1
      \<and> starts tv ! cr_idx c \<le> tv_pos tv \<and> tv_pos tv < ends tv ! cr_idx c
    else r = Inl io_EOF \<and> tv1 = tv\<lparr>tv_curr := None\<rparr>"
proof -
  have closed: "tv_ok fs sized (tv\<lparr>tv_curr := None\<rparr>)" using assms(1) by (simp add: tv_ok_def)
  have fresh: ?thesis if "openReader fs (tv\<lparr>tv_curr := None\<rparr>) = (tv1, r)"
    using openReader_spec [OF closed that] by (simp split: if_splits)
  show ?thesis
  proof (cases "tv_curr tv")
    case None
    then have eq: "tv\<lparr>tv_curr := None\<rparr> = tv" by simp
    show ?thesis by (rule fresh) (use assms(2) None in \<open>simp only: eq getReader_def option.case\<close>)
  next
    case (Some c)
    show ?thesis
    proof (cases "tv_pos tv \<ge> starts tv ! cr_idx c \<and> tv_pos tv < ends tv ! cr_idx c")
      case True
      then have "tv1 = tv" "r = Inr c" using assms(2) Some by (simp_all add: getReader_def)
      moreover have "tv_pos tv < int (length (all_bytes fs (vecs tv)))"
        using True assms(1) Some start_of_le [of fs "vecs tv" "Suc (cr_idx c)"] by (simp add: tv_ok_def)
      moreover have "tv\<lparr>tv_curr := Some c\<rparr> = tv" using Some by simp
      ultimately show ?thesis using True assms(1) by auto
    next
      case False
      then have "getReader fs tv = openReader fs (tv\<lparr>tv_curr := None\<rparr>)" using Some by (auto simp: getReader_def)
      then show ?thesis using fresh assms(2) by simp
    qed
  qed
qed

lemma ReadAt_spec:
  assumes "vec_ok fs v" "Datavec_Open fs v = Inr d" "0 \<le> off" "off < int (length (vec_bytes fs v))"
    "int (length (vec_bytes fs v)) < 2 ^ 63"
  shows "\<exists>bs e. ReadAt fs d k off = (int (length bs), bs, e) \<and> bs = take k (drop (nat off) (vec_bytes fs v))
    \<and> (e = None \<or> e = Some io_EOF)"
proof (cases v)
  case (PadVec n)
  then have "i64 (n - off) = n - off" "0 < n - off" using assms by (auto intro: i64_small)
  then show ?thesis using assms PadVec by (auto simp: Let_def min_def nat_diff_distrib)
qed (use assms in \<open>auto simp: Let_def\<close>)

lemma piece_of_all:
  assumes "i < length vs" "pos = start_of fs vs i + off" "0 \<le> off" "off < int (length (vec_bytes fs (vs ! i)))"
  shows "take k (drop (nat off) (vec_bytes fs (vs ! i)))
    = take (length (take k (drop (nat off) (vec_bytes fs (vs ! i))))) (drop (nat pos) (all_bytes fs vs))"
proof -
  have "all_bytes fs vs = all_bytes fs (take i vs) @ vec_bytes fs (vs ! i) @ all_bytes fs (drop (Suc i) vs)"
    using arg_cong [OF id_take_nth_drop [OF assms(1)], of "all_bytes fs"] by simp
  moreover have "nat pos = length (all_bytes fs (take i vs)) + nat off"
    using assms(2,3) by (simp add: start_of_def nat_add_distrib)
  ultimately have "drop (nat pos) (all_bytes fs vs)
    = drop (nat off) (vec_bytes fs (vs ! i)) @ all_bytes fs (drop (Suc i) vs)"
    using assms(4) by simp
  then show ?thesis by (simp add: min_def)
qed

text \<open>One read: the next bytes of the sequence, at least one unless the buffer is empty, or the end.\<close>

lemma TarVec_Read_spec:
  assumes "tv_ok fs sized tv" "TarVec_Read fs k tv = (tv', r)"
  shows "tv_ok fs sized tv' \<and> vecs tv' = vecs tv \<and>
    (if tv_pos tv < int (length (all_bytes fs (vecs tv)))
     then \<exists>bs. r = Returned (int (length bs)) bs None \<and> length bs \<le> k \<and> (0 < k \<longrightarrow> bs \<noteq> [])
       \<and> bs = take (length bs) (drop (nat (tv_pos tv)) (all_bytes fs (vecs tv)))
       \<and> tv_pos tv' = tv_pos tv + int (length bs)
     else r = Returned 0 [] (Some io_EOF) \<and> tv_pos tv' = tv_pos tv)"
proof -
  obtain tv1 g where g: "getReader fs tv = (tv1, g)" by (cases "getReader fs tv")
  note spec = getReader_spec [OF assms(1) g]
  show ?thesis
  proof (cases "tv_pos tv < int (length (all_bytes fs (vecs tv)))")
    case False
    then show ?thesis using spec g assms by (auto simp: TarVec_Read_def tv_ok_def)
  next
    case True
    with spec obtain c where c: "g = Inr c" "tv1 = tv\<lparr>tv_curr := Some c\<rparr>" "tv_ok fs sized tv1"
      "starts tv ! cr_idx c \<le> tv_pos tv" "tv_pos tv < ends tv ! cr_idx c" by auto
    let ?i = "cr_idx c" and ?v = "vecs tv ! cr_idx c"
    define off where "off = tv_pos tv - starts tv ! ?i"
    have i: "?i < length (vecs tv)" "cr_size c = GetSize ?v" "Datavec_Open fs ?v = Inr (cr_data c)"
      using c(2,3) by (simp_all add: tv_ok_def)
    have v: "vec_ok fs ?v" using c(3) i(1) by (simp add: c(2) tv_ok_def vecs_ok_def list_all_length)
    have st: "starts tv ! ?i = start_of fs (vecs tv) ?i" "ends tv ! ?i = start_of fs (vecs tv) (Suc ?i)"
      using c(2,3) i(1) by (simp_all add: tv_ok_def)
    have small: "int (length (all_bytes fs (vecs tv))) < 2 ^ 63"
      using c(2,3) by (simp add: tv_ok_def vecs_ok_def)
    have off: "0 \<le> off" "off < int (length (vec_bytes fs ?v))" "int (length (vec_bytes fs ?v)) < 2 ^ 63"
      using c(4,5) st start_of_Suc [OF i(1), of fs] start_of_le [of fs "vecs tv" "Suc ?i"] small
      by (auto simp: off_def start_of_def)
    obtain bs e where bs: "ReadAt fs (cr_data c) k off = (int (length bs), bs, e)"
      "bs = take k (drop (nat off) (vec_bytes fs ?v))" "e = None \<or> e = Some io_EOF"
      using ReadAt_spec [OF v i(3) off] by blast
    have ne: "0 < k \<Longrightarrow> bs \<noteq> []" "length bs \<le> k" using off by (auto simp: bs(2))
    have seq: "bs = take (length bs) (drop (nat (tv_pos tv)) (all_bytes fs (vecs tv)))"
      unfolding bs(2) by (rule piece_of_all [OF i(1)]) (use off st in \<open>simp_all add: off_def\<close>)
    have "length bs \<le> length (vec_bytes fs ?v) - nat off" by (simp add: bs(2))
    then have "tv_pos tv + int (length bs) \<le> start_of fs (vecs tv) (Suc ?i)"
      using off st start_of_Suc [OF i(1), of fs] by (simp add: off_def)
    then have pos: "tv_pos tv + int (length bs) < 2 ^ 63" "0 \<le> tv_pos tv"
      using start_of_le [of fs "vecs tv" "Suc ?i"] small assms(1) by (simp_all add: tv_ok_def)
    then have pos64: "i64 (tv_pos tv + int (length bs)) = tv_pos tv + int (length bs)"
      by (intro i64_small) simp_all
    have "i64 off = off" "i64 (cr_size c - off) = cr_size c - off" "0 < cr_size c - off"
      using off GetSize_bytes [OF v] by (auto simp: i(2) intro!: i64_small)
    then have "TarVec_Read fs k tv = (tv1\<lparr>tv_pos := tv_pos tv + int (length bs)\<rparr>, Returned (int (length bs)) bs None)"
      using bs ne pos64 by (auto simp: TarVec_Read_def g c(1,2) off_def [symmetric] Let_def)
    then show ?thesis using True assms(2) c(3) ne seq pos by (auto simp: c(2) tv_ok_def)
  qed
qed

lemma i64_range: "- (2 ^ 63) \<le> i64 x \<and> i64 x < 2 ^ 63"
  using sint_ge [of "word_of_int x :: int64"] sint_lt [of "word_of_int x :: int64"] by (simp add: i64_def)

lemma TarVec_Seek_pos:
  assumes "offset < 2 ^ 63"
  shows "fst (TarVec_Seek offset whence tv) = tv
    \<or> (\<exists>p. fst (TarVec_Seek offset whence tv) = tv\<lparr>tv_pos := p\<rparr> \<and> 0 \<le> p \<and> p < 2 ^ 63)"
proof -
  have "i64 x < 2 ^ 63" for x using i64_range by simp
  then show ?thesis using assms by (auto simp: TarVec_Seek_def not_less)
qed

lemma TarVec_Seek_ok:
  assumes "tv_ok fs sized tv" "offset < 2 ^ 63"
  shows "tv_ok fs sized (fst (TarVec_Seek offset whence tv))"
  using TarVec_Seek_pos [OF assms(2), of whence tv] assms(1) by (auto simp: tv_ok_def)


section \<open>Clients\<close>

text \<open>Everything a client can do with a tarball, from its creation on.\<close>

inductive tar_client :: "files \<Rightarrow> Datavec list \<Rightarrow> TarVec \<Rightarrow> bool" for fs vs where
  client_new: "tar_client fs vs (NewTarVec vs)"
| client_read: "tar_client fs vs tv \<Longrightarrow> tar_client fs vs (fst (TarVec_Read fs k tv))"
| client_seek: "tar_client fs vs tv \<Longrightarrow> offset < 2 ^ 63 \<Longrightarrow> tar_client fs vs (fst (TarVec_Seek offset whence tv))"
| client_clone: "tar_client fs vs tv \<Longrightarrow> tar_client fs vs (TarVec_Clone tv)"
| client_close: "tar_client fs vs tv \<Longrightarrow> tar_client fs vs (TarVec_Close tv)"

lemma TarVec_Seek_vecs [simp]: "vecs (fst (TarVec_Seek offset whence tv)) = vecs tv"
  by (simp add: TarVec_Seek_def)

lemma tar_client_ok:
  assumes "tar_client fs vs tv" "vecs_ok fs vs"
  shows "tv_ok fs False tv \<and> vecs tv = vs"
  using assms
proof (induction rule: tar_client.induct)
  case client_new
  then show ?case using NewTarVec_ok [of fs vs] by (auto simp: tv_ok_def NewTarVec_def split: prod.splits)
next
  case (client_read tv k)
  then show ?case
    using TarVec_Read_spec [of fs False tv k "fst (TarVec_Read fs k tv)" "snd (TarVec_Read fs k tv)"] by simp
next
  case (client_seek tv offset whence)
  then show ?case by (simp add: TarVec_Seek_ok)
qed (auto simp: TarVec_Clone_def TarVec_Close_def tv_ok_def)

text \<open>Reading in a loop with buffers of given sizes, until a read fails.\<close>

datatype read_end = More | Ended io_err | Crashed

fun read_loop :: "files \<Rightarrow> nat list \<Rightarrow> TarVec \<Rightarrow> bytes \<times> read_end" where
  "read_loop fs [] tv = ([], More)"
| "read_loop fs (k # ks) tv = (case TarVec_Read fs k tv of
       (tv', Panicked) \<Rightarrow> ([], Crashed)
     | (tv', Returned n bs (Some e)) \<Rightarrow> (bs, Ended e)
     | (tv', Returned n bs None) \<Rightarrow> (case read_loop fs ks tv' of (cs, en) \<Rightarrow> (bs @ cs, en)))"

lemma read_loop_all:
  assumes "tv_ok fs sized tv" "\<forall>k \<in> set ks. 0 < k" "length (all_bytes fs (vecs tv)) - nat (tv_pos tv) < length ks"
  shows "read_loop fs ks tv = (drop (nat (tv_pos tv)) (all_bytes fs (vecs tv)), Ended io_EOF)"
  using assms
proof (induction ks arbitrary: tv)
  case (Cons k ks)
  let ?d = "all_bytes fs (vecs tv)" and ?p = "nat (tv_pos tv)"
  obtain tv' r where r: "TarVec_Read fs k tv = (tv', r)" by (cases "TarVec_Read fs k tv")
  note spec = TarVec_Read_spec [OF Cons.prems(1) r]
  have p: "0 \<le> tv_pos tv" using Cons.prems(1) by (simp add: tv_ok_def)
  show ?case
  proof (cases "tv_pos tv < int (length ?d)")
    case False
    then show ?thesis using spec r p by simp
  next
    case True
    with spec Cons.prems(2) obtain bs where bs: "r = Returned (int (length bs)) bs None" "bs \<noteq> []"
      "bs = take (length bs) (drop ?p ?d)" and tv': "tv_ok fs sized tv'" "vecs tv' = vecs tv"
      "tv_pos tv' = tv_pos tv + int (length bs)" by auto
    have p': "nat (tv_pos tv') = ?p + length bs" using p tv'(3) by simp
    have "length ?d - nat (tv_pos tv') < length ks"
      using Cons.prems(3) True p bs(2) unfolding p' by (cases bs) auto
    then have "read_loop fs ks tv' = (drop (?p + length bs) ?d, Ended io_EOF)"
      using Cons.IH [OF tv'(1)] Cons.prems(2) by (simp add: tv'(2) p')
    moreover have "bs @ drop (?p + length bs) ?d = drop ?p ?d"
      using bs(3) append_take_drop_id [of "length bs" "drop ?p ?d"] by (simp add: add.commute)
    ultimately show ?thesis by (simp add: r bs(1))
  qed
qed simp

text \<open>C12. A \<open>TarVec\<close> is a reader of one contiguous sequence: whatever a client has done before
  (reads, seeks, closing, cloning), a read returns without a panic the next bytes from the current
  position on, at least one if the buffer has room, and advances the position by their number, or
  reports the end exactly when the position is at or behind the end.
\<close>

theorem tar_read_refines:
  assumes "vecs_ok fs vs" "tar_client fs vs tv" "TarVec_Read fs k tv = (tv', r)"
  shows "if tv_pos tv < int (length (all_bytes fs vs))
    then \<exists>bs. r = Returned (int (length bs)) bs None \<and> length bs \<le> k \<and> (0 < k \<longrightarrow> bs \<noteq> [])
      \<and> bs = take (length bs) (drop (nat (tv_pos tv)) (all_bytes fs vs))
      \<and> tv_pos tv' = tv_pos tv + int (length bs)
    else r = Returned 0 [] (Some io_EOF) \<and> tv_pos tv' = tv_pos tv"
  using tar_client_ok [OF assms(2,1)] TarVec_Read_spec [of fs False tv k tv' r] assms(3) by (simp split: if_splits)

text \<open>Three pieces of different kinds, the file being where it is expected.\<close>

definition sample_files :: files where
  "sample_files p = (if p = ''f'' then Some [5, 6, 7] else None)"

definition sample_vecs :: "Datavec list" where
  "sample_vecs = [MemVec [1, 2], PadVec 0, PathVec ''f'' 3, PadVec 2]"

lemma sample_vecs_ok: "vecs_ok sample_files sample_vecs"
  by (simp add: vecs_ok_def sample_vecs_def sample_files_def)

theorem tar_read_refines_witness:
  "TarVec_Read sample_files 4 (fst (TarVec_Seek 2 0 (NewTarVec sample_vecs)))
     = (fst (TarVec_Read sample_files 4 (fst (TarVec_Seek 2 0 (NewTarVec sample_vecs)))), Returned 3 [5, 6, 7] None)
   \<and> tv_pos (fst (TarVec_Read sample_files 4 (fst (TarVec_Seek 2 0 (NewTarVec sample_vecs))))) = 5"
proof -
  let ?tv = "fst (TarVec_Seek 2 0 (NewTarVec sample_vecs))"
  have c: "tar_client sample_files sample_vecs ?tv" by (intro client_seek client_new) simp
  have r: "TarVec_Read sample_files 4 ?tv = (fst (TarVec_Read sample_files 4 ?tv), Returned 3 [5, 6, 7] None)"
    by code_simp
  have "tv_pos ?tv = 2" "all_bytes sample_files sample_vecs = [1, 2, 5, 6, 7, 0, 0]" by code_simp+
  then show ?thesis using tar_read_refines [OF sample_vecs_ok c r] r by auto
qed

text \<open>What an entry contributes to a layer: its header, its data, and zeros up to a block.\<close>

definition entry_bytes :: "(tarHeader \<Rightarrow> bytes option) \<Rightarrow> files \<Rightarrow> tarEntry \<Rightarrow> bytes" where
  "entry_bytes write_header fs e =
     (let d = (case entry_data e of None \<Rightarrow> [] | Some v \<Rightarrow> vec_bytes fs v)
      in the (write_header (ent_header e)) @ d @ replicate (nat ((- int (length d)) mod 512)) 0)"

text \<open>Directories carry no data, files are as large as their header says.\<close>

definition entry_ok :: "(tarHeader \<Rightarrow> bytes option) \<Rightarrow> files \<Rightarrow> tarEntry \<Rightarrow> bool" where
  "entry_ok write_header fs e \<longleftrightarrow>
     (\<exists>buf. write_header (ent_header e) = Some buf \<and> length buf mod 512 = 0)
     \<and> (\<forall>v. entry_data e = Some v \<longrightarrow> vec_ok fs v \<and> \<not> hdr_dir (ent_header e))"

lemma smod_nonneg: "0 \<le> (n :: int) \<Longrightarrow> n smod 512 = n mod 512"
  by (cases "n = 0") (simp_all add: signed_modulo_int_def signed_divide_int_def minus_mult_div_eq_mod)

lemma pad_size: "0 \<le> (n :: int) \<Longrightarrow> n smod 512 \<noteq> 0 \<Longrightarrow> 512 - n smod 512 = (- n) mod 512"
  by (simp add: smod_nonneg zmod_zminus1_eq_if)

lemma no_padding: "0 \<le> (n :: int) \<Longrightarrow> n smod 512 = 0 \<longleftrightarrow> (- n) mod 512 = 0"
  using pos_mod_bound [of 512 n] by (simp add: smod_nonneg zmod_zminus1_eq_if less_le)

lemma entries_loop_bytes:
  assumes "list_all (entry_ok write_header fs) es"
  shows "\<exists>vs. entries_loop write_header es = Some vs \<and> list_all (vec_ok fs) vs
    \<and> all_bytes fs vs = concat (map (entry_bytes write_header fs) es)"
  using assms
proof (induction es)
  case (Cons e es)
  then obtain vs where vs: "entries_loop write_header es = Some vs" "list_all (vec_ok fs) vs"
    "all_bytes fs vs = concat (map (entry_bytes write_header fs) es)" by auto
  obtain buf where buf: "write_header (ent_header e) = Some buf" using Cons.prems by (auto simp: entry_ok_def)
  show ?case
  proof (cases "entry_data e")
    case None
    then show ?thesis using vs buf by (simp add: entry_bytes_def [of _ _ e])
  next
    case (Some v)
    then have v: "vec_ok fs v" "\<not> hdr_dir (ent_header e)" using Cons.prems by (auto simp: entry_ok_def)
    then show ?thesis
      using vs buf Some GetSize_bytes [OF v(1)] pad_size [of "GetSize v"] no_padding [of "GetSize v"]
      by (auto simp: entry_bytes_def [of _ _ e] entry_padding_def Let_def)
  qed
qed simp

lemma entry_bytes_blocks: "entry_ok write_header fs e \<Longrightarrow> length (entry_bytes write_header fs e) mod 512 = 0"
proof -
  assume ok: "entry_ok write_header fs e"
  define d where "d = (case entry_data e of None \<Rightarrow> [] | Some v \<Rightarrow> vec_bytes fs v)"
  from ok obtain buf where buf: "write_header (ent_header e) = Some buf" "length buf mod 512 = 0"
    by (auto simp: entry_ok_def)
  have "int (length (entry_bytes write_header fs e)) = int (length buf) + (int (length d) + (- int (length d)) mod 512)"
    using buf(1) by (simp add: entry_bytes_def d_def [symmetric])
  moreover have "512 dvd int (length d) + (- int (length d)) mod 512"
    by (simp add: dvd_eq_mod_eq_0 mod_add_right_eq)
  moreover have "512 dvd int (length buf)"
    using buf(2) by (metis dvd_eq_mod_eq_0 int_dvd_int_iff of_nat_numeral)
  ultimately have "512 dvd int (length (entry_bytes write_header fs e))" by (metis dvd_add)
  then show ?thesis by (metis dvd_eq_mod_eq_0 int_dvd_int_iff of_nat_numeral)
qed

text \<open>C18. An opened image layer, read in a loop with buffers of any positive sizes, delivers for each
  entry its header, its data and zeros up to a full block, in order, and then ends with \<open>EOF\<close>; no
  read panics, each makes progress, so that one read more than there are bytes is always enough, and
  every entry fills whole blocks of 512 bytes.
\<close>

theorem layer_stream:
  assumes "list_all (entry_ok write_header fs) es"
    "length (concat (map (entry_bytes write_header fs) es)) < 2 ^ 63"
    "\<forall>k \<in> set ks. 0 < k" "length (concat (map (entry_bytes write_header fs) es)) < length ks"
  shows "\<exists>tv. Opener write_header es = Some tv
    \<and> read_loop fs ks tv = (concat (map (entry_bytes write_header fs) es), Ended io_EOF)
    \<and> (\<forall>e \<in> set es. length (entry_bytes write_header fs e) mod 512 = 0)"
proof -
  obtain vs where vs: "entries_loop write_header es = Some vs" "list_all (vec_ok fs) vs"
    "all_bytes fs vs = concat (map (entry_bytes write_header fs) es)"
    using entries_loop_bytes [OF assms(1)] by blast
  let ?tv = "TarVec_Clone (NewTarVec vs)"
  have "vecs_ok fs vs" using vs assms(2) by (simp add: vecs_ok_def)
  then have "tv_ok fs False ?tv \<and> vecs ?tv = vs" by (intro tar_client_ok client_clone client_new)
  moreover have "tv_pos ?tv = 0" by (simp add: TarVec_Clone_def NewTarVec_def split: prod.splits)
  ultimately have "read_loop fs ks ?tv = (all_bytes fs vs, Ended io_EOF)"
    using read_loop_all [of fs False ?tv ks] assms(3,4) vs(3) by simp
  moreover have "\<forall>e \<in> set es. length (entry_bytes write_header fs e) mod 512 = 0"
    using assms(1) entry_bytes_blocks by (auto simp: list_all_iff)
  ultimately show ?thesis using vs by (simp add: Opener_def)
qed

definition sample_entries :: "tarEntry list" where
  "sample_entries = [\<lparr>ent_header = \<lparr>hdr_name = ''d/'', hdr_size = 0, hdr_dir = True\<rparr>, ent_data = None, ent_hostPath = None\<rparr>,
     \<lparr>ent_header = \<lparr>hdr_name = ''d/f'', hdr_size = 3, hdr_dir = False\<rparr>, ent_data = None, ent_hostPath = Some ''f''\<rparr>]"

theorem layer_stream_witness:
  "\<exists>tv. Opener (\<lambda>_. Some (replicate 512 1)) sample_entries = Some tv
    \<and> read_loop sample_files (replicate 1600 100) tv
      = (replicate 512 1 @ replicate 512 1 @ [5, 6, 7] @ replicate 509 0, Ended io_EOF)"
proof -
  let ?wh = "\<lambda>_. Some (replicate 512 (1 :: byte))"
  have ok: "list_all (entry_ok ?wh sample_files) sample_entries"
    by (simp add: sample_entries_def entry_ok_def entry_data_def sample_files_def)
  have bytes: "concat (map (entry_bytes ?wh sample_files) sample_entries)
      = replicate 512 1 @ replicate 512 1 @ [5, 6, 7] @ replicate 509 0"
    by (simp add: sample_entries_def entry_bytes_def entry_data_def sample_files_def)
  have len: "length (concat (map (entry_bytes ?wh sample_files) sample_entries)) = 1536"
    unfolding bytes by simp
  show ?thesis
    using layer_stream [OF ok, of "replicate 1600 100", unfolded len] unfolding bytes by auto
qed

text \<open>Seeking from the end needs the size, which a clone has lost.\<close>

lemma clone_seeks_from_zero:
  "fst (snd (TarVec_Seek (-1) 2 (NewTarVec sample_vecs))) = 6"
  "TarVec_Seek (-1) 2 (TarVec_Clone (NewTarVec sample_vecs)) = (TarVec_Clone (NewTarVec sample_vecs), 0, Some ErrInvalid)"
  by code_simp+

text \<open>A file that has become shorter than its recorded size makes a read panic.\<close>

lemma short_file_panics:
  "snd (TarVec_Read (\<lambda>_. Some []) 4 (NewTarVec [PathVec ''f'' 3])) = Panicked"
  by code_simp

end
