(* ===== verification/Scrub_Scanner.thy ===== *)
theory Scrub_Scanner
  imports Go_Text
begin

text \<open>
  The scanner of the JSON scrubber (\<open>pkg/scrub/scanner.go\<close>): it cuts a byte stream into items with
  their bounds and tells object keys from values by the separators around them. The reader is the
  list of bytes still to be delivered. The lemmas give the items of a JSON text written without
  white space.
\<close>

section \<open>State\<close>

datatype token = unknown | objectBegin | objectEnd | arrayBegin | arrayEnd | literal

record scanItem =
  it_from :: int
  it_to :: int
  it_tok :: token
  it_isMapKey :: bool

definition no_item :: scanItem where
  "no_item = \<lparr>it_from = 0, it_to = 0, it_tok = unknown, it_isMapKey = False\<rparr>"

record scanState =
  st_tok :: token
  st_isKey :: bool

text \<open>The stack has its top at the head. \<open>sc_panic\<close> records that \<open>unread\<close> panicked.\<close>

record scanner =
  sc_r :: bytes
  sc_it :: scanItem
  sc_err :: bool
  sc_pos :: int
  sc_lastRead :: byte
  sc_unreadByte :: byte
  sc_stack :: "scanState list"
  sc_panic :: bool

definition newScanner :: "bytes \<Rightarrow> scanner" where
  "newScanner r = \<lparr>sc_r = r, sc_it = no_item, sc_err = False, sc_pos = 0, sc_lastRead = 0,
     sc_unreadByte = 0, sc_stack = [], sc_panic = False\<rparr>"


section \<open>Bytes\<close>

definition readByte :: "scanner \<Rightarrow> byte \<times> scanner" where
  "readByte s =
     (if sc_unreadByte s \<noteq> 0
      then (sc_unreadByte s, s\<lparr>sc_lastRead := sc_unreadByte s, sc_unreadByte := 0, sc_pos := sc_pos s + 1\<rparr>)
      else if sc_err s then (0, s)
      else case sc_r s of
          [] \<Rightarrow> (0, s\<lparr>sc_err := True\<rparr>)
        | b # bs \<Rightarrow> (b, s\<lparr>sc_r := bs, sc_lastRead := b, sc_pos := sc_pos s + 1\<rparr>))"

definition sc_unread :: "scanner \<Rightarrow> scanner" where
  "sc_unread s = s\<lparr>sc_unreadByte := sc_lastRead s, sc_pos := sc_pos s - 1,
     sc_panic := sc_panic s \<or> sc_unreadByte s \<noteq> 0\<rparr>"

text \<open>The bytes the scanner will still see.\<close>

definition pending :: "scanner \<Rightarrow> bytes" where
  "pending s = (if sc_unreadByte s \<noteq> 0 then [sc_unreadByte s] else []) @ (if sc_err s then [] else sc_r s)"

lemma readByte_shrinks: "readByte s = (b, s') \<Longrightarrow> b \<noteq> 0 \<Longrightarrow> length (pending s') < length (pending s)"
  by (auto simp: readByte_def pending_def split: if_splits list.splits)

lemma readByte_le: "readByte s = (b, s') \<Longrightarrow> length (pending s') \<le> length (pending s)"
  by (auto simp: readByte_def pending_def split: if_splits list.splits)

lemma readByte_measure: "(b, s') = readByte s \<Longrightarrow> b \<noteq> 0 \<Longrightarrow> (s', s) \<in> measure (\<lambda>s. length (pending s))"
  using readByte_shrinks [of s b s'] by simp

definition is_space :: "byte \<Rightarrow> bool" where
  "is_space b \<longleftrightarrow> b \<in> {0x20, 0x09, 0x0A, 0x0D}"

function readToken :: "scanner \<Rightarrow> byte \<times> scanner" where
  "readToken s = (case readByte s of (b, s1) \<Rightarrow> if is_space b then readToken s1 else (b, s1))"
  by pat_completeness auto
termination
proof (relation "measure (\<lambda>s. length (pending s))")
  fix s b s1 assume "(b, s1) = readByte s" "is_space b"
  then show "(s1, s) \<in> measure (\<lambda>s. length (pending s))" by (intro readByte_measure) (auto simp: is_space_def)
qed simp

declare readToken.simps [simp del]

definition peekToken :: "scanner \<Rightarrow> byte \<times> scanner" where
  "peekToken s = (case readToken s of (b, s1) \<Rightarrow> (b, if b \<noteq> 0 then sc_unread s1 else s1))"


section \<open>Items\<close>

text \<open>The loops of \<open>scanString\<close> and \<open>scanLiteral\<close>; the result is the state at the end of the item.\<close>

function string_loop :: "scanner \<Rightarrow> scanner" where
  "string_loop s = (case readByte s of (b, s1) \<Rightarrow>
     if b = 0x5C then string_loop (snd (readByte s1))
     else if b = 0x22 then s1
     else if b = 0x0A \<or> b = 0x0D then sc_unread s1
     else if b = 0 then s1
     else string_loop s1)"
  by pat_completeness auto
termination
proof (relation "measure (\<lambda>s. length (pending s))")
  fix s b s1 assume b: "(b, s1) = readByte s" "b = 0x5C"
  then have "length (pending s1) < length (pending s)" using readByte_shrinks [of s b s1] by simp
  then show "(snd (readByte s1), s) \<in> measure (\<lambda>s. length (pending s))"
    using readByte_le [of s1 "fst (readByte s1)" "snd (readByte s1)"] by simp
next
  fix s b s1 assume "(b, s1) = readByte s" "b \<noteq> 0"
  then show "(s1, s) \<in> measure (\<lambda>s. length (pending s))" by (rule readByte_measure)
qed simp

declare string_loop.simps [simp del]

definition scanString :: "scanner \<Rightarrow> scanItem \<times> scanner" where
  "scanString s = (let s' = string_loop s in
     (\<lparr>it_from = sc_pos s - 1, it_to = sc_pos s', it_tok = literal, it_isMapKey = False\<rparr>, s'))"

definition ends_literal :: "byte \<Rightarrow> bool" where
  "ends_literal b \<longleftrightarrow> b \<in> {0x22, 0x20, 0x0D, 0x0A, 0x09, 0x2C, 0x3A, 0x7B, 0x5B, 0x5D, 0x7D}"

function literal_loop :: "scanner \<Rightarrow> scanner" where
  "literal_loop s = (case readByte s of (b, s1) \<Rightarrow>
     if ends_literal b then sc_unread s1
     else if b = 0 then s1
     else literal_loop s1)"
  by pat_completeness auto
termination
proof (relation "measure (\<lambda>s. length (pending s))")
  fix s b s1 assume "(b, s1) = readByte s" "b \<noteq> 0"
  then show "(s1, s) \<in> measure (\<lambda>s. length (pending s))" by (rule readByte_measure)
qed simp

declare literal_loop.simps [simp del]

definition scanLiteral :: "scanner \<Rightarrow> scanItem \<times> scanner" where
  "scanLiteral s = (let s' = literal_loop s in
     (\<lparr>it_from = sc_pos s - 1, it_to = sc_pos s', it_tok = literal, it_isMapKey = False\<rparr>, s'))"

definition delim_item :: "scanner \<Rightarrow> token \<Rightarrow> scanItem" where
  "delim_item s t = \<lparr>it_from = sc_pos s - 1, it_to = sc_pos s, it_tok = t, it_isMapKey = False\<rparr>"

lemma readToken_shrinks: "readToken s = (b, s') \<Longrightarrow> b \<noteq> 0 \<Longrightarrow> length (pending s') < length (pending s)"
proof (induction s rule: readToken.induct)
  case (1 s)
  obtain c s1 where c: "readByte s = (c, s1)" by (cases "readByte s")
  show ?case
  proof (cases "is_space c")
    case True
    then have "length (pending s') < length (pending s1)"
      using 1 c by (subst (asm) (2) readToken.simps) auto
    then show ?thesis using readByte_le [OF c] by simp
  next
    case False
    then show ?thesis using 1 c readByte_shrinks [OF c] by (subst (asm) (2) readToken.simps) auto
  qed
qed

lemma readToken_last: "readToken s = (b, s') \<Longrightarrow> b \<noteq> 0 \<Longrightarrow> sc_unreadByte s' = 0 \<and> sc_lastRead s' = b"
proof (induction s rule: readToken.induct)
  case (1 s)
  obtain c s1 where c: "readByte s = (c, s1)" by (cases "readByte s")
  show ?case
  proof (cases "is_space c")
    case True
    then show ?thesis using 1 c by (subst (asm) (2) readToken.simps) auto
  next
    case False
    then have "readByte s = (b, s')" using 1 c by (subst (asm) (2) readToken.simps) auto
    then show ?thesis using 1(3) by (auto simp: readByte_def split: if_splits list.splits)
  qed
qed

lemma sc_unread_simps [simp]:
  "sc_pos (sc_unread s) = sc_pos s - 1" "sc_stack (sc_unread s) = sc_stack s"
  "sc_panic (sc_unread s) \<longleftrightarrow> sc_panic s \<or> sc_unreadByte s \<noteq> 0"
  by (simp_all add: sc_unread_def)

lemma pending_unread:
  "sc_unreadByte s = 0 \<Longrightarrow> sc_lastRead s \<noteq> 0 \<Longrightarrow> pending (sc_unread s) = sc_lastRead s # pending s"
  by (simp add: sc_unread_def pending_def)

lemma peekToken_le: "peekToken s = (b, s') \<Longrightarrow> length (pending s') \<le> length (pending s)"
proof -
  assume p: "peekToken s = (b, s')"
  obtain s1 where r: "readToken s = (b, s1)" using p by (cases "readToken s") (auto simp: peekToken_def)
  show ?thesis
  proof (cases "b = 0")
    case True
    have "length (pending s1) \<le> length (pending s)"
      using r
    proof (induction s rule: readToken.induct)
      case (1 s)
      obtain c s2 where c: "readByte s = (c, s2)" by (cases "readByte s")
      then show ?case using 1 readByte_le [OF c] by (cases "is_space c") (auto simp: readToken.simps [of s])
    qed
    then show ?thesis using p r True by (simp add: peekToken_def)
  next
    case False
    then have "s' = sc_unread s1" using p r by (simp add: peekToken_def)
    then show ?thesis
      using readToken_shrinks [OF r False] readToken_last [OF r False] False by (simp add: pending_unread)
  qed
qed

function scanOne :: "byte \<Rightarrow> scanner \<Rightarrow> (scanItem \<times> byte \<times> byte) \<times> scanner" where
  "scanOne preContext s = (case readToken s of (c, s1) \<Rightarrow> case peekToken s1 of (postContext, s2) \<Rightarrow>
     if c = 0x22 then (case scanString s2 of (it, s3) \<Rightarrow> ((it, preContext, postContext), s3))
     else if c = 0x7B then ((delim_item s2 objectBegin, preContext, postContext), s2)
     else if c = 0x7D then ((delim_item s2 objectEnd, preContext, postContext), s2)
     else if c = 0x5B then ((delim_item s2 arrayBegin, preContext, postContext), s2)
     else if c = 0x5D then ((delim_item s2 arrayEnd, preContext, postContext), s2)
     else if c = 0x3A \<or> c = 0x2C then scanOne c s2
     else if c = 0 then ((no_item, preContext, postContext), s2)
     else (case scanLiteral s2 of (it, s3) \<Rightarrow> ((it, preContext, postContext), s3)))"
  by pat_completeness auto
termination
proof (relation "measure (\<lambda>(_, s). length (pending s))")
  fix pre s c s1 post s2
  assume "(c, s1) = readToken s" "(post, s2) = peekToken s1" "c = 0x3A \<or> c = 0x2C"
  then have "length (pending s1) < length (pending s)" "length (pending s2) \<le> length (pending s1)"
    using readToken_shrinks [of s c s1] peekToken_le [of s1 post s2] by auto
  then show "((c, s2), pre, s) \<in> measure (\<lambda>(_, s). length (pending s))" by simp
qed simp

declare scanOne.simps [simp del]

text \<open>Keys and values of an object alternate; a colon behind or in front overrides the alternation.\<close>

definition key_state :: "token \<Rightarrow> byte \<Rightarrow> byte \<Rightarrow> bool \<Rightarrow> bool" where
  "key_state t preContext postContext isKey =
     (let k = (if t \<in> {objectBegin, arrayBegin, literal} then \<not> isKey else isKey)
      in if postContext = 0x3A then True else if preContext = 0x3A then False else k)"

definition scan :: "scanner \<Rightarrow> scanItem \<times> scanner" where
  "scan s = (case scanOne 0 s of ((it, preContext, postContext), s1) \<Rightarrow>
     let (it1, s2) = (case sc_stack s1 of
           st # sts \<Rightarrow> if st_tok st = objectBegin
             then let k = key_state (it_tok it) preContext postContext (st_isKey st)
               in (it\<lparr>it_isMapKey := k\<rparr>, s1\<lparr>sc_stack := st\<lparr>st_isKey := k\<rparr> # sts\<rparr>)
             else (it, s1)
         | [] \<Rightarrow> (it, s1))
     in (it1,
         if it_tok it1 \<in> {objectBegin, arrayBegin}
         then s2\<lparr>sc_stack := \<lparr>st_tok = it_tok it1, st_isKey = False\<rparr> # sc_stack s2\<rparr>
         else if it_tok it1 \<in> {objectEnd, arrayEnd} then s2\<lparr>sc_stack := tl (sc_stack s2)\<rparr>
         else s2))"

definition sc_Next :: "scanner \<Rightarrow> bool \<times> scanner" where
  "sc_Next s = (case scan s of (it, s1) \<Rightarrow> (\<not> sc_err s1 \<or> it_tok it \<noteq> unknown, s1\<lparr>sc_it := it\<rparr>))"


section \<open>Reading text without white space\<close>

text \<open>\<open>s'\<close> is \<open>s\<close> with \<open>n\<close> bytes read.\<close>

definition moved :: "nat \<Rightarrow> scanner \<Rightarrow> scanner \<Rightarrow> bool" where
  "moved n s s' \<longleftrightarrow> n \<le> length (pending s) \<and> pending s' = drop n (pending s) \<and> sc_pos s' = sc_pos s + int n
     \<and> sc_stack s' = sc_stack s \<and> sc_panic s' = sc_panic s"

lemma moved_refl [simp]: "moved 0 s s"
  by (simp add: moved_def)

lemma moved_trans: "moved m s s' \<Longrightarrow> moved n s' s'' \<Longrightarrow> moved (m + n) s s''"
  by (auto simp: moved_def add.commute)

lemma readByte_Cons:
  assumes "pending s = b # bs"
  obtains s' where "readByte s = (b, s')" "moved 1 s s'" "sc_unreadByte s' = 0" "sc_lastRead s' = b"
  using assms by (auto simp: readByte_def pending_def moved_def split: if_splits list.splits)

lemma readByte_Nil:
  assumes "pending s = []"
  obtains s' where "readByte s = (0, s')" "moved 0 s s'" "sc_unreadByte s' = 0" "sc_err s'"
  using assms by (auto simp: readByte_def pending_def moved_def split: if_splits list.splits)

lemma sc_unread_moved:
  assumes "moved 1 s s'" "sc_unreadByte s' = 0" "sc_lastRead s' = b" "pending s = b # bs" "b \<noteq> 0"
  shows "moved 0 s (sc_unread s')"
proof -
  have "pending (sc_unread s') = b # pending s'" using assms by (simp add: pending_unread)
  then show ?thesis using assms by (auto simp: moved_def)
qed

lemma readToken_Cons:
  assumes "pending s = b # bs" "\<not> is_space b"
  obtains s' where "readToken s = (b, s')" "moved 1 s s'" "sc_unreadByte s' = 0" "sc_lastRead s' = b"
proof -
  obtain s' where "readByte s = (b, s')" "moved 1 s s'" "sc_unreadByte s' = 0" "sc_lastRead s' = b"
    by (rule readByte_Cons [OF assms(1)])
  then show ?thesis using that assms(2) by (simp add: readToken.simps [of s])
qed

lemma readToken_Nil:
  assumes "pending s = []"
  obtains s' where "readToken s = (0, s')" "moved 0 s s'" "sc_unreadByte s' = 0" "sc_err s'"
proof -
  obtain s' where "readByte s = (0, s')" "moved 0 s s'" "sc_unreadByte s' = 0" "sc_err s'"
    by (rule readByte_Nil [OF assms])
  then show ?thesis using that by (simp add: readToken.simps [of s] is_space_def)
qed

text \<open>Peeking at text that does not start with white space changes nothing.\<close>

definition starts_plain :: "bytes \<Rightarrow> bool" where
  "starts_plain bs \<longleftrightarrow> bs = [] \<or> \<not> is_space (hd bs) \<and> hd bs \<noteq> 0"

definition first_byte :: "bytes \<Rightarrow> byte" where
  "first_byte bs = (if bs = [] then 0 else hd bs)"

lemma peekToken_plain:
  assumes "starts_plain (pending s)"
  obtains s' where "peekToken s = (first_byte (pending s), s')" "moved 0 s s'"
proof (cases "pending s")
  case Nil
  obtain s' where "readToken s = (0, s')" "moved 0 s s'" by (rule readToken_Nil [OF Nil])
  then show ?thesis using that by (simp add: peekToken_def first_byte_def Nil)
next
  case (Cons b bs)
  then have b: "\<not> is_space b" "b \<noteq> 0" using assms by (simp_all add: starts_plain_def)
  obtain s' where "readToken s = (b, s')" "moved 1 s s'" "sc_unreadByte s' = 0" "sc_lastRead s' = b"
    by (rule readToken_Cons [OF Cons b(1)])
  then show ?thesis using that sc_unread_moved [of s s' b bs] Cons b by (simp add: peekToken_def first_byte_def)
qed

text \<open>The inside of a string literal, and the rest of a word.\<close>

fun str_body :: "bytes \<Rightarrow> bool" where
  "str_body [] \<longleftrightarrow> True"
| "str_body [b] \<longleftrightarrow> b \<notin> {0x5C, 0x22, 0x0A, 0x0D, 0}"
| "str_body (b # c # bs) \<longleftrightarrow> (if b = 0x5C then str_body bs else b \<notin> {0x22, 0x0A, 0x0D, 0} \<and> str_body (c # bs))"

definition word_byte :: "byte \<Rightarrow> bool" where
  "word_byte b \<longleftrightarrow> \<not> ends_literal b \<and> b \<noteq> 0"

lemma string_loop_body:
  assumes "str_body body" "pending s = body @ 0x22 # post"
  shows "moved (length body + 1) s (string_loop s)"
  using assms
proof (induction body arbitrary: s rule: str_body.induct)
  case 1
  obtain s1 where "readByte s = (0x22, s1)" "moved 1 s s1" using readByte_Cons [of s "0x22" post] 1 by auto
  then show ?case by (simp add: string_loop.simps [of s])
next
  case (2 b)
  obtain s1 where s1: "readByte s = (b, s1)" "moved 1 s s1" using readByte_Cons [of s b] 2(2) by auto
  have "pending s1 = 0x22 # post" using s1(2) 2(2) by (simp add: moved_def)
  then obtain s2 where s2: "readByte s1 = (0x22, s2)" "moved 1 s1 s2" by (rule readByte_Cons)
  have "string_loop s1 = s2" using s2(1) by (simp add: string_loop.simps [of s1])
  then have "string_loop s = s2" using s1(1) 2(1) by (simp add: string_loop.simps [of s])
  then show ?case using moved_trans [OF s1(2) s2(2)] by simp
next
  case (3 b c bs)
  obtain s1 where s1: "readByte s = (b, s1)" "moved 1 s s1" using readByte_Cons [of s b] 3(4) by auto
  have p1: "pending s1 = (c # bs) @ 0x22 # post" using s1(2) 3(4) by (simp add: moved_def)
  show ?case
  proof (cases "b = 0x5C")
    case True
    obtain s2 where s2: "readByte s1 = (c, s2)" "moved 1 s1 s2" using readByte_Cons [of s1 c] p1 by auto
    have "pending s2 = bs @ 0x22 # post" using s2(2) p1 by (simp add: moved_def)
    then have "moved (length bs + 1) s2 (string_loop s2)" using 3(1,3) True by simp
    moreover have "string_loop s = string_loop s2" using s1(1) s2(1) True by (simp add: string_loop.simps [of s])
    ultimately show ?thesis using moved_trans [OF moved_trans [OF s1(2) s2(2)]] by simp
  next
    case False
    then have "moved (length (c # bs) + 1) s1 (string_loop s1)" using 3(2,3) p1 by simp
    moreover have "string_loop s = string_loop s1" using s1(1) False 3(3) by (simp add: string_loop.simps [of s])
    ultimately show ?thesis using moved_trans [OF s1(2)] by simp
  qed
qed

lemma literal_loop_word:
  assumes "list_all word_byte w" "pending s = w @ post" "post = [] \<or> ends_literal (hd post)"
  shows "moved (length w) s (literal_loop s)"
  using assms
proof (induction w arbitrary: s)
  case Nil
  show ?case
  proof (cases post)
    case Nil
    then obtain s1 where "readByte s = (0, s1)" "moved 0 s s1" using readByte_Nil [of s] Nil.prems by auto
    then show ?thesis by (simp add: literal_loop.simps [of s] ends_literal_def)
  next
    case (Cons b bs)
    then have b: "pending s = b # bs" "ends_literal b" using Nil.prems by simp_all
    then have "b \<noteq> 0" by (auto simp: ends_literal_def)
    obtain s1 where s1: "readByte s = (b, s1)" "moved 1 s s1" "sc_unreadByte s1 = 0" "sc_lastRead s1 = b"
      by (rule readByte_Cons [OF b(1)])
    then show ?thesis
      using sc_unread_moved [OF s1(2-4) b(1) \<open>b \<noteq> 0\<close>] b(2) by (simp add: literal_loop.simps [of s])
  qed
next
  case (Cons b w)
  obtain s1 where s1: "readByte s = (b, s1)" "moved 1 s s1" using readByte_Cons [of s b] Cons.prems(2) by auto
  then have "moved (length w) s1 (literal_loop s1)"
    using Cons.IH [of s1] Cons.prems by (simp add: moved_def)
  moreover have "literal_loop s = literal_loop s1"
    using s1(1) Cons.prems(1) by (simp add: literal_loop.simps [of s] word_byte_def)
  ultimately show ?case using moved_trans [OF s1(2)] by simp
qed

section \<open>JSON text\<close>

text \<open>Literals: words, and strings whose first byte is neither white space nor a colon.\<close>

definition word_lit :: "bytes \<Rightarrow> bool" where
  "word_lit t \<longleftrightarrow> t \<noteq> [] \<and> list_all word_byte t"

definition string_lit :: "bytes \<Rightarrow> bool" where
  "string_lit t \<longleftrightarrow> 2 \<le> length t \<and> hd t = 0x22 \<and> last t = 0x22 \<and> str_body (butlast (tl t))
     \<and> \<not> is_space (hd (tl t)) \<and> hd (tl t) \<noteq> 0x3A"

text \<open>What may stand behind a value.\<close>

definition follows :: "bytes \<Rightarrow> bool" where
  "follows post \<longleftrightarrow> post = [] \<or> hd post \<in> {0x2C, 0x5D, 0x7D}"

definition lit_item :: "int \<Rightarrow> bytes \<Rightarrow> bool \<Rightarrow> scanItem" where
  "lit_item p t k = \<lparr>it_from = p, it_to = p + int (length t), it_tok = literal, it_isMapKey = k\<rparr>"

definition mark_item :: "int \<Rightarrow> token \<Rightarrow> scanItem" where
  "mark_item p t = \<lparr>it_from = p, it_to = p + 1, it_tok = t, it_isMapKey = False\<rparr>"

lemma follows_plain: "follows post \<Longrightarrow> starts_plain post \<and> first_byte post \<noteq> 0x3A"
  by (auto simp: follows_def starts_plain_def first_byte_def is_space_def)

lemma string_lit_split:
  assumes "string_lit t"
  obtains body where "t = 0x22 # body @ [0x22]" "str_body body" "starts_plain (body @ [0x22])"
    "first_byte (body @ [0x22]) \<noteq> 0x3A"
proof -
  obtain u where t: "t = 0x22 # u" "u \<noteq> []" using assms by (cases t; cases "tl t") (auto simp: string_lit_def)
  then obtain body where u: "u = body @ [0x22]" using assms by (cases u rule: rev_cases) (auto simp: string_lit_def)
  have b: "str_body body" "\<not> is_space (hd (body @ [0x22]))" "hd (body @ [0x22]) \<noteq> 0x3A"
    using assms by (simp_all add: string_lit_def t u)
  then have "hd (body @ [0x22]) \<noteq> 0"
    by (cases body rule: str_body.cases) auto
  then show ?thesis using that b t u by (simp add: starts_plain_def first_byte_def)
qed

lemma scanOne_string:
  assumes "pending s = t @ post" "string_lit t"
  obtains pc s' where "scanOne pre s = ((lit_item (sc_pos s) t False, pre, pc), s')" "moved (length t) s s'" "pc \<noteq> 0x3A"
proof -
  obtain body where t: "t = 0x22 # body @ [0x22]" "str_body body" "starts_plain (body @ [0x22])"
    "first_byte (body @ [0x22]) \<noteq> 0x3A" by (rule string_lit_split [OF assms(2)])
  have p: "pending s = 0x22 # body @ 0x22 # post" using assms(1) t(1) by simp
  obtain s1 where s1: "readToken s = (0x22, s1)" "moved 1 s s1"
    by (rule readToken_Cons [OF p]) (simp_all add: is_space_def)
  have p1: "pending s1 = body @ 0x22 # post" using s1(2) p by (simp add: moved_def)
  have "starts_plain (pending s1)" "first_byte (pending s1) \<noteq> 0x3A"
    using t(3,4) unfolding p1 by (cases body; simp add: starts_plain_def first_byte_def)+
  then obtain s2 where s2: "peekToken s1 = (first_byte (pending s1), s2)" "moved 0 s1 s2"
    using peekToken_plain by blast
  have "pending s2 = body @ 0x22 # post" using s2(2) p1 by (simp add: moved_def)
  then have s3: "moved (length body + 1) s2 (string_loop s2)" by (rule string_loop_body [OF t(2)])
  have m: "moved (length t) s (string_loop s2)"
    using moved_trans [OF moved_trans [OF s1(2) s2(2)] s3] by (simp add: t(1))
  have "scanOne pre s = ((lit_item (sc_pos s) t False, pre, first_byte (pending s1)), string_loop s2)"
    using s1 s2 m by (simp add: scanOne.simps [of pre s] scanString_def Let_def lit_item_def moved_def)
  then show ?thesis using that m \<open>first_byte (pending s1) \<noteq> 0x3A\<close> by blast
qed

lemma word_byte_first:
  "word_byte c \<Longrightarrow> \<not> is_space c \<and> c \<notin> {0x22, 0x7B, 0x7D, 0x5B, 0x5D, 0x3A, 0x2C, 0}"
  by (auto simp: word_byte_def ends_literal_def is_space_def)

lemma scanOne_word:
  assumes "pending s = t @ post" "word_lit t" "follows post"
  obtains pc s' where "scanOne pre s = ((lit_item (sc_pos s) t False, pre, pc), s')" "moved (length t) s s'" "pc \<noteq> 0x3A"
proof -
  obtain c w where t: "t = c # w" "word_byte c" "list_all word_byte w"
    using assms(2) by (cases t) (auto simp: word_lit_def)
  have p: "pending s = c # w @ post" using assms(1) t(1) by simp
  obtain s1 where s1: "readToken s = (c, s1)" "moved 1 s s1"
    by (rule readToken_Cons [OF p]) (use word_byte_first [OF t(2)] in simp_all)
  have p1: "pending s1 = w @ post" using s1(2) p by (simp add: moved_def)
  have "starts_plain (pending s1)" "first_byte (pending s1) \<noteq> 0x3A"
    using t(3) follows_plain [OF assms(3)] word_byte_first [of "hd w"] unfolding p1
    by (cases w; auto simp: starts_plain_def first_byte_def)+
  then obtain s2 where s2: "peekToken s1 = (first_byte (pending s1), s2)" "moved 0 s1 s2"
    using peekToken_plain by blast
  have "pending s2 = w @ post" using s2(2) p1 by (simp add: moved_def)
  then have s3: "moved (length w) s2 (literal_loop s2)"
    by (rule literal_loop_word [OF t(3)]) (use assms(3) in \<open>auto simp: follows_def ends_literal_def\<close>)
  have m: "moved (length t) s (literal_loop s2)"
    using moved_trans [OF moved_trans [OF s1(2) s2(2)] s3] by (simp add: t(1))
  have "scanOne pre s = ((lit_item (sc_pos s) t False, pre, first_byte (pending s1)), literal_loop s2)"
    using s1 s2 m word_byte_first [OF t(2)]
    by (simp add: scanOne.simps [of pre s] scanLiteral_def Let_def lit_item_def moved_def)
  then show ?thesis using that m \<open>first_byte (pending s1) \<noteq> 0x3A\<close> by blast
qed

definition delim :: "token \<Rightarrow> byte" where
  "delim t = (case t of objectBegin \<Rightarrow> 0x7B | objectEnd \<Rightarrow> 0x7D | arrayBegin \<Rightarrow> 0x5B | arrayEnd \<Rightarrow> 0x5D | _ \<Rightarrow> 0)"

lemma scanOne_delim:
  assumes "pending s = delim t # post" "t \<in> {objectBegin, objectEnd, arrayBegin, arrayEnd}"
    "starts_plain post" "first_byte post \<noteq> 0x3A"
  obtains pc s' where "scanOne pre s = ((mark_item (sc_pos s) t, pre, pc), s')" "moved 1 s s'" "pc \<noteq> 0x3A"
proof -
  obtain s1 where s1: "readToken s = (delim t, s1)" "moved 1 s s1"
    by (rule readToken_Cons [OF assms(1)]) (use assms(2) in \<open>auto simp: is_space_def delim_def\<close>)
  have p1: "pending s1 = post" using s1(2) assms(1) by (simp add: moved_def)
  obtain s2 where s2: "peekToken s1 = (first_byte post, s2)" "moved 0 s1 s2"
    using peekToken_plain [of s1] assms(3) p1 by blast
  have m: "moved 1 s s2" using moved_trans [OF s1(2) s2(2)] by simp
  then have "delim_item s2 t = mark_item (sc_pos s) t"
    by (simp add: delim_item_def mark_item_def moved_def)
  then have "scanOne pre s = ((mark_item (sc_pos s) t, pre, first_byte post), s2)"
    using s1 s2 assms(2) by (auto simp: scanOne.simps [of pre s] delim_def)
  then show ?thesis using that m assms(4) by blast
qed

lemma scanOne_sep:
  assumes "pending s = c # rest" "c \<in> {0x3A, 0x2C}" "starts_plain rest"
  obtains s' where "scanOne pre s = scanOne c s'" "moved 1 s s'"
proof -
  obtain s1 where s1: "readToken s = (c, s1)" "moved 1 s s1"
    by (rule readToken_Cons [OF assms(1)]) (use assms(2) in \<open>auto simp: is_space_def\<close>)
  have p1: "pending s1 = rest" using s1(2) assms(1) by (simp add: moved_def)
  obtain s2 where s2: "peekToken s1 = (first_byte rest, s2)" "moved 0 s1 s2"
    using peekToken_plain [of s1] assms(3) p1 by blast
  have "scanOne pre s = scanOne c s2"
    using s1 s2 assms(2) by (auto simp: scanOne.simps [of pre s])
  then show ?thesis using that moved_trans [OF s1(2) s2(2)] by simp
qed

text \<open>An optional separator in front of an item.\<close>

definition sep_byte :: "bytes \<Rightarrow> byte" where
  "sep_byte sep = (if sep = [] then 0 else hd sep)"

lemma scanOne_seps:
  assumes "pending s = sep @ rest" "sep \<in> {[], [0x3A], [0x2C]}" "starts_plain rest"
  obtains s' where "scanOne 0 s = scanOne (sep_byte sep) s'" "moved (length sep) s s'" "pending s' = rest"
proof (cases sep)
  case Nil
  then show ?thesis using that [of s] assms(1) by (simp add: sep_byte_def)
next
  case (Cons c cs)
  then have c: "cs = []" "c \<in> {0x3A, 0x2C}" "pending s = c # rest" using assms(1,2) by auto
  obtain s' where s': "scanOne 0 s = scanOne c s'" "moved 1 s s'" by (rule scanOne_sep [OF c(3,2) assms(3)])
  show ?thesis by (rule that [of s']) (use s' c Cons in \<open>simp_all add: sep_byte_def moved_def\<close>)
qed

text \<open>The scanner stands at \<open>txt\<close>, position \<open>p\<close>, with the given stack.\<close>

definition stands :: "scanner \<Rightarrow> int \<Rightarrow> scanState list \<Rightarrow> bytes \<Rightarrow> bool" where
  "stands s p stk txt \<longleftrightarrow> pending s = txt \<and> sc_pos s = p \<and> sc_stack s = stk"

definition val_stack :: "scanState list \<Rightarrow> scanState list" where
  "val_stack stk = (case stk of [] \<Rightarrow> [] | st # sts \<Rightarrow>
     (if st_tok st = objectBegin then st\<lparr>st_isKey := False\<rparr> else st) # sts)"

definition val_ctx :: "bytes \<Rightarrow> scanState list \<Rightarrow> bool" where
  "val_ctx sep stk = (if stk \<noteq> [] \<and> st_tok (hd stk) = objectBegin then sep = [0x3A] else sep \<in> {[], [0x2C]})"

definition in_object :: "bool \<Rightarrow> scanState" where
  "in_object k = \<lparr>st_tok = objectBegin, st_isKey = k\<rparr>"

definition in_array :: scanState where
  "in_array = \<lparr>st_tok = arrayBegin, st_isKey = False\<rparr>"

text \<open>The items the scanner delivers up to the end of its input.\<close>

fun feeds :: "scanner \<Rightarrow> scanItem list \<Rightarrow> bool" where
  "feeds s [] \<longleftrightarrow> \<not> fst (sc_Next s)"
| "feeds s (it # its) \<longleftrightarrow> fst (sc_Next s) \<and> sc_it (snd (sc_Next s)) = it \<and> feeds (snd (sc_Next s)) its"

lemma stands_moved:
  "stands s p stk (x @ rest) \<Longrightarrow> moved (length x) s s' \<Longrightarrow> stands s' (p + int (length x)) stk rest"
  by (simp add: stands_def moved_def)

lemma pending_upd [simp]: "pending (s\<lparr>sc_it := it\<rparr>) = pending s" "pending (s\<lparr>sc_stack := stk\<rparr>) = pending s"
  by (simp_all add: pending_def)

lemma stands_it [simp]: "stands (s\<lparr>sc_it := it\<rparr>) = stands s"
  by (simp add: stands_def fun_eq_iff)

lemma stands_stack: "stands s p stk txt \<Longrightarrow> stands (s\<lparr>sc_stack := stk'\<rparr>) p stk' txt"
  by (simp add: stands_def)

lemma feeds_scan:
  assumes "scan s = (it, s'\<lparr>sc_stack := stk'\<rparr>)" "it_tok it \<noteq> unknown" "stands s' p stk txt"
    "\<And>s''. stands s'' p stk' txt \<Longrightarrow> feeds s'' its"
  shows "feeds s (it # its)"
  using assms(1,2) assms(4) [of "s'\<lparr>sc_stack := stk', sc_it := it\<rparr>"] stands_stack [OF assms(3)]
  by (simp add: sc_Next_def)

text \<open>The items of values, keys and closing delimiters.\<close>

definition opened :: "token \<Rightarrow> scanState list \<Rightarrow> scanState list" where
  "opened t stk = (if t = literal then stk else \<lparr>st_tok = t, st_isKey = False\<rparr> # stk)"

lemma scan_item_value:
  assumes "scanOne 0 s = ((it, sep_byte sep, pc), s1)" "\<not> it_isMapKey it" "val_ctx sep (sc_stack s1)"
    "pc \<noteq> 0x3A" "it_tok it \<in> {literal, objectBegin, arrayBegin}"
  shows "scan s = (it, s1\<lparr>sc_stack := opened (it_tok it) (val_stack (sc_stack s1))\<rparr>)"
proof -
  have e: "it\<lparr>it_isMapKey := False\<rparr> = it" using assms(2) by simp
  show ?thesis
  proof (cases "sc_stack s1")
    case Nil
    then have "s1\<lparr>sc_stack := []\<rparr> = s1" by (metis scanner.surjective scanner.update_convs(7))
    then show ?thesis using assms(1,5) Nil by (auto simp: scan_def opened_def val_stack_def)
  next
    case (Cons st sts)
    then have "s1\<lparr>sc_stack := st # sts\<rparr> = s1" by (metis scanner.surjective scanner.update_convs(7))
    then show ?thesis
      using assms Cons e
      by (auto simp: scan_def opened_def val_stack_def val_ctx_def key_state_def sep_byte_def Let_def)
  qed
qed

lemma literal_plain: "string_lit t \<or> word_lit t \<Longrightarrow> starts_plain (t @ post) \<and> first_byte (t @ post) \<noteq> 0x3A \<and> t \<noteq> []"
  using word_byte_first [of "hd t"]
  by (cases t) (auto simp: string_lit_def word_lit_def starts_plain_def first_byte_def is_space_def)

lemma val_ctx_sep: "val_ctx sep stk \<Longrightarrow> sep \<in> {[], [0x3A], [0x2C]}"
  by (auto simp: val_ctx_def split: if_splits)

lemma feeds_literal:
  assumes "stands s p stk (sep @ t @ post)" "val_ctx sep stk" "string_lit t \<or> word_lit t" "follows post"
    "\<And>s'. stands s' (p + int (length sep) + int (length t)) (val_stack stk) post \<Longrightarrow> feeds s' its"
  shows "feeds s (lit_item (p + int (length sep)) t False # its)"
proof -
  have p: "pending s = sep @ t @ post" using assms(1) by (simp add: stands_def)
  obtain s1 where s1: "scanOne 0 s = scanOne (sep_byte sep) s1" "moved (length sep) s s1" "pending s1 = t @ post"
    using scanOne_seps [OF p val_ctx_sep [OF assms(2)]] literal_plain [OF assms(3)] by blast
  obtain pc s2 where s2: "scanOne (sep_byte sep) s1 = ((lit_item (sc_pos s1) t False, sep_byte sep, pc), s2)"
    "moved (length t) s1 s2" "pc \<noteq> 0x3A"
    using assms(3) scanOne_string [OF s1(3)] scanOne_word [OF s1(3) _ assms(4)] by metis
  have st1: "stands s1 (p + int (length sep)) stk (t @ post)" by (rule stands_moved [OF assms(1) s1(2)])
  have st2: "stands s2 (p + int (length sep) + int (length t)) stk post" by (rule stands_moved [OF st1 s2(2)])
  have pos: "sc_pos s1 = p + int (length sep)" "sc_stack s2 = stk" using st1 st2 by (simp_all add: stands_def)
  have "scan s = (lit_item (sc_pos s1) t False, s2\<lparr>sc_stack := opened literal (val_stack stk)\<rparr>)"
    using scan_item_value [of s "lit_item (sc_pos s1) t False" sep pc s2] s1(1) s2(1,3) assms(2) pos
    by (simp add: lit_item_def)
  then show ?thesis
    unfolding pos(1) by (rule feeds_scan [OF _ _ st2]) (use assms(5) in \<open>simp_all add: lit_item_def opened_def\<close>)
qed

lemma feeds_open:
  assumes "stands s p stk (sep @ delim t # post)" "val_ctx sep stk" "t \<in> {objectBegin, arrayBegin}"
    "starts_plain post" "first_byte post \<noteq> 0x3A"
    "\<And>s'. stands s' (p + int (length sep) + 1) (\<lparr>st_tok = t, st_isKey = False\<rparr> # val_stack stk) post \<Longrightarrow> feeds s' its"
  shows "feeds s (mark_item (p + int (length sep)) t # its)"
proof -
  have p: "pending s = sep @ delim t # post" using assms(1) by (simp add: stands_def)
  have "starts_plain (delim t # post)" using assms(3) by (auto simp: starts_plain_def delim_def is_space_def)
  then obtain s1 where s1: "scanOne 0 s = scanOne (sep_byte sep) s1" "moved (length sep) s s1" "pending s1 = delim t # post"
    using scanOne_seps [OF p val_ctx_sep [OF assms(2)]] by blast
  obtain pc s2 where s2: "scanOne (sep_byte sep) s1 = ((mark_item (sc_pos s1) t, sep_byte sep, pc), s2)"
    "moved 1 s1 s2" "pc \<noteq> 0x3A"
    using scanOne_delim [OF s1(3) _ assms(4,5)] assms(3) by blast
  have st1: "stands s1 (p + int (length sep)) stk ([delim t] @ post)"
    using stands_moved [OF assms(1) s1(2)] by simp
  have st2: "stands s2 (p + int (length sep) + 1) stk post" using stands_moved [OF st1] s2(2) by simp
  have pos: "sc_pos s1 = p + int (length sep)" "sc_stack s2 = stk" using st1 st2 by (simp_all add: stands_def)
  have "scan s = (mark_item (sc_pos s1) t, s2\<lparr>sc_stack := opened t (val_stack stk)\<rparr>)"
    using scan_item_value [of s "mark_item (sc_pos s1) t" sep pc s2] s1(1) s2(1,3) assms(2,3) pos
    by (auto simp: mark_item_def)
  then show ?thesis
    unfolding pos(1) by (rule feeds_scan [OF _ _ st2]) (use assms(3,6) in \<open>auto simp: mark_item_def opened_def\<close>)
qed

lemma feeds_key:
  assumes "stands s p (in_object False # stk) (sep @ t @ post)" "sep \<in> {[], [0x2C]}" "string_lit t"
    "\<And>s'. stands s' (p + int (length sep) + int (length t)) (in_object True # stk) post \<Longrightarrow> feeds s' its"
  shows "feeds s (lit_item (p + int (length sep)) t True # its)"
proof -
  have p: "pending s = sep @ t @ post" using assms(1) by (simp add: stands_def)
  have "sep \<in> {[], [0x3A], [0x2C]}" using assms(2) by auto
  then obtain s1 where s1: "scanOne 0 s = scanOne (sep_byte sep) s1" "moved (length sep) s s1" "pending s1 = t @ post"
    using scanOne_seps [OF p] literal_plain [of t] assms(3) by blast
  obtain pc s2 where s2: "scanOne (sep_byte sep) s1 = ((lit_item (sc_pos s1) t False, sep_byte sep, pc), s2)"
    "moved (length t) s1 s2" "pc \<noteq> 0x3A"
    by (rule scanOne_string [OF s1(3) assms(3)])
  have st1: "stands s1 (p + int (length sep)) (in_object False # stk) (t @ post)" by (rule stands_moved [OF assms(1) s1(2)])
  have st2: "stands s2 (p + int (length sep) + int (length t)) (in_object False # stk) post" by (rule stands_moved [OF st1 s2(2)])
  have pos: "sc_pos s1 = p + int (length sep)" "sc_stack s2 = in_object False # stk" using st1 st2 by (simp_all add: stands_def)
  have "scan s = (lit_item (sc_pos s1) t True, s2\<lparr>sc_stack := in_object True # stk\<rparr>)"
    using s1(1) s2(1,3) assms(2) pos
    by (auto simp: scan_def lit_item_def in_object_def key_state_def Let_def sep_byte_def)
  then show ?thesis
    unfolding pos(1) by (rule feeds_scan [OF _ _ st2]) (use assms(4) in \<open>simp_all add: lit_item_def\<close>)
qed

lemma feeds_close:
  assumes "stands s p (st # stk) (delim t # post)" "t \<in> {objectEnd, arrayEnd}" "\<not> st_isKey st" "follows post"
    "\<And>s'. stands s' (p + 1) stk post \<Longrightarrow> feeds s' its"
  shows "feeds s (mark_item p t # its)"
proof -
  have p: "pending s = delim t # post" "sc_pos s = p" using assms(1) by (simp_all add: stands_def)
  obtain pc s2 where s2: "scanOne 0 s = ((mark_item p t, 0, pc), s2)" "moved 1 s s2" "pc \<noteq> 0x3A"
    using scanOne_delim [OF p(1)] follows_plain [OF assms(4)] assms(2) p(2) by blast
  have st2: "stands s2 (p + 1) (st # stk) post" using stands_moved [of s p _ "[delim t]" post s2] assms(1) s2(2) by simp
  then have "scan s = (mark_item p t, s2\<lparr>sc_stack := stk\<rparr>)"
    using s2(1,3) assms(2,3)
    by (auto simp: scan_def mark_item_def key_state_def Let_def stands_def)
  then show ?thesis
    by (rule feeds_scan [OF _ _ st2]) (use assms(2,5) in \<open>auto simp: mark_item_def\<close>)
qed

lemma feeds_end: "stands s p [] [] \<Longrightarrow> feeds s []"
proof -
  assume s: "stands s p [] []"
  then have p: "pending s = []" by (simp add: stands_def)
  obtain s1 where s1: "readToken s = (0, s1)" "moved 0 s s1" "sc_err s1" by (rule readToken_Nil [OF p])
  have p1: "pending s1 = []" "sc_stack s1 = []" using s1(2) s p by (simp_all add: moved_def stands_def)
  obtain s2 where s2: "readToken s1 = (0, s2)" "moved 0 s1 s2" "sc_err s2" by (rule readToken_Nil [OF p1(1)])
  have "scanOne 0 s = ((no_item, 0, 0), s2)" using s1(1) s2(1) by (simp add: scanOne.simps [of 0 s] peekToken_def)
  moreover have "sc_stack s2 = []" using s2(2) p1 by (simp add: moved_def)
  ultimately show ?thesis using s2(3) by (simp add: sc_Next_def scan_def no_item_def)
qed

end
