(* ===== verification/Scrub_Text.thy ===== *)
theory Scrub_Text
  imports Scrub_Scanner
begin

text \<open>
  JSON values, their text without white space, and the items the scanner (\<open>pkg/scrub/scanner.go\<close>)
  delivers for that text: every token with its exact bounds, and object keys told from values.
\<close>

section \<open>JSON values\<close>

datatype json = JLit bytes | JArr "json list" | JObj "(bytes \<times> json) list"

definition comma :: "bool \<Rightarrow> bytes" where
  "comma first = (if first then [] else [0x2C])"

text \<open>Text without white space.\<close>

fun print :: "json \<Rightarrow> bytes"
  and print_elems :: "bool \<Rightarrow> json list \<Rightarrow> bytes"
  and print_members :: "bool \<Rightarrow> (bytes \<times> json) list \<Rightarrow> bytes" where
  "print (JLit t) = t"
| "print (JArr vs) = 0x5B # print_elems True vs @ [0x5D]"
| "print (JObj kvs) = 0x7B # print_members True kvs @ [0x7D]"
| "print_elems first [] = []"
| "print_elems first (v # vs) = comma first @ print v @ print_elems False vs"
| "print_members first [] = []"
| "print_members first ((k, v) # kvs) = comma first @ k @ 0x3A # print v @ print_members False kvs"

fun json_ok :: "json \<Rightarrow> bool" where
  "json_ok (JLit t) \<longleftrightarrow> string_lit t \<or> word_lit t"
| "json_ok (JArr vs) \<longleftrightarrow> list_all json_ok vs"
| "json_ok (JObj kvs) \<longleftrightarrow> list_all (\<lambda>(k, v). string_lit k \<and> json_ok v) kvs"

fun toks :: "int \<Rightarrow> json \<Rightarrow> scanItem list"
  and toks_elems :: "int \<Rightarrow> bool \<Rightarrow> json list \<Rightarrow> scanItem list"
  and toks_members :: "int \<Rightarrow> bool \<Rightarrow> (bytes \<times> json) list \<Rightarrow> scanItem list" where
  "toks p (JLit t) = [lit_item p t False]"
| "toks p (JArr vs) = mark_item p arrayBegin # toks_elems (p + 1) True vs
     @ [mark_item (p + 1 + int (length (print_elems True vs))) arrayEnd]"
| "toks p (JObj kvs) = mark_item p objectBegin # toks_members (p + 1) True kvs
     @ [mark_item (p + 1 + int (length (print_members True kvs))) objectEnd]"
| "toks_elems p first [] = []"
| "toks_elems p first (v # vs) =
     (let q = p + int (length (comma first)) in toks q v @ toks_elems (q + int (length (print v))) False vs)"
| "toks_members p first [] = []"
| "toks_members p first ((k, v) # kvs) =
     (let q = p + int (length (comma first)); q' = q + int (length k) + 1 in
      lit_item q k True # toks q' v @ toks_members (q' + int (length (print v))) False kvs)"

lemma starts_plain_Cons: "starts_plain (b # bs) \<longleftrightarrow> \<not> is_space b \<and> b \<noteq> 0"
  by (simp add: starts_plain_def)

lemma first_byte_Cons [simp]: "first_byte (b # bs) = b"
  by (simp add: first_byte_def)

lemma print_plain: "json_ok v \<Longrightarrow> starts_plain (print v @ post) \<and> first_byte (print v @ post) \<noteq> 0x3A"
  using literal_plain by (cases v) (auto simp: starts_plain_Cons is_space_def)

lemma elems_plain: "list_all json_ok vs \<Longrightarrow> starts_plain (print_elems True vs @ [0x5D] @ post)
    \<and> first_byte (print_elems True vs @ [0x5D] @ post) \<noteq> 0x3A"
  using print_plain by (cases vs) (auto simp: starts_plain_Cons is_space_def comma_def)

lemma members_plain: "list_all (\<lambda>(k, v). string_lit k \<and> json_ok v) kvs \<Longrightarrow> starts_plain (print_members True kvs @ [0x7D] @ post)
    \<and> first_byte (print_members True kvs @ [0x7D] @ post) \<noteq> 0x3A"
  using literal_plain by (cases kvs) (auto simp: starts_plain_Cons is_space_def comma_def)

lemma follows_elems: "follows (print_elems False vs @ 0x5D # post)"
  by (cases vs) (simp_all add: follows_def comma_def)

lemma follows_members: "follows (print_members False kvs @ 0x7D # post)"
  by (cases kvs) (auto simp: follows_def comma_def)

lemma val_ctx_array: "val_ctx (comma first) (in_array # stk)" "val_stack (in_array # stk) = in_array # stk"
  by (simp_all add: val_ctx_def comma_def in_array_def val_stack_def)

lemma val_ctx_object: "val_ctx [0x3A] (in_object k # stk)" "val_stack (in_object k # stk) = in_object False # stk"
  by (simp_all add: val_ctx_def in_object_def val_stack_def)

lemma feeds_block:
  assumes "stands s p stk (sep @ delim b # body @ delim e # post)" "val_ctx sep stk"
    "b \<in> {objectBegin, arrayBegin}" "e \<in> {objectEnd, arrayEnd}" "follows post"
    "starts_plain (body @ delim e # post) \<and> first_byte (body @ delim e # post) \<noteq> 0x3A"
    "\<And>s' its'. \<lbrakk>stands s' (p + int (length sep) + 1) (\<lparr>st_tok = b, st_isKey = False\<rparr> # val_stack stk) (body @ delim e # post);
       \<And>s2. stands s2 (p + int (length sep) + 1 + int (length body)) (\<lparr>st_tok = b, st_isKey = False\<rparr> # val_stack stk) (delim e # post)
         \<Longrightarrow> feeds s2 its'\<rbrakk> \<Longrightarrow> feeds s' (items @ its')"
    "\<And>s'. stands s' (p + int (length sep) + 1 + int (length body) + 1) (val_stack stk) post \<Longrightarrow> feeds s' its"
  shows "feeds s (mark_item (p + int (length sep)) b # items @ mark_item (p + int (length sep) + 1 + int (length body)) e # its)"
proof (rule feeds_open [OF assms(1,2,3)])
  fix s' assume "stands s' (p + int (length sep) + 1) (\<lparr>st_tok = b, st_isKey = False\<rparr> # val_stack stk) (body @ delim e # post)"
  then show "feeds s' (items @ mark_item (p + int (length sep) + 1 + int (length body)) e # its)"
    by (rule assms(7)) (erule feeds_close [OF _ assms(4) _ assms(5,8)], simp_all)
qed (use assms(6) in simp_all)

lemma feeds_value:
  "\<lbrakk>json_ok v; stands s p stk (sep @ print v @ post); val_ctx sep stk; follows post;
    \<And>s'. stands s' (p + int (length sep) + int (length (print v))) (val_stack stk) post \<Longrightarrow> feeds s' its\<rbrakk>
   \<Longrightarrow> feeds s (toks (p + int (length sep)) v @ its)"
  "\<lbrakk>list_all json_ok vs; stands s p (in_array # stk) (print_elems first vs @ 0x5D # post);
    \<And>s'. stands s' (p + int (length (print_elems first vs))) (in_array # stk) (0x5D # post) \<Longrightarrow> feeds s' its\<rbrakk>
   \<Longrightarrow> feeds s (toks_elems p first vs @ its)"
  "\<lbrakk>list_all (\<lambda>(k, v). string_lit k \<and> json_ok v) kvs; stands s p (in_object False # stk) (print_members first kvs @ 0x7D # post);
    \<And>s'. stands s' (p + int (length (print_members first kvs))) (in_object False # stk) (0x7D # post) \<Longrightarrow> feeds s' its\<rbrakk>
   \<Longrightarrow> feeds s (toks_members p first kvs @ its)"
proof (induction v and first vs and first kvs arbitrary: s p stk sep post its and s p stk post its and s p stk post its
    rule: print_print_elems_print_members.induct)
  case (1 t)
  show ?case using feeds_literal [of s p stk sep t post its] 1 by simp
next
  case (2 vs)
  let ?n = "p + int (length sep) + 1" and ?body = "print_elems True vs" and ?stk = "in_array # val_stack stk"
  have d: "delim arrayBegin = 0x5B" "delim arrayEnd = 0x5D" by (simp_all add: delim_def)
  have ih: "feeds s' (toks_elems ?n True vs @ its')"
    if "stands s' ?n ?stk (?body @ delim arrayEnd # post)"
      "\<And>s2. stands s2 (?n + int (length ?body)) ?stk (delim arrayEnd # post) \<Longrightarrow> feeds s2 its'" for s' its'
    by (rule "2.IH" [OF _ that [unfolded d]]) (use 2 in simp)
  have "feeds s (mark_item (p + int (length sep)) arrayBegin # toks_elems ?n True vs
      @ mark_item (?n + int (length ?body)) arrayEnd # its)"
    by (rule feeds_block [OF _ _ _ _ _ _ ih [unfolded in_array_def]])
      (use 2 elems_plain [of vs post] in \<open>simp_all add: d add.assoc\<close>)
  then show ?case by simp
next
  case (3 kvs)
  let ?n = "p + int (length sep) + 1" and ?body = "print_members True kvs" and ?stk = "in_object False # val_stack stk"
  have d: "delim objectBegin = 0x7B" "delim objectEnd = 0x7D" by (simp_all add: delim_def)
  have ih: "feeds s' (toks_members ?n True kvs @ its')"
    if "stands s' ?n ?stk (?body @ delim objectEnd # post)"
      "\<And>s2. stands s2 (?n + int (length ?body)) ?stk (delim objectEnd # post) \<Longrightarrow> feeds s2 its'" for s' its'
    by (rule "3.IH" [OF _ that [unfolded d]]) (use 3 in simp)
  have "feeds s (mark_item (p + int (length sep)) objectBegin # toks_members ?n True kvs
      @ mark_item (?n + int (length ?body)) objectEnd # its)"
    by (rule feeds_block [OF _ _ _ _ _ _ ih [unfolded in_object_def]])
      (use 3 members_plain [of kvs post] in \<open>simp_all add: d add.assoc\<close>)
  then show ?case by simp
next
  case (5 first v vs)
  show ?case
    unfolding toks_elems.simps Let_def append_assoc
  proof (rule "5.IH"(1) [where stk = "in_array # stk" and post = "print_elems False vs @ 0x5D # post"])
    fix s' assume "stands s' (p + int (length (comma first)) + int (length (print v))) (val_stack (in_array # stk)) (print_elems False vs @ 0x5D # post)"
    then show "feeds s' (toks_elems (p + int (length (comma first)) + int (length (print v))) False vs @ its)"
      using 5 by (intro "5.IH"(2)) (simp_all add: val_ctx_array add.assoc)
  qed (use 5 in \<open>simp_all add: val_ctx_array follows_elems\<close>)
next
  case (7 first k v kvs)
  let ?q = "p + int (length (comma first))"
  show ?case
    unfolding toks_members.simps Let_def append_assoc append_Cons
  proof (rule feeds_key [where sep = "comma first" and t = k and post = "0x3A # print v @ print_members False kvs @ 0x7D # post"])
    fix s' assume s': "stands s' (?q + int (length k)) (in_object True # stk) (0x3A # print v @ print_members False kvs @ 0x7D # post)"
    have "feeds s' (toks (?q + int (length k) + int (length [0x3A :: byte])) v @ toks_members (?q + int (length k) + 1 + int (length (print v))) False kvs @ its)"
    proof (rule "7.IH"(1) [where stk = "in_object True # stk" and post = "print_members False kvs @ 0x7D # post"])
      fix s2 assume "stands s2 (?q + int (length k) + int (length [0x3A :: byte]) + int (length (print v))) (val_stack (in_object True # stk)) (print_members False kvs @ 0x7D # post)"
      then show "feeds s2 (toks_members (?q + int (length k) + 1 + int (length (print v))) False kvs @ its)"
        using 7 by (intro "7.IH"(2)) (simp_all add: val_ctx_object algebra_simps)
    qed (use 7 s' in \<open>simp_all add: val_ctx_object follows_members\<close>)
    then show "feeds s' (toks (?q + int (length k) + 1) v @ toks_members (?q + int (length k) + 1 + int (length (print v))) False kvs @ its)" by simp
  qed (use 7 in \<open>simp_all add: comma_def\<close>)
qed simp_all

end
