(* ===== verification/Scrub_JSON.thy ===== *)
theory Scrub_JSON
  imports Scrub_Text
begin

text \<open>
  The JSON scrubber (\<open>pkg/scrub/scrub.go\<close>): the paths to scrub are merged into a tree of nodes, a
  stream over the scanner's items walks the values together with the tree and collects the bounds
  of the values to scrub, and \<open>scrub\<close> cuts them out. The stream's loops take fuel; the theorem
  says how much is enough. The orbits of \<open>unicode.SimpleFold\<close> are the parameter \<open>sfold\<close>.
\<close>

section \<open>Paths and nodes\<close>

datatype EntryKind = ObjectField | MapKey | MapValue | scrubNode

record PathEntry =
  pe_Kind :: EntryKind
  pe_FieldName :: bytes
  pe_CaseSensitive :: bool

type_synonym scrub_Path = "PathEntry list"

datatype snode = SNode (n_Kind: EntryKind) (n_FieldName: bytes) (n_CaseSensitive: bool) (n_Children: "snode list")

definition EqualFold :: "(nat \<Rightarrow> nat) \<Rightarrow> bytes \<Rightarrow> bytes \<Rightarrow> bool" where
  "EqualFold sfold s t \<longleftrightarrow> map (sfold \<circ> snd) (range_str 0 s) = map (sfold \<circ> snd) (range_str 0 t)"

definition match_entry :: "(nat \<Rightarrow> nat) \<Rightarrow> PathEntry \<Rightarrow> snode \<Rightarrow> bool" where
  "match_entry sfold e c =
     (if n_Kind c \<noteq> pe_Kind e then False
      else if pe_Kind e \<noteq> ObjectField then True
      else if pe_CaseSensitive e \<noteq> n_CaseSensitive c then False
      else if pe_CaseSensitive e then EqualFold sfold (pe_FieldName e) (n_FieldName c)
      else pe_FieldName e = n_FieldName c)"

text \<open>The index of the first matching child; \<open>None\<close> is \<open>-1\<close>.\<close>

fun findMatch :: "(nat \<Rightarrow> nat) \<Rightarrow> snode list \<Rightarrow> PathEntry \<Rightarrow> nat option" where
  "findMatch sfold [] e = None"
| "findMatch sfold (c # cs) e = (if match_entry sfold e c then Some 0 else map_option Suc (findMatch sfold cs e))"

definition hasScrub :: "snode list \<Rightarrow> bool" where
  "hasScrub children \<longleftrightarrow> length children = 1 \<and> n_Kind (hd children) = scrubNode"

definition scrub_leaf :: snode where
  "scrub_leaf = SNode scrubNode [] False []"

text \<open>The walk of one path from a parent: the parent's new children.\<close>

fun add_path :: "(nat \<Rightarrow> nat) \<Rightarrow> scrub_Path \<Rightarrow> snode list \<Rightarrow> snode list" where
  "add_path sfold [] children = [scrub_leaf]"
| "add_path sfold (e # p) children =
     (if hasScrub children then [scrub_leaf]
      else case findMatch sfold children e of
          None \<Rightarrow> children @ [SNode (pe_Kind e) (pe_FieldName e) (pe_CaseSensitive e) (add_path sfold p [])]
        | Some idx \<Rightarrow> children[idx := (case children ! idx of SNode k f cs ch \<Rightarrow> SNode k f cs (add_path sfold p ch))])"

definition groupNodes :: "(nat \<Rightarrow> nat) \<Rightarrow> scrub_Path list \<Rightarrow> snode list" where
  "groupNodes sfold paths = foldl (\<lambda>children p. add_path sfold p children) [] paths"


section \<open>The stream\<close>

record Bounds =
  b_From :: int
  b_To :: int

definition it_Bounds :: "scanItem \<Rightarrow> Bounds" where
  "it_Bounds it = \<lparr>b_From = it_from it, b_To = it_to it\<rparr>"

text \<open>\<open>sm_panic\<close> records that a call panicked: a slice out of range, or a double unread.\<close>

record stream =
  sm_s :: scanner
  sm_input :: bytes
  sm_rootNodes :: "snode list"
  sm_debugLit :: bytes
  sm_tok :: token
  sm_pos :: Bounds
  sm_mapKey :: bool
  sm_unreadItem :: scanItem
  sm_toScrub :: "Bounds list"
  sm_panic :: bool

definition newStream :: "bytes \<Rightarrow> snode list \<Rightarrow> stream" where
  "newStream input rootNodes = \<lparr>sm_s = newScanner input, sm_input = input, sm_rootNodes = rootNodes,
     sm_debugLit = [], sm_tok = unknown, sm_pos = \<lparr>b_From = 0, b_To = 0\<rparr>, sm_mapKey = False,
     sm_unreadItem = no_item, sm_toScrub = [], sm_panic = False\<rparr>"

definition slice_ok :: "bytes \<Rightarrow> int \<Rightarrow> int \<Rightarrow> bool" where
  "slice_ok bs from to \<longleftrightarrow> 0 \<le> from \<and> from \<le> to \<and> to \<le> int (length bs)"

definition slice :: "bytes \<Rightarrow> int \<Rightarrow> int \<Rightarrow> bytes" where
  "slice bs from to = take (nat (to - from)) (drop (nat from) bs)"

definition set_item :: "stream \<Rightarrow> scanItem \<Rightarrow> stream" where
  "set_item s it = s\<lparr>sm_tok := it_tok it, sm_pos := it_Bounds it, sm_mapKey := it_isMapKey it,
     sm_debugLit := slice (sm_input s) (it_from it) (it_to it),
     sm_panic := sm_panic s \<or> \<not> slice_ok (sm_input s) (it_from it) (it_to it)\<rparr>"

definition sm_next :: "stream \<Rightarrow> stream" where
  "sm_next s =
     (if it_tok (sm_unreadItem s) \<noteq> unknown
      then set_item (s\<lparr>sm_unreadItem := no_item\<rparr>) (sm_unreadItem s)
      else case sc_Next (sm_s s) of (ok, sc) \<Rightarrow>
        if \<not> ok then s\<lparr>sm_s := sc, sm_tok := unknown, sm_debugLit := [], sm_panic := sm_panic s \<or> sc_panic sc\<rparr>
        else set_item (s\<lparr>sm_s := sc, sm_panic := sm_panic s \<or> sc_panic sc\<rparr>) (sc_it sc))"

definition sm_unread :: "stream \<Rightarrow> stream" where
  "sm_unread s = s\<lparr>sm_panic := sm_panic s \<or> it_tok (sm_unreadItem s) \<noteq> unknown,
     sm_unreadItem := \<lparr>it_from = b_From (sm_pos s), it_to = b_To (sm_pos s), it_tok = sm_tok s, it_isMapKey = sm_mapKey s\<rparr>\<rparr>"

definition scrubNow :: "snode list \<Rightarrow> bool" where
  "scrubNow nodes \<longleftrightarrow> list_ex (\<lambda>n. n_Kind n = scrubNode) nodes"

definition isMapValue :: "stream \<Rightarrow> bool" where
  "isMapValue s \<longleftrightarrow> \<not> sm_mapKey s \<and> sm_tok s \<in> {objectBegin, arrayBegin, literal}"

fun matchingMapNodes :: "(nat \<Rightarrow> nat) \<Rightarrow> stream \<Rightarrow> snode list \<Rightarrow> snode list \<times> snode list" where
  "matchingMapNodes sfold s [] = ([], [])"
| "matchingMapNodes sfold s (n # ns) =
     (let (currNodes, valueNodes) = matchingMapNodes sfold s ns in
      if n_Kind n = MapKey \<and> sm_mapKey s \<or> n_Kind n = MapValue \<and> \<not> sm_mapKey s
      then (n_Children n @ currNodes, valueNodes)
      else if n_Kind n = ObjectField \<and> sm_mapKey s
      then (let fieldName = slice (sm_input s) (b_From (sm_pos s)) (b_To (sm_pos s));
                fieldMatch = (if n_CaseSensitive n then fieldName = n_FieldName n
                  else EqualFold sfold fieldName (n_FieldName n))
            in (currNodes, if fieldMatch then n_Children n @ valueNodes else valueNodes))
      else (currNodes, valueNodes))"

fun skip_loop :: "nat \<Rightarrow> int \<Rightarrow> stream \<Rightarrow> (int \<times> stream) option" where
  "skip_loop 0 depth s = None"
| "skip_loop (Suc fuel) depth s =
     (let depth' = (if sm_tok s \<in> {objectBegin, arrayBegin} then depth + 1
           else if sm_tok s \<in> {objectEnd, arrayEnd} then depth - 1 else depth);
          end' = b_To (sm_pos s);
          s' = sm_next s
      in if depth' \<le> 0 then Some (end', s') else skip_loop fuel depth' s')"

definition skipValue :: "nat \<Rightarrow> stream \<Rightarrow> (Bounds \<times> stream) option" where
  "skipValue fuel s = (case skip_loop fuel 0 s of None \<Rightarrow> None
     | Some (end', s') \<Rightarrow> Some (\<lparr>b_From = b_From (sm_pos s), b_To = end'\<rparr>, s'))"

fun processValue :: "(nat \<Rightarrow> nat) \<Rightarrow> nat \<Rightarrow> snode list \<Rightarrow> stream \<Rightarrow> stream option"
  and array_loop :: "(nat \<Rightarrow> nat) \<Rightarrow> nat \<Rightarrow> snode list \<Rightarrow> stream \<Rightarrow> stream option"
  and object_loop :: "(nat \<Rightarrow> nat) \<Rightarrow> nat \<Rightarrow> snode list \<Rightarrow> stream \<Rightarrow> stream option" where
  "processValue sfold 0 nodes s = None"
| "processValue sfold (Suc fuel) nodes s =
     (if scrubNow nodes
      then (case skipValue fuel s of None \<Rightarrow> None
        | Some (bounds, s') \<Rightarrow> Some (s'\<lparr>sm_toScrub := sm_toScrub s' @ [bounds]\<rparr>))
      else if nodes = [] then map_option snd (skipValue fuel s)
      else case sm_tok s of
          objectBegin \<Rightarrow> object_loop sfold fuel nodes (sm_next s)
        | arrayBegin \<Rightarrow> array_loop sfold fuel nodes (sm_next s)
        | _ \<Rightarrow> Some (sm_next s))"
| "array_loop sfold 0 nodes s = None"
| "array_loop sfold (Suc fuel) nodes s =
     (if sm_tok s = unknown then Some s
      else if sm_tok s = arrayEnd then Some (sm_next s)
      else Option.bind (processValue sfold fuel nodes s) (array_loop sfold fuel nodes))"
| "object_loop sfold 0 nodes s = None"
| "object_loop sfold (Suc fuel) nodes s =
     (if sm_tok s = unknown then Some s
      else if sm_tok s = objectEnd then Some (sm_next s)
      else case matchingMapNodes sfold s nodes of (currNodes, valueNodes) \<Rightarrow>
        Option.bind (processValue sfold fuel currNodes s) (\<lambda>s1.
        Option.bind (if isMapValue s1 then processValue sfold fuel valueNodes s1 else Some s1) (\<lambda>s2.
        object_loop sfold fuel nodes s2)))"

fun process_loop :: "(nat \<Rightarrow> nat) \<Rightarrow> nat \<Rightarrow> stream \<Rightarrow> stream option" where
  "process_loop sfold 0 s = None"
| "process_loop sfold (Suc fuel) s =
     (if sm_tok s = unknown then Some s
      else Option.bind (processValue sfold fuel (sm_rootNodes s) s) (process_loop sfold fuel))"

definition Process :: "(nat \<Rightarrow> nat) \<Rightarrow> nat \<Rightarrow> stream \<Rightarrow> stream option" where
  "Process sfold fuel s = process_loop sfold fuel (sm_next s)"

text \<open>The outcome of a call: \<open>None\<close> when the fuel ran out, \<open>Some None\<close> for a panic.\<close>

definition JSONIndices :: "(nat \<Rightarrow> nat) \<Rightarrow> nat \<Rightarrow> bytes \<Rightarrow> scrub_Path list \<Rightarrow> Bounds list option option" where
  "JSONIndices sfold fuel input paths =
     map_option (\<lambda>s. if sm_panic s then None else Some (sm_toScrub s))
       (Process sfold fuel (newStream input (groupNodes sfold paths)))"

text \<open>The pieces kept and the replacements, in order; a piece out of range panics.\<close>

fun scrub_loop :: "bytes \<Rightarrow> int \<Rightarrow> Bounds list \<Rightarrow> bytes \<Rightarrow> bytes option" where
  "scrub_loop input prevEnd [] replaceWith =
     (if slice_ok input prevEnd (int (length input)) then Some (slice input prevEnd (int (length input))) else None)"
| "scrub_loop input prevEnd (idx # indices) replaceWith =
     (if slice_ok input prevEnd (b_From idx)
      then map_option (\<lambda>rest. slice input prevEnd (b_From idx) @ replaceWith @ rest)
        (scrub_loop input (b_To idx) indices replaceWith)
      else None)"

definition newLen :: "bytes \<Rightarrow> Bounds list \<Rightarrow> bytes \<Rightarrow> int" where
  "newLen input indices replaceWith =
     foldl (\<lambda>n idx. n - (b_To idx - b_From idx) + int (length replaceWith)) (int (length input)) indices"

text \<open>The copies fill a buffer of \<open>newLen\<close> bytes; what does not fit is dropped, what is missing stays zero.\<close>

definition scrub :: "bytes \<Rightarrow> Bounds list \<Rightarrow> bytes \<Rightarrow> bytes option" where
  "scrub input indices replaceWith =
     (if indices = [] then Some input
      else let n = newLen input indices replaceWith in
        if n < 0 then None
        else map_option (\<lambda>out. take (nat n) (out @ replicate (nat n - length out) 0))
          (scrub_loop input 0 indices replaceWith))"

definition JSON :: "(nat \<Rightarrow> nat) \<Rightarrow> nat \<Rightarrow> bytes \<Rightarrow> scrub_Path list \<Rightarrow> bytes \<Rightarrow> bytes option option" where
  "JSON sfold fuel input paths replaceWith =
     map_option (\<lambda>r. Option.bind r (\<lambda>indices. scrub input indices replaceWith)) (JSONIndices sfold fuel input paths)"


section \<open>The scanner does not panic\<close>

lemma readByte_clear: "readByte s = (b, s') \<Longrightarrow> sc_unreadByte s' = 0 \<and> sc_panic s' = sc_panic s"
  by (auto simp: readByte_def split: if_splits list.splits)

lemma readToken_clear: "readToken s = (b, s') \<Longrightarrow> sc_unreadByte s' = 0 \<and> sc_panic s' = sc_panic s"
proof (induction s rule: readToken.induct)
  case (1 s)
  obtain c s1 where c: "readByte s = (c, s1)" by (cases "readByte s")
  then show ?case using 1 readByte_clear [OF c] by (cases "is_space c") (auto simp: readToken.simps [of s])
qed

lemma peekToken_panic: "peekToken s = (b, s') \<Longrightarrow> sc_panic s' = sc_panic s"
  using readToken_clear by (auto simp: peekToken_def split: prod.splits if_splits)

lemma string_loop_panic [simp]: "sc_panic (string_loop s) = sc_panic s"
proof (induction s rule: string_loop.induct)
  case (1 s)
  obtain b s1 where b: "readByte s = (b, s1)" by (cases "readByte s")
  obtain c s2 where c: "readByte s1 = (c, s2)" by (cases "readByte s1")
  show ?case using 1 b readByte_clear [OF b] readByte_clear [OF c] c by (auto simp: string_loop.simps [of s])
qed

lemma literal_loop_panic [simp]: "sc_panic (literal_loop s) = sc_panic s"
proof (induction s rule: literal_loop.induct)
  case (1 s)
  obtain b s1 where b: "readByte s = (b, s1)" by (cases "readByte s")
  show ?case using 1 b readByte_clear [OF b] by (auto simp: literal_loop.simps [of s])
qed

lemma scanOne_panic: "sc_panic (snd (scanOne pre s)) = sc_panic s"
proof (induction pre s rule: scanOne.induct)
  case (1 pre s)
  obtain c s1 where c: "readToken s = (c, s1)" by (cases "readToken s")
  obtain d s2 where d: "peekToken s1 = (d, s2)" by (cases "peekToken s1")
  have "sc_panic s2 = sc_panic s" using readToken_clear [OF c] peekToken_panic [OF d] by simp
  then show ?case using 1 c d by (auto simp: scanOne.simps [of pre s] scanString_def scanLiteral_def Let_def)
qed

text \<open>On any input \<open>unread\<close> follows a read, so its panic is unreachable.\<close>

lemma sc_Next_panic: "sc_panic (snd (sc_Next s)) = sc_panic s"
proof -
  obtain r s1 where r: "scanOne 0 s = (r, s1)" by (cases "scanOne 0 s")
  then have "sc_panic s1 = sc_panic s" using scanOne_panic [of 0 s] by simp
  then show ?thesis using r by (auto simp: sc_Next_def scan_def Let_def split: prod.splits list.splits)
qed


section \<open>Walking items\<close>

text \<open>The stream stands at the first of the items left.\<close>

definition current :: "stream \<Rightarrow> scanItem list \<Rightarrow> bool" where
  "current s its = (case its of [] \<Rightarrow> sm_tok s = unknown
     | it # its' \<Rightarrow> sm_tok s = it_tok it \<and> sm_pos s = it_Bounds it \<and> sm_mapKey s = it_isMapKey it \<and> feeds (sm_s s) its')"

definition item_ok :: "bytes \<Rightarrow> scanItem \<Rightarrow> bool" where
  "item_ok input it \<longleftrightarrow> it_tok it \<noteq> unknown \<and> slice_ok input (it_from it) (it_to it)"

definition at_items :: "stream \<Rightarrow> scanItem list \<Rightarrow> bool" where
  "at_items s its \<longleftrightarrow> \<not> sm_panic s \<and> \<not> sc_panic (sm_s s) \<and> sm_unreadItem s = no_item
     \<and> list_all (item_ok (sm_input s)) its \<and> current s its"

definition keeps :: "stream \<Rightarrow> stream \<Rightarrow> bool" where
  "keeps s s' \<longleftrightarrow> sm_input s' = sm_input s \<and> sm_rootNodes s' = sm_rootNodes s"

lemma keeps_refl [simp]: "keeps s s"
  by (simp add: keeps_def)

lemma keeps_trans: "keeps s s' \<Longrightarrow> keeps s' s'' \<Longrightarrow> keeps s s''"
  by (simp add: keeps_def)

lemma next_feeds:
  assumes "feeds (sm_s s) its" "\<not> sm_panic s" "\<not> sc_panic (sm_s s)" "sm_unreadItem s = no_item"
    "list_all (item_ok (sm_input s)) its"
  shows "at_items (sm_next s) its" "keeps s (sm_next s)" "sm_toScrub (sm_next s) = sm_toScrub s"
proof -
  obtain ok sc where n: "sc_Next (sm_s s) = (ok, sc)" by (cases "sc_Next (sm_s s)")
  have p: "\<not> sc_panic sc" using sc_Next_panic [of "sm_s s"] n assms(3) by simp
  show "at_items (sm_next s) its"
    using assms n p by (cases its) (auto simp: sm_next_def at_items_def current_def set_item_def item_ok_def no_item_def)
  show "keeps s (sm_next s)" "sm_toScrub (sm_next s) = sm_toScrub s"
    using n assms(4) by (simp_all add: sm_next_def keeps_def set_item_def no_item_def)
qed

lemma next_at:
  assumes "at_items s (it # its)"
  shows "at_items (sm_next s) its" "keeps s (sm_next s)" "sm_toScrub (sm_next s) = sm_toScrub s"
  using next_feeds [of s its] assms by (simp_all add: at_items_def current_def)

lemma at_items_hd:
  assumes "at_items s (it # its)"
  shows "sm_tok s = it_tok it" "sm_pos s = it_Bounds it" "sm_mapKey s = it_isMapKey it"
  using assms by (simp_all add: at_items_def current_def)

text \<open>Skipping a value: the depth stays positive until its last item.\<close>

definition dep :: "int \<Rightarrow> scanItem \<Rightarrow> int" where
  "dep d it = (if it_tok it \<in> {objectBegin, arrayBegin} then d + 1
     else if it_tok it \<in> {objectEnd, arrayEnd} then d - 1 else d)"

fun stays :: "int \<Rightarrow> scanItem list \<Rightarrow> bool" where
  "stays d [] \<longleftrightarrow> True"
| "stays d (it # its) \<longleftrightarrow> 0 < dep d it \<and> stays (dep d it) its"

lemma stays_append: "stays d (xs @ ys) \<longleftrightarrow> stays d xs \<and> stays (foldl dep d xs) ys"
  by (induction xs arbitrary: d) auto

lemma dep_simps [simp]:
  "dep d (lit_item p t k) = d" "dep d (mark_item p arrayBegin) = d + 1" "dep d (mark_item p arrayEnd) = d - 1"
  "dep d (mark_item p objectBegin) = d + 1" "dep d (mark_item p objectEnd) = d - 1"
  by (simp_all add: dep_def lit_item_def mark_item_def)

lemma stays_toks:
  "0 < d \<Longrightarrow> stays d (toks p v) \<and> foldl dep d (toks p v) = d"
  "0 < d \<Longrightarrow> stays d (toks_elems p first vs) \<and> foldl dep d (toks_elems p first vs) = d"
  "0 < d \<Longrightarrow> stays d (toks_members p first kvs) \<and> foldl dep d (toks_members p first kvs) = d"
  by (induction p v and p first vs and p first kvs arbitrary: d and d and d rule: toks_toks_elems_toks_members.induct)
    (auto simp: stays_append Let_def)

lemma skip_stays:
  "at_items s (its @ rest) \<Longrightarrow> stays d its \<Longrightarrow> \<exists>s'. at_items s' rest \<and> keeps s s' \<and> sm_toScrub s' = sm_toScrub s
     \<and> (\<forall>fuel. skip_loop (length its + fuel) d s = skip_loop fuel (foldl dep d its) s')"
proof (induction its arbitrary: s d)
  case (Cons it its)
  have h: "at_items s (it # its @ rest)" using Cons.prems(1) by simp
  obtain s' where s': "at_items s' rest" "keeps (sm_next s) s'" "sm_toScrub s' = sm_toScrub (sm_next s)"
    "\<And>fuel. skip_loop (length its + fuel) (dep d it) (sm_next s) = skip_loop fuel (foldl dep (dep d it) its) s'"
    using Cons.IH [OF next_at(1) [OF h]] Cons.prems(2) by auto
  have "skip_loop (length (it # its) + fuel) d s = skip_loop fuel (foldl dep d (it # its)) s'" for fuel
    using Cons.prems(2) s'(4) [of fuel] by (auto simp: Let_def at_items_hd [OF h] dep_def split: if_splits)
  then show ?case using s' next_at(2,3) [OF h] keeps_trans by metis
qed auto

lemma toks_split:
  obtains its z where "toks p v = its @ [z]" "stays 0 its" "dep (foldl dep 0 its) z \<le> 0"
    "it_from (hd (toks p v)) = p" "it_to z = p + int (length (print v))"
proof (cases v)
  case (JLit t)
  show ?thesis by (rule that [of "[]" "lit_item p t False"]) (simp_all add: JLit lit_item_def dep_def)
next
  case (JArr vs)
  show ?thesis
    by (rule that [of "mark_item p arrayBegin # toks_elems (p + 1) True vs"
          "mark_item (p + 1 + int (length (print_elems True vs))) arrayEnd"])
      (use stays_toks(2) [of 1 "p + 1" True vs] in \<open>simp_all add: JArr mark_item_def dep_def\<close>)
next
  case (JObj kvs)
  show ?thesis
    by (rule that [of "mark_item p objectBegin # toks_members (p + 1) True kvs"
          "mark_item (p + 1 + int (length (print_members True kvs))) objectEnd"])
      (use stays_toks(3) [of 1 "p + 1" True kvs] in \<open>simp_all add: JObj mark_item_def dep_def\<close>)
qed

lemma skipValue_value:
  assumes "at_items s (toks p v @ rest)" "length (toks p v) \<le> fuel"
  obtains s' where "skipValue fuel s = Some (\<lparr>b_From = p, b_To = p + int (length (print v))\<rparr>, s')"
    "at_items s' rest" "keeps s s'" "sm_toScrub s' = sm_toScrub s"
proof -
  obtain its z where t: "toks p v = its @ [z]" "stays 0 its" "dep (foldl dep 0 its) z \<le> 0"
    "it_from (hd (toks p v)) = p" "it_to z = p + int (length (print v))" by (rule toks_split)
  obtain x xs where x: "toks p v @ rest = x # xs" "hd (toks p v) = x" using t(1) by (cases its) auto
  have fr: "b_From (sm_pos s) = p" using at_items_hd(2) [of s x xs] assms(1) x t(4) by (simp add: it_Bounds_def)
  obtain f where f: "fuel = length its + Suc f" 
    by (rule that [of "fuel - Suc (length its)"]) (use assms(2) t(1) in simp)
  obtain s1 where s1: "at_items s1 (z # rest)" "keeps s s1" "sm_toScrub s1 = sm_toScrub s"
    "skip_loop fuel 0 s = skip_loop (Suc f) (foldl dep 0 its) s1"
    using skip_stays [of s its "z # rest" 0] assms(1) t(1,2) unfolding f by (auto simp del: skip_loop.simps add_Suc_right)
  have "skip_loop (Suc f) (foldl dep 0 its) s1 = Some (p + int (length (print v)), sm_next s1)"
    using t(3,5) at_items_hd [OF s1(1)] by (auto simp: Let_def dep_def it_Bounds_def split: if_splits)
  then show ?thesis
    using that [of "sm_next s1"] s1 next_at [OF s1(1)] fr by (auto simp: skipValue_def keeps_def)
qed


section \<open>Redaction\<close>

text \<open>
  The specification: a location is the list of object steps from the root of a value, arrays being
  transparent; a path selects the locations its entries match step by step, and \<open>redact\<close>
  replaces what stands at a selected location.
\<close>

datatype obj_step = AtField bytes | AtKey bytes

definition entry_selects :: "(nat \<Rightarrow> nat) \<Rightarrow> PathEntry \<Rightarrow> obj_step \<Rightarrow> bool" where
  "entry_selects sfold e st = (case st of
       AtKey k \<Rightarrow> pe_Kind e = MapKey
     | AtField k \<Rightarrow> pe_Kind e = MapValue \<or> pe_Kind e = ObjectField
         \<and> (if pe_CaseSensitive e then k = pe_FieldName e else EqualFold sfold k (pe_FieldName e)))"

definition selected :: "(nat \<Rightarrow> nat) \<Rightarrow> scrub_Path list \<Rightarrow> obj_step list \<Rightarrow> bool" where
  "selected sfold paths l \<longleftrightarrow> list_ex (\<lambda>p. list_all2 (entry_selects sfold) p l) paths"

fun redact :: "bytes \<Rightarrow> (obj_step list \<Rightarrow> bool) \<Rightarrow> json \<Rightarrow> json" where
  "redact r sel (JLit t) = (if sel [] then JLit r else JLit t)"
| "redact r sel (JArr vs) = (if sel [] then JLit r else JArr (map (redact r sel) vs))"
| "redact r sel (JObj kvs) = (if sel [] then JLit r
     else JObj (map (\<lambda>(k, v). (if sel [AtKey k] then r else k, redact r (\<lambda>l. sel (AtField k # l)) v)) kvs))"

text \<open>The bounds of what is replaced, from the left.\<close>

definition mark :: "int \<Rightarrow> bytes \<Rightarrow> Bounds" where
  "mark p t = \<lparr>b_From = p, b_To = p + int (length t)\<rparr>"

fun marks :: "int \<Rightarrow> (obj_step list \<Rightarrow> bool) \<Rightarrow> json \<Rightarrow> Bounds list"
  and marks_elems :: "int \<Rightarrow> bool \<Rightarrow> (obj_step list \<Rightarrow> bool) \<Rightarrow> json list \<Rightarrow> Bounds list"
  and marks_members :: "int \<Rightarrow> bool \<Rightarrow> (obj_step list \<Rightarrow> bool) \<Rightarrow> (bytes \<times> json) list \<Rightarrow> Bounds list" where
  "marks p sel (JLit t) = (if sel [] then [mark p t] else [])"
| "marks p sel (JArr vs) = (if sel [] then [mark p (print (JArr vs))] else marks_elems (p + 1) True sel vs)"
| "marks p sel (JObj kvs) = (if sel [] then [mark p (print (JObj kvs))] else marks_members (p + 1) True sel kvs)"
| "marks_elems p first sel [] = []"
| "marks_elems p first sel (v # vs) =
     (let q = p + int (length (comma first)) in marks q sel v @ marks_elems (q + int (length (print v))) False sel vs)"
| "marks_members p first sel [] = []"
| "marks_members p first sel ((k, v) # kvs) =
     (let q = p + int (length (comma first)); q' = q + int (length k) + 1 in
      (if sel [AtKey k] then [mark q k] else []) @ marks q' (\<lambda>l. sel (AtField k # l)) v
        @ marks_members (q' + int (length (print v))) False sel kvs)"

lemma marks_hit: "sel [] \<Longrightarrow> marks p sel v = [mark p (print v)]"
  by (cases v) simp_all

lemma marks_none:
  "(\<And>l. \<not> sel l) \<Longrightarrow> marks p sel v = []"
  "(\<And>l. \<not> sel l) \<Longrightarrow> marks_elems p first sel vs = []"
  "(\<And>l. \<not> sel l) \<Longrightarrow> marks_members p first sel kvs = []"
  by (induction p sel v and p first sel vs and p first sel kvs rule: marks_marks_elems_marks_members.induct)
    (simp_all add: Let_def)

text \<open>The selection of a node tree, as \<open>matchingMapNodes\<close> matches it.\<close>

definition node_selects :: "(nat \<Rightarrow> nat) \<Rightarrow> EntryKind \<Rightarrow> bytes \<Rightarrow> bool \<Rightarrow> obj_step \<Rightarrow> bool" where
  "node_selects sfold k f cs st = (case st of
       AtKey _ \<Rightarrow> k = MapKey
     | AtField key \<Rightarrow> k = ObjectField \<and> (if cs then key = f else EqualFold sfold key f))"

fun node_sel :: "(nat \<Rightarrow> nat) \<Rightarrow> snode \<Rightarrow> obj_step list \<Rightarrow> bool" where
  "node_sel sfold (SNode k f cs ch) l =
     (if k = scrubNode then l = []
      else case l of [] \<Rightarrow> False | st # l' \<Rightarrow> node_selects sfold k f cs st \<and> (\<exists>c\<in>set ch. node_sel sfold c l'))"

definition nodes_sel :: "(nat \<Rightarrow> nat) \<Rightarrow> snode list \<Rightarrow> obj_step list \<Rightarrow> bool" where
  "nodes_sel sfold ns l \<longleftrightarrow> (\<exists>n\<in>set ns. node_sel sfold n l)"

lemma nodes_sel_simps [simp]:
  "\<not> nodes_sel sfold [] l" "nodes_sel sfold (n # ns) l \<longleftrightarrow> node_sel sfold n l \<or> nodes_sel sfold ns l"
  "nodes_sel sfold (xs @ ys) l \<longleftrightarrow> nodes_sel sfold xs l \<or> nodes_sel sfold ys l"
  by (auto simp: nodes_sel_def)

lemma scrubNow_sel: "scrubNow ns \<longleftrightarrow> nodes_sel sfold ns []"
proof -
  have "n_Kind n = scrubNode \<longleftrightarrow> node_sel sfold n []" for n by (cases n) simp
  then show ?thesis by (simp add: scrubNow_def nodes_sel_def list_ex_iff)
qed

lemma matching_sel:
  assumes "sm_mapKey s" "slice (sm_input s) (b_From (sm_pos s)) (b_To (sm_pos s)) = k"
    "matchingMapNodes sfold s ns = (cns, val)"
  shows "nodes_sel sfold cns l \<longleftrightarrow> nodes_sel sfold ns (AtKey k # l)"
    "nodes_sel sfold val l \<longleftrightarrow> nodes_sel sfold ns (AtField k # l)"
proof -
  have "(nodes_sel sfold cns l \<longleftrightarrow> nodes_sel sfold ns (AtKey k # l))
      \<and> (nodes_sel sfold val l \<longleftrightarrow> nodes_sel sfold ns (AtField k # l))"
    using assms(3)
  proof (induction ns arbitrary: cns val)
    case (Cons n ns)
    obtain c v where m: "matchingMapNodes sfold s ns = (c, v)" by (cases "matchingMapNodes sfold s ns")
    obtain kd f cs ch where n: "n = SNode kd f cs ch" by (cases n)
    show ?case
      using Cons.prems Cons.IH [OF m] m assms(1,2)
      by (cases kd) (auto simp: n Let_def nodes_sel_def [of _ ch] node_selects_def split: if_splits)
  qed simp
  then show "nodes_sel sfold cns l \<longleftrightarrow> nodes_sel sfold ns (AtKey k # l)"
    "nodes_sel sfold val l \<longleftrightarrow> nodes_sel sfold ns (AtField k # l)" by simp_all
qed

text \<open>A walk over items: it ends in front of the rest and has recorded the given bounds.\<close>

definition walked :: "stream \<Rightarrow> stream option \<Rightarrow> scanItem list \<Rightarrow> Bounds list \<Rightarrow> bool" where
  "walked s res rest ms \<longleftrightarrow> (\<exists>s'. res = Some s' \<and> at_items s' rest \<and> keeps s s' \<and> sm_toScrub s' = sm_toScrub s @ ms)"

lemma walked_bind:
  assumes "walked s res rest ms" "\<And>s'. at_items s' rest \<Longrightarrow> keeps s s' \<Longrightarrow> walked s' (f s') rest' ms'"
  shows "walked s (Option.bind res f) rest' (ms @ ms')"
  using assms keeps_trans by (fastforce simp: walked_def)

lemma walked_next: "at_items s (it # rest) \<Longrightarrow> walked s (Some (sm_next s)) rest []"
  using next_at [of s it rest] by (simp add: walked_def)

lemma walked_after:
  "at_items s (it # its) \<Longrightarrow> walked (sm_next s) res rest ms \<Longrightarrow> walked s res rest ms"
  using next_at [of s it its] keeps_trans by (fastforce simp: walked_def)

lemma toks_hd: "\<exists>x xs. toks p v = x # xs \<and> it_tok x \<in> {literal, objectBegin, arrayBegin} \<and> \<not> it_isMapKey x"
  by (cases v) (simp_all add: lit_item_def mark_item_def)

text \<open>A selected value, and a value no node is left for, are skipped.\<close>

lemma process_skip:
  assumes "at_items s (toks p v @ rest)" "2 * length (toks p v) \<le> fuel" "scrubNow ns \<or> ns = []"
  shows "walked s (processValue sfold fuel ns s) rest (marks p (nodes_sel sfold ns) v)"
proof -
  obtain f where f: "fuel = Suc f" "length (toks p v) \<le> f" using assms(2) toks_hd [of p v] by (cases fuel) auto
  obtain s' where s': "skipValue f s = Some (\<lparr>b_From = p, b_To = p + int (length (print v))\<rparr>, s')"
    "at_items s' rest" "keeps s s'" "sm_toScrub s' = sm_toScrub s" by (rule skipValue_value [OF assms(1) f(2)])
  show ?thesis
  proof (cases "scrubNow ns")
    case True
    then have "marks p (nodes_sel sfold ns) v = [mark p (print v)]" using scrubNow_sel marks_hit by blast
    then show ?thesis
      using True s' f by (simp add: walked_def mark_def at_items_def keeps_def current_def split: list.splits)
  next
    case False
    then show ?thesis using assms(3) s' f marks_none(1) [of "nodes_sel sfold []" p v] by (simp add: walked_def)
  qed
qed

definition text_at :: "bytes \<Rightarrow> int \<Rightarrow> bytes \<Rightarrow> bool" where
  "text_at input p x \<longleftrightarrow> (\<exists>a b. input = a @ x @ b \<and> p = int (length a))"

lemma text_at_slice: "text_at input p x \<Longrightarrow> slice input p (p + int (length x)) = x"
  by (auto simp: text_at_def slice_def)

lemma text_at_append: "text_at input p (x @ y) \<Longrightarrow> text_at input p x \<and> text_at input (p + int (length x)) y"
proof -
  assume "text_at input p (x @ y)"
  then obtain a b where i: "input = a @ x @ y @ b" "p = int (length a)" by (auto simp: text_at_def)
  then have "input = (a @ x) @ y @ b" "p + int (length x) = int (length (a @ x))" by simp_all
  then show ?thesis using i unfolding text_at_def by blast
qed

lemma text_at_Cons: "text_at input p (c # y) \<Longrightarrow> text_at input (p + 1) y"
  using text_at_append [of input p "[c]" y] by simp

lemma process_block:
  assumes "at_items s (toks p v @ rest)" "text_at (sm_input s) p (print v)" "2 * length (toks p v) \<le> fuel"
    "toks p v = mark_item p b # its @ [z]" "print v = c # body @ [c']"
    "\<And>f. \<not> scrubNow ns \<Longrightarrow> ns \<noteq> [] \<Longrightarrow> sm_tok s = b \<Longrightarrow> processValue sfold (Suc f) ns s = loop f ns (sm_next s)"
    "\<And>s f. \<lbrakk>at_items s (its @ z # rest); text_at (sm_input s) (p + 1) body; 2 * length its < f\<rbrakk> \<Longrightarrow> walked s (loop f ns s) rest ms"
    "\<not> nodes_sel sfold ns [] \<Longrightarrow> marks p (nodes_sel sfold ns) v = ms"
  shows "walked s (processValue sfold fuel ns s) rest (marks p (nodes_sel sfold ns) v)"
proof (cases "scrubNow ns \<or> ns = []")
  case True
  then show ?thesis using process_skip [OF assms(1,3)] by blast
next
  case False
  obtain f where f: "fuel = Suc f" using assms(3,4) by (cases fuel) auto
  have s: "at_items s (mark_item p b # its @ z # rest)" using assms(1,4) by simp
  have "text_at (sm_input (sm_next s)) (p + 1) body"
    using text_at_append [OF text_at_Cons] assms(2,5) next_at(2) [OF s] by (simp add: keeps_def)
  then have "walked (sm_next s) (loop f ns (sm_next s)) rest ms"
    by (rule assms(7) [OF next_at(1) [OF s]]) (use assms(3,4) f in simp)
  then show ?thesis
    using walked_after [OF s] False at_items_hd(1) [OF s] scrubNow_sel [of ns sfold] assms(6,8)
    by (simp add: f mark_item_def)
qed

lemma array_step:
  assumes "at_items s (toks q v @ its)" "length (toks q v @ its') + k < fuel"
    "\<And>f. fuel = Suc f \<Longrightarrow> walked s (processValue sfold f ns s) its ms"
    "\<And>s' f. fuel = Suc f \<Longrightarrow> at_items s' its \<Longrightarrow> keeps s s' \<Longrightarrow> walked s' (array_loop sfold f ns s') rest ms'"
  shows "walked s (array_loop sfold fuel ns s) rest (ms @ ms')"
proof -
  obtain f where f: "fuel = Suc f" using assms(2) by (cases fuel) auto
  have "sm_tok s \<noteq> unknown" "sm_tok s \<noteq> arrayEnd" using toks_hd [of q v] assms(1) at_items_hd(1) by fastforce+
  then show ?thesis using walked_bind [OF assms(3) [OF f] assms(4) [OF f]] by (simp add: f)
qed

lemma object_step:
  assumes "at_items s (lit_item q k True # toks q' v @ its)" "2 * length (toks q' v) < fuel"
    "text_at (sm_input s) q k"
    "\<And>s' f ns'. fuel = Suc f \<Longrightarrow> at_items s' (toks q' v @ its) \<Longrightarrow> keeps s s' \<Longrightarrow>
       walked s' (processValue sfold f ns' s') its (marks q' (nodes_sel sfold ns') v)"
    "\<And>s' f. fuel = Suc f \<Longrightarrow> at_items s' its \<Longrightarrow> keeps s s' \<Longrightarrow> walked s' (object_loop sfold f ns s') rest ms"
  shows "walked s (object_loop sfold fuel ns s) rest ((if nodes_sel sfold ns [AtKey k] then [mark q k] else [])
    @ marks q' (\<lambda>l. nodes_sel sfold ns (AtField k # l)) v @ ms)"
proof -
  obtain f where f: "fuel = Suc f" "2 \<le> f" using assms(2) toks_hd [of q' v] by (cases fuel) auto
  have h: "sm_tok s = literal" "sm_pos s = \<lparr>b_From = q, b_To = q + int (length k)\<rparr>" "sm_mapKey s"
    using at_items_hd [OF assms(1)] by (simp_all add: lit_item_def it_Bounds_def)
  obtain cs vs where m: "matchingMapNodes sfold s ns = (cs, vs)" by (cases "matchingMapNodes sfold s ns")
  have "slice (sm_input s) (b_From (sm_pos s)) (b_To (sm_pos s)) = k" using text_at_slice [OF assms(3)] h(2) by simp
  note sel = matching_sel [OF h(3) this m]
  obtain g where g: "f = Suc (Suc g)" using f(2) by (cases f; cases "f - 1") auto
  have "at_items (s1\<lparr>sm_toScrub := x\<rparr>) i = at_items s1 i" "keeps s (s1\<lparr>sm_toScrub := x\<rparr>) = keeps s s1" for s1 x i
    by (simp_all add: at_items_def keeps_def current_def split: list.splits)
  then have key: "walked s (processValue sfold f cs s) (toks q' v @ its)
      (if nodes_sel sfold ns [AtKey k] then [mark q k] else [])"
    using next_at [OF assms(1)] h sel(1) [of "[]"] scrubNow_sel [of cs sfold]
    by (auto simp: g walked_def skipValue_def Let_def mark_def)
  have val: "walked s' (if isMapValue s' then processValue sfold f vs s' else Some s') its
      (marks q' (\<lambda>l. nodes_sel sfold ns (AtField k # l)) v)" if s': "at_items s' (toks q' v @ its)" "keeps s s'" for s'
  proof -
    have "isMapValue s'" using toks_hd [of q' v] s'(1) at_items_hd [of s'] by (fastforce simp: isMapValue_def)
    moreover have "nodes_sel sfold vs = (\<lambda>l. nodes_sel sfold ns (AtField k # l))" using sel(2) by (simp add: fun_eq_iff)
    ultimately show ?thesis using assms(4) [OF f(1) s', of vs] by simp
  qed
  have "walked s (Option.bind (processValue sfold f cs s) (\<lambda>s1. Option.bind
      (if isMapValue s1 then processValue sfold f vs s1 else Some s1) (object_loop sfold f ns))) rest
     ((if nodes_sel sfold ns [AtKey k] then [mark q k] else []) @ marks q' (\<lambda>l. nodes_sel sfold ns (AtField k # l)) v @ ms)"
    by (rule walked_bind [OF key], rule walked_bind [OF val], assumption, assumption)
      (rule assms(5) [OF f(1)], assumption, rule keeps_trans)
  then show ?thesis using h(1) m by (simp add: f(1))
qed

lemma process_walks:
  "\<lbrakk>at_items s (toks p v @ rest); text_at (sm_input s) p (print v); 2 * length (toks p v) \<le> fuel\<rbrakk>
   \<Longrightarrow> walked s (processValue sfold fuel ns s) rest (marks p (nodes_sel sfold ns) v)"
  "\<lbrakk>at_items s (toks_elems p first vs @ mark_item e arrayEnd # rest); text_at (sm_input s) p (print_elems first vs);
    2 * length (toks_elems p first vs) < fuel\<rbrakk>
   \<Longrightarrow> walked s (array_loop sfold fuel ns s) rest (marks_elems p first (nodes_sel sfold ns) vs)"
  "\<lbrakk>at_items s (toks_members p first kvs @ mark_item e objectEnd # rest); text_at (sm_input s) p (print_members first kvs);
    2 * length (toks_members p first kvs) < fuel\<rbrakk>
   \<Longrightarrow> walked s (object_loop sfold fuel ns s) rest (marks_members p first (nodes_sel sfold ns) kvs)"
proof (induction v and first vs and first kvs arbitrary: s p rest fuel ns and s p e rest fuel ns and s p e rest fuel ns
    rule: print_print_elems_print_members.induct)
  case (1 t)
  obtain f where f: "fuel = Suc f" using 1 by (cases fuel) auto
  show ?case
  proof (cases "scrubNow ns \<or> ns = []")
    case True
    then show ?thesis using process_skip [OF 1(1,3)] by blast
  next
    case False
    then show ?thesis
      using walked_next [of s] at_items_hd(1) [of s] 1(1) scrubNow_sel [of ns sfold] by (simp add: f lit_item_def)
  qed
next
  case (2 vs)
  show ?case
    by (rule process_block [OF 2(2-4), where loop = "array_loop sfold" and its = "toks_elems (p + 1) True vs"
          and z = "mark_item (p + 1 + int (length (print_elems True vs))) arrayEnd" and b = arrayBegin and body = "print_elems True vs" and c = "0x5B" and c' = "0x5D"
          and ms = "marks_elems (p + 1) True (nodes_sel sfold ns) vs"])
      (erule (2) "2.IH" | simp)+
next
  case (3 kvs)
  show ?case
    by (rule process_block [OF 3(2-4), where loop = "object_loop sfold" and its = "toks_members (p + 1) True kvs"
          and z = "mark_item (p + 1 + int (length (print_members True kvs))) objectEnd" and b = objectBegin and body = "print_members True kvs" and c = "0x7B" and c' = "0x7D"
          and ms = "marks_members (p + 1) True (nodes_sel sfold ns) kvs"])
      (erule (2) "3.IH" | simp)+
next
  case (4 first)
  obtain f where f: "fuel = Suc f" using 4 by (cases fuel) auto
  show ?case using walked_next [of s] at_items_hd(1) [of s] 4(1) by (simp add: f mark_item_def)
next
  case (6 first)
  obtain f where f: "fuel = Suc f" using 6 by (cases fuel) auto
  show ?case using walked_next [of s] at_items_hd(1) [of s] 6(1) by (simp add: f mark_item_def)
next
  case (5 first v vs)
  let ?q = "p + int (length (comma first))"
  let ?r = "?q + int (length (print v))"
  have s: "at_items s (toks ?q v @ toks_elems ?r False vs @ mark_item e arrayEnd # rest)"
    using "5.prems"(1) by (simp add: Let_def)
  have t: "text_at (sm_input s) ?q (print v)" "text_at (sm_input s) ?r (print_elems False vs)"
    using text_at_append [of "sm_input s" p "comma first" "print v @ print_elems False vs"]
      text_at_append [of "sm_input s" ?q "print v" "print_elems False vs"] "5.prems"(2) by simp_all
  have n: "1 \<le> length (toks ?q v)" using toks_hd [of ?q v] by auto
  have f: "2 * length (toks ?q v) \<le> f \<and> 2 * length (toks_elems ?r False vs) < f" if "fuel = Suc f" for f
    using "5.prems"(3) n that by (simp add: Let_def del: One_nat_def)
  show ?case
    unfolding marks_elems.simps Let_def
    by (rule array_step [OF s, where its' = "toks_elems ?r False vs" and k = 0])
      (use 5 n t f in \<open>auto simp: Let_def keeps_def intro!: "5.IH" s\<close>)
next
  case (7 first k v kvs)
  let ?q = "p + int (length (comma first))"
  let ?q' = "?q + int (length k) + 1"
  let ?r = "?q' + int (length (print v))"
  have s: "at_items s (lit_item ?q k True # toks ?q' v @ toks_members ?r False kvs @ mark_item e objectEnd # rest)"
    using "7.prems"(1) by (simp add: Let_def)
  have t: "text_at (sm_input s) ?q k" "text_at (sm_input s) ?q' (print v)" "text_at (sm_input s) ?r (print_members False kvs)"
    using text_at_append [of "sm_input s" p "comma first" "k @ 0x3A # print v @ print_members False kvs"]
      text_at_append [of "sm_input s" ?q k "0x3A # print v @ print_members False kvs"]
      text_at_Cons [of "sm_input s" "?q + int (length k)" "0x3A" "print v @ print_members False kvs"]
      text_at_append [of "sm_input s" ?q' "print v" "print_members False kvs"] "7.prems"(2) by simp_all
  have f: "2 * length (toks ?q' v) \<le> f \<and> 2 * length (toks_members ?r False kvs) < f" if "fuel = Suc f" for f
    using "7.prems"(3) that by (simp add: Let_def)
  show ?case
    unfolding marks_members.simps Let_def
    by (rule object_step [OF s])
      (use 7 t f in \<open>auto simp: Let_def keeps_def intro!: "7.IH" s\<close>)
qed

end
