(* ===== verification/Scrub_Redact.thy ===== *)
theory Scrub_Redact
  imports Scrub_JSON
begin

text \<open>
  What scrubbing does to a JSON value: cutting the recorded bounds out of the text
  (\<open>scrub\<close> of \<open>pkg/scrub/scrub.go\<close>) prints the redacted value, and the merged node tree of
  \<open>groupNodes\<close> selects what the paths select. The last section runs the scrubber on inputs outside
  the theorem's conditions.
\<close>

section \<open>Cutting\<close>

lemma text_at_bounds: "text_at input p x \<Longrightarrow> 0 \<le> p \<and> p + int (length x) \<le> int (length input)"
  by (auto simp: text_at_def)

lemma slice_append:
  "0 \<le> a \<Longrightarrow> a \<le> b \<Longrightarrow> b \<le> c \<Longrightarrow> slice bs a c = slice bs a b @ slice bs b c"
proof -
  assume h: "0 \<le> a" "a \<le> b" "b \<le> c"
  have "nat (c - a) = nat (b - a) + nat (c - b)" "nat b = nat (b - a) + nat a" using h by auto
  then show ?thesis by (simp add: slice_def take_add)
qed

lemma scrub_loop_keep:
  assumes "scrub_loop input (p + int (length x)) ms r = Some out" "text_at input p x"
  shows "scrub_loop input p ms r = Some (x @ out)"
proof -
  have p: "0 \<le> p" "p + int (length x) \<le> int (length input)" using text_at_bounds [OF assms(2)] by auto
  have e: "slice input p q = x @ slice input (p + int (length x)) q" if "p + int (length x) \<le> q" for q
    using slice_append [of p "p + int (length x)" q input] text_at_slice [OF assms(2)] p that by simp
  show ?thesis
    using assms(1) p e by (cases ms) (auto simp: slice_ok_def split: if_splits)
qed

lemma scrub_loop_cut:
  assumes "scrub_loop input (p + int (length x)) ms r = Some out" "text_at input p x"
  shows "scrub_loop input p (mark p x # ms) r = Some (r @ out)"
  using assms text_at_bounds [OF assms(2)] by (simp add: mark_def slice_ok_def slice_def)

lemma scrub_loop_redacts:
  "\<lbrakk>text_at input p (print v); scrub_loop input (p + int (length (print v))) ms r = Some out\<rbrakk>
   \<Longrightarrow> scrub_loop input p (marks p sel v @ ms) r = Some (print (redact r sel v) @ out)"
  "\<lbrakk>text_at input p (print_elems first vs); scrub_loop input (p + int (length (print_elems first vs))) ms r = Some out\<rbrakk>
   \<Longrightarrow> scrub_loop input p (marks_elems p first sel vs @ ms) r = Some (print_elems first (map (redact r sel) vs) @ out)"
  "\<lbrakk>text_at input p (print_members first kvs); scrub_loop input (p + int (length (print_members first kvs))) ms r = Some out\<rbrakk>
   \<Longrightarrow> scrub_loop input p (marks_members p first sel kvs @ ms) r = Some (print_members first
     (map (\<lambda>(k, v). (if sel [AtKey k] then r else k, redact r (\<lambda>l. sel (AtField k # l)) v)) kvs) @ out)"
proof (induction v and first vs and first kvs arbitrary: p sel ms out and p sel ms out and p sel ms out
    rule: print_print_elems_print_members.induct)
  case (1 t)
  then show ?case using scrub_loop_keep [of input p t ms r out] scrub_loop_cut [of input p t ms r out] by simp
next
  case (2 vs)
  show ?case
  proof (cases "sel []")
    case True
    then show ?thesis using scrub_loop_cut [OF "2.prems"(2,1)] by simp
  next
    case False
    have t: "text_at input p [0x5B]" "text_at input (p + 1) (print_elems True vs)"
      "text_at input (p + 1 + int (length (print_elems True vs))) [0x5D]"
      using text_at_append [of input p "[0x5B]" "print_elems True vs @ [0x5D]"]
        text_at_append [of input "p + 1" "print_elems True vs" "[0x5D]"] "2.prems"(1) by simp_all
    have "scrub_loop input (p + 1 + int (length (print_elems True vs))) ms r = Some ([0x5D] @ out)"
      by (rule scrub_loop_keep [OF _ t(3)]) (use "2.prems"(2) in \<open>simp add: add.assoc\<close>)
    from scrub_loop_keep [OF _ t(1)] "2.IH" [OF t(2) this, of sel] show ?thesis
      using False by simp
  qed
next
  case (3 kvs)
  show ?case
  proof (cases "sel []")
    case True
    then show ?thesis using scrub_loop_cut [OF "3.prems"(2,1)] by simp
  next
    case False
    have t: "text_at input p [0x7B]" "text_at input (p + 1) (print_members True kvs)"
      "text_at input (p + 1 + int (length (print_members True kvs))) [0x7D]"
      using text_at_append [of input p "[0x7B]" "print_members True kvs @ [0x7D]"]
        text_at_append [of input "p + 1" "print_members True kvs" "[0x7D]"] "3.prems"(1) by simp_all
    have "scrub_loop input (p + 1 + int (length (print_members True kvs))) ms r = Some ([0x7D] @ out)"
      by (rule scrub_loop_keep [OF _ t(3)]) (use "3.prems"(2) in \<open>simp add: add.assoc\<close>)
    from scrub_loop_keep [OF _ t(1)] "3.IH" [OF t(2) this, of sel] show ?thesis
      using False by simp
  qed
next
  case (5 first v vs)
  let ?q = "p + int (length (comma first))"
  have t: "text_at input p (comma first)" "text_at input ?q (print v)" "text_at input (?q + int (length (print v))) (print_elems False vs)"
    using text_at_append [of input p "comma first" "print v @ print_elems False vs"]
      text_at_append [of input ?q "print v" "print_elems False vs"] "5.prems"(1) by simp_all
  have "scrub_loop input (?q + int (length (print v))) (marks_elems (?q + int (length (print v))) False sel vs @ ms) r
      = Some (print_elems False (map (redact r sel) vs) @ out)"
    by (rule "5.IH"(2) [OF t(3)]) (use "5.prems"(2) in \<open>simp add: add.assoc\<close>)
  then show ?case
    using scrub_loop_keep [OF "5.IH"(1) [OF t(2)] t(1)] by (simp add: Let_def)
next
  case (7 first k v kvs)
  let ?q = "p + int (length (comma first))"
  let ?q' = "?q + int (length k) + 1"
  have t: "text_at input p (comma first)" "text_at input ?q k" "text_at input (?q + int (length k)) [0x3A]" "text_at input ?q' (print v)"
    "text_at input (?q' + int (length (print v))) (print_members False kvs)"
    using text_at_append [of input p "comma first" "k @ [0x3A] @ print v @ print_members False kvs"]
      text_at_append [of input ?q k "[0x3A] @ print v @ print_members False kvs"]
      text_at_append [of input "?q + int (length k)" "[0x3A]" "print v @ print_members False kvs"]
      text_at_append [of input ?q' "print v" "print_members False kvs"] "7.prems"(1) by simp_all
  have "scrub_loop input (?q' + int (length (print v))) (marks_members (?q' + int (length (print v))) False sel kvs @ ms) r
      = Some (print_members False (map (\<lambda>(k, v). (if sel [AtKey k] then r else k, redact r (\<lambda>l. sel (AtField k # l)) v)) kvs) @ out)"
    by (rule "7.IH"(2) [OF t(5)]) (use "7.prems"(2) in \<open>simp add: add.assoc algebra_simps\<close>)
  from "7.IH"(1) [OF t(4) this, of "\<lambda>l. sel (AtField k # l)"] scrub_loop_keep [OF _ t(3)]
  have "scrub_loop input (?q + int (length k)) (marks ?q' (\<lambda>l. sel (AtField k # l)) v @ marks_members (?q' + int (length (print v))) False sel kvs @ ms) r
      = Some ([0x3A] @ print (redact r (\<lambda>l. sel (AtField k # l)) v)
        @ print_members False (map (\<lambda>(k, v). (if sel [AtKey k] then r else k, redact r (\<lambda>l. sel (AtField k # l)) v)) kvs) @ out)"
    by (simp del: append_Cons append.simps)
  then show ?case
    using scrub_loop_keep [OF scrub_loop_keep [OF _ t(2)] t(1)] scrub_loop_keep [OF scrub_loop_cut [OF _ t(2)] t(1)]
    by (simp add: Let_def)
qed simp_all

lemma newLen_sum:
  "newLen input ms r = int (length input) + sum_list (map (\<lambda>b. int (length r) - (b_To b - b_From b)) ms)"
proof -
  have "foldl (\<lambda>n idx. n - (b_To idx - b_From idx) + int (length r)) x ms
      = x + sum_list (map (\<lambda>b. int (length r) - (b_To b - b_From b)) ms)" for x
    by (induction ms arbitrary: x) simp_all
  then show ?thesis by (simp add: newLen_def)
qed

lemma scrub_loop_length:
  "scrub_loop input p ms r = Some out \<Longrightarrow> int (length out) = newLen input ms r - p"
proof (induction ms arbitrary: p out)
  case Nil
  then show ?case by (auto simp: slice_def slice_ok_def newLen_def split: if_splits)
next
  case (Cons b ms)
  obtain rest where rest: "scrub_loop input (b_To b) ms r = Some rest" "out = slice input p (b_From b) @ r @ rest"
    "slice_ok input p (b_From b)"
    using Cons.prems by (auto split: if_splits)
  have "int (length (slice input p (b_From b))) = b_From b - p"
    using rest(3) by (auto simp: slice_def slice_ok_def)
  then show ?case using Cons.IH [OF rest(1)] by (simp add: rest(2) newLen_sum)
qed

text \<open>The buffer of \<open>newLen\<close> bytes is filled exactly.\<close>

lemma scrub_value: "scrub (print v) (marks 0 sel v) r = Some (print (redact r sel v))"
proof -
  have "text_at (print v) 0 (print v)" by (auto simp: text_at_def)
  then have l: "scrub_loop (print v) 0 (marks 0 sel v) r = Some (print (redact r sel v))"
    using scrub_loop_redacts(1) [of "print v" 0 v "[]" r "[]" sel] by (simp add: slice_ok_def slice_def)
  have n: "int (length (print (redact r sel v))) = newLen (print v) (marks 0 sel v) r"
    using scrub_loop_length [OF l] by simp
  show ?thesis
  proof (cases "marks 0 sel v")
    case Nil
    then show ?thesis using l by (simp add: scrub_def slice_ok_def slice_def)
  next
    case (Cons b bs)
    then show ?thesis using l n by (simp add: scrub_def Let_def flip: n)
  qed
qed


section \<open>Merging paths\<close>

text \<open>A selected location hides everything below it.\<close>

definition covers :: "(obj_step list \<Rightarrow> bool) \<Rightarrow> obj_step list \<Rightarrow> bool" where
  "covers sel l \<longleftrightarrow> (\<exists>n. sel (take n l))"

lemma covers_Nil [simp]: "covers sel [] \<longleftrightarrow> sel []"
  by (simp add: covers_def)

lemma covers_Cons: "covers sel (x # l) \<longleftrightarrow> sel [] \<or> covers (\<lambda>l. sel (x # l)) l"
proof
  assume "covers sel (x # l)"
  then obtain n where "sel (take n (x # l))" by (auto simp: covers_def)
  then show "sel [] \<or> covers (\<lambda>l. sel (x # l)) l" by (cases n) (auto simp: covers_def)
next
  assume "sel [] \<or> covers (\<lambda>l. sel (x # l)) l"
  then show "covers sel (x # l)"
  proof
    assume "sel []"
    then have "sel (take 0 (x # l))" by simp
    then show ?thesis unfolding covers_def by blast
  next
    assume "covers (\<lambda>l. sel (x # l)) l"
    then obtain n where "sel (take (Suc n) (x # l))" by (auto simp: covers_def)
    then show ?thesis unfolding covers_def by blast
  qed
qed

lemma covers_or: "covers (\<lambda>l. f l \<or> g l) l \<longleftrightarrow> covers f l \<or> covers g l"
  by (auto simp: covers_def)

lemma covers_and: "covers (\<lambda>l. P \<and> f l) l \<longleftrightarrow> P \<and> covers f l"
  by (auto simp: covers_def)

lemma redact_covers: "(\<And>l. covers f l = covers g l) \<Longrightarrow> redact r f v = redact r g v"
proof (induction v arbitrary: f g)
  case (JLit t)
  show ?case using JLit [of "[]"] by simp
next
  case (JArr vs)
  have "redact r f v = redact r g v" if "v \<in> set vs" for v by (rule JArr.IH [OF that JArr.prems])
  then show ?case using JArr.prems [of "[]"] by simp
next
  case (JObj kvs)
  have nil: "f [] = g []" using JObj.prems [of "[]"] by simp
  have key: "f [AtKey k] = g [AtKey k]" if "\<not> f []" for k
    using JObj.prems [of "[AtKey k]"] nil that by (simp add: covers_Cons)
  have fld: "redact r (\<lambda>l. f (AtField k # l)) v = redact r (\<lambda>l. g (AtField k # l)) v" if "\<not> f []" "(k, v) \<in> set kvs" for k v
  proof (rule JObj.IH [OF that(2), of v])
    show "covers (\<lambda>l. f (AtField k # l)) l = covers (\<lambda>l. g (AtField k # l)) l" for l
      using JObj.prems [of "AtField k # l"] nil that(1) by (simp add: covers_Cons)
  qed simp
  have "(if f [AtKey k] then r else k, redact r (\<lambda>l. f (AtField k # l)) v)
      = (if g [AtKey k] then r else k, redact r (\<lambda>l. g (AtField k # l)) v)" if "\<not> f []" "(k, v) \<in> set kvs" for k v
    using key [OF that(1), of k] fld [OF that] by simp
  then show ?case using nil by (auto intro!: map_cong [OF refl])
qed

text \<open>Case-sensitive names that differ only in case are merged by \<open>findMatch\<close>; without them, and
  without map values, the tree selects what the paths select.\<close>

definition cs_names :: "scrub_Path list \<Rightarrow> bytes list" where
  "cs_names paths = map pe_FieldName (filter (\<lambda>e. pe_Kind e = ObjectField \<and> pe_CaseSensitive e) (concat paths))"

definition paths_ok :: "(nat \<Rightarrow> nat) \<Rightarrow> scrub_Path list \<Rightarrow> bool" where
  "paths_ok sfold paths \<longleftrightarrow> list_all (\<lambda>e. pe_Kind e \<in> {ObjectField, MapKey}) (concat paths)
     \<and> list_all (\<lambda>a. list_all (\<lambda>b. EqualFold sfold a b \<longrightarrow> a = b) (cs_names paths)) (cs_names paths)"

fun names_in :: "bytes set \<Rightarrow> snode \<Rightarrow> bool" where
  "names_in N (SNode k f cs ch) \<longleftrightarrow> (k = ObjectField \<and> cs \<longrightarrow> f \<in> N) \<and> (\<forall>c\<in>set ch. names_in N c)"

definition entry_in :: "bytes set \<Rightarrow> PathEntry \<Rightarrow> bool" where
  "entry_in N e \<longleftrightarrow> pe_Kind e \<in> {ObjectField, MapKey} \<and> (pe_Kind e = ObjectField \<and> pe_CaseSensitive e \<longrightarrow> pe_FieldName e \<in> N)"

lemma findMatch_split:
  "findMatch sfold ch e = Some i \<Longrightarrow> \<exists>xs c ys. ch = xs @ c # ys \<and> length xs = i \<and> match_entry sfold e c"
proof (induction ch arbitrary: i)
  case (Cons c ch)
  show ?case
  proof (cases "match_entry sfold e c")
    case True
    then show ?thesis using Cons.prems by (intro exI [of _ "[]"]) simp
  next
    case False
    then obtain j where j: "findMatch sfold ch e = Some j" "i = Suc j" using Cons.prems by auto
    obtain xs c' ys where "ch = xs @ c' # ys" "length xs = j" "match_entry sfold e c'" using Cons.IH [OF j(1)] by auto
    then show ?thesis using j by (intro exI [of _ "c # xs"] exI [of _ c'] exI [of _ ys]) simp
  qed
qed simp

lemma add_path_names:
  "list_all (entry_in N) p \<Longrightarrow> \<forall>c\<in>set ch. names_in N c \<Longrightarrow> \<forall>c\<in>set (add_path sfold p ch). names_in N c"
proof (induction p arbitrary: ch)
  case Nil
  then show ?case by (simp add: scrub_leaf_def)
next
  case (Cons e p)
  show ?case
  proof (cases "findMatch sfold ch e")
    case None
    have "\<forall>c\<in>set (add_path sfold p []). names_in N c" by (rule Cons.IH) (use Cons.prems in simp_all)
    moreover have "entry_in N e" using Cons.prems by simp
    ultimately show ?thesis using None Cons.prems(2) by (auto simp: scrub_leaf_def entry_in_def)
  next
    case (Some i)
    obtain xs c ys where c: "ch = xs @ c # ys" "length xs = i" using findMatch_split [OF Some] by auto
    obtain k f cs cch where n: "c = SNode k f cs cch" by (cases c)
    have "\<forall>c\<in>set (add_path sfold p cch). names_in N c" by (rule Cons.IH) (use Cons.prems c n in simp_all)
    then show ?thesis using Some Cons.prems(2) c n by (auto simp: scrub_leaf_def list_update_append nth_append)
  qed
qed

lemma entry_node_selects: "pe_Kind e \<noteq> MapValue \<Longrightarrow>
    node_selects sfold (pe_Kind e) (pe_FieldName e) (pe_CaseSensitive e) = entry_selects sfold e"
  by (auto simp: node_selects_def entry_selects_def fun_eq_iff split: obj_step.splits)

lemma match_selects:
  assumes "match_entry sfold e (SNode k f cs ch)" "entry_in N e" "names_in N (SNode k f cs ch)"
    "\<And>a b. a \<in> N \<Longrightarrow> b \<in> N \<Longrightarrow> EqualFold sfold a b \<Longrightarrow> a = b"
  shows "k \<noteq> scrubNode" "node_selects sfold k f cs = entry_selects sfold e"
proof -
  show "k \<noteq> scrubNode" using assms(1,2) by (auto simp: match_entry_def entry_in_def split: if_splits)
  have "k = MapKey \<and> pe_Kind e = MapKey \<or> k = pe_Kind e \<and> cs = pe_CaseSensitive e \<and> f = pe_FieldName e"
    using assms by (auto simp: match_entry_def entry_in_def split: if_splits)
  then show "node_selects sfold k f cs = entry_selects sfold e"
    using entry_node_selects [of e sfold] assms(2)
    by (auto simp: node_selects_def entry_selects_def entry_in_def fun_eq_iff split: obj_step.splits)
qed

text \<open>The locations below a node, by its children.\<close>

lemma covers_node:
  "k \<noteq> scrubNode \<Longrightarrow> covers (node_sel sfold (SNode k f cs ch)) l
     = (case l of [] \<Rightarrow> False | st # l' \<Rightarrow> node_selects sfold k f cs st \<and> covers (nodes_sel sfold ch) l')"
  by (cases l) (simp_all add: covers_Cons covers_and nodes_sel_def [abs_def])

lemma covers_path:
  "covers (list_all2 (entry_selects sfold) (e # p)) l
     = (case l of [] \<Rightarrow> False | st # l' \<Rightarrow> entry_selects sfold e st \<and> covers (list_all2 (entry_selects sfold) p) l')"
  by (cases l) (simp_all add: covers_Cons covers_and)

lemma covers_append: "covers (nodes_sel sfold (xs @ ys)) l \<longleftrightarrow> covers (nodes_sel sfold xs) l \<or> covers (nodes_sel sfold ys) l"
  by (auto simp: covers_def)

lemma covers_nodes_Cons: "covers (nodes_sel sfold (n # ns)) l \<longleftrightarrow> covers (node_sel sfold n) l \<or> covers (nodes_sel sfold ns) l"
  by (auto simp: covers_def)

lemma covers_none: "\<not> covers (nodes_sel sfold []) l"
  by (simp add: covers_def)

lemma covers_leaf: "covers (nodes_sel sfold [scrub_leaf]) l" "hasScrub ch \<Longrightarrow> covers (nodes_sel sfold ch) l"
proof -
  have "nodes_sel sfold ch (take 0 l)" if "hasScrub ch" for ch
    using that by (cases ch rule: list.exhaust; cases "hd ch") (auto simp: hasScrub_def)
  then have *: "covers (nodes_sel sfold ch) l" if "hasScrub ch" for ch
    unfolding covers_def using that by blast
  show "covers (nodes_sel sfold [scrub_leaf]) l" by (rule *) (simp add: hasScrub_def scrub_leaf_def)
  show "hasScrub ch \<Longrightarrow> covers (nodes_sel sfold ch) l" by (rule *)
qed

lemma add_path_covers:
  assumes "list_all (entry_in N) p" "\<forall>c\<in>set ch. names_in N c"
    "\<And>a b. a \<in> N \<Longrightarrow> b \<in> N \<Longrightarrow> EqualFold sfold a b \<Longrightarrow> a = b"
  shows "covers (nodes_sel sfold (add_path sfold p ch)) l
    \<longleftrightarrow> covers (nodes_sel sfold ch) l \<or> covers (list_all2 (entry_selects sfold) p) l"
  using assms(1,2)
proof (induction p arbitrary: ch l)
  case Nil
  have "covers (list_all2 (entry_selects sfold) []) l" unfolding covers_def by (rule exI [of _ 0]) simp
  then show ?case using covers_leaf(1) by (simp del: nodes_sel_simps list.rel_inject list_all2_Nil)
next
  case (Cons e p)
  have e: "entry_in N e" "list_all (entry_in N) p" using Cons.prems(1) by simp_all
  consider "hasScrub ch" | "\<not> hasScrub ch" "findMatch sfold ch e = None"
    | i where "\<not> hasScrub ch" "findMatch sfold ch e = Some i" by (cases "findMatch sfold ch e") auto
  then show ?case
  proof cases
    case 1
    then show ?thesis using covers_leaf by (simp del: nodes_sel_simps)
  next
    case 2
    have "pe_Kind e \<noteq> scrubNode" "pe_Kind e \<noteq> MapValue" using e(1) by (auto simp: entry_in_def)
    then show ?thesis
      using 2 Cons.IH [of "[]"] e(2) entry_node_selects [of e sfold]
      by (simp add: covers_append covers_nodes_Cons covers_none covers_node covers_path del: nodes_sel_simps node_sel.simps split: list.splits)
  next
    case (3 i)
    obtain xs c ys where c: "ch = xs @ c # ys" "length xs = i" "match_entry sfold e c"
      using findMatch_split [OF 3(2)] by auto
    obtain k f cs cch where n: "c = SNode k f cs cch" by (cases c)
    have m: "k \<noteq> scrubNode" "node_selects sfold k f cs = entry_selects sfold e"
      using match_selects [OF _ e(1) _ assms(3)] c(3) n Cons.prems(2) c(1) by auto
    have "covers (nodes_sel sfold (add_path sfold p cch)) l' \<longleftrightarrow>
        covers (nodes_sel sfold cch) l' \<or> covers (list_all2 (entry_selects sfold) p) l'" for l'
      by (rule Cons.IH) (use e Cons.prems(2) c(1) n in simp_all)
    then show ?thesis
      using 3 m c(1,2) n
      by (auto simp: covers_append covers_nodes_Cons covers_node covers_path list_update_append nth_append
          simp del: nodes_sel_simps node_sel.simps split: list.splits)
  qed
qed

lemma groupNodes_covers:
  assumes "paths_ok sfold ps"
  shows "covers (nodes_sel sfold (groupNodes sfold ps)) l \<longleftrightarrow> covers (selected sfold ps) l"
proof -
  define N where "N = set (cs_names ps)"
  have inj: "a \<in> N \<Longrightarrow> b \<in> N \<Longrightarrow> EqualFold sfold a b \<Longrightarrow> a = b" for a b
    using assms by (simp add: paths_ok_def N_def list_all_iff)
  have "p \<in> set ps \<Longrightarrow> list_all (entry_in N) p" for p
    using assms by (auto simp: paths_ok_def list_all_iff entry_in_def N_def cs_names_def)
  then have "covers (nodes_sel sfold (foldl (\<lambda>ch p. add_path sfold p ch) ch qs)) l \<longleftrightarrow>
      covers (nodes_sel sfold ch) l \<or> (\<exists>p\<in>set qs. covers (list_all2 (entry_selects sfold) p) l)"
    if "\<forall>c\<in>set ch. names_in N c" "set qs \<subseteq> set ps" for ch qs
    using that
  proof (induction qs arbitrary: ch)
    case (Cons q qs)
    have q: "list_all (entry_in N) q" using Cons.prems by auto
    show ?case
      using Cons.IH [of "add_path sfold q ch"] Cons.prems add_path_names [OF q Cons.prems(2)]
        add_path_covers [OF q Cons.prems(2) inj] by auto
  qed simp
  then have "covers (nodes_sel sfold (groupNodes sfold ps)) l \<longleftrightarrow> (\<exists>p\<in>set ps. covers (list_all2 (entry_selects sfold) p) l)"
    by (simp add: groupNodes_def covers_none)
  also have "\<dots> \<longleftrightarrow> covers (selected sfold ps) l" by (auto simp: covers_def selected_def list_ex_iff)
  finally show ?thesis .
qed


section \<open>Scrubbing a value\<close>

lemma toks_ok:
  "json_ok v \<Longrightarrow> text_at input p (print v) \<Longrightarrow> list_all (item_ok input) (toks p v) \<and> length (toks p v) \<le> length (print v)"
  "list_all json_ok vs \<Longrightarrow> text_at input p (print_elems first vs) \<Longrightarrow>
    list_all (item_ok input) (toks_elems p first vs) \<and> length (toks_elems p first vs) \<le> length (print_elems first vs)"
  "list_all (\<lambda>(k, v). string_lit k \<and> json_ok v) kvs \<Longrightarrow> text_at input p (print_members first kvs) \<Longrightarrow>
    list_all (item_ok input) (toks_members p first kvs) \<and> length (toks_members p first kvs) \<le> length (print_members first kvs)"
proof (induction v and first vs and first kvs arbitrary: p and p and p rule: print_print_elems_print_members.induct)
  case (1 t)
  then have "t \<noteq> []" using literal_plain by simp
  then show ?case using text_at_bounds [OF 1(2)] by (cases t) (simp_all add: item_ok_def lit_item_def slice_ok_def)
next
  case (2 vs)
  show ?case
    using text_at_append [OF text_at_Cons [of input p "0x5B" "print_elems True vs @ [0x5D]"]] text_at_bounds [OF "2.prems"(2)]
      "2.IH" [of "p + 1"] "2.prems" by (simp add: item_ok_def mark_item_def slice_ok_def)
next
  case (3 kvs)
  show ?case
    using text_at_append [OF text_at_Cons [of input p "0x7B" "print_members True kvs @ [0x7D]"]] text_at_bounds [OF "3.prems"(2)]
      "3.IH" [of "p + 1"] "3.prems" by (simp add: item_ok_def mark_item_def slice_ok_def)
next
  case (5 first v vs)
  let ?q = "p + int (length (comma first))"
  show ?case
    using text_at_append [of input p "comma first" "print v @ print_elems False vs"]
      text_at_append [of input ?q "print v" "print_elems False vs"] "5.IH"(1) [of ?q] "5.IH"(2) [of "?q + int (length (print v))"]
      "5.prems" by (simp add: Let_def)
next
  case (7 first k v kvs)
  let ?q = "p + int (length (comma first))"
  have t: "text_at input ?q k" "text_at input (?q + int (length k) + 1) (print v @ print_members False kvs)"
    using text_at_append [of input p "comma first" "k @ 0x3A # print v @ print_members False kvs"]
      text_at_append [of input ?q k "0x3A # print v @ print_members False kvs"]
      text_at_Cons [of input "?q + int (length k)" "0x3A" "print v @ print_members False kvs"] "7.prems"(2) by simp_all
  have "item_ok input (lit_item ?q k True)" using text_at_bounds [OF t(1)] by (simp add: item_ok_def lit_item_def slice_ok_def)
  then show ?case
    using text_at_append [OF t(2)] "7.IH"(1) [of "?q + int (length k) + 1"] "7.IH"(2) [of "?q + int (length k) + 1 + int (length (print v))"]
      "7.prems" literal_plain [of k] by (simp add: Let_def)
qed simp_all

lemma process_value_text:
  assumes "json_ok v" "2 * length (print v) + 2 \<le> fuel"
  shows "\<exists>s. Process sfold fuel (newStream (print v) ns) = Some s \<and> \<not> sm_panic s
    \<and> sm_toScrub s = marks 0 (nodes_sel sfold ns) v"
proof -
  let ?s0 = "newStream (print v) ns"
  obtain f where f: "fuel = Suc (Suc f)" "2 * length (print v) \<le> Suc f"
    by (rule that [of "fuel - 2"]) (use assms(2) in auto)
  have t: "text_at (print v) 0 (print v)" by (auto simp: text_at_def)
  note ok = toks_ok(1) [OF assms(1) t]
  have "feeds (newScanner (print v)) (toks (0 + int (length ([] :: bytes))) v @ [])"
  proof (rule feeds_value(1) [OF assms(1), where stk = "[]" and sep = "[]" and post = "[]" and p = 0])
    show "stands s' (0 + int (length ([] :: bytes)) + int (length (print v))) (val_stack []) [] \<Longrightarrow> feeds s' []" for s'
      by (rule feeds_end) (simp add: val_stack_def)
  qed (simp_all add: stands_def newScanner_def pending_def val_ctx_def follows_def)
  then have s0: "feeds (sm_s ?s0) (toks 0 v)" by (simp add: newStream_def)
  have "at_items (sm_next ?s0) (toks 0 v)" "keeps ?s0 (sm_next ?s0)" "sm_toScrub (sm_next ?s0) = sm_toScrub ?s0"
    by (rule next_feeds [OF s0]; use ok in \<open>simp add: newStream_def newScanner_def\<close>)+
  then have s1: "at_items (sm_next ?s0) (toks 0 v @ [])" "sm_input (sm_next ?s0) = print v"
    "sm_rootNodes (sm_next ?s0) = ns" "sm_toScrub (sm_next ?s0) = []" by (simp_all add: keeps_def newStream_def)
  have "walked (sm_next ?s0) (processValue sfold (Suc f) ns (sm_next ?s0)) [] (marks 0 (nodes_sel sfold ns) v)"
    by (rule process_walks(1) [OF s1(1)]) (use s1 t ok f in simp_all)
  then obtain s2 where s2: "processValue sfold (Suc f) ns (sm_next ?s0) = Some s2" "at_items s2 []"
    "sm_toScrub s2 = marks 0 (nodes_sel sfold ns) v" using s1(4) by (auto simp: walked_def)
  have "sm_tok (sm_next ?s0) \<noteq> unknown" using toks_hd [of 0 v] s1(1) at_items_hd(1) by fastforce
  moreover have "sm_tok s2 = unknown" "\<not> sm_panic s2" using s2(2) by (simp_all add: at_items_def current_def)
  ultimately have "Process sfold fuel ?s0 = Some s2"
    using s2(1) s1(3) by (simp add: Process_def f(1) del: processValue.simps)
  then show ?thesis using s2(3) \<open>\<not> sm_panic s2\<close> by blast
qed

lemma JSON_nodes:
  assumes "json_ok v" "2 * length (print v) + 2 \<le> fuel"
  shows "JSON sfold fuel (print v) ps r = Some (Some (print (redact r (nodes_sel sfold (groupNodes sfold ps)) v)))"
proof -
  have "JSONIndices sfold fuel (print v) ps = Some (Some (marks 0 (nodes_sel sfold (groupNodes sfold ps)) v))"
    using process_value_text [OF assms, of sfold "groupNodes sfold ps"] by (auto simp: JSONIndices_def)
  then show ?thesis using scrub_value [of v] by (simp add: JSON_def)
qed


text \<open>Simple folding of the ASCII letters, and a value with two fields named alike.\<close>

definition ascii_fold :: "nat \<Rightarrow> nat" where
  "ascii_fold c = (if 65 \<le> c \<and> c \<le> 90 then c + 32 else c)"

definition jfield :: "string \<Rightarrow> bool \<Rightarrow> PathEntry" where
  "jfield name cs = \<lparr>pe_Kind = ObjectField, pe_FieldName = bytes_of (CHR 0x22 # name @ [CHR 0x22]), pe_CaseSensitive = cs\<rparr>"

definition sample_json :: json where
  "sample_json = JObj [(bytes_of ''\"users\"'', JArr [JObj [(bytes_of ''\"Key\"'', JLit (bytes_of ''\"s3cret\"''))],
     JLit (bytes_of ''null'')]), (bytes_of ''\"key\"'', JLit (bytes_of ''7''))]"

definition sample_paths :: "scrub_Path list" where
  "sample_paths = [[jfield ''users'' True, jfield ''key'' False], [jfield ''users'' True, jfield ''key'' False, jfield ''x'' True]]"



section \<open>Outside the conditions\<close>

text \<open>Two case-sensitive names that differ only in case are merged, and the second is not scrubbed.\<close>

lemma case_names_merged:
  "JSON ascii_fold 60 (bytes_of ''{\"Foo\":1,\"foo\":2}'') [[jfield ''Foo'' True], [jfield ''foo'' True]] (bytes_of ''?'')
   = Some (Some (bytes_of ''{\"Foo\":?,\"foo\":2}''))"
  by code_simp

text \<open>A map value path selects nothing in an object.\<close>

lemma map_value_kept:
  "JSON ascii_fold 60 (bytes_of ''{\"k\":1}'') [[\<lparr>pe_Kind = MapValue, pe_FieldName = [], pe_CaseSensitive = False\<rparr>]] (bytes_of ''?'')
   = Some (Some (bytes_of ''{\"k\":1}''))"
  by code_simp

text \<open>White space behind a one-byte literal is replaced in its place.\<close>

lemma digit_before_space_kept:
  "JSON ascii_fold 60 (bytes_of ''{\"a\": 5 }'') [[jfield ''a'' True]] (bytes_of ''?'')
   = Some (Some (bytes_of ''{\"a\": 5?}''))"
  by code_simp

text \<open>A string value that starts with a colon is taken for a key.\<close>

lemma colon_string_kept:
  "JSON ascii_fold 60 (bytes_of ''{\"a\":\":secret\"}'') [[jfield ''a'' True]] (bytes_of ''?'')
   = Some (Some (bytes_of ''{\"a\":\":secret\"}''))"
  by code_simp

text \<open>
  On a truncated object below a selected field \<open>skipValue\<close> never leaves its loop: no fuel is enough.
\<close>

definition at_end :: "stream \<Rightarrow> bool" where
  "at_end s \<longleftrightarrow> pending (sm_s s) = [] \<and> it_tok (sm_unreadItem s) = unknown \<and> sm_tok s = unknown"

lemma next_at_end: "at_end s \<Longrightarrow> at_end (sm_next s)"
proof -
  assume s: "at_end s"
  then have p: "pending (sm_s s) = []" by (simp add: at_end_def)
  obtain s1 where s1: "readToken (sm_s s) = (0, s1)" "moved 0 (sm_s s) s1" by (rule readToken_Nil [OF p])
  then have p1: "pending s1 = []" using p by (simp add: moved_def)
  obtain s2 where s2: "readToken s1 = (0, s2)" "moved 0 s1 s2" "sc_err s2" by (rule readToken_Nil [OF p1])
  have e: "scanOne 0 (sm_s s) = ((no_item, 0, 0), s2)"
    using s1(1) s2(1) by (simp add: scanOne.simps [of 0 "sm_s s"] peekToken_def)
  have "pending s2 = []" using s2(2) p1 by (simp add: moved_def)
  then have "\<not> fst (sc_Next (sm_s s)) \<and> pending (snd (sc_Next (sm_s s))) = []"
    using e s2(3) by (auto simp: sc_Next_def scan_def no_item_def Let_def split: list.splits)
  then show ?thesis using s by (auto simp: at_end_def sm_next_def split: prod.splits)
qed

lemma skip_loop_stuck: "at_end s \<Longrightarrow> 0 < d \<Longrightarrow> skip_loop fuel d s = None"
proof (induction fuel arbitrary: s)
  case (Suc fuel)
  have "sm_tok s = unknown" using Suc.prems(1) by (simp add: at_end_def)
  then show ?case using Suc.IH [OF next_at_end [OF Suc.prems(1)] Suc.prems(2)] Suc.prems(2) by (simp add: Let_def)
qed simp

definition truncated :: bytes where
  "truncated = bytes_of ''{\"a\":{''"

lemma truncated_never_returns: "JSON ascii_fold fuel truncated [[jfield ''a'' True]] r = None"
proof -
  let ?s0 = "newStream truncated (groupNodes ascii_fold [[jfield ''a'' True]])"
  define s1 where "s1 = sm_next ?s0"
  define s2 where "s2 = sm_next s1"
  define s3 where "s3 = sm_next s2"
  define s4 where "s4 = sm_next s3"
  let ?ns = "groupNodes ascii_fold [[jfield ''a'' True]]"
  have tok: "sm_tok s1 = objectBegin" "sm_tok s2 = literal" "sm_tok s3 = objectBegin" "isMapValue s3" "at_end s4"
    "sm_rootNodes s1 = ?ns" "matchingMapNodes ascii_fold s2 ?ns = ([], [scrub_leaf])"
    unfolding s4_def s3_def s2_def s1_def by code_simp+
  have "skip_loop f 0 s3 = None" for f
    using skip_loop_stuck [OF tok(5), of 1] tok(3) by (cases f) (simp_all add: Let_def s4_def)
  then have val: "processValue ascii_fold f [scrub_leaf] s3 = None" for f
    by (cases f) (simp_all add: scrubNow_def scrub_leaf_def skipValue_def)
  have key: "processValue ascii_fold f [] s2 \<in> {None, Some s3}" for f
    using tok(2) by (cases f; cases "f - 1") (simp_all add: scrubNow_def skipValue_def Let_def s3_def)
  have "object_loop ascii_fold f ?ns s2 = None" for f
    using key [of "f - 1"] val tok by (cases f) auto
  moreover have "\<not> scrubNow ?ns \<and> ?ns \<noteq> []" by code_simp
  ultimately have "processValue ascii_fold f ?ns s1 = None" for f
    using tok(1) by (cases f) (simp_all flip: s2_def)
  then have "process_loop ascii_fold f s1 = None" for f
    using tok(1,6) by (cases f) simp_all
  then show ?thesis by (simp add: JSON_def JSONIndices_def Process_def flip: s1_def)
qed

end
