(* ===== verification/Meta_Scrub.thy ===== *)
theory Meta_Scrub
  imports Scrub_Redact
begin

text \<open>
  The scrub paths of a schema type (\<open>pkg/scrub/metascrub/metascrub.go\<close>). \<open>typ_of\<close> walks a type of
  the metadata with a step counter and a cache of declaration results; type parameters are collected
  and expanded at each instantiation. Its recursion takes fuel, and \<open>maxSteps + 2\<close> is always
  enough.
\<close>

unbundle bit_operations_syntax

section \<open>strconv.Quote\<close>

text \<open>\<open>strconv.IsPrint\<close>: Latin-1 as in the code, the tables beyond.\<close>

definition IsPrint :: "(nat \<Rightarrow> bool) \<Rightarrow> nat \<Rightarrow> bool" where
  "IsPrint tables r = (if r \<le> 0xFF then 0x20 \<le> r \<and> r < 0x7F \<or> 0xA1 \<le> r \<and> r \<noteq> 0xAD else tables r)"

definition hex_digits :: "nat \<Rightarrow> nat \<Rightarrow> bytes" where
  "hex_digits n x = map (\<lambda>i. bytes_of ''0123456789abcdef'' ! (x div 16 ^ i mod 16)) (rev [0..<n])"

definition escaped_rune :: "(nat \<Rightarrow> bool) \<Rightarrow> nat \<Rightarrow> bytes \<Rightarrow> bytes" where
  "escaped_rune tables r bs =
     (if r = 0x22 \<or> r = 0x5C then [0x5C, of_nat r]
      else if IsPrint tables r then bs
      else if 7 \<le> r \<and> r \<le> 13 then [0x5C, bytes_of ''abtnvfr'' ! (r - 7)]
      else if r < 0x20 \<or> r = 0x7F then bytes_of [CHR 0x5C, CHR 0x78] @ hex_digits 2 r
      else if r < 0x10000 then bytes_of [CHR 0x5C, CHR 0x75] @ hex_digits 4 r
      else bytes_of [CHR 0x5C, CHR 0x55] @ hex_digits 8 r)"

text \<open>A rune is invalid, \<open>RuneError\<close> of width 1, when no encoding starts there.\<close>

function quoted :: "(nat \<Rightarrow> bool) \<Rightarrow> bytes \<Rightarrow> bytes" where
  "quoted tables bs =
     (if bs = [] then []
      else case DecodeRune bs of (r, w) \<Rightarrow>
        (if rune_width bs = 0 then bytes_of [CHR 0x5C, CHR 0x78] @ hex_digits 2 (unat (hd bs))
         else escaped_rune tables r (take w bs)) @ quoted tables (drop w bs))"
  by pat_completeness auto
termination
  by (relation "measure (\<lambda>(_, bs). length bs)") (auto simp: DecodeRune_def Let_def split: if_splits)

declare quoted.simps [simp del]

definition Quote :: "(nat \<Rightarrow> bool) \<Rightarrow> bytes \<Rightarrow> bytes" where
  "Quote tables s = 0x22 # quoted tables s @ [0x22]"


section \<open>Schema types\<close>

record Schema_Tag =
  tg_Key :: bytes
  tg_Name :: bytes
  tg_Options :: "bytes list"

text \<open>\<open>TNil\<close> is the nil pointer.\<close>

datatype Schema_Type = TNil
  | TNamed nat "Schema_Type list"
  | TStruct "Schema_Field list"
  | TMap Schema_Type Schema_Type
  | TList Schema_Type
  | TBuiltin
  | TPointer Schema_Type
  | TUnion "Schema_Type list"
  | TLiteral
  | TOption Schema_Type
  | TTypeParameter nat
  | TConfig Schema_Type
and Schema_Field = SField (f_Name: bytes) (f_JsonName: bytes) (f_Tags: "Schema_Tag list") (f_Typ: Schema_Type)

definition isSensitive :: "(nat \<Rightarrow> bool) \<Rightarrow> Schema_Field \<Rightarrow> bool \<times> bytes \<times> bool" where
  "isSensitive tables f =
     (let caseSensitive = (f_JsonName f \<noteq> []);
          fieldName = (if caseSensitive then f_JsonName f else f_Name f);
          sensitive = (case find (\<lambda>t. tg_Key t = bytes_of ''encore'') (f_Tags f) of
              None \<Rightarrow> False
            | Some t \<Rightarrow> tg_Name t = bytes_of ''sensitive'' \<or> bytes_of ''sensitive'' \<in> set (tg_Options t))
      in (sensitive, Quote tables fieldName, caseSensitive))"

definition isHeader :: "Schema_Field \<Rightarrow> bytes option" where
  "isHeader f = (case find (\<lambda>t. tg_Key t = bytes_of ''header'') (f_Tags f) of
       None \<Rightarrow> None
     | Some t \<Rightarrow> Some (if tg_Name t = [] then f_Name f else tg_Name t))"


section \<open>The computer\<close>

record declResult =
  dr_scrub :: "scrub_Path list"
  dr_typeParams :: "(scrub_Path \<times> nat) list"
  dr_headers :: "bytes list"

definition no_result :: declResult where
  "no_result = \<lparr>dr_scrub = [], dr_typeParams = [], dr_headers = []\<rparr>"

text \<open>What \<open>Compute\<close> logs.\<close>

datatype meta_log = Panicked | Aborted | UnexpectedType

text \<open>The cache of the computer, and the parser's step counter.\<close>

record typeParser =
  tp_cache :: "nat \<times> int \<Rightarrow> declResult option"
  tp_steps :: int
  tp_log :: "meta_log list"

definition maxSteps :: int where
  "maxSteps = 10000"

definition AuthHandler :: int where
  "AuthHandler = 1"

text \<open>A computation over the parser: no fuel left, a panic, or a value.\<close>

type_synonym 'a comp = "typeParser \<Rightarrow> ('a option \<times> typeParser) option"

definition ret :: "'a \<Rightarrow> 'a comp" where
  "ret x s = Some (Some x, s)"

definition cbind :: "'a comp \<Rightarrow> ('a \<Rightarrow> 'b comp) \<Rightarrow> 'b comp" where
  "cbind m f s = (case m s of None \<Rightarrow> None | Some (None, s') \<Rightarrow> Some (None, s') | Some (Some x, s') \<Rightarrow> f x s')"

fun traverse :: "('a \<Rightarrow> 'b comp) \<Rightarrow> 'a list \<Rightarrow> 'b list comp" where
  "traverse f [] = ret []"
| "traverse f (x # xs) = cbind (f x) (\<lambda>y. cbind (traverse f xs) (\<lambda>ys. ret (y # ys)))"

definition decl :: "Schema_Type list \<Rightarrow> int \<Rightarrow> (Schema_Type \<Rightarrow> declResult comp) \<Rightarrow> nat \<Rightarrow> declResult comp" where
  "decl decls mode rec declId s = (case tp_cache s (declId, mode) of
       Some res \<Rightarrow> Some (Some res, s)
     | None \<Rightarrow>
         let s1 = s\<lparr>tp_cache := (tp_cache s)((declId, mode) \<mapsto> no_result)\<rparr> in
         if declId < length decls
         then cbind (rec (decls ! declId)) (\<lambda>res s2. Some (Some res, s2\<lparr>tp_cache := (tp_cache s2)((declId, mode) \<mapsto> res)\<rparr>)) s1
         else Some (None, s1))"

text \<open>The results of a named type from its declaration and its type arguments.\<close>

definition named_result :: "declResult \<Rightarrow> declResult list \<Rightarrow> declResult" where
  "named_result d args =
     \<lparr>dr_scrub = dr_scrub d @ concat (map (\<lambda>(i, a). concat (map (\<lambda>(p, idx).
          if idx = i then map (\<lambda>s. p @ s) (dr_scrub a) else []) (dr_typeParams d))) (enumerate 0 args)),
      dr_typeParams = concat (map (\<lambda>(i, a). concat (map (\<lambda>(p, idx).
          if idx = i then map (\<lambda>(s, j). (p @ s, j)) (dr_typeParams a) else []) (dr_typeParams d))) (enumerate 0 args)),
      dr_headers = dr_headers d\<rparr>"

definition union_result :: "declResult list \<Rightarrow> declResult" where
  "union_result rs = \<lparr>dr_scrub = concat (map dr_scrub rs), dr_typeParams = concat (map dr_typeParams rs),
     dr_headers = concat (map dr_headers rs)\<rparr>"

definition under :: "PathEntry \<Rightarrow> declResult \<Rightarrow> declResult" where
  "under e r = \<lparr>dr_scrub = map (\<lambda>p. e # p) (dr_scrub r), dr_typeParams = map (\<lambda>(p, i). (e # p, i)) (dr_typeParams r),
     dr_headers = []\<rparr>"

definition map_entry :: "EntryKind \<Rightarrow> PathEntry" where
  "map_entry k = \<lparr>pe_Kind = k, pe_FieldName = [], pe_CaseSensitive = False\<rparr>"

definition field_entry :: "(nat \<Rightarrow> bool) \<Rightarrow> Schema_Field \<Rightarrow> PathEntry" where
  "field_entry tables f = (case isSensitive tables f of (_, fieldName, caseSensitive) \<Rightarrow>
     \<lparr>pe_Kind = ObjectField, pe_FieldName = fieldName, pe_CaseSensitive = caseSensitive\<rparr>)"

definition field_sensitive :: "(nat \<Rightarrow> bool) \<Rightarrow> int \<Rightarrow> Schema_Field \<Rightarrow> bool" where
  "field_sensitive tables mode f = (if mode AND AuthHandler \<noteq> 0 then True else fst (isSensitive tables f))"

definition field_result :: "(nat \<Rightarrow> bool) \<Rightarrow> int \<Rightarrow> (Schema_Type \<Rightarrow> declResult comp) \<Rightarrow> Schema_Field \<Rightarrow> declResult comp" where
  "field_result tables mode rec f =
     (if field_sensitive tables mode f
      then ret \<lparr>dr_scrub = [[field_entry tables f]], dr_typeParams = [],
             dr_headers = (case isHeader f of None \<Rightarrow> [] | Some h \<Rightarrow> [h])\<rparr>
      else cbind (rec (f_Typ f)) (\<lambda>r. ret (under (field_entry tables f) r)))"

fun typ_of :: "(nat \<Rightarrow> bool) \<Rightarrow> Schema_Type list \<Rightarrow> int \<Rightarrow> nat \<Rightarrow> Schema_Type \<Rightarrow> declResult comp" where
  "typ_of tables decls mode 0 t s = None"
| "typ_of tables decls mode (Suc fuel) t s =
     (if t = TNil then Some (Some no_result, s)
      else let s1 = s\<lparr>tp_steps := tp_steps s + 1\<rparr>; rec = typ_of tables decls mode fuel in
      if tp_steps s1 > maxSteps then Some (Some no_result, s1)
      else case t of
          TNamed declId args \<Rightarrow> cbind (decl decls mode rec declId) (\<lambda>d. cbind (traverse rec args) (\<lambda>rs. ret (named_result d rs))) s1
        | TPointer b \<Rightarrow> rec b s1
        | TOption b \<Rightarrow> rec b s1
        | TList b \<Rightarrow> rec b s1
        | TUnion ts \<Rightarrow> cbind (traverse rec ts) (\<lambda>rs. ret (union_result rs)) s1
        | TMap k v \<Rightarrow> cbind (rec k) (\<lambda>rk. cbind (rec v) (\<lambda>rv.
            ret (union_result [under (map_entry MapKey) rk, under (map_entry MapValue) rv]))) s1
        | TStruct fs \<Rightarrow> cbind (traverse (field_result tables mode rec) fs) (\<lambda>rs. ret (union_result rs)) s1
        | TBuiltin \<Rightarrow> Some (Some no_result, s1)
        | TLiteral \<Rightarrow> Some (Some no_result, s1)
        | TTypeParameter i \<Rightarrow> Some (Some (no_result\<lparr>dr_typeParams := [([], i)]\<rparr>), s1)
        | _ \<Rightarrow> Some (Some no_result, s1\<lparr>tp_log := tp_log s1 @ [UnexpectedType]\<rparr>))"

record Desc =
  d_Payload :: "scrub_Path list"
  d_Headers :: "bytes list"

definition no_desc :: Desc where
  "no_desc = \<lparr>d_Payload = [], d_Headers = []\<rparr>"

text \<open>The description, the log, and the cache left in the computer.\<close>

definition Compute :: "(nat \<Rightarrow> bool) \<Rightarrow> Schema_Type list \<Rightarrow> nat \<Rightarrow> (nat \<times> int \<Rightarrow> declResult option) \<Rightarrow> Schema_Type \<Rightarrow> int
    \<Rightarrow> (Desc \<times> meta_log list \<times> (nat \<times> int \<Rightarrow> declResult option)) option" where
  "Compute tables decls fuel cache t mode =
     (if t = TNil then Some (no_desc, [], cache)
      else case typ_of tables decls mode fuel t \<lparr>tp_cache = cache, tp_steps = 0, tp_log = []\<rparr> of
          None \<Rightarrow> None
        | Some (None, s) \<Rightarrow> Some (no_desc, tp_log s @ [Panicked], tp_cache s)
        | Some (Some res, s) \<Rightarrow> Some (\<lparr>d_Payload = dr_scrub res, d_Headers = dr_headers res\<rparr>,
            tp_log s @ (if tp_steps s > maxSteps then [Aborted] else []), tp_cache s))"


section \<open>The fuel is enough\<close>

text \<open>A computation that returns whenever the counter is at least \<open>k\<close>, and never turns it back.\<close>

definition returns :: "int \<Rightarrow> 'a comp \<Rightarrow> bool" where
  "returns k m \<longleftrightarrow> (\<forall>s. k \<le> tp_steps s \<longrightarrow> (\<exists>x s'. m s = Some (x, s') \<and> tp_steps s \<le> tp_steps s'))"

lemma returns_ret [simp]: "returns k (ret x)"
  by (simp add: returns_def ret_def)

lemma returns_mono: "returns k m \<Longrightarrow> k \<le> k' \<Longrightarrow> returns k' m"
  unfolding returns_def by (meson order_trans)

lemma returns_cbind:
  assumes "returns k m" "\<And>x. returns k (f x)"
  shows "returns k (cbind m f)"
  unfolding returns_def
proof (intro allI impI)
  fix s :: typeParser assume k: "k \<le> tp_steps s"
  obtain x s1 where m: "m s = Some (x, s1)" "tp_steps s \<le> tp_steps s1" using assms(1) k by (auto simp: returns_def)
  show "\<exists>y s'. cbind m f s = Some (y, s') \<and> tp_steps s \<le> tp_steps s'"
  proof (cases x)
    case (Some y)
    obtain z s' where "f y s1 = Some (z, s')" "tp_steps s1 \<le> tp_steps s'"
      using assms(2) [of y] order_trans [OF k m(2)] unfolding returns_def by blast
    then show ?thesis using m Some by (simp add: cbind_def)
  qed (use m in \<open>simp add: cbind_def\<close>)
qed

lemma returns_traverse: "(\<And>x. returns k (f x)) \<Longrightarrow> returns k (traverse f xs)"
  by (induction xs) (simp_all add: returns_cbind)

lemma returns_decl:
  assumes "\<And>t. returns k (rec t)"
  shows "returns k (decl decls mode rec i)"
  unfolding returns_def
proof (intro allI impI)
  fix s :: typeParser assume k: "k \<le> tp_steps s"
  let ?s1 = "s\<lparr>tp_cache := (tp_cache s)((i, mode) \<mapsto> no_result)\<rparr>"
  obtain x s2 where "rec (decls ! i) ?s1 = Some (x, s2)" "tp_steps s \<le> tp_steps s2"
    using assms [of "decls ! i"] k unfolding returns_def by (metis typeParser.select_convs(2) typeParser.surjective typeParser.update_convs(1))
  then show "\<exists>x s'. decl decls mode rec i s = Some (x, s') \<and> tp_steps s \<le> tp_steps s'"
    by (cases x) (auto simp: decl_def Let_def cbind_def split: option.splits)
qed

lemma returns_tick: "returns (k + 1) m \<Longrightarrow> k \<le> tp_steps s \<Longrightarrow> \<exists>x s'. m (s\<lparr>tp_steps := tp_steps s + 1\<rparr>) = Some (x, s') \<and> tp_steps s \<le> tp_steps s'"
proof -
  assume "returns (k + 1) m" "k \<le> tp_steps s"
  then obtain x s' where "m (s\<lparr>tp_steps := tp_steps s + 1\<rparr>) = Some (x, s')" "tp_steps s + 1 \<le> tp_steps s'"
    unfolding returns_def by (metis add_le_cancel_right typeParser.select_convs(2) typeParser.surjective typeParser.update_convs(2))
  then show ?thesis by auto
qed

lemma returns_field: "(\<And>t. returns k (rec t)) \<Longrightarrow> returns k (field_result tables mode rec f)"
  by (simp add: field_result_def returns_cbind)

lemma typ_of_returns: "0 < fuel \<Longrightarrow> returns (maxSteps + 2 - int fuel) (typ_of tables decls mode fuel t)"
proof (induction fuel arbitrary: t)
  case (Suc fuel)
  let ?rec = "typ_of tables decls mode fuel"
  show ?case
    unfolding returns_def
  proof (intro allI impI)
    fix s :: typeParser assume k: "maxSteps + 2 - int (Suc fuel) \<le> tp_steps s"
    show "\<exists>x s'. typ_of tables decls mode (Suc fuel) t s = Some (x, s') \<and> tp_steps s \<le> tp_steps s'"
    proof (cases "t = TNil \<or> maxSteps \<le> tp_steps s")
      case False
      then have f: "0 < fuel" using k by auto
      have rec: "returns (maxSteps + 2 - int (Suc fuel) + 1) (?rec t)" for t
        by (rule returns_mono [OF Suc.IH [OF f]]) auto
      note tick = returns_tick [OF _ k]
      show ?thesis
        using False tick [OF rec] tick [OF returns_cbind [OF returns_decl [OF rec] returns_cbind [OF returns_traverse [OF rec] returns_ret]]]
          tick [OF returns_cbind [OF returns_traverse [OF rec] returns_ret]]
          tick [OF returns_cbind [OF rec returns_cbind [OF rec returns_ret]]]
          tick [OF returns_cbind [OF returns_traverse [OF returns_field [OF rec]] returns_ret]]
        by (cases t) (simp_all add: Let_def)
    qed (auto simp: Let_def)
  qed
qed simp


text \<open>More fuel changes no result.\<close>

definition extends :: "'a comp \<Rightarrow> 'a comp \<Rightarrow> bool" where
  "extends m m' \<longleftrightarrow> (\<forall>s x. m s = Some x \<longrightarrow> m' s = Some x)"

lemma extendsD: "extends m m' \<Longrightarrow> m s = Some x \<Longrightarrow> m' s = Some x"
  unfolding extends_def by blast

lemma extends_refl [simp]: "extends m m"
  by (simp add: extends_def)

lemma extends_cbind: "extends m m' \<Longrightarrow> (\<And>x. extends (f x) (f' x)) \<Longrightarrow> extends (cbind m f) (cbind m' f')"
  unfolding extends_def cbind_def by (auto split: option.splits prod.splits)

lemma extends_traverse: "(\<And>x. extends (f x) (f' x)) \<Longrightarrow> extends (traverse f xs) (traverse f' xs)"
  by (induction xs) (simp_all add: extends_cbind)

lemma extends_decl:
  assumes "\<And>t. extends (rec t) (rec' t)"
  shows "extends (decl decls mode rec i) (decl decls mode rec' i)"
  unfolding extends_def
proof (intro allI impI)
  fix s x assume d: "decl decls mode rec i s = Some x"
  have "extends (cbind (rec u) f) (cbind (rec' u) f)" for u f by (rule extends_cbind) (simp_all add: assms)
  note e = extendsD [OF this]
  show "decl decls mode rec' i s = Some x"
    using d by (cases "tp_cache s (i, mode)") (auto simp: decl_def Let_def simp del: split_paired_All intro!: e split: if_splits)
qed

lemma extends_field: "(\<And>t. extends (rec t) (rec' t)) \<Longrightarrow> extends (field_result tables mode rec f) (field_result tables mode rec' f)"
  by (simp add: field_result_def extends_cbind)

text \<open>The computation behind the counter, by the constructor.\<close>

definition body :: "(nat \<Rightarrow> bool) \<Rightarrow> Schema_Type list \<Rightarrow> int \<Rightarrow> (Schema_Type \<Rightarrow> declResult comp) \<Rightarrow> Schema_Type \<Rightarrow> declResult comp" where
  "body tables decls mode rec t = (case t of
       TNamed i args \<Rightarrow> cbind (decl decls mode rec i) (\<lambda>d. cbind (traverse rec args) (\<lambda>rs. ret (named_result d rs)))
     | TStruct fs \<Rightarrow> cbind (traverse (field_result tables mode rec) fs) (\<lambda>rs. ret (union_result rs))
     | TMap k v \<Rightarrow> cbind (rec k) (\<lambda>rk. cbind (rec v) (\<lambda>rv.
         ret (union_result [under (map_entry MapKey) rk, under (map_entry MapValue) rv])))
     | TUnion ts \<Rightarrow> cbind (traverse rec ts) (\<lambda>rs. ret (union_result rs))
     | TPointer b \<Rightarrow> rec b | TOption b \<Rightarrow> rec b | TList b \<Rightarrow> rec b
     | TTypeParameter i \<Rightarrow> ret (no_result\<lparr>dr_typeParams := [([], i)]\<rparr>)
     | TBuiltin \<Rightarrow> ret no_result | TLiteral \<Rightarrow> ret no_result
     | _ \<Rightarrow> (\<lambda>s. Some (Some no_result, s\<lparr>tp_log := tp_log s @ [UnexpectedType]\<rparr>)))"

text \<open>One step of the counter in front of a computation.\<close>

definition ticked :: "declResult comp \<Rightarrow> declResult comp" where
  "ticked m s = (if maxSteps < tp_steps s + 1 then Some (Some no_result, s\<lparr>tp_steps := tp_steps s + 1\<rparr>)
     else m (s\<lparr>tp_steps := tp_steps s + 1\<rparr>))"

lemma typ_of_body: "t \<noteq> TNil \<Longrightarrow> typ_of tables decls mode (Suc fuel) t = ticked (body tables decls mode (typ_of tables decls mode fuel) t)"
  by (cases t) (simp_all add: fun_eq_iff ticked_def body_def Let_def ret_def)

lemma typ_of_more: "extends (typ_of tables decls mode fuel t) (typ_of tables decls mode (fuel + k) t)"
proof (induction fuel arbitrary: t)
  case (Suc fuel)
  let ?rec = "typ_of tables decls mode fuel" and ?rec' = "typ_of tables decls mode (fuel + k)"
  show ?case
  proof (cases "t = TNil")
    case False
    have "extends (body tables decls mode ?rec t) (body tables decls mode ?rec' t)"
      using Suc.IH by (cases t) (simp_all add: body_def extends_cbind extends_traverse extends_decl extends_field)
    then show ?thesis
      unfolding add_Suc typ_of_body [OF False] by (simp add: extends_def ticked_def)
  qed (simp add: extends_def)
qed (simp add: extends_def)

lemma Compute_more: "Compute tables decls fuel cache t mode = Some y \<Longrightarrow> fuel \<le> fuel' \<Longrightarrow> Compute tables decls fuel' cache t mode = Some y"
  using typ_of_more [of tables decls mode fuel t "fuel' - fuel"]
  by (auto simp: Compute_def extends_def split: if_splits option.splits prod.splits)

end
