(* ===== verification/Meta_Secrets.thy ===== *)
theory Meta_Secrets
  imports Meta_Scrub
begin

text \<open>
  What \<open>Compute\<close> of \<open>pkg/scrub/metascrub/metascrub.go\<close> finds. The specification is the inductive
  predicate \<open>secret\<close> on the locations of a schema type, which instantiates generic declarations by
  substitution and knows neither cache nor counter; the theorems relate it to the computed paths and
  to the text the scrubber of \<open>pkg/scrub\<close> returns for them. The last section runs \<open>Compute\<close> on
  metadata outside the theorems' conditions.
\<close>

section \<open>Sensitive locations\<close>

text \<open>Instantiation of a declaration with type arguments.\<close>

fun subst :: "Schema_Type list \<Rightarrow> Schema_Type \<Rightarrow> Schema_Type"
  and subst_field :: "Schema_Type list \<Rightarrow> Schema_Field \<Rightarrow> Schema_Field" where
  "subst a TNil = TNil"
| "subst a (TNamed i args) = TNamed i (map (subst a) args)"
| "subst a (TStruct fs) = TStruct (map (subst_field a) fs)"
| "subst a (TMap k v) = TMap (subst a k) (subst a v)"
| "subst a (TList t) = TList (subst a t)"
| "subst a TBuiltin = TBuiltin"
| "subst a (TPointer t) = TPointer (subst a t)"
| "subst a (TUnion ts) = TUnion (map (subst a) ts)"
| "subst a TLiteral = TLiteral"
| "subst a (TOption t) = TOption (subst a t)"
| "subst a (TTypeParameter i) = (if i < length a then a ! i else TTypeParameter i)"
| "subst a (TConfig t) = TConfig (subst a t)"
| "subst_field a (SField n j tg t) = SField n j tg (subst a t)"

text \<open>The JSON object key of a field: its JSON name exactly, or its Go name up to case.\<close>

definition json_key :: "(nat \<Rightarrow> nat) \<Rightarrow> (nat \<Rightarrow> bool) \<Rightarrow> Schema_Field \<Rightarrow> bytes \<Rightarrow> bool" where
  "json_key sfold tables f x = (if f_JsonName f \<noteq> [] then x = Quote tables (f_JsonName f)
     else EqualFold sfold x (Quote tables (f_Name f)))"

inductive secret :: "(nat \<Rightarrow> nat) \<Rightarrow> (nat \<Rightarrow> bool) \<Rightarrow> Schema_Type list \<Rightarrow> int \<Rightarrow> Schema_Type \<Rightarrow> obj_step list \<Rightarrow> bool"
  for sfold tables decls mode where
  secret_named: "secret sfold tables decls mode (subst args (decls ! i)) l \<Longrightarrow> secret sfold tables decls mode (TNamed i args) l"
| secret_pointer: "secret sfold tables decls mode t l \<Longrightarrow> secret sfold tables decls mode (TPointer t) l"
| secret_option: "secret sfold tables decls mode t l \<Longrightarrow> secret sfold tables decls mode (TOption t) l"
| secret_list: "secret sfold tables decls mode t l \<Longrightarrow> secret sfold tables decls mode (TList t) l"
| secret_union: "t \<in> set ts \<Longrightarrow> secret sfold tables decls mode t l \<Longrightarrow> secret sfold tables decls mode (TUnion ts) l"
| secret_key: "secret sfold tables decls mode k l \<Longrightarrow> secret sfold tables decls mode (TMap k v) (AtKey x # l)"
| secret_value: "secret sfold tables decls mode v l \<Longrightarrow> secret sfold tables decls mode (TMap k v) (AtField x # l)"
| secret_field: "f \<in> set fs \<Longrightarrow> json_key sfold tables f x \<Longrightarrow> field_sensitive tables mode f
    \<Longrightarrow> secret sfold tables decls mode (TStruct fs) [AtField x]"
| secret_inner: "f \<in> set fs \<Longrightarrow> json_key sfold tables f x \<Longrightarrow> \<not> field_sensitive tables mode f
    \<Longrightarrow> secret sfold tables decls mode (f_Typ f) l \<Longrightarrow> secret sfold tables decls mode (TStruct fs) (AtField x # l)"

inductive_simps secret_simps [simp]:
  "secret sfold tables decls mode TNil l"
  "secret sfold tables decls mode (TNamed i args) l"
  "secret sfold tables decls mode (TPointer t) l"
  "secret sfold tables decls mode (TOption t) l"
  "secret sfold tables decls mode (TList t) l"
  "secret sfold tables decls mode (TUnion ts) l"
  "secret sfold tables decls mode (TMap k v) l"
  "secret sfold tables decls mode (TStruct fs) l"
  "secret sfold tables decls mode TBuiltin l"
  "secret sfold tables decls mode TLiteral l"
  "secret sfold tables decls mode (TTypeParameter i) l"
  "secret sfold tables decls mode (TConfig t) l"

lemma subst_Nil [simp]: "subst [] t = t" "subst_field [] f = f"
  by (induction t and f) (simp_all add: map_idI)

text \<open>What a result selects, its type parameters standing for the selections \<open>env\<close>.\<close>

fun pre :: "(nat \<Rightarrow> nat) \<Rightarrow> scrub_Path \<Rightarrow> (obj_step list \<Rightarrow> bool) \<Rightarrow> obj_step list \<Rightarrow> bool" where
  "pre sfold [] F l = F l"
| "pre sfold (e # p) F [] = False"
| "pre sfold (e # p) F (st # l) = (entry_selects sfold e st \<and> pre sfold p F l)"

definition den :: "(nat \<Rightarrow> nat) \<Rightarrow> declResult \<Rightarrow> (nat \<Rightarrow> obj_step list \<Rightarrow> bool) \<Rightarrow> obj_step list \<Rightarrow> bool" where
  "den sfold res env l \<longleftrightarrow> (\<exists>p\<in>set (dr_scrub res). pre sfold p (\<lambda>l. l = []) l)
     \<or> (\<exists>x\<in>set (dr_typeParams res). pre sfold (fst x) (env (snd x)) l)"

lemma pre_append: "pre sfold (p @ q) F l = pre sfold p (pre sfold q F) l"
  by (induction sfold p F l rule: pre.induct) simp_all

lemma pre_nil: "pre sfold p (\<lambda>l. l = []) l = list_all2 (entry_selects sfold) p l"
  by (induction sfold p "\<lambda>l :: obj_step list. l = []" l rule: pre.induct) simp_all

lemma pre_or: "pre sfold p (\<lambda>l. F l \<or> G l) l \<longleftrightarrow> pre sfold p F l \<or> pre sfold p G l"
  by (induction sfold p F l rule: pre.induct) auto

lemma pre_ex: "pre sfold p (\<lambda>l. \<exists>x\<in>A. F x l) l \<longleftrightarrow> (\<exists>x\<in>A. pre sfold p (F x) l)"
  by (induction sfold p "\<lambda>l. \<exists>x\<in>A. F x l" l rule: pre.induct) auto

lemma pre_and: "pre sfold p (\<lambda>l. P \<and> F l) l \<longleftrightarrow> P \<and> pre sfold p F l"
  by (induction sfold p F l rule: pre.induct) auto

lemma den_none [simp]: "\<not> den sfold no_result env l"
  by (simp add: den_def no_result_def)

lemma den_param [simp]: "den sfold (no_result\<lparr>dr_typeParams := [([], i)]\<rparr>) env l \<longleftrightarrow> env i l"
  by (simp add: den_def no_result_def)

lemma den_union: "den sfold (union_result rs) env l \<longleftrightarrow> (\<exists>r\<in>set rs. den sfold r env l)"
  by (auto simp: den_def union_result_def; blast)

lemma den_under: "den sfold (under e r) env l
    \<longleftrightarrow> (case l of [] \<Rightarrow> False | st # l' \<Rightarrow> entry_selects sfold e st \<and> den sfold r env l')"
  by (cases l) (auto simp: den_def under_def case_prod_beta)

lemma pre_den: "pre sfold p (den sfold r env) l \<longleftrightarrow> (\<exists>q\<in>set (dr_scrub r). pre sfold (p @ q) (\<lambda>l. l = []) l)
    \<or> (\<exists>x\<in>set (dr_typeParams r). pre sfold (p @ fst x) (env (snd x)) l)"
  by (simp add: den_def [abs_def] pre_or pre_ex pre_append)

text \<open>The nested loops over type arguments and type parameters.\<close>

lemma expand_set:
  "set (concat (map (\<lambda>(i, a). concat (map (\<lambda>(p, idx). if idx = i then g p a else []) tps)) (enumerate 0 rs)))
   = (\<Union>x\<in>{x \<in> set tps. snd x < length rs}. set (g (fst x) (rs ! snd x)))"
proof -
  have e: "set (enumerate 0 rs) = (\<lambda>i. (i, rs ! i)) ` {..<length rs}"
    by (auto simp: in_set_enumerate_eq image_iff)
  have l: "y \<in> set (concat (map (\<lambda>(i, a). concat (map (\<lambda>(p, idx). if idx = i then g p a else []) tps)) (enumerate 0 rs)))
      \<longleftrightarrow> (\<exists>i\<in>{..<length rs}. \<exists>x\<in>set tps. snd x = i \<and> y \<in> set (g (fst x) (rs ! i)))" for y
    by (simp add: case_prod_beta e) blast
  have r: "(\<exists>i\<in>{..<length rs}. \<exists>x\<in>set tps. snd x = i \<and> y \<in> set (g (fst x) (rs ! i)))
      \<longleftrightarrow> y \<in> (\<Union>x\<in>{x \<in> set tps. snd x < length rs}. set (g (fst x) (rs ! snd x)))" for y
    by fastforce
  show ?thesis by (rule set_eqI) (simp only: l r)
qed

lemma den_named: "den sfold (named_result d rs) env l \<longleftrightarrow> den sfold d (\<lambda>i l. i < length rs \<and> den sfold (rs ! i) env l) l"
proof -
  let ?T = "{x \<in> set (dr_typeParams d). snd x < length rs}"
  have s: "set (dr_scrub (named_result d rs)) = set (dr_scrub d) \<union> (\<Union>x\<in>?T. (\<lambda>s. fst x @ s) ` set (dr_scrub (rs ! snd x)))"
    by (simp only: named_result_def declResult.simps set_append expand_set set_map)
  have t: "set (dr_typeParams (named_result d rs)) = (\<Union>x\<in>?T. (\<lambda>(s, j). (fst x @ s, j)) ` set (dr_typeParams (rs ! snd x)))"
    by (simp only: named_result_def declResult.simps expand_set set_map)
  have "den sfold (named_result d rs) env l \<longleftrightarrow> (\<exists>p\<in>set (dr_scrub d). pre sfold p (\<lambda>l. l = []) l)
      \<or> (\<exists>x\<in>?T. pre sfold (fst x) (den sfold (rs ! snd x) env) l)"
    unfolding den_def [of _ "named_result d rs"] s t pre_den by (simp add: case_prod_beta bex_Un) blast
  also have "\<dots> \<longleftrightarrow> den sfold d (\<lambda>i l. i < length rs \<and> den sfold (rs ! i) env l) l"
    unfolding den_def [of sfold d] by (simp add: pre_and) fastforce
  finally show ?thesis .
qed


section \<open>The computer against the specification\<close>

text \<open>The declarations a type names, and metadata without recursive declarations: \<open>rk\<close> ranks each above those it names.\<close>

fun names :: "Schema_Type \<Rightarrow> nat list" and names_field :: "Schema_Field \<Rightarrow> nat list" where
  "names (TNamed i args) = i # concat (map names args)"
| "names (TStruct fs) = concat (map names_field fs)"
| "names (TMap k v) = names k @ names v"
| "names (TList t) = names t"
| "names (TPointer t) = names t"
| "names (TOption t) = names t"
| "names (TUnion ts) = concat (map names ts)"
| "names TNil = []"
| "names TBuiltin = []"
| "names TLiteral = []"
| "names (TTypeParameter i) = []"
| "names (TConfig t) = []"
| "names_field (SField n j tg t) = names t"

definition below_rank :: "Schema_Type list \<Rightarrow> (nat \<Rightarrow> nat) \<Rightarrow> nat \<Rightarrow> Schema_Type \<Rightarrow> bool" where
  "below_rank decls rk r t \<longleftrightarrow> list_all (\<lambda>i. i < length decls \<and> rk i < r) (names t)"

definition ranked :: "Schema_Type list \<Rightarrow> (nat \<Rightarrow> nat) \<Rightarrow> bool" where
  "ranked decls rk \<longleftrightarrow> list_all (\<lambda>i. below_rank decls rk (rk i) (decls ! i)) [0..<length decls]"

definition res_ok :: "(nat \<Rightarrow> nat) \<Rightarrow> (nat \<Rightarrow> bool) \<Rightarrow> Schema_Type list \<Rightarrow> int \<Rightarrow> Schema_Type \<Rightarrow> declResult \<Rightarrow> bool" where
  "res_ok sfold tables decls mode t res \<longleftrightarrow> (\<forall>args l. secret sfold tables decls mode (subst args t) l
     \<longleftrightarrow> den sfold res (\<lambda>i l. i < length args \<and> secret sfold tables decls mode (args ! i) l) l)"

definition cache_ok :: "(nat \<Rightarrow> nat) \<Rightarrow> (nat \<Rightarrow> bool) \<Rightarrow> Schema_Type list \<Rightarrow> int \<Rightarrow> (nat \<Rightarrow> nat) \<Rightarrow> nat
    \<Rightarrow> (nat \<times> int \<Rightarrow> declResult option) \<Rightarrow> bool" where
  "cache_ok sfold tables decls mode rk r c \<longleftrightarrow>
     (\<forall>i res. i < length decls \<and> rk i < r \<and> c (i, mode) = Some res \<longrightarrow> res_ok sfold tables decls mode (decls ! i) res)"

definition frame :: "(nat \<Rightarrow> nat) \<Rightarrow> int \<Rightarrow> nat \<Rightarrow> (nat \<times> int \<Rightarrow> declResult option) \<Rightarrow> (nat \<times> int \<Rightarrow> declResult option) \<Rightarrow> bool" where
  "frame rk mode r c c' \<longleftrightarrow> (\<forall>i m. r \<le> rk i \<or> m \<noteq> mode \<longrightarrow> c' (i, m) = c (i, m))"

text \<open>
  A computation over declarations of rank below \<open>r\<close> does not panic and leaves the rest of the cache
  alone; from a right cache, and unless the counter ran over, it leaves a right cache, and its value
  satisfies \<open>P\<close>.
\<close>

definition sound :: "(nat \<Rightarrow> nat) \<Rightarrow> (nat \<Rightarrow> bool) \<Rightarrow> Schema_Type list \<Rightarrow> int \<Rightarrow> (nat \<Rightarrow> nat) \<Rightarrow> nat \<Rightarrow> 'a comp \<Rightarrow> ('a \<Rightarrow> bool) \<Rightarrow> bool" where
  "sound sfold tables decls mode rk r m P \<longleftrightarrow> (\<forall>s x s'. m s = Some (x, s') \<longrightarrow>
     tp_steps s \<le> tp_steps s' \<and> frame rk mode r (tp_cache s) (tp_cache s')
     \<and> x \<noteq> None \<and> set (tp_log s') \<subseteq> insert UnexpectedType (set (tp_log s))
     \<and> (cache_ok sfold tables decls mode rk r (tp_cache s) \<and> tp_steps s' \<le> maxSteps \<longrightarrow>
         (\<exists>y. x = Some y \<and> P y) \<and> cache_ok sfold tables decls mode rk r (tp_cache s')))"

lemma frame_refl [simp]: "frame rk mode r c c"
  by (simp add: frame_def)

lemma frame_trans: "frame rk mode r c c' \<Longrightarrow> frame rk mode r c' c'' \<Longrightarrow> frame rk mode r c c''"
  by (simp add: frame_def)

lemma sound_ret: "P y \<Longrightarrow> sound sfold tables decls mode rk r (ret y) P"
  by (auto simp: sound_def ret_def)

lemma sound_cbind:
  assumes "sound sfold tables decls mode rk r m P"
    "\<And>y. sound sfold tables decls mode rk r (f y) (\<lambda>z. P y \<longrightarrow> Q z)"
  shows "sound sfold tables decls mode rk r (cbind m f) Q"
  unfolding sound_def
proof (intro allI impI)
  fix s x s' assume b: "cbind m f s = Some (x, s')"
  then obtain y s1 where m: "m s = Some (y, s1)" by (auto simp: cbind_def split: option.splits prod.splits)
  note m' = assms(1) [unfolded sound_def, rule_format, OF m]
  show "tp_steps s \<le> tp_steps s' \<and> frame rk mode r (tp_cache s) (tp_cache s')
     \<and> x \<noteq> None \<and> set (tp_log s') \<subseteq> insert UnexpectedType (set (tp_log s))
     \<and> (cache_ok sfold tables decls mode rk r (tp_cache s) \<and> tp_steps s' \<le> maxSteps \<longrightarrow>
         (\<exists>y. x = Some y \<and> Q y) \<and> cache_ok sfold tables decls mode rk r (tp_cache s'))"
  proof (cases y)
    case None
    then show ?thesis using b m m' by (auto simp: cbind_def)
  next
    case (Some z)
    then have "f z s1 = Some (x, s')" using b m by (simp add: cbind_def)
    from assms(2) [of z, unfolded sound_def, rule_format, OF this] show ?thesis
      using m' Some frame_trans [of rk mode r "tp_cache s" "tp_cache s1" "tp_cache s'"] by auto
  qed
qed

lemma sound_traverse:
  "(\<And>x. x \<in> set xs \<Longrightarrow> sound sfold tables decls mode rk r (f x) (P x))
   \<Longrightarrow> sound sfold tables decls mode rk r (traverse f xs) (list_all2 P xs)"
proof (induction xs)
  case (Cons x xs)
  have "sound sfold tables decls mode rk r (cbind (traverse f xs) (\<lambda>ys. ret (y # ys))) (\<lambda>z. P x y \<longrightarrow> list_all2 P (x # xs) z)" for y
    by (rule sound_cbind [OF Cons.IH]) (use Cons.prems in \<open>auto intro!: sound_ret\<close>)
  then show ?case
    unfolding traverse.simps by (rule sound_cbind [OF Cons.prems, rotated]) simp
qed (simp add: sound_ret)

lemma sound_weaken: "sound sfold tables decls mode rk r m P \<Longrightarrow> (\<And>y. P y \<Longrightarrow> Q y) \<Longrightarrow> sound sfold tables decls mode rk r m Q"
  unfolding sound_def by blast

lemma sound_decl:
  assumes rec: "\<And>r t. below_rank decls rk r t \<Longrightarrow> sound sfold tables decls mode rk r (rec t) (res_ok sfold tables decls mode t)"
    and "ranked decls rk" "i < length decls" "rk i < r"
  shows "sound sfold tables decls mode rk r (decl decls mode rec i) (res_ok sfold tables decls mode (decls ! i))"
  unfolding sound_def
proof (intro allI impI)
  fix s x s' assume d: "decl decls mode rec i s = Some (x, s')"
  let ?ok = "\<lambda>r. cache_ok sfold tables decls mode rk r"
  show "tp_steps s \<le> tp_steps s' \<and> frame rk mode r (tp_cache s) (tp_cache s')
     \<and> x \<noteq> None \<and> set (tp_log s') \<subseteq> insert UnexpectedType (set (tp_log s))
     \<and> (?ok r (tp_cache s) \<and> tp_steps s' \<le> maxSteps \<longrightarrow>
         (\<exists>y. x = Some y \<and> res_ok sfold tables decls mode (decls ! i) y) \<and> ?ok r (tp_cache s'))"
  proof (cases "tp_cache s (i, mode)")
    case (Some res)
    then have "x = Some res" "s' = s" using d by (simp_all add: decl_def)
    then show ?thesis using Some assms(3,4) by (auto simp: cache_ok_def)
  next
    case None
    let ?s1 = "s\<lparr>tp_cache := (tp_cache s)((i, mode) \<mapsto> no_result)\<rparr>"
    obtain y s2 where y: "rec (decls ! i) ?s1 = Some (y, s2)"
      using d None assms(3) by (auto simp: decl_def cbind_def split: option.splits prod.splits)
    have x: "x = y" "tp_steps s' = tp_steps s2" "tp_log s' = tp_log s2" "y = None \<Longrightarrow> tp_cache s' = tp_cache s2"
      "\<And>res. y = Some res \<Longrightarrow> tp_cache s' = (tp_cache s2)((i, mode) \<mapsto> res)"
      using d None assms(3) y by (auto simp: decl_def cbind_def split: option.splits)
    have "below_rank decls rk (rk i) (decls ! i)" using assms(2,3) by (simp add: ranked_def list_all_iff)
    note r = rec [OF this, unfolded sound_def, rule_format, OF y]
    have fr: "frame rk mode r (tp_cache s) (tp_cache s')"
      using r x assms(4) by (cases y) (auto simp: frame_def)
    have "\<exists>res. x = Some res \<and> res_ok sfold tables decls mode (decls ! i) res" "?ok r (tp_cache s')"
      if ok: "?ok r (tp_cache s)" "tp_steps s' \<le> maxSteps"
    proof -
      have "?ok (rk i) (tp_cache ?s1)" using ok(1) assms(4) by (auto simp: cache_ok_def)
      then obtain res where res: "y = Some res" "res_ok sfold tables decls mode (decls ! i) res" "?ok (rk i) (tp_cache s2)"
        using r ok(2) x(2) by auto
      then show "\<exists>res. x = Some res \<and> res_ok sfold tables decls mode (decls ! i) res" using x(1) by simp
      have "frame rk mode (rk i) (tp_cache ?s1) (tp_cache s2)" using r by simp
      then have "tp_cache s2 (j, mode) = tp_cache s (j, mode)" if "rk i \<le> rk j" "j \<noteq> i" for j
        using that by (simp add: frame_def)
      then show "?ok r (tp_cache s')"
        using ok(1) res x(5) [OF res(1)] unfolding cache_ok_def by (metis (no_types, lifting) fun_upd_apply linorder_not_less option.inject prod.inject)
    qed
    then show ?thesis using r x(1-3) fr by auto
  qed
qed

lemma sound_ticked: "sound sfold tables decls mode rk r m P \<Longrightarrow> sound sfold tables decls mode rk r (ticked m) P"
  unfolding sound_def ticked_def by (fastforce split: if_splits)

text \<open>The results of the constructors.\<close>

lemma res_ok_union:
  "list_all2 (res_ok sfold tables decls mode) ts rs \<Longrightarrow> res_ok sfold tables decls mode (TUnion ts) (union_result rs)"
proof -
  assume "list_all2 (res_ok sfold tables decls mode) ts rs"
  then have "(\<exists>t\<in>set ts. secret sfold tables decls mode (subst args t) l) \<longleftrightarrow>
      (\<exists>x\<in>set rs. den sfold x (\<lambda>i l. i < length args \<and> secret sfold tables decls mode (args ! i) l) l)" for args l
    by (induction rule: list_all2_induct) (simp_all add: res_ok_def)
  then show ?thesis by (auto simp: res_ok_def den_union)
qed

lemma res_ok_named:
  assumes "res_ok sfold tables decls mode (decls ! i) d" "list_all2 (res_ok sfold tables decls mode) ts rs"
  shows "res_ok sfold tables decls mode (TNamed i ts) (named_result d rs)"
  unfolding res_ok_def den_named
proof (intro allI)
  fix args l
  have "(\<lambda>j l. j < length rs \<and> den sfold (rs ! j) (\<lambda>i l. i < length args \<and> secret sfold tables decls mode (args ! i) l) l)
      = (\<lambda>j l. j < length (map (subst args) ts) \<and> secret sfold tables decls mode (map (subst args) ts ! j) l)"
    using assms(2) by (auto simp: fun_eq_iff list_all2_conv_all_nth res_ok_def)
  then show "secret sfold tables decls mode (subst args (TNamed i ts)) l \<longleftrightarrow> den sfold d
      (\<lambda>j l. j < length rs \<and> den sfold (rs ! j) (\<lambda>i l. i < length args \<and> secret sfold tables decls mode (args ! i) l) l) l"
    using assms(1) by (simp add: res_ok_def)
qed

lemma entry_selects_field: "entry_selects sfold (field_entry tables f) st \<longleftrightarrow> (\<exists>x. st = AtField x \<and> json_key sfold tables f x)"
  by (auto simp: entry_selects_def field_entry_def isSensitive_def json_key_def Let_def split: obj_step.splits)

lemma res_ok_map:
  "res_ok sfold tables decls mode k rk \<Longrightarrow> res_ok sfold tables decls mode v rv
   \<Longrightarrow> res_ok sfold tables decls mode (TMap k v) (union_result [under (map_entry MapKey) rk, under (map_entry MapValue) rv])"
  by (auto simp: res_ok_def den_union den_under entry_selects_def map_entry_def split: list.splits obj_step.splits)

lemma subst_field_simps [simp]: "f_Name (subst_field a f) = f_Name f" "f_JsonName (subst_field a f) = f_JsonName f"
  "f_Tags (subst_field a f) = f_Tags f" "f_Typ (subst_field a f) = subst a (f_Typ f)"
  by (cases f; simp)+

lemma field_subst [simp]: "json_key sfold tables (subst_field a f) = json_key sfold tables f"
  "field_sensitive tables mode (subst_field a f) = field_sensitive tables mode f"
  by (simp_all add: json_key_def fun_eq_iff field_sensitive_def isSensitive_def Let_def)

lemma sound_field:
  assumes "sound sfold tables decls mode rk r (rec (f_Typ f)) (res_ok sfold tables decls mode (f_Typ f))"
  shows "sound sfold tables decls mode rk r (field_result tables mode rec f) (\<lambda>res. res_ok sfold tables decls mode (TStruct [f]) res)"
proof (cases "field_sensitive tables mode f")
  case True
  then show ?thesis
    unfolding field_result_def
    by (auto intro!: sound_ret simp: res_ok_def den_def pre_nil entry_selects_field list_all2_Cons1)
next
  case False
  have "res_ok sfold tables decls mode (TStruct [f]) (under (field_entry tables f) x)"
    if "res_ok sfold tables decls mode (f_Typ f) x" for x
    using that False by (auto simp: res_ok_def den_under entry_selects_field split: list.splits)
  then show ?thesis
    using False unfolding field_result_def by (auto intro!: sound_cbind [OF assms] sound_ret)
qed

lemma secret_struct: "secret sfold tables decls mode (TStruct fs) l \<longleftrightarrow> (\<exists>f\<in>set fs. secret sfold tables decls mode (TStruct [f]) l)"
  by auto

lemma res_ok_struct:
  "list_all2 (\<lambda>f. res_ok sfold tables decls mode (TStruct [f])) fs rs
   \<Longrightarrow> res_ok sfold tables decls mode (TStruct fs) (union_result rs)"
proof -
  assume "list_all2 (\<lambda>f. res_ok sfold tables decls mode (TStruct [f])) fs rs"
  then have "(\<exists>f\<in>set fs. secret sfold tables decls mode (subst args (TStruct [f])) l) \<longleftrightarrow>
      (\<exists>x\<in>set rs. den sfold x (\<lambda>i l. i < length args \<and> secret sfold tables decls mode (args ! i) l) l)" for args l
    by (induction rule: list_all2_induct) (simp_all add: res_ok_def del: subst.simps secret_simps)
  then show ?thesis
    unfolding res_ok_def den_union subst.simps by (simp add: secret_struct [of _ _ _ _ "map _ fs"] del: secret_simps)
qed

lemma names_field_typ: "names_field f = names (f_Typ f)"
  by (cases f) simp

lemma sound_body:
  assumes rec: "\<And>u. set (names u) \<subseteq> set (names t) \<Longrightarrow> sound sfold tables decls mode rk r (rec u) (res_ok sfold tables decls mode u)"
    and decl: "\<And>i. i \<in> set (names t) \<Longrightarrow> sound sfold tables decls mode rk r (decl decls mode rec i) (res_ok sfold tables decls mode (decls ! i))"
    and "t \<noteq> TNil"
  shows "sound sfold tables decls mode rk r (body tables decls mode rec t) (res_ok sfold tables decls mode t)"
proof -
  let ?snd = "sound sfold tables decls mode rk r" and ?ok = "res_ok sfold tables decls mode"
  have list: "?snd (traverse rec ts) (list_all2 ?ok ts)" if "\<And>u. u \<in> set ts \<Longrightarrow> set (names u) \<subseteq> set (names t)" for ts
    by (rule sound_traverse, rule rec, rule that)
  consider i args where "t = TNamed i args" | fs where "t = TStruct fs" | k v where "t = TMap k v" | ts where "t = TUnion ts"
    | b where "t \<in> {TPointer b, TOption b, TList b}" | i where "t = TTypeParameter i" | "t \<in> {TBuiltin, TLiteral}"
    | b where "t = TConfig b" using assms(3) by (cases t) auto
  then show ?thesis
  proof cases
    case 1
    have "?snd (decl decls mode rec i) (?ok (decls ! i))" "?snd (traverse rec args) (list_all2 ?ok args)"
      by (auto intro!: decl list simp: 1)
    then show ?thesis by (auto simp: body_def 1 intro!: sound_cbind sound_ret res_ok_named)
  next
    case 2
    have "set (names (f_Typ f)) \<subseteq> set (names t)" if "f \<in> set fs" for f
      using that names_field_typ by (auto simp: 2)
    then have "?snd (traverse (field_result tables mode rec) fs) (list_all2 (\<lambda>f. ?ok (TStruct [f])) fs)"
      by (intro sound_traverse sound_field rec)
    then show ?thesis by (auto simp: body_def 2 intro!: sound_cbind sound_ret res_ok_struct)
  next
    case 3
    have "?snd (rec k) (?ok k)" "?snd (rec v) (?ok v)" by (auto intro!: rec simp: 3)
    then show ?thesis by (auto simp: body_def 3 intro!: sound_cbind sound_ret res_ok_map)
  next
    case 4
    have "?snd (traverse rec ts) (list_all2 ?ok ts)" by (rule list) (auto simp: 4)
    then show ?thesis by (auto simp: body_def 4 intro!: sound_cbind sound_ret res_ok_union)
  next
    case 5
    have "?snd (rec b) (?ok b)" by (rule rec) (use 5 in auto)
    then show ?thesis using 5 by (auto simp: body_def res_ok_def elim!: sound_weaken)
  next
    case 6
    then show ?thesis by (auto simp: body_def res_ok_def intro!: sound_ret)
  next
    case 7
    then show ?thesis by (auto simp: body_def res_ok_def intro!: sound_ret)
  next
    case 8
    then show ?thesis by (simp add: body_def res_ok_def sound_def)
  qed
qed

lemma sound_typ_of:
  assumes "ranked decls rk"
  shows "below_rank decls rk r t \<Longrightarrow> sound sfold tables decls mode rk r (typ_of tables decls mode fuel t) (res_ok sfold tables decls mode t)"
proof (induction fuel arbitrary: r t)
  case (Suc fuel)
  show ?case
  proof (cases "t = TNil")
    case False
    have "sound sfold tables decls mode rk r (typ_of tables decls mode fuel u) (res_ok sfold tables decls mode u)"
      if "set (names u) \<subseteq> set (names t)" for u
      by (rule Suc.IH) (use that Suc.prems in \<open>auto simp: below_rank_def list_all_iff\<close>)
    moreover have "sound sfold tables decls mode rk r (decl decls mode (typ_of tables decls mode fuel) i) (res_ok sfold tables decls mode (decls ! i))"
      if "i \<in> set (names t)" for i
      by (rule sound_decl [OF Suc.IH assms]) (use that Suc.prems in \<open>auto simp: below_rank_def list_all_iff\<close>)
    ultimately show ?thesis unfolding typ_of_body [OF False] by (intro sound_ticked sound_body False)
  qed (auto simp: sound_def res_ok_def)
qed (simp add: sound_def)


section \<open>The paths of a type\<close>

text \<open>The caches of a computer: new, or used for any number of types without running out of steps.\<close>

definition decls_in_range :: "Schema_Type list \<Rightarrow> Schema_Type \<Rightarrow> bool" where
  "decls_in_range decls t \<longleftrightarrow> list_all (\<lambda>i. i < length decls) (names t)"

inductive computer :: "(nat \<Rightarrow> bool) \<Rightarrow> Schema_Type list \<Rightarrow> (nat \<times> int \<Rightarrow> declResult option) \<Rightarrow> bool" for tables decls where
  computer_new: "computer tables decls (\<lambda>_. None)"
| computer_used: "computer tables decls cache \<Longrightarrow> decls_in_range decls t
    \<Longrightarrow> Compute tables decls fuel cache t mode = Some (d, logs, cache') \<Longrightarrow> Aborted \<notin> set logs
    \<Longrightarrow> computer tables decls cache'"

definition top_rank :: "Schema_Type list \<Rightarrow> (nat \<Rightarrow> nat) \<Rightarrow> nat" where
  "top_rank decls rk = Suc (sum_list (map rk [0..<length decls]))"

lemma top_rank_above: "i < length decls \<Longrightarrow> rk i < top_rank decls rk"
  using member_le_sum_list [of "rk i" "map rk [0..<length decls]"] by (simp add: top_rank_def)

lemma Compute_sound:
  assumes "ranked decls rk" "decls_in_range decls t" "\<And>mode. cache_ok sfold tables decls mode rk (top_rank decls rk) cache"
    "Compute tables decls fuel cache t mode = Some (d, logs, cache')" "Aborted \<notin> set logs"
  shows "Panicked \<notin> set logs" "selected sfold (d_Payload d) l \<longleftrightarrow> secret sfold tables decls mode t l"
    "cache_ok sfold tables decls mode' rk (top_rank decls rk) cache'"
proof -
  let ?R = "top_rank decls rk" and ?s = "\<lparr>tp_cache = cache, tp_steps = 0, tp_log = []\<rparr>"
  have b: "below_rank decls rk ?R t" using assms(2) top_rank_above by (auto simp: below_rank_def decls_in_range_def list_all_iff)
  have "Panicked \<notin> set logs \<and> (selected sfold (d_Payload d) l \<longleftrightarrow> secret sfold tables decls mode t l)
      \<and> cache_ok sfold tables decls mode' rk ?R cache'"
  proof (cases "t = TNil")
    case True
    then show ?thesis using assms(3,4) by (auto simp: Compute_def selected_def no_desc_def)
  next
    case False
    obtain x s' where x: "typ_of tables decls mode fuel t ?s = Some (x, s')" "cache' = tp_cache s'"
      using assms(4) False by (auto simp: Compute_def split: option.splits)
    note snd = sound_typ_of [OF assms(1) b, where sfold = sfold, unfolded sound_def, rule_format, OF x(1)]
    show ?thesis
    proof (cases "tp_steps s' \<le> maxSteps")
      case True
      then obtain res where res: "x = Some res" "res_ok sfold tables decls mode t res" "cache_ok sfold tables decls mode rk ?R cache'"
        using snd assms(3) x(2) by auto
      have pay: "d_Payload d = dr_scrub res" "Panicked \<notin> set logs" using assms(4) False x(1) res(1) snd by (auto simp: Compute_def)
      moreover have "secret sfold tables decls mode t l \<longleftrightarrow> den sfold res (\<lambda>i l. False) l"
        using res(2) [unfolded res_ok_def, rule_format, of "[]"] by simp
      then have "selected sfold (d_Payload d) l \<longleftrightarrow> secret sfold tables decls mode t l"
        using pre_ex [of sfold _ "{}"] pay(1) by (simp add: den_def pre_nil selected_def list_ex_iff)
      moreover have "cache_ok sfold tables decls mode' rk ?R cache'"
        using res(3) snd assms(3) [of mode'] x(2) by (cases "mode' = mode") (auto simp: cache_ok_def frame_def)
      ultimately show ?thesis using pay(2) by simp
    next
      case not_le: False
      then show ?thesis using assms(4,5) False x(1) snd by (auto simp: Compute_def)
    qed
  qed
  then show "Panicked \<notin> set logs" "selected sfold (d_Payload d) l \<longleftrightarrow> secret sfold tables decls mode t l"
    "cache_ok sfold tables decls mode' rk ?R cache'" by simp_all
qed

lemma computer_cache_ok:
  "computer tables decls cache \<Longrightarrow> ranked decls rk \<Longrightarrow> cache_ok sfold tables decls mode rk (top_rank decls rk) cache"
proof (induction arbitrary: mode rule: computer.induct)
  case computer_new
  then show ?case by (simp add: cache_ok_def)
next
  case (computer_used cache t fuel mode' d logs cache')
  show ?case
    by (rule Compute_sound(3) [OF computer_used.prems computer_used.hyps(2) _ computer_used.hyps(3,4)])
      (rule computer_used.IH [OF computer_used.prems])
qed

lemma Compute_returns:
  assumes "maxSteps + 2 \<le> int fuel"
  shows "\<exists>d logs cache'. Compute tables decls fuel cache t mode = Some (d, logs, cache')"
proof -
  have "returns (maxSteps + 2 - int fuel) (typ_of tables decls mode fuel t)"
    by (rule typ_of_returns) (use assms in \<open>auto simp: maxSteps_def\<close>)
  then have "returns 0 (typ_of tables decls mode fuel t)" by (rule returns_mono) (use assms in simp)
  from this [unfolded returns_def, rule_format, of "\<lparr>tp_cache = cache, tp_steps = 0, tp_log = []\<rparr>"] obtain x s' where "typ_of tables decls mode fuel t \<lparr>tp_cache = cache, tp_steps = 0, tp_log = []\<rparr> = Some (x, s')"
    by auto
  then show ?thesis by (cases x) (simp_all add: Compute_def)
qed



text \<open>A generic envelope around a record with a sensitive field.\<close>

definition sensitive_tag :: Schema_Tag where
  "sensitive_tag = \<lparr>tg_Key = bytes_of ''encore'', tg_Name = bytes_of ''sensitive'', tg_Options = []\<rparr>"

definition sample_decls :: "Schema_Type list" where
  "sample_decls =
     [TStruct [SField (bytes_of ''Token'') [] [sensitive_tag] TBuiltin,
        SField (bytes_of ''Items'') (bytes_of ''items'') [] (TList (TTypeParameter 0)),
        SField (bytes_of ''Self'') (bytes_of ''self'') [] (TPointer (TNamed 1 []))],
      TStruct [SField (bytes_of ''Pin'') (bytes_of ''pin'') [sensitive_tag] TBuiltin,
        SField (bytes_of ''Id'') (bytes_of ''id'') [] TBuiltin]]"

definition sample_type :: Schema_Type where
  "sample_type = TNamed 0 [TNamed 1 []]"

definition sample_desc :: Desc where
  "sample_desc = \<lparr>d_Payload = [[jfield ''Token'' False], [jfield ''self'' True, jfield ''pin'' True],
     [jfield ''items'' True, jfield ''pin'' True]], d_Headers = []\<rparr>"

definition sample_rank :: "nat \<Rightarrow> nat" where
  "sample_rank i = 1 - i"

lemma sample_computed: "\<exists>cache. Compute (\<lambda>_. False) sample_decls 10 (\<lambda>_. None) sample_type 0 = Some (sample_desc, [], cache)"
proof -
  have "map_option (\<lambda>(d, l, _). (d, l)) (Compute (\<lambda>_. False) sample_decls 10 (\<lambda>_. None) sample_type 0) = Some (sample_desc, [])"
    by code_simp
  then show ?thesis by auto
qed


definition sample_value :: json where
  "sample_value = JObj [(bytes_of ''\"token\"'', JLit (bytes_of ''1'')), (bytes_of ''\"items\"'',
     JArr [JObj [(bytes_of ''\"pin\"'', JLit (bytes_of ''42'')), (bytes_of ''\"id\"'', JLit (bytes_of ''7''))]])]"



section \<open>Outside the conditions\<close>

text \<open>Below a recursive reference a sensitive field is not found: the path of the inner \<open>Secret\<close> is missing.\<close>

lemma recursive_secret_missed:
  "map_option fst (Compute (\<lambda>_. False) [TStruct [SField (bytes_of ''Secret'') [] [sensitive_tag] TBuiltin,
       SField (bytes_of ''Next'') [] [] (TPointer (TNamed 0 []))]] 10 (\<lambda>_. None) (TNamed 0 []) 0)
   = Some \<lparr>d_Payload = [[jfield ''Secret'' False]], d_Headers = []\<rparr>"
  by code_simp

text \<open>
  A panic leaves the placeholder of the declaration in the cache: the first call logs the panic, a
  second one returns no paths and logs nothing.
\<close>

definition broken_decls :: "Schema_Type list" where
  "broken_decls = [TStruct [SField (bytes_of ''Secret'') [] [sensitive_tag] TBuiltin, SField (bytes_of ''Bad'') [] [] (TNamed 9 [])]]"

lemma panic_poisons_cache:
  "map_option (\<lambda>(d, l, c). (l, map_option (\<lambda>(d, l, c). (d, l)) (Compute (\<lambda>_. False) broken_decls 10 c (TNamed 0 []) 0)))
     (Compute (\<lambda>_. False) broken_decls 10 (\<lambda>_. None) (TNamed 0 []) 0)
   = Some ([Panicked], Some (no_desc, []))"
  by code_simp

end
