(* ===== verification/Errs.thy ===== *)
theory Errs
  imports Go_Text
begin

text \<open>
  Structured errors (\<open>runtimes/go/beta/errs\<close>: \<open>codes.go\<close>, \<open>error.go\<close>, \<open>builder.go\<close>,
  \<open>errs_internal.go\<close>). An error value is a tree: an \<open>*Error\<close> with the error below it, or an error of
  another type with its text and the errors it unwraps to. What the package changes in place lives in
  a store: the stack of each \<open>*Error\<close>, and the metadata maps, which errors share by reference. The
  stack captured by \<open>stack.Build\<close> is an argument.
\<close>

section \<open>Codes\<close>

type_synonym ErrCode = int

abbreviation OK :: ErrCode where "OK \<equiv> 0"
abbreviation Canceled :: ErrCode where "Canceled \<equiv> 1"
abbreviation Unknown :: ErrCode where "Unknown \<equiv> 2"
abbreviation InvalidArgument :: ErrCode where "InvalidArgument \<equiv> 3"
abbreviation DeadlineExceeded :: ErrCode where "DeadlineExceeded \<equiv> 4"
abbreviation NotFound :: ErrCode where "NotFound \<equiv> 5"
abbreviation AlreadyExists :: ErrCode where "AlreadyExists \<equiv> 6"
abbreviation PermissionDenied :: ErrCode where "PermissionDenied \<equiv> 7"
abbreviation ResourceExhausted :: ErrCode where "ResourceExhausted \<equiv> 8"
abbreviation FailedPrecondition :: ErrCode where "FailedPrecondition \<equiv> 9"
abbreviation Aborted :: ErrCode where "Aborted \<equiv> 10"
abbreviation OutOfRange :: ErrCode where "OutOfRange \<equiv> 11"
abbreviation Unimplemented :: ErrCode where "Unimplemented \<equiv> 12"
abbreviation Internal :: ErrCode where "Internal \<equiv> 13"
abbreviation Unavailable :: ErrCode where "Unavailable \<equiv> 14"
abbreviation DataLoss :: ErrCode where "DataLoss \<equiv> 15"
abbreviation Unauthenticated :: ErrCode where "Unauthenticated \<equiv> 16"

definition codeNames :: "string list" where
  "codeNames = [''ok'', ''canceled'', ''unknown'', ''invalid_argument'', ''deadline_exceeded'', ''not_found'',
     ''already_exists'', ''permission_denied'', ''resource_exhausted'', ''failed_precondition'', ''aborted'',
     ''out_of_range'', ''unimplemented'', ''internal'', ''unavailable'', ''data_loss'', ''unauthenticated'']"

definition codeStatus :: "int list" where
  "codeStatus = [200, 499, 500, 400, 504, 404, 409, 403, 429, 400, 409, 400, 501, 500, 503, 500, 401]"

text \<open>Indexing an array panics, \<open>None\<close>, out of range.\<close>

definition index :: "'a list \<Rightarrow> int \<Rightarrow> 'a option" where
  "index xs i = (if 0 \<le> i \<and> i < int (length xs) then Some (xs ! nat i) else None)"

definition ErrCode_String :: "ErrCode \<Rightarrow> string option" where
  "ErrCode_String c = index codeNames c"

definition ErrCode_HTTPStatus :: "ErrCode \<Rightarrow> int option" where
  "ErrCode_HTTPStatus c = index codeStatus c"

definition ErrCode_MarshalJSON :: "ErrCode \<Rightarrow> string option" where
  "ErrCode_MarshalJSON c = map_option (\<lambda>s. [CHR 0x22] @ s @ [CHR 0x22]) (ErrCode_String c)"

definition statusToCode :: "int \<Rightarrow> ErrCode option" where
  "statusToCode = map_of [(200, OK), (499, Canceled), (500, Internal), (400, InvalidArgument), (401, Unauthenticated),
     (403, PermissionDenied), (404, NotFound), (409, AlreadyExists), (429, ResourceExhausted), (501, Unimplemented),
     (503, Unavailable), (504, DeadlineExceeded)]"

definition HTTPStatusToCode :: "int \<Rightarrow> ErrCode" where
  "HTTPStatusToCode status = (case statusToCode status of Some c \<Rightarrow> c | None \<Rightarrow> Unknown)"


section \<open>Errors and the store\<close>

text \<open>\<open>interface{}\<close> values: strings, and anything else.\<close>

datatype any = AString string | AOther nat

type_synonym Metadata = "string \<rightharpoonup> any"

type_synonym frames = "nat list"

text \<open>
  \<open>Error\<close>: its address, code, message, details, the reference of its metadata map and the underlying
  error. \<open>Foreign\<close>: any other error, its text and what it unwraps to.
\<close>

datatype err = Error (e_addr: nat) (e_Code: ErrCode) (e_Message: string) (e_Details: "any option") (e_Meta: "nat option")
    (e_underlying: "err option")
  | Foreign string "err list"

record store =
  st_metas :: "nat \<Rightarrow> Metadata"
  st_stacks :: "nat \<Rightarrow> frames"
  st_next :: nat

text \<open>\<open>errors.As\<close> for \<open>*Error\<close>: the first one, depth first.\<close>

fun first_some :: "('a \<Rightarrow> 'b option) \<Rightarrow> 'a list \<Rightarrow> 'b option" where
  "first_some f [] = None"
| "first_some f (x # xs) = (case f x of Some y \<Rightarrow> Some y | None \<Rightarrow> first_some f xs)"

lemma first_some_cong [fundef_cong]:
  "xs = ys \<Longrightarrow> (\<And>x. x \<in> set ys \<Longrightarrow> f x = g x) \<Longrightarrow> first_some f xs = first_some g ys"
proof -
  assume "xs = ys" "\<And>x. x \<in> set ys \<Longrightarrow> f x = g x"
  then have "first_some f ys = first_some g ys" by (induction ys arbitrary: xs) (auto split: option.splits)
  then show ?thesis using \<open>xs = ys\<close> by simp
qed

fun As :: "err \<Rightarrow> err option" where
  "As (Error a c m d md u) = Some (Error a c m d md u)"
| "As (Foreign t us) = first_some As us"

definition is_Error :: "err \<Rightarrow> bool" where
  "is_Error e = (case e of Error _ _ _ _ _ _ \<Rightarrow> True | Foreign _ _ \<Rightarrow> False)"

definition alloc_meta :: "store \<Rightarrow> nat \<times> store" where
  "alloc_meta s = (st_next s, s\<lparr>st_metas := (st_metas s)(st_next s := Map.empty), st_next := st_next s + 1\<rparr>)"

text \<open>The loop writes pair after pair; a key that is not a string panics, with the writes before it done.\<close>

fun merge_loop :: "nat \<Rightarrow> any list \<Rightarrow> store \<Rightarrow> bool \<times> store" where
  "merge_loop md (AString key # v # pairs) s =
     merge_loop md pairs (s\<lparr>st_metas := (st_metas s)(md := (st_metas s md)(key \<mapsto> v))\<rparr>)"
| "merge_loop md (AOther _ # v # pairs) s = (False, s)"
| "merge_loop md _ s = (True, s)"

text \<open>\<open>None\<close> is a panic.\<close>

definition mergeMeta :: "nat option \<Rightarrow> any list \<Rightarrow> store \<Rightarrow> nat option option \<times> store" where
  "mergeMeta md pairs s =
     (if odd (length pairs) then (None, s)
      else case (if md = None \<and> pairs \<noteq> [] then (case alloc_meta s of (a, s1) \<Rightarrow> (Some a, s1)) else (md, s)) of
          (None, s1) \<Rightarrow> (Some None, s1)
        | (Some a, s1) \<Rightarrow> (case merge_loop a pairs s1 of (ok, s2) \<Rightarrow> (if ok then Some (Some a) else None, s2)))"

text \<open>A new \<open>*Error\<close> and its stack.\<close>

definition new_error :: "ErrCode \<Rightarrow> string \<Rightarrow> any option \<Rightarrow> nat option \<Rightarrow> err option \<Rightarrow> frames \<Rightarrow> store \<Rightarrow> err \<times> store" where
  "new_error c m d md u stk s =
     (Error (st_next s) c m d md u, s\<lparr>st_stacks := (st_stacks s)(st_next s := stk), st_next := st_next s + 1\<rparr>)"


section \<open>error.go\<close>

text \<open>Results: \<open>None\<close> is a panic; the inner option is a nil error.\<close>

definition wrap_with :: "ErrCode \<Rightarrow> err \<Rightarrow> string \<Rightarrow> any list \<Rightarrow> frames \<Rightarrow> store \<Rightarrow> err option option \<times> store" where
  "wrap_with code err msg metaPairs here s =
     (let (details, base, stk) = (case As err of
            Some ee \<Rightarrow> (e_Details ee, e_Meta ee, st_stacks s (e_addr ee))
          | None \<Rightarrow> (None, None, here))
      in case mergeMeta base metaPairs s of
           (None, s1) \<Rightarrow> (None, s1)
         | (Some md, s1) \<Rightarrow> (case new_error code msg details md (Some err) stk s1 of (e, s2) \<Rightarrow> (Some (Some e), s2)))"

definition Wrap :: "err option \<Rightarrow> string \<Rightarrow> any list \<Rightarrow> frames \<Rightarrow> store \<Rightarrow> err option option \<times> store" where
  "Wrap err msg metaPairs here s = (case err of
       None \<Rightarrow> (Some None, s)
     | Some err \<Rightarrow> wrap_with (case As err of Some ee \<Rightarrow> e_Code ee | None \<Rightarrow> Unknown) err msg metaPairs here s)"

definition WrapCode :: "err option \<Rightarrow> ErrCode \<Rightarrow> string \<Rightarrow> any list \<Rightarrow> frames \<Rightarrow> store \<Rightarrow> err option option \<times> store" where
  "WrapCode err code msg metaPairs here s = (case err of
       None \<Rightarrow> (Some None, s)
     | Some err \<Rightarrow> if code = OK then (Some None, s) else wrap_with code err msg metaPairs here s)"

definition Code :: "err option \<Rightarrow> ErrCode" where
  "Code err = (case err of None \<Rightarrow> OK | Some err \<Rightarrow> (case As err of Some e \<Rightarrow> e_Code e | None \<Rightarrow> Unknown))"

definition Meta :: "err option \<Rightarrow> nat option" where
  "Meta err = (case err of None \<Rightarrow> None | Some err \<Rightarrow> (case As err of Some e \<Rightarrow> e_Meta e | None \<Rightarrow> None))"

definition Details :: "err option \<Rightarrow> any option" where
  "Details err = (case err of None \<Rightarrow> None | Some err \<Rightarrow> (case As err of Some e \<Rightarrow> e_Details e | None \<Rightarrow> None))"

definition Unwrap :: "err \<Rightarrow> err option" where
  "Unwrap e = (case e of Error _ _ _ _ _ u \<Rightarrow> u | Foreign _ us \<Rightarrow> (case us of [x] \<Rightarrow> Some x | _ \<Rightarrow> None))"

text \<open>The loop of \<open>ErrorMessage\<close> over the builder's text so far.\<close>

fun message_loop :: "string \<Rightarrow> err \<Rightarrow> string" where
  "message_loop b (Error _ _ m _ _ u) =
     (let b1 = b @ (if b \<noteq> [] \<and> m \<noteq> [] then '': '' else []) @ m in
      case u of None \<Rightarrow> b1 | Some e \<Rightarrow> message_loop b1 e)"
| "message_loop b (Foreign t _) = b @ (if b \<noteq> [] \<and> t \<noteq> [] then '': '' else []) @ t"

definition ErrorMessage :: "err \<Rightarrow> string" where
  "ErrorMessage e = (case e_underlying e of None \<Rightarrow> e_Message e | Some next \<Rightarrow> message_loop (e_Message e) next)"

text \<open>\<open>err.Error()\<close> of any error; \<open>None\<close> is the panic of a code without a name.\<close>

definition err_Error :: "err \<Rightarrow> string option" where
  "err_Error e = (case e of
       Foreign t _ \<Rightarrow> Some t
     | Error _ c _ _ _ _ \<Rightarrow> if c = Unknown then Some (''unknown code: '' @ ErrorMessage e)
         else map_option (\<lambda>s. s @ '': '' @ ErrorMessage e) (ErrCode_String c))"

definition Convert :: "err option \<Rightarrow> frames \<Rightarrow> store \<Rightarrow> err option option \<times> store" where
  "Convert err here s = (case err of
       None \<Rightarrow> (Some None, s)
     | Some err \<Rightarrow> if is_Error err then (Some (Some err), s)
         else (case As err of
             Some e \<Rightarrow> (case err_Error err of
                 None \<Rightarrow> (None, s)
               | Some m \<Rightarrow> (case new_error (e_Code e) m (e_Details e) (e_Meta e) (Some err) (st_stacks s (e_addr e)) s of
                   (e', s') \<Rightarrow> (Some (Some e'), s')))
           | None \<Rightarrow> (case new_error Unknown [] None None (Some err) here s of (e', s') \<Rightarrow> (Some (Some e'), s'))))"


section \<open>builder.go\<close>

record Builder =
  b_code :: ErrCode
  b_codeSet :: bool
  b_det :: "any option"
  b_detSet :: bool
  b_stack :: frames
  b_stackSet :: bool
  b_msg :: string
  b_meta :: "any list"
  b_err :: "err option"

definition B :: Builder where
  "B = \<lparr>b_code = 0, b_codeSet = False, b_det = None, b_detSet = False, b_stack = [], b_stackSet = False,
     b_msg = [], b_meta = [], b_err = None\<rparr>"

definition Builder_Code :: "ErrCode \<Rightarrow> Builder \<Rightarrow> Builder" where
  "Builder_Code c b = b\<lparr>b_code := c, b_codeSet := True\<rparr>"

definition Builder_Msg :: "string \<Rightarrow> Builder \<Rightarrow> Builder" where
  "Builder_Msg msg b = b\<lparr>b_msg := msg\<rparr>"

definition Builder_Meta :: "any list \<Rightarrow> Builder \<Rightarrow> Builder" where
  "Builder_Meta metaPairs b = b\<lparr>b_meta := b_meta b @ metaPairs\<rparr>"

definition Builder_Details :: "any option \<Rightarrow> Builder \<Rightarrow> Builder" where
  "Builder_Details det b = b\<lparr>b_det := det, b_detSet := True\<rparr>"

definition Builder_Stack :: "frames \<Rightarrow> Builder \<Rightarrow> Builder" where
  "Builder_Stack stk b = b\<lparr>b_stack := stk, b_stackSet := True\<rparr>"

definition Builder_Cause :: "store \<Rightarrow> err option \<Rightarrow> Builder \<Rightarrow> Builder" where
  "Builder_Cause s err b = (case err of
       Some (Error a c m d md u) \<Rightarrow>
         b\<lparr>b_err := err, b_code := (if b_codeSet b then b_code b else c), b_det := (if b_detSet b then b_det b else d),
           b_stack := (if b_stackSet b then b_stack b else st_stacks s a), b_stackSet := True\<rparr>
     | _ \<Rightarrow> b\<lparr>b_err := err\<rparr>)"

definition Builder_Err :: "Builder \<Rightarrow> frames \<Rightarrow> store \<Rightarrow> err option \<times> store" where
  "Builder_Err b here s =
     (let code = (if b_code b = OK then Unknown else b_code b);
          msg = (if b_msg b = [] \<and> b_err b = None then ''unknown error'' else b_msg b);
          (errMeta, stk) = (if b_stackSet b then (None, b_stack b)
            else case b_err b of
                Some (Error a c m d md u) \<Rightarrow> (md, st_stacks s a)
              | _ \<Rightarrow> (None, here))
      in case mergeMeta errMeta (b_meta b) s of
           (None, s1) \<Rightarrow> (None, s1)
         | (Some md, s1) \<Rightarrow> (case new_error code msg (b_det b) md (b_err b) stk s1 of (e, s2) \<Rightarrow> (Some e, s2)))"


section \<open>errs\_internal.go\<close>

definition errs_Stack_of :: "err option \<Rightarrow> store \<Rightarrow> frames" where
  "errs_Stack_of err s = (case err of Some (Error a _ _ _ _ _) \<Rightarrow> st_stacks s a | _ \<Rightarrow> [])"

definition DropStackFrame :: "err option \<Rightarrow> store \<Rightarrow> err option \<times> store" where
  "DropStackFrame err s = (case err of
       Some (Error a _ _ _ _ _) \<Rightarrow>
         (err, if st_stacks s a \<noteq> [] then s\<lparr>st_stacks := (st_stacks s)(a := tl (st_stacks s a))\<rparr> else s)
     | _ \<Rightarrow> (err, s))"

text \<open>
  \<open>RoundTrip\<close>. The gob encodings of the details and of the metadata are the parameters \<open>gob_details\<close>
  and \<open>gob_meta\<close>: what is decoded again, \<open>None\<close> when a step fails.
\<close>

definition RoundTrip :: "(any \<Rightarrow> any option) \<Rightarrow> (Metadata \<Rightarrow> Metadata option) \<Rightarrow> (err \<Rightarrow> string)
    \<Rightarrow> err option \<Rightarrow> frames \<Rightarrow> store \<Rightarrow> err option \<times> store" where
  "RoundTrip gob_details gob_meta panic_text err here s = (case err of
       None \<Rightarrow> (None, s)
     | Some (Error a c m d md u) \<Rightarrow>
         let under = map_option (\<lambda>e. Foreign (case err_Error e of Some t \<Rightarrow> t | None \<Rightarrow> panic_text e) []) u;
             details = Option.bind d gob_details;
             (md', s1) = (case Option.bind md (\<lambda>r. gob_meta (st_metas s r)) of
                 None \<Rightarrow> (None, s)
               | Some mm \<Rightarrow> (case alloc_meta s of (r, s1) \<Rightarrow> (Some r, s1\<lparr>st_metas := (st_metas s1)(r := mm)\<rparr>)))
         in (case new_error c m details md' under here s1 of (e, s2) \<Rightarrow> (Some e, s2))
     | Some (Foreign t us) \<Rightarrow> (case new_error Unknown t None None None here s of (e, s1) \<Rightarrow> (Some e, s1)))"

definition HTTPStatus :: "err option \<Rightarrow> int" where
  "HTTPStatus err =
     (let code = Code err in
      if code = OK then 200
      else if code = Canceled then 499
      else if code = Unknown then 500
      else if code = InvalidArgument then 400
      else if code = DeadlineExceeded then 504
      else if code = NotFound then 404
      else if code = AlreadyExists then 409
      else if code = PermissionDenied then 403
      else if code = ResourceExhausted then 429
      else if code = FailedPrecondition then 400
      else if code = Aborted then 409
      else if code = OutOfRange then 400
      else if code = Unimplemented then 501
      else if code = Internal then 500
      else if code = Unavailable then 503
      else if code = DataLoss then 500
      else if code = Unauthenticated then 401
      else 500)"

record response =
  rs_header :: "(string \<times> string) list"
  rs_status :: int
  rs_body :: string

definition ok_body :: string where
  "ok_body = ''{'' @ [CHR 0x0A] @ ''  \"code\": \"ok\",'' @ [CHR 0x0A] @ ''  \"message\": \"\",'' @ [CHR 0x0A]
     @ ''  \"details\": null'' @ [CHR 0x0A] @ ''}'' @ [CHR 0x0A]"

text \<open>
  \<open>marshal\<close> is \<open>MarshalIndent\<close> of the object with the given code name, message and details; \<open>None\<close>
  is its error. The result \<open>None\<close> is a panic.
\<close>

definition marshal_error :: "(string \<Rightarrow> string \<Rightarrow> any option \<Rightarrow> string option) \<Rightarrow> err \<Rightarrow> string option option" where
  "marshal_error marshal e = map_option (\<lambda>n. marshal n (ErrorMessage e) (e_Details e)) (ErrCode_String (e_Code e))"

definition HTTPErrorWithCode :: "(string \<Rightarrow> string \<Rightarrow> any option \<Rightarrow> string option) \<Rightarrow> err option \<Rightarrow> int \<Rightarrow> frames \<Rightarrow> store
    \<Rightarrow> response option" where
  "HTTPErrorWithCode marshal err code here s =
     (let code = (if code = 0 then HTTPStatus err else code);
          resp = (\<lambda>body. \<lparr>rs_header = [(''Content-Type'', ''application/json''), (''X-Content-Type-Options'', ''nosniff'')],
            rs_status = code, rs_body = body\<rparr>)
      in case err of
           None \<Rightarrow> Some (resp ok_body)
         | Some _ \<Rightarrow> (case fst (Convert err here s) of
               Some (Some e) \<Rightarrow> (case marshal_error marshal e of
                   None \<Rightarrow> None
                 | Some (Some data) \<Rightarrow> Some (resp data)
                 | Some None \<Rightarrow> (case marshal_error marshal (Error 0 (e_Code e) (e_Message e) None None None) of
                       None \<Rightarrow> None
                     | Some data \<Rightarrow> Some (resp (case data of Some d \<Rightarrow> d | None \<Rightarrow> []))))
             | _ \<Rightarrow> None))"

definition HTTPError :: "(string \<Rightarrow> string \<Rightarrow> any option \<Rightarrow> string option) \<Rightarrow> err option \<Rightarrow> frames \<Rightarrow> store \<Rightarrow> response option" where
  "HTTPError marshal err here s = HTTPErrorWithCode marshal err 0 here s"


section \<open>Messages\<close>

text \<open>The messages from an error down to the first one that is not an \<open>*Error\<close>.\<close>

fun messages :: "err \<Rightarrow> string list" where
  "messages (Error _ _ m _ _ u) = m # (case u of None \<Rightarrow> [] | Some e \<Rightarrow> messages e)"
| "messages (Foreign t _) = [t]"

definition join_messages :: "string list \<Rightarrow> string" where
  "join_messages ms = Join '': '' (filter (\<lambda>m. m \<noteq> []) ms)"

lemma join_messages_Cons:
  "join_messages (a # b # ms) = join_messages ((a @ (if a \<noteq> [] \<and> b \<noteq> [] then '': '' else []) @ b) # ms)"
  by (cases "filter (\<lambda>m. m \<noteq> []) ms") (auto simp: join_messages_def)

lemma message_loop_join: "message_loop b e = join_messages (b # messages e)"
proof (induction b e rule: message_loop.induct)
  case (1 b a c m d md u)
  then show ?case by (cases u) (simp_all add: join_messages_Cons Let_def, auto simp: join_messages_def)
next
  case (2 b t us)
  show ?case unfolding messages.simps join_messages_Cons by (simp add: join_messages_def)
qed

lemma ErrorMessage_join: "is_Error e \<Longrightarrow> ErrorMessage e = join_messages (messages e)"
  by (cases e) (auto simp: is_Error_def ErrorMessage_def message_loop_join join_messages_def split: option.splits)


section \<open>Wrapping\<close>

definition meta_map :: "store \<Rightarrow> nat option \<Rightarrow> Metadata" where
  "meta_map s md = (case md of None \<Rightarrow> Map.empty | Some r \<Rightarrow> st_metas s r)"

lemma meta_map_simps [simp]: "meta_map s None = Map.empty" "meta_map (s\<lparr>st_stacks := x, st_next := n\<rparr>) md = meta_map s md"
  by (simp_all add: meta_map_def split: option.splits)

fun pairs_of :: "any list \<Rightarrow> (string \<times> any) list option" where
  "pairs_of [] = Some []"
| "pairs_of (AString k # v # xs) = map_option (\<lambda>kvs. (k, v) # kvs) (pairs_of xs)"
| "pairs_of _ = None"

definition put_pairs :: "Metadata \<Rightarrow> (string \<times> any) list \<Rightarrow> Metadata" where
  "put_pairs m kvs = foldl (\<lambda>m (k, v). m(k \<mapsto> v)) m kvs"

lemma pairs_of_even: "pairs_of xs = Some kvs \<Longrightarrow> even (length xs) \<and> (xs = [] \<longleftrightarrow> kvs = [])"
  by (induction xs arbitrary: kvs rule: pairs_of.induct) auto

lemma merge_loop_pairs:
  "pairs_of xs = Some kvs \<Longrightarrow> merge_loop r xs s = (True, s\<lparr>st_metas := (st_metas s)(r := put_pairs (st_metas s r) kvs)\<rparr>)"
  by (induction r xs s arbitrary: kvs rule: merge_loop.induct) (auto simp: put_pairs_def)

lemma mergeMeta_pairs:
  assumes "pairs_of xs = Some kvs"
  shows "\<exists>md' s'. mergeMeta md xs s = (Some md', s') \<and> meta_map s' md' = put_pairs (meta_map s md) kvs
    \<and> st_stacks s' = st_stacks s"
proof (cases md)
  case None
  then show ?thesis
    using pairs_of_even [OF assms] merge_loop_pairs [OF assms]
    by (cases "xs = []") (auto simp: mergeMeta_def alloc_meta_def meta_map_def put_pairs_def)
next
  case (Some r)
  then show ?thesis
    using pairs_of_even [OF assms] merge_loop_pairs [OF assms] by (auto simp: mergeMeta_def meta_map_def)
qed

lemma wrap_with_pairs:
  assumes "pairs_of xs = Some kvs"
  obtains e s' where "wrap_with code err msg xs here s = (Some (Some e), s')" "is_Error e" "e_Code e = code" "e_Message e = msg"
    "e_Details e = Details (Some err)" "e_underlying e = Some err" "meta_map s' (e_Meta e) = put_pairs (meta_map s (Meta (Some err))) kvs"
    "st_stacks s' (e_addr e) = (case As err of Some ee \<Rightarrow> st_stacks s (e_addr ee) | None \<Rightarrow> here)"
proof (cases "As err")
  case None
  then show ?thesis
    using that mergeMeta_pairs [OF assms, of None s]
    by (auto simp: wrap_with_def new_error_def Details_def Meta_def is_Error_def)
next
  case (Some ee)
  then show ?thesis
    using that mergeMeta_pairs [OF assms, of "e_Meta ee" s]
    by (auto simp: wrap_with_def new_error_def Details_def Meta_def is_Error_def)
qed

lemma As_Error: "is_Error e \<Longrightarrow> As e = Some e"
  by (cases e) (simp_all add: is_Error_def)

lemma Wrap_pairs:
  assumes "pairs_of xs = Some kvs"
  obtains e s' where "Wrap (Some err) msg xs here s = (Some (Some e), s')" "is_Error e" "e_Code e = Code (Some err)"
    "e_Message e = msg" "e_Details e = Details (Some err)" "e_underlying e = Some err"
    "meta_map s' (e_Meta e) = put_pairs (meta_map s (Meta (Some err))) kvs"
    "st_stacks s' (e_addr e) = (case As err of Some ee \<Rightarrow> st_stacks s (e_addr ee) | None \<Rightarrow> here)"
  by (rule wrap_with_pairs [OF assms, of "Code (Some err)" err msg here s]) (use that in \<open>auto simp: Wrap_def Code_def\<close>)

lemma is_Error_reports:
  "is_Error e \<Longrightarrow> Code (Some e) = e_Code e \<and> Details (Some e) = e_Details e \<and> Meta (Some e) = e_Meta e \<and> Unwrap e = e_underlying e"
  by (cases e) (simp_all add: is_Error_def Code_def Details_def Meta_def Unwrap_def)

lemma messages_Error: "is_Error e \<Longrightarrow> e_underlying e = Some u \<Longrightarrow> messages e = e_Message e # messages u"
  by (cases e) (simp_all add: is_Error_def)

text \<open>C19. \<open>Wrap\<close> of an error with an even list of pairs whose keys are strings returns an
  \<open>*Error\<close> that unwraps to that error and reports its code, details and HTTP status; its metadata is
  that of the error overwritten by the pairs in order, its stack the stack of the first \<open>*Error\<close>
  below or else the one captured here, and its message the given one joined by colons with the
  non-empty messages below.\<close>

theorem wrap_reports:
  assumes "pairs_of xs = Some kvs"
  shows "\<exists>e s'. Wrap (Some err) msg xs here s = (Some (Some e), s') \<and> Unwrap e = Some err
    \<and> Code (Some e) = Code (Some err) \<and> Details (Some e) = Details (Some err) \<and> HTTPStatus (Some e) = HTTPStatus (Some err)
    \<and> meta_map s' (Meta (Some e)) = put_pairs (meta_map s (Meta (Some err))) kvs
    \<and> errs_Stack_of (Some e) s' = (case As err of Some ee \<Rightarrow> errs_Stack_of (Some ee) s | None \<Rightarrow> here)
    \<and> ErrorMessage e = join_messages (msg # messages err)"
proof -
  obtain e s' where e: "Wrap (Some err) msg xs here s = (Some (Some e), s')" "is_Error e" "e_Code e = Code (Some err)"
    "e_Message e = msg" "e_Details e = Details (Some err)" "e_underlying e = Some err"
    "meta_map s' (e_Meta e) = put_pairs (meta_map s (Meta (Some err))) kvs"
    "st_stacks s' (e_addr e) = (case As err of Some ee \<Rightarrow> st_stacks s (e_addr ee) | None \<Rightarrow> here)"
    by (rule Wrap_pairs [OF assms])
  have as: "is_Error ee" if "As err = Some ee" for ee
    using that
  proof (induction err rule: As.induct)
    case (2 t us)
    then show ?case by (induction us) (auto split: option.splits)
  qed (auto simp: is_Error_def)
  have stk: "errs_Stack_of (Some x) t = st_stacks t (e_addr x)" if "is_Error x" for x t
    using that by (cases x) (simp_all add: is_Error_def errs_Stack_of_def)
  have "errs_Stack_of (Some e) s' = (case As err of Some ee \<Rightarrow> errs_Stack_of (Some ee) s | None \<Rightarrow> here)"
    using e(8) stk [OF e(2)] stk [OF as] by (auto split: option.splits)
  then show ?thesis
    using e is_Error_reports [OF e(2)] ErrorMessage_join [OF e(2)] messages_Error [OF e(2,6)]
    by (auto simp: HTTPStatus_def)
qed

definition sample_store :: store where
  "sample_store = \<lparr>st_metas = (\<lambda>_. Map.empty), st_stacks = (\<lambda>_. []), st_next = 5\<rparr>"

theorem wrap_reports_witness:
  "pairs_of [AString ''k'', AOther 1] = Some [(''k'', AOther 1)] \<and> (\<exists>e s'.
     Wrap (Some (Foreign ''ctx'' [Error 1 NotFound ''no row'' None (Some 2) None])) ''load'' [AString ''k'', AOther 1] [7] sample_store
       = (Some (Some e), s')
     \<and> Code (Some e) = NotFound \<and> HTTPStatus (Some e) = 404 \<and> meta_map s' (Meta (Some e)) = [''k'' \<mapsto> AOther 1]
     \<and> ErrorMessage e = ''load: ctx'')"
  using wrap_reports [of "[AString ''k'', AOther 1]" "[(''k'', AOther 1)]"
      "Foreign ''ctx'' [Error 1 NotFound ''no row'' None (Some 2) None]" "''load''" "[7]" sample_store]
  by (auto simp: Code_def HTTPStatus_def Meta_def meta_map_def sample_store_def put_pairs_def join_messages_def)


section \<open>Status\<close>

lemma index_cases: "0 \<le> c \<Longrightarrow> c \<le> 16 \<Longrightarrow> c \<in> set (map int [0..<17])" for c :: int
  by (auto simp: image_iff intro!: bexI [of _ "nat c"])

lemma status_table: "0 \<le> Code err \<Longrightarrow> Code err \<le> 16 \<Longrightarrow> ErrCode_HTTPStatus (Code err) = Some (HTTPStatus err)"
  using index_cases [of "Code err"]
  by (auto simp: ErrCode_HTTPStatus_def index_def codeStatus_def HTTPStatus_def upt_rec)

text \<open>Five codes share their status with another; the others can be told from it.\<close>

lemma status_to_code:
  "0 \<le> Code err \<Longrightarrow> Code err \<le> 16 \<Longrightarrow> Code err \<notin> {Unknown, FailedPrecondition, Aborted, OutOfRange, DataLoss}
   \<Longrightarrow> HTTPStatusToCode (HTTPStatus err) = Code err"
  using index_cases [of "Code err"]
  by (auto simp: HTTPStatusToCode_def statusToCode_def HTTPStatus_def upt_rec)

text \<open>
  Wrapping any number of times, by \<open>Wrap\<close> with well-formed pairs or by an error of another type
  that unwraps to the error, keeps code, details and status.
\<close>

inductive wrapped :: "err \<Rightarrow> err \<Rightarrow> bool" where
  wrapped_self: "wrapped err err"
| wrapped_Wrap: "wrapped err e \<Longrightarrow> pairs_of xs = Some kvs \<Longrightarrow> Wrap (Some e) msg xs here s = (Some (Some e'), s') \<Longrightarrow> wrapped err e'"
| wrapped_foreign: "wrapped err e \<Longrightarrow> wrapped err (Foreign t [e])"

lemma wrapped_keeps: "wrapped err e \<Longrightarrow> Code (Some e) = Code (Some err) \<and> Details (Some e) = Details (Some err)
    \<and> HTTPStatus (Some e) = HTTPStatus (Some err)"
proof (induction rule: wrapped.induct)
  case (wrapped_Wrap err e xs kvs msg here s e' s')
  obtain f s2 where f: "Wrap (Some e) msg xs here s = (Some (Some f), s2)" "is_Error f" "e_Code f = Code (Some e)"
    "e_Details f = Details (Some e)" by (rule Wrap_pairs [OF wrapped_Wrap.hyps(2)])
  then have "f = e'" using wrapped_Wrap.hyps(3) by simp
  then show ?case using f is_Error_reports [OF f(2)] wrapped_Wrap.IH by (simp add: HTTPStatus_def)
next
  case (wrapped_foreign err e t)
  then show ?case by (auto simp: Code_def Details_def HTTPStatus_def split: option.splits)
qed simp

text \<open>C20. \<open>HTTPError\<close> of an error whose code has a name does not panic: it answers with
  the status of the code table and the JSON of the code name, the joined messages and the details,
  or of the outermost message alone where the details cannot be encoded; a nil error is answered
  with status 200 and the code \<open>ok\<close>.\<close>

theorem http_error_reports:
  assumes "0 \<le> Code err" "Code err \<le> 16" "\<And>n m. marshal n m None \<noteq> None"
  shows "\<exists>resp. HTTPError marshal err here s = Some resp \<and> Some (rs_status resp) = ErrCode_HTTPStatus (Code err)
    \<and> (case err of None \<Rightarrow> rs_body resp = ok_body
       | Some e \<Rightarrow> \<exists>e' s' n. Convert err here s = (Some (Some e'), s') \<and> Code (Some e') = Code err
           \<and> ErrCode_String (Code err) = Some n
           \<and> Some (rs_body resp) = (case marshal n (join_messages (messages e')) (Details err) of
                Some body \<Rightarrow> Some body | None \<Rightarrow> marshal n (e_Message e') None))"
proof (cases err)
  case None
  then show ?thesis using status_table [OF assms(1,2)] by (simp add: HTTPError_def HTTPErrorWithCode_def Let_def)
next
  case (Some e)
  obtain n where n: "ErrCode_String (Code err) = Some n"
    using assms(1,2) by (auto simp: ErrCode_String_def index_def codeNames_def)
  obtain e' s' where e': "Convert err here s = (Some (Some e'), s')" "is_Error e'" "Code (Some e') = Code err"
    "e_Details e' = Details err"
    using Some is_Error_reports [of e]
    by (cases "is_Error e"; cases "As e") (auto simp: Convert_def new_error_def err_Error_def is_Error_def Code_def Details_def split: err.splits)
  have m: "marshal_error marshal e' = Some (marshal n (join_messages (messages e')) (Details err))"
    using e' is_Error_reports [OF e'(2)] n by (simp add: marshal_error_def ErrorMessage_join)
  have "marshal_error marshal (Error 0 (e_Code e') (e_Message e') None None None) = Some (marshal n (e_Message e') None)"
    using e' is_Error_reports [OF e'(2)] n by (simp add: marshal_error_def ErrorMessage_def)
  then show ?thesis
    using Some e' m n status_table [OF assms(1,2)] assms(3) [of n "e_Message e'"]
    by (auto simp: HTTPError_def HTTPErrorWithCode_def Let_def split: option.splits)
qed

definition sample_marshal :: "string \<Rightarrow> string \<Rightarrow> any option \<Rightarrow> string option" where
  "sample_marshal n m d = (if d = None then Some (n @ ''|'' @ m) else None)"

theorem http_error_reports_witness:
  "Code (Some (Error 0 NotFound ''no row'' (Some (AOther 3)) None (Some (Foreign ''eof'' [])))) = NotFound
   \<and> (\<exists>resp. HTTPError sample_marshal (Some (Error 0 NotFound ''no row'' (Some (AOther 3)) None (Some (Foreign ''eof'' [])))) [] sample_store = Some resp
     \<and> rs_status resp = 404 \<and> rs_body resp = ''not_found|no row'')"
proof -
  let ?e = "Error 0 NotFound ''no row'' (Some (AOther 3)) None (Some (Foreign ''eof'' []))"
  have c: "Code (Some ?e) = NotFound" "Details (Some ?e) = Some (AOther 3)" by (simp_all add: Code_def Details_def)
  have h: "0 \<le> Code (Some ?e)" "Code (Some ?e) \<le> 16" by (simp_all add: c)
  have m: "sample_marshal n m None \<noteq> None" for n m by (simp add: sample_marshal_def)
  show ?thesis
    using http_error_reports [where marshal = sample_marshal, OF h m, of "[]" sample_store]
    by (auto simp: c Convert_def is_Error_def sample_marshal_def ErrCode_String_def ErrCode_HTTPStatus_def index_def codeNames_def codeStatus_def)
qed


section \<open>Builders and round trips\<close>

text \<open>\<open>Err\<close> returns an error with a code other than \<open>OK\<close> and never without a message or a cause.\<close>

lemma Builder_Err_reports:
  assumes "pairs_of (b_meta b) = Some kvs"
  obtains e s' where "Builder_Err b here s = (Some e, s')" "is_Error e"
    "e_Code e = (if b_code b = OK then Unknown else b_code b)" "e_Code e \<noteq> OK"
    "e_Message e \<noteq> [] \<or> e_underlying e \<noteq> None" "e_Details e = b_det b" "e_underlying e = b_err b"
proof -
  obtain errMeta stk where t: "(if b_stackSet b then (None, b_stack b)
      else case b_err b of Some (Error a c m d md u) \<Rightarrow> (md, st_stacks s a) | _ \<Rightarrow> (None, here)) = (errMeta, stk)"
    by (rule prod.exhaust)
  obtain md s1 where m: "mergeMeta errMeta (b_meta b) s = (Some md, s1)" using mergeMeta_pairs [OF assms] by blast
  show ?thesis
    by (rule that [of "fst (new_error (if b_code b = OK then Unknown else b_code b)
          (if b_msg b = [] \<and> b_err b = None then ''unknown error'' else b_msg b) (b_det b) md (b_err b) stk s1)"])
      (use t m in \<open>simp_all add: Builder_Err_def Let_def new_error_def is_Error_def\<close>)
qed

text \<open>
  Where gob encodes details and metadata faithfully, \<open>RoundTrip\<close> copies an \<open>*Error\<close>: code, message,
  details and the contents of the metadata, the map being a new one.
\<close>

lemma RoundTrip_copies:
  assumes "\<And>d. gob_details d = Some d" "\<And>m. gob_meta m = Some m" "is_Error e"
  obtains e' s' where "RoundTrip gob_details gob_meta panic_text (Some e) here s = (Some e', s')"
    "Code (Some e') = Code (Some e)" "e_Message e' = e_Message e" "Details (Some e') = Details (Some e)"
    "meta_map s' (Meta (Some e')) = meta_map s (Meta (Some e))" "e_Meta e' \<noteq> None \<Longrightarrow> e_Meta e' = Some (st_next s)"
proof (cases e)
  case (Error a c m d md u)
  then show ?thesis
    using that assms(1,2)
    by (cases md; cases d) (auto simp: RoundTrip_def Let_def new_error_def alloc_meta_def Code_def Details_def Meta_def meta_map_def)
qed (use assms(3) in \<open>simp add: is_Error_def\<close>)


section \<open>Divergences\<close>

text \<open>\<open>Wrap\<close> writes its pairs into the metadata of the wrapped error, which shares the map.\<close>

lemma wrap_changes_cause:
  "let cause = Error 1 NotFound ''no row'' None (Some 2) None;
       (_, s') = Wrap (Some cause) ''load'' [AString ''k'', AOther 1] [] sample_store
   in meta_map sample_store (Meta (Some cause)) = Map.empty \<and> meta_map s' (Meta (Some cause)) = [''k'' \<mapsto> AOther 1]"
  by (simp add: Wrap_def wrap_with_def mergeMeta_def new_error_def Meta_def meta_map_def sample_store_def)

text \<open>\<open>Convert\<close> of an error that wraps an \<open>*Error\<close> reports its text twice.\<close>

lemma convert_repeats_message:
  "fst (Convert (Some (Foreign ''ctx: not_found: no row'' [Error 1 NotFound ''no row'' None None None])) [] sample_store)
     = Some (Some (Error 5 NotFound ''ctx: not_found: no row'' None None
         (Some (Foreign ''ctx: not_found: no row'' [Error 1 NotFound ''no row'' None None None]))))
   \<and> ErrorMessage (Error 5 NotFound ''ctx: not_found: no row'' None None
         (Some (Foreign ''ctx: not_found: no row'' [Error 1 NotFound ''no row'' None None None])))
     = ''ctx: not_found: no row: ctx: not_found: no row''"
  by (simp add: Convert_def is_Error_def new_error_def err_Error_def sample_store_def ErrorMessage_def)

text \<open>\<open>RoundTrip\<close> of such an error forgets the code that \<open>Code\<close> reports for it.\<close>

lemma roundtrip_forgets_code:
  "let err = Foreign ''ctx'' [Error 1 NotFound ''no row'' None None None]
   in Code (Some err) = NotFound \<and> Code (fst (RoundTrip Some Some (\<lambda>_. []) (Some err) [] sample_store)) = Unknown"
  by (simp add: Code_def RoundTrip_def new_error_def)

text \<open>\<open>Cause\<close> sets the stack, so \<open>Err\<close> never looks at the metadata of the cause.\<close>

lemma builder_drops_cause_meta:
  "is_Error e \<Longrightarrow> b_meta b = [] \<Longrightarrow> \<exists>e'. fst (Builder_Err (Builder_Cause s (Some e) b) here s) = Some e' \<and> e_Meta e' = None"
  by (cases e) (auto simp: is_Error_def Builder_Cause_def Builder_Err_def Let_def mergeMeta_def new_error_def)

text \<open>A code outside the tables panics when printed.\<close>

lemma unnamed_code_panics: "err_Error (Error 1 17 ''m'' None None None) = None"
  by (simp add: err_Error_def ErrCode_String_def index_def codeNames_def)

end
