(* ===== verification/Lock_Map.thy ===== *)
theory Lock_Map
  imports Go_Prelude "HOL-Library.Multiset"
begin

text \<open>
  Locks per key (\<open>pkg/emulators/storage/gcsutil\<close>: \<open>transient_lock_map.go\<close>, \<open>counted_lock.go\<close>). Lock objects
  live in a store, as an object that was taken out of the map may still be referred to while a new
  one for the same key is made. A section under the map's mutex is one atomic step, as are the
  operations on an object's channel; the calls in progress are a multiset, so that any number of
  goroutines may hold any number of keys. A step carries the event its caller sees.
\<close>

section \<open>State\<close>

record countedLock =
  cl_full :: bool
  cl_refcount :: int

definition newCountedLock :: countedLock where
  "newCountedLock = \<lparr>cl_full = False, cl_refcount = 0\<rparr>"

text \<open>
  Where a call stands. \<open>Locking\<close>: the object is found or made and counted, the channel comes next;
  \<open>GivingUp\<close>: the context ended first; \<open>Holding\<close>: \<open>Lock\<close> returned true and \<open>Unlock\<close> is not called yet (the
  object is recorded for the proofs, the caller does not know it); \<open>Unlocking\<close>: the object is looked
  up; \<open>Returning\<close>: its channel is emptied.
\<close>

datatype lock_call = Locking string nat | GivingUp string nat | Holding string nat
  | Unlocking string nat | Returning string nat

record TransientLockMap =
  lm_locks :: "string \<rightharpoonup> nat"
  lm_objects :: "nat \<Rightarrow> countedLock"
  lm_next :: nat
  lm_calls :: "lock_call multiset"
  lm_panic :: bool

definition NewTransientLockMap :: TransientLockMap where
  "NewTransientLockMap = \<lparr>lm_locks = Map.empty, lm_objects = (\<lambda>_. newCountedLock), lm_next = 0, lm_calls = {#}, lm_panic = False\<rparr>"


section \<open>Operations\<close>

text \<open>The sections of \<open>Lock\<close> and \<open>Unlock\<close> under the map's mutex.\<close>

definition lm_enter :: "string \<Rightarrow> TransientLockMap \<Rightarrow> nat \<times> TransientLockMap" where
  "lm_enter key l =
     (let (lock, l1) = (case lm_locks l key of
            Some lock \<Rightarrow> (lock, l)
          | None \<Rightarrow> (lm_next l, l\<lparr>lm_objects := (lm_objects l)(lm_next l := newCountedLock),
              lm_locks := (lm_locks l)(key \<mapsto> lm_next l), lm_next := lm_next l + 1\<rparr>));
          c = lm_objects l1 lock
      in (lock, l1\<lparr>lm_objects := (lm_objects l1)(lock := c\<lparr>cl_refcount := cl_refcount c + 1\<rparr>)\<rparr>))"

definition lm_lookup :: "string \<Rightarrow> TransientLockMap \<Rightarrow> nat option" where
  "lm_lookup key l = lm_locks l key"

definition returnLockObj :: "string \<Rightarrow> nat \<Rightarrow> TransientLockMap \<Rightarrow> TransientLockMap" where
  "returnLockObj key lock l =
     (let c = lm_objects l lock;
          l1 = l\<lparr>lm_objects := (lm_objects l)(lock := c\<lparr>cl_refcount := cl_refcount c - 1\<rparr>)\<rparr>;
          n = cl_refcount (lm_objects l1 lock)
      in if n < 0 then l1\<lparr>lm_panic := True\<rparr>
         else if n = 0 then l1\<lparr>lm_locks := (lm_locks l1)(key := None)\<rparr>
         else l1)"

text \<open>Sending to the channel of one element blocks while it is full; receiving from an empty one panics.\<close>

definition countedLock_Lock :: "countedLock \<Rightarrow> countedLock option" where
  "countedLock_Lock c = (if cl_full c then None else Some (c\<lparr>cl_full := True\<rparr>))"

definition countedLock_Unlock :: "countedLock \<Rightarrow> countedLock option" where
  "countedLock_Unlock c = (if cl_full c then Some (c\<lparr>cl_full := False\<rparr>) else None)"


section \<open>Steps\<close>

datatype lock_event = Acquired string | Released string

text \<open>
  Any call of \<open>Lock\<close> may start; a context may end at any time; a caller unlocks what it holds. \<open>Run\<close> is
  \<open>Lock\<close>, the callback and \<open>Unlock\<close>.
\<close>

inductive lock_step :: "TransientLockMap \<Rightarrow> lock_event option \<Rightarrow> TransientLockMap \<Rightarrow> bool" where
  lm_call_lock: "lm_enter key l = (lock, l') \<Longrightarrow>
    lock_step l None (l'\<lparr>lm_calls := add_mset (Locking key lock) (lm_calls l')\<rparr>)"
| lm_acquire: "lm_calls l = add_mset (Locking key lock) M \<Longrightarrow> countedLock_Lock (lm_objects l lock) = Some c \<Longrightarrow>
    lock_step l (Some (Acquired key)) (l\<lparr>lm_objects := (lm_objects l)(lock := c), lm_calls := add_mset (Holding key lock) M\<rparr>)"
| lm_cancelled: "lm_calls l = add_mset (Locking key lock) M \<Longrightarrow>
    lock_step l None (l\<lparr>lm_calls := add_mset (GivingUp key lock) M\<rparr>)"
| lm_give_up: "lm_calls l = add_mset (GivingUp key lock) M \<Longrightarrow>
    lock_step l None ((returnLockObj key lock l)\<lparr>lm_calls := M\<rparr>)"
| lm_call_unlock: "lm_calls l = add_mset (Holding key h) M \<Longrightarrow> lm_lookup key l = Some lock \<Longrightarrow>
    lock_step l None (l\<lparr>lm_calls := add_mset (Unlocking key lock) M\<rparr>)"
| lm_not_held: "lm_calls l = add_mset (Holding key h) M \<Longrightarrow> lm_lookup key l = None \<Longrightarrow>
    lock_step l None (l\<lparr>lm_calls := M, lm_panic := True\<rparr>)"
| lm_unlock: "lm_calls l = add_mset (Unlocking key lock) M \<Longrightarrow> countedLock_Unlock (lm_objects l lock) = Some c \<Longrightarrow>
    lock_step l (Some (Released key)) (l\<lparr>lm_objects := (lm_objects l)(lock := c), lm_calls := add_mset (Returning key lock) M\<rparr>)"
| lm_unlock_panic: "lm_calls l = add_mset (Unlocking key lock) M \<Longrightarrow> countedLock_Unlock (lm_objects l lock) = None \<Longrightarrow>
    lock_step l None (l\<lparr>lm_calls := M, lm_panic := True\<rparr>)"
| lm_return: "lm_calls l = add_mset (Returning key lock) M \<Longrightarrow>
    lock_step l None ((returnLockObj key lock l)\<lparr>lm_calls := M\<rparr>)"

inductive lock_run :: "TransientLockMap \<Rightarrow> lock_event list \<Rightarrow> bool" where
  lm_start: "lock_run NewTransientLockMap []"
| lm_more: "lock_run l es \<Longrightarrow> lock_step l e l' \<Longrightarrow> lock_run l' (es @ (case e of None \<Rightarrow> [] | Some e \<Rightarrow> [e]))"


section \<open>Invariant\<close>

primrec call_key :: "lock_call \<Rightarrow> string" where
  "call_key (Locking k a) = k"
| "call_key (GivingUp k a) = k"
| "call_key (Holding k a) = k"
| "call_key (Unlocking k a) = k"
| "call_key (Returning k a) = k"

primrec call_lock :: "lock_call \<Rightarrow> nat" where
  "call_lock (Locking k a) = a"
| "call_lock (GivingUp k a) = a"
| "call_lock (Holding k a) = a"
| "call_lock (Unlocking k a) = a"
| "call_lock (Returning k a) = a"

primrec owns :: "lock_call \<Rightarrow> bool" where
  "owns (Locking k a) = False"
| "owns (GivingUp k a) = False"
| "owns (Holding k a) = True"
| "owns (Unlocking k a) = True"
| "owns (Returning k a) = False"

definition users :: "nat \<Rightarrow> lock_call multiset \<Rightarrow> nat" where
  "users a M = size (filter_mset (\<lambda>c. call_lock c = a) M)"

definition owners :: "nat \<Rightarrow> lock_call multiset \<Rightarrow> nat" where
  "owners a M = size (filter_mset (\<lambda>c. call_lock c = a \<and> owns c) M)"

lemma users_simps [simp]: "users a {#} = 0" "users a (add_mset c M) = (if call_lock c = a then Suc (users a M) else users a M)"
  by (simp_all add: users_def)

lemma owners_simps [simp]: "owners a {#} = 0"
  "owners a (add_mset c M) = (if call_lock c = a \<and> owns c then Suc (owners a M) else owners a M)"
  by (simp_all add: owners_def)

text \<open>
  An object is in the map, under its one key, exactly as long as calls refer to it; its count is the
  number of these calls, and it is full exactly when one of them owns it.
\<close>

definition object_ok :: "TransientLockMap \<Rightarrow> string \<Rightarrow> nat \<Rightarrow> bool" where
  "object_ok l k a \<longleftrightarrow> a < lm_next l \<and> 0 < users a (lm_calls l)
     \<and> cl_refcount (lm_objects l a) = int (users a (lm_calls l))
     \<and> owners a (lm_calls l) = of_bool (cl_full (lm_objects l a))
     \<and> (\<forall>k'. lm_locks l k' = Some a \<longrightarrow> k' = k)"

definition lm_ok :: "TransientLockMap \<Rightarrow> bool" where
  "lm_ok l \<longleftrightarrow> \<not> lm_panic l
     \<and> (\<forall>c\<in>#lm_calls l. lm_locks l (call_key c) = Some (call_lock c))
     \<and> (\<forall>k a. lm_locks l k = Some a \<longrightarrow> object_ok l k a)"

lemma users_pos: "c \<in># M \<Longrightarrow> 0 < users (call_lock c) M"
  by (auto simp: users_def simp flip: nonempty_has_size)

lemma users_0: "users a M = 0 \<longleftrightarrow> (\<forall>c\<in>#M. call_lock c \<noteq> a)"
  by (induction M) auto

lemma owners_le: "owners a M \<le> users a M"
  by (induction M) auto

lemma lm_okD:
  assumes "lm_ok l"
  shows "\<not> lm_panic l" "c \<in># lm_calls l \<Longrightarrow> lm_locks l (call_key c) = Some (call_lock c)"
    "lm_locks l k = Some a \<Longrightarrow> object_ok l k a"
  using assms by (simp_all add: lm_ok_def)

lemma lm_okI:
  assumes "\<not> lm_panic l" "\<And>c. c \<in># lm_calls l \<Longrightarrow> lm_locks l (call_key c) = Some (call_lock c)"
    "\<And>k a. lm_locks l k = Some a \<Longrightarrow> object_ok l k a"
  shows "lm_ok l"
  using assms by (simp add: lm_ok_def)

text \<open>What changes one object, and the calls on it, keeps what holds of the others.\<close>

lemma object_ok_other:
  assumes "object_ok l k a" "lm_locks l' k = Some a" "\<And>k. lm_locks l' k = Some a \<Longrightarrow> lm_locks l k = Some a"
    "lm_objects l' a = lm_objects l a" "lm_next l \<le> lm_next l'"
    "users a (lm_calls l') = users a (lm_calls l)" "owners a (lm_calls l') = owners a (lm_calls l)"
  shows "object_ok l' k a"
  using assms by (auto simp: object_ok_def)

lemma lm_ok_enter:
  assumes ok: "lm_ok l" and e: "lm_enter key l = (lock, l')"
  shows "lm_ok (l'\<lparr>lm_calls := add_mset (Locking key lock) (lm_calls l')\<rparr>)" (is "lm_ok ?l")
proof (cases "lm_locks l key")
  case (Some a)
  then have l': "lock = a" "l' = l\<lparr>lm_objects := (lm_objects l)(a := lm_objects l a\<lparr>cl_refcount := cl_refcount (lm_objects l a) + 1\<rparr>)\<rparr>"
    using e by (auto simp: lm_enter_def Let_def)
  show ?thesis
  proof (rule lm_okI)
    fix k b assume k: "lm_locks ?l k = Some b"
    then have b: "object_ok l k b" using lm_okD(3) [OF ok] by (simp add: l')
    show "object_ok ?l k b"
    proof (cases "b = a")
      case True
      with b show ?thesis by (simp add: object_ok_def l')
    next
      case False
      then show ?thesis by (intro object_ok_other [OF b k]) (simp_all add: l')
    qed
  next
    fix c assume "c \<in># lm_calls ?l"
    with Some lm_okD(2) [OF ok, of c] show "lm_locks ?l (call_key c) = Some (call_lock c)" by (auto simp: l')
  qed (use lm_okD(1) [OF ok] in \<open>simp add: l'\<close>)
next
  case None
  let ?n = "lm_next l"
  from None e have l': "lock = ?n" "l' = l\<lparr>lm_objects := (lm_objects l)(?n := newCountedLock\<lparr>cl_refcount := 1\<rparr>),
      lm_locks := (lm_locks l)(key \<mapsto> ?n), lm_next := ?n + 1\<rparr>"
    by (auto simp: lm_enter_def newCountedLock_def)
  have lt: "lm_locks l k = Some a \<Longrightarrow> a \<noteq> ?n" for k a using lm_okD(3) [OF ok, of k a] by (simp add: object_ok_def)
  then have "\<forall>c\<in>#lm_calls l. call_lock c \<noteq> ?n" using lm_okD(2) [OF ok] by blast
  then have u: "users ?n (lm_calls l) = 0" by (simp add: users_0)
  with owners_le [of ?n "lm_calls l"] have 0: "users ?n (lm_calls l) = 0" "owners ?n (lm_calls l) = 0" by simp_all
  show ?thesis
  proof (rule lm_okI)
    fix k b assume k: "lm_locks ?l k = Some b"
    show "object_ok ?l k b"
    proof (cases "k = key")
      case True
      with k lt 0 show ?thesis by (auto simp: l' object_ok_def newCountedLock_def split: if_splits)
    next
      case False
      with k have b: "lm_locks l k = Some b" by (simp add: l')
      show ?thesis by (rule object_ok_other [OF lm_okD(3) [OF ok b] k]) (use lt [OF b] in \<open>auto simp: l' split: if_splits\<close>)
    qed
  next
    fix c assume "c \<in># lm_calls ?l"
    with None lm_okD(2) [OF ok, of c] show "lm_locks ?l (call_key c) = Some (call_lock c)" by (auto simp: l')
  qed (use lm_okD(1) [OF ok] in \<open>simp add: l'\<close>)
qed

text \<open>A call that goes on to its next stage, and a call that ends.\<close>

lemma lm_ok_swap:
  assumes ok: "lm_ok l" and c: "lm_calls l = add_mset c M"
    and c': "call_key c' = call_key c" "call_lock c' = call_lock c"
    and x: "cl_refcount x = cl_refcount (lm_objects l (call_lock c))"
      "of_bool (cl_full x) + of_bool (owns c) = (of_bool (cl_full (lm_objects l (call_lock c))) + of_bool (owns c') :: nat)"
  shows "lm_ok (l\<lparr>lm_objects := (lm_objects l)(call_lock c := x), lm_calls := add_mset c' M\<rparr>)" (is "lm_ok ?l")
proof (rule lm_okI)
  fix k a assume k: "lm_locks ?l k = Some a"
  then have o: "object_ok l k a" using lm_okD(3) [OF ok] by simp
  show "object_ok ?l k a"
  proof (cases "a = call_lock c")
    case True
    have "owners a (add_mset c M) = owners a M + of_bool (owns c)" "owners a (add_mset c' M) = owners a M + of_bool (owns c')"
      using c' True by simp_all
    moreover have "owners a (add_mset c M) = of_bool (cl_full (lm_objects l a))" using o c by (simp add: object_ok_def)
    moreover have "of_bool (cl_full x) + of_bool (owns c) = of_bool (cl_full (lm_objects l a)) + (of_bool (owns c') :: nat)"
      using x(2) True by simp
    ultimately have "owners a (add_mset c' M) = of_bool (cl_full x)" by linarith
    with o c c' x(1) True show ?thesis by (simp add: object_ok_def del: owners_simps)
  next
    case False
    with k c c' show ?thesis by (intro object_ok_other [OF o k]) auto
  qed
qed (use lm_okD(1,2) [OF ok] c c' in auto)

lemma lm_ok_return:
  assumes ok: "lm_ok l" and c: "lm_calls l = add_mset c M" and w: "\<not> owns c"
  shows "lm_ok ((returnLockObj (call_key c) (call_lock c) l)\<lparr>lm_calls := M\<rparr>)" (is "lm_ok ?l")
proof -
  let ?a = "call_lock c" and ?k = "call_key c"
  have k: "lm_locks l ?k = Some ?a" using lm_okD(2) [OF ok] c by simp
  note o = lm_okD(3) [OF ok k]
  then have u: "cl_refcount (lm_objects l ?a) = 1 + int (users ?a M)" by (simp add: object_ok_def c)
  have l: "?l = l\<lparr>lm_locks := (if users ?a M = 0 then (lm_locks l)(?k := None) else lm_locks l),
      lm_objects := (lm_objects l)(?a := lm_objects l ?a\<lparr>cl_refcount := int (users ?a M)\<rparr>), lm_calls := M\<rparr>"
    using u by (simp add: returnLockObj_def)
  show ?thesis unfolding l
  proof (rule lm_okI, goal_cases)
    case 1
    show ?case using lm_okD(1) [OF ok] by simp
  next
    case (2 c')
    then have c': "c' \<in># M" by simp
    then have l': "lm_locks l (call_key c') = Some (call_lock c')" using lm_okD(2) [OF ok, of c'] c by simp
    show ?case
    proof (cases "call_key c' = ?k")
      case True
      with l' k users_pos [OF c'] show ?thesis by simp
    qed (simp add: l')
  next
    case (3 k' a)
    then have k': "lm_locks l k' = Some a" by (auto split: if_splits)
    show ?case
    proof (cases "a = ?a")
      case True
      with k' o have "k' = ?k" by (simp add: object_ok_def)
      with 3 True have "users ?a M \<noteq> 0" by (auto split: if_splits)
      with o w \<open>k' = ?k\<close> show ?thesis unfolding True by (simp add: object_ok_def c)
    next
      case False
      have 4: "lm_locks l j = Some a" if "lm_locks (l\<lparr>lm_locks := (if users ?a M = 0 then (lm_locks l)(?k := None) else lm_locks l),
        lm_objects := (lm_objects l)(?a := lm_objects l ?a\<lparr>cl_refcount := int (users ?a M)\<rparr>), lm_calls := M\<rparr>) j = Some a" for j
        using that by (simp split: if_splits)
      show ?thesis by (rule object_ok_other [OF lm_okD(3) [OF ok k'] 3 4]) (use False in \<open>simp_all add: c\<close>)
    qed
  qed
qed

text \<open>A step keeps the invariant.\<close>

lemma lm_ok_step:
  assumes "lock_step l e l'" "lm_ok l"
  shows "lm_ok l'"
  using assms
proof cases
  case (lm_call_lock key lock l1)
  with assms(2) show ?thesis using lm_ok_enter by blast
next
  case (lm_acquire key lock M c)
  with lm_ok_swap [OF assms(2), of "Locking key lock" M "Holding key lock" c] show ?thesis
    by (auto simp: countedLock_Lock_def split: if_splits)
next
  case (lm_cancelled key lock M)
  with lm_ok_swap [OF assms(2), of "Locking key lock" M "GivingUp key lock" "lm_objects l lock"] show ?thesis by simp
next
  case (lm_give_up key lock M)
  with lm_ok_return [OF assms(2), of "GivingUp key lock"] show ?thesis by simp
next
  case (lm_call_unlock key h M lock)
  moreover from this have "lock = h" using lm_okD(2) [OF assms(2), of "Holding key h"] by (simp add: lm_lookup_def)
  ultimately show ?thesis using lm_ok_swap [OF assms(2), of "Holding key h" M "Unlocking key lock" "lm_objects l lock"] by simp
next
  case (lm_not_held key h M)
  with lm_okD(2) [OF assms(2), of "Holding key h"] show ?thesis by (simp add: lm_lookup_def)
next
  case (lm_unlock key lock M c)
  with lm_ok_swap [OF assms(2), of "Unlocking key lock" M "Returning key lock" c] show ?thesis
    by (auto simp: countedLock_Unlock_def split: if_splits)
next
  case (lm_unlock_panic key lock M)
  with lm_okD(3) [OF assms(2) lm_okD(2) [OF assms(2), of "Unlocking key lock"]] show ?thesis
    by (simp add: countedLock_Unlock_def object_ok_def split: if_splits)
next
  case (lm_return key lock M)
  with lm_ok_return [OF assms(2), of "Returning key lock"] show ?thesis by simp
qed

lemma lm_ok_run: "lock_run l es \<Longrightarrow> lm_ok l"
proof (induction rule: lock_run.induct)
  case lm_start
  show ?case by (simp add: lm_ok_def NewTransientLockMap_def)
next
  case (lm_more l es e l')
  then show ?case by (blast intro: lm_ok_step)
qed


section \<open>A mutex per key\<close>

text \<open>The contract: a key that is held is not acquired, and only a key that is held is released.\<close>

fun mutex_step :: "lock_event \<Rightarrow> string set \<Rightarrow> string set option" where
  "mutex_step (Acquired k) H = (if k \<in> H then None else Some (insert k H))"
| "mutex_step (Released k) H = (if k \<in> H then Some (H - {k}) else None)"

fun mutex_run :: "lock_event list \<Rightarrow> string set \<Rightarrow> string set option" where
  "mutex_run [] H = Some H"
| "mutex_run (e # es) H = (case mutex_step e H of None \<Rightarrow> None | Some H' \<Rightarrow> mutex_run es H')"

definition held_keys :: "TransientLockMap \<Rightarrow> string set" where
  "held_keys l = call_key ` {c. c \<in># lm_calls l \<and> owns c}"

lemma owned_add [simp]: "{c. c \<in># add_mset c' M \<and> owns c} = (if owns c' then insert c' {c. c \<in># M \<and> owns c} else {c. c \<in># M \<and> owns c})"
  by auto

lemma mutex_run_append: "mutex_run (es @ fs) H = (case mutex_run es H of None \<Rightarrow> None | Some H' \<Rightarrow> mutex_run fs H')"
  by (induction es arbitrary: H) (auto split: option.splits)

lemma owner_full:
  assumes "lm_ok l" "c \<in># lm_calls l" "owns c"
  shows "cl_full (lm_objects l (call_lock c))"
proof (rule ccontr)
  assume "\<not> cl_full (lm_objects l (call_lock c))"
  then have "owners (call_lock c) (lm_calls l) = 0"
    using lm_okD(3) [OF assms(1) lm_okD(2) [OF assms(1,2)]] by (simp add: object_ok_def)
  with assms(2,3) show False by (auto simp: owners_def)
qed

lemma one_owner:
  assumes ok: "lm_ok l" and c: "lm_calls l = add_mset c M" "owns c" and c': "c' \<in># M" "owns c'"
  shows "call_key c' \<noteq> call_key c"
proof
  assume "call_key c' = call_key c"
  then have "call_lock c' = call_lock c" using lm_okD(2) [OF ok, of c] lm_okD(2) [OF ok, of c'] c c' by simp
  moreover from multi_member_split [OF c'(1)] obtain N where "M = add_mset c' N" by blast
  ultimately have "2 \<le> owners (call_lock c) (lm_calls l)" using c c'(2) by simp
  moreover have "owners (call_lock c) (lm_calls l) = of_bool (cl_full (lm_objects l (call_lock c)))"
    using lm_okD(3) [OF ok lm_okD(2) [OF ok, of c]] c by (simp add: object_ok_def)
  ultimately show False by (simp add: of_bool_def split: if_splits)
qed

text \<open>Every step is a step of the contract, or leaves the held keys as they are.\<close>

lemma mutex_simulation:
  assumes "lock_step l e l'" and ok: "lm_ok l"
  shows "case e of None \<Rightarrow> held_keys l' = held_keys l | Some ev \<Rightarrow> mutex_step ev (held_keys l) = Some (held_keys l')"
  using assms(1)
proof cases
  case (lm_call_lock key lock l1)
  then have "lm_calls l1 = lm_calls l" by (auto simp: lm_enter_def Let_def split: option.splits)
  with lm_call_lock show ?thesis by (auto simp: held_keys_def)
next
  case (lm_acquire key lock M c)
  have "call_key c' \<noteq> key" if "c' \<in># M" "owns c'" for c'
  proof
    assume "call_key c' = key"
    then have "call_lock c' = lock" using lm_okD(2) [OF ok, of c'] lm_okD(2) [OF ok, of "Locking key lock"] lm_acquire that by simp
    then show False using owner_full [OF ok, of c'] lm_acquire that by (simp add: countedLock_Lock_def split: if_splits)
  qed
  then have "key \<notin> call_key ` {c. c \<in># M \<and> owns c}" by blast
  with lm_acquire show ?thesis by (simp add: held_keys_def del: set_mset_add_mset_insert)
next
  case (lm_unlock key lock M c)
  then have "key \<notin> call_key ` {c. c \<in># M \<and> owns c}" using one_owner [OF ok, of "Unlocking key lock" M] by auto
  with lm_unlock show ?thesis by (simp add: held_keys_def del: set_mset_add_mset_insert)
next
  case (lm_call_unlock key h M lock)
  then show ?thesis by (simp add: held_keys_def del: set_mset_add_mset_insert)
next
  case (lm_not_held key h M)
  with lm_okD(2) [OF ok, of "Holding key h"] show ?thesis by (simp add: lm_lookup_def)
next
  case (lm_unlock_panic key lock M)
  with owner_full [OF ok, of "Unlocking key lock"] show ?thesis by (simp add: countedLock_Unlock_def)
qed (auto simp: held_keys_def)

lemma mutex_refinement: "lock_run l es \<Longrightarrow> mutex_run es {} = Some (held_keys l)"
proof (induction rule: lock_run.induct)
  case lm_start
  show ?case by (simp add: held_keys_def NewTransientLockMap_def)
next
  case (lm_more l es e l')
  with mutex_simulation [OF lm_more(2) lm_ok_run [OF lm_more(1)]] show ?case
    by (auto simp: mutex_run_append split: option.splits)
qed

lemma in_map_iff_used:
  assumes "lm_ok l"
  shows "dom (lm_locks l) = call_key ` set_mset (lm_calls l)"
proof
  show "dom (lm_locks l) \<subseteq> call_key ` set_mset (lm_calls l)"
  proof
    fix k assume "k \<in> dom (lm_locks l)"
    then obtain a where a: "lm_locks l k = Some a" by blast
    have o: "object_ok l k a" using lm_okD(3) [OF assms a] .
    then have "\<not> users a (lm_calls l) = 0" by (simp add: object_ok_def)
    then obtain c where c: "c \<in># lm_calls l" "call_lock c = a" by (auto simp: users_0)
    with lm_okD(2) [OF assms c(1)] o have "call_key c = k" by (simp add: object_ok_def)
    with c show "k \<in> call_key ` set_mset (lm_calls l)" by blast
  qed
qed (use lm_okD(2) [OF assms] in blast)

text \<open>C14. Whatever the interleaving of calls of Lock, with contexts that end at any time, and of
  Unlock by callers that hold their key, the locks taken and released obey the contract of one mutex
  per key: no key is acquired while it is held, also when its lock object was dropped and made
  again. None of the three panics happens, and the map holds an object exactly for the keys with a
  call in progress, so that it does not grow with the keys that were ever locked.
\<close>

theorem lock_map_is_mutex:
  assumes "lock_run l es"
  shows "mutex_run es {} = Some (held_keys l) \<and> \<not> lm_panic l \<and> dom (lm_locks l) = call_key ` set_mset (lm_calls l)"
  using mutex_refinement [OF assms] lm_okD(1) in_map_iff_used lm_ok_run [OF assms] by blast

lemma lock_run_silent: "lock_run l es \<Longrightarrow> lock_step l None l' \<Longrightarrow> lock_run l' es"
  using lm_more [of l es None] by simp

lemma lock_run_event: "lock_run l es \<Longrightarrow> lock_step l (Some e) l' \<Longrightarrow> lock_run l' (es @ [e])"
  using lm_more [of l es "Some e"] by simp

text \<open>A run: one call holds the key \<open>k\<close> while another waits for it.\<close>

definition contended :: TransientLockMap where
  "contended = \<lparr>lm_locks = [''k'' \<mapsto> 0], lm_objects = (\<lambda>_. newCountedLock)(0 := \<lparr>cl_full = True, cl_refcount = 2\<rparr>), lm_next = 1,
     lm_calls = {# Locking ''k'' 0, Holding ''k'' 0 #}, lm_panic = False\<rparr>"

lemma contended_run: "lock_run contended [Acquired ''k'']"
proof -
  let ?o = "\<lambda>b n. (\<lambda>_. newCountedLock)(0 := \<lparr>cl_full = b, cl_refcount = n\<rparr>)"
  let ?s = "\<lambda>b n cs. \<lparr>lm_locks = [''k'' \<mapsto> 0], lm_objects = ?o b n, lm_next = 1, lm_calls = cs, lm_panic = False\<rparr>"
  have 1: "lock_run (?s False 1 {# Locking ''k'' 0 #}) []"
    using lock_run_silent [OF lm_start lm_call_lock [of "''k''" NewTransientLockMap 0 "?s False 1 {#}"]]
    by (simp add: lm_enter_def NewTransientLockMap_def newCountedLock_def fun_eq_iff)
  have 2: "lock_run (?s True 1 {# Holding ''k'' 0 #}) [Acquired ''k'']"
    using lock_run_event [OF 1 lm_acquire [of _ "''k''" 0 "{#}" "\<lparr>cl_full = True, cl_refcount = 1\<rparr>"]]
    by (simp add: countedLock_Lock_def)
  show ?thesis unfolding contended_def
    using lock_run_silent [OF 2 lm_call_lock [of "''k''" _ 0 "?s True 2 {# Holding ''k'' 0 #}"]]
    by (simp add: lm_enter_def)
qed

theorem lock_map_is_mutex_witness:
  "lock_run contended [Acquired ''k''] \<and> mutex_run [Acquired ''k''] {} = Some (held_keys contended)
     \<and> held_keys contended = {''k''} \<and> \<not> lm_panic contended"
  using contended_run lock_map_is_mutex [OF contended_run] by simp


section \<open>No call is stuck\<close>

primrec stages :: "lock_call \<Rightarrow> nat" where
  "stages (Locking k a) = 4"
| "stages (GivingUp k a) = 1"
| "stages (Holding k a) = 3"
| "stages (Unlocking k a) = 2"
| "stages (Returning k a) = 1"

definition waiting :: "string \<Rightarrow> lock_call multiset \<Rightarrow> nat" where
  "waiting k M = size (filter_mset (\<lambda>c. \<exists>a. c = Locking k a) M)"

definition acquisitions :: "string \<Rightarrow> lock_event list \<Rightarrow> nat" where
  "acquisitions k es = length (filter (\<lambda>e. e = Acquired k) es)"

lemma waiting_simps [simp]: "waiting k {#} = 0"
  "waiting k (add_mset c M) = (if \<exists>a. c = Locking k a then Suc (waiting k M) else waiting k M)"
  by (simp_all add: waiting_def)

text \<open>A call in progress can go on: one that is not waiting always, and otherwise no lock is held.\<close>

lemma lock_call_progress:
  assumes ok: "lm_ok l" and ne: "lm_calls l \<noteq> {#}"
  shows "\<exists>e l'. lock_step l e l' \<and> (\<Sum>c\<in>#lm_calls l'. stages c) < (\<Sum>c\<in>#lm_calls l. stages c)
    \<and> (\<forall>k. waiting k (lm_calls l) = waiting k (lm_calls l') + of_bool (e = Some (Acquired k)))"
proof (cases "\<exists>c. c \<in># lm_calls l \<and> (\<forall>k a. c \<noteq> Locking k a)")
  case True
  then obtain c M where c: "lm_calls l = add_mset c M" "\<forall>k a. c \<noteq> Locking k a" using multi_member_split by metis
  show ?thesis
  proof (cases c)
    case (GivingUp k a)
    with lm_give_up c show ?thesis by fastforce
  next
    case (Holding k a)
    with lm_okD(2) [OF ok, of c] c have "lm_lookup k l = Some a" by (simp add: lm_lookup_def)
    with lm_call_unlock c Holding show ?thesis by fastforce
  next
    case (Unlocking k a)
    with owner_full [OF ok, of c] c have "countedLock_Unlock (lm_objects l a) = Some (lm_objects l a\<lparr>cl_full := False\<rparr>)"
      by (simp add: countedLock_Unlock_def)
    with lm_unlock c Unlocking show ?thesis by fastforce
  next
    case (Returning k a)
    with lm_return c show ?thesis by fastforce
  qed (use c in auto)
next
  case False
  then have L: "\<forall>c\<in>#lm_calls l. \<not> owns c" by (metis owns.simps(1))
  from ne obtain c M where c: "lm_calls l = add_mset c M" by (meson multiset_cases)
  with False obtain k a where ka: "c = Locking k a" by fastforce
  have "owners a (lm_calls l) = 0" using L by (auto simp: owners_def)
  then have "\<not> cl_full (lm_objects l a)"
    using lm_okD(3) [OF ok lm_okD(2) [OF ok, of c]] c ka by (simp add: object_ok_def)
  then have "countedLock_Lock (lm_objects l a) = Some (lm_objects l a\<lparr>cl_full := True\<rparr>)" by (simp add: countedLock_Lock_def)
  with lm_acquire c ka show ?thesis by fastforce
qed

lemma lock_map_completes:
  assumes "lock_run l es"
  shows "\<exists>l' fs. lock_run l' (es @ fs) \<and> lm_calls l' = {#} \<and> (\<forall>k. acquisitions k fs = waiting k (lm_calls l))"
  using assms
proof (induction "\<Sum>c\<in>#lm_calls l. stages c" arbitrary: l es rule: less_induct)
  case less
  show ?case
  proof (cases "lm_calls l = {#}")
    case True
    with less.prems show ?thesis by (intro exI [of _ l] exI [of _ "[]"]) (simp add: acquisitions_def)
  next
    case False
    from lock_call_progress [OF lm_ok_run [OF less.prems] False] obtain e l1 where s: "lock_step l e l1"
      "(\<Sum>c\<in>#lm_calls l1. stages c) < (\<Sum>c\<in>#lm_calls l. stages c)"
      "\<forall>k. waiting k (lm_calls l) = waiting k (lm_calls l1) + of_bool (e = Some (Acquired k))" by blast
    let ?es = "case e of None \<Rightarrow> [] | Some e \<Rightarrow> [e]"
    from less.hyps [OF s(2) lm_more [OF less.prems s(1)]] obtain l' fs where
      "lock_run l' ((es @ ?es) @ fs)" "lm_calls l' = {#}" "\<forall>k. acquisitions k fs = waiting k (lm_calls l1)" by blast
    then show ?thesis using s(3)
      by (intro exI [of _ l'] exI [of _ "?es @ fs"]) (simp add: acquisitions_def split: option.splits)
  qed
qed

text \<open>C24. From every state the lock map can reach there is a continuation in which each waiting
  call acquires its key, as many times as there are calls waiting for it, without any context
  ending, and in which every call returns. Then the map is empty again.
\<close>

theorem lock_map_drains:
  assumes "lock_run l es"
  shows "\<exists>l' fs. lock_run l' (es @ fs) \<and> lm_calls l' = {#} \<and> lm_locks l' = Map.empty
    \<and> (\<forall>k. acquisitions k fs = waiting k (lm_calls l))"
proof -
  from lock_map_completes [OF assms] obtain l' fs where r: "lock_run l' (es @ fs)" "lm_calls l' = {#}"
    "\<forall>k. acquisitions k fs = waiting k (lm_calls l)" by blast
  with in_map_iff_used [OF lm_ok_run [OF r(1)]] have "lm_locks l' = Map.empty" by simp
  with r show ?thesis by blast
qed

theorem lock_map_drains_witness:
  "\<exists>l' fs. lock_run l' (Acquired ''k'' # fs) \<and> lm_locks l' = Map.empty \<and> acquisitions ''k'' fs = 1"
  using lock_map_drains [OF contended_run] by (auto simp: contended_def split: if_splits)

end
