(* ===== verification/Work_Pool.thy ===== *)
theory Work_Pool
  imports Go_Prelude "HOL-Library.Multiset" "HOL-Library.Sublist"
begin

text \<open>
  The workers of a subscription (\<open>runtimes/go/pubsub/internal/utils/workers.go\<close>): a fetcher and a fixed
  number of workers that share a channel, a counter and a context. A step is one operation on what
  they share. The functions that fetch and process are parameters: the results they may return.
  What was fetched, finished and dropped is recorded in fields the program does not have.
\<close>

section \<open>The functions that fetch and process\<close>

datatype ('v, 'r) outcome = Ret 'r | Panic 'v

text \<open>A panic of either function becomes an error.\<close>

definition fetchWithPanicHandling :: "('v \<Rightarrow> 'e) \<Rightarrow> ('v, 'e + 'w list) outcome \<Rightarrow> 'e + 'w list" where
  "fetchWithPanicHandling perr r = (case r of Ret x \<Rightarrow> x | Panic v \<Rightarrow> Inl (perr v))"

definition workWithPanicHandling :: "('v \<Rightarrow> 'e) \<Rightarrow> ('v, 'e option) outcome \<Rightarrow> 'e option" where
  "workWithPanicHandling perr r = (case r of Ret x \<Rightarrow> x | Panic v \<Rightarrow> Some (perr v))"

datatype work_mode = Single_Routine | Infinite_Routines int | Work_Pool int int

definition WorkConcurrently :: "int \<Rightarrow> int \<Rightarrow> work_mode" where
  "WorkConcurrently maxConcurrency maxBatchSize =
     (if maxConcurrency = 1 then Single_Routine
      else if maxConcurrency \<le> 0 then Infinite_Routines (if maxBatchSize \<le> 0 then 100 else maxBatchSize)
      else Work_Pool maxConcurrency maxBatchSize)"


section \<open>The pool\<close>

text \<open>
  Where the fetcher stands: at the head of the loop, before it reads the counter, before the select
  for a free worker and in it, asleep, in the fetch function, passing items on, past the loop,
  returned.
\<close>

datatype 'w fetcher = Checking | Counting | Selecting | Waiting | Sleeping | Fetching int | Passing "'w list" | Leaving | Returned

text \<open>
  Where a worker stands: receiving, before the counter is incremented, in the worker function,
  before the counter is decremented, before it signals that it is done, past its loop.
\<close>

datatype 'w pool_worker = Receiving | Starting 'w | Processing 'w | Finishing 'w | Signalling | Exited

record ('w, 'e) work_pool =
  wp_fetcher :: "'w fetcher"
  wp_workers :: "'w pool_worker multiset"
  workItemsBeingProcessed :: int
  wp_cause :: "'e option"
  wp_result :: "'e option"
  wp_fetched :: "'w multiset"
  wp_done :: "'w multiset"
  wp_dropped :: "'w multiset"

definition pool_start :: "nat \<Rightarrow> ('w, 'e) work_pool" where
  "pool_start numWorkers = \<lparr>wp_fetcher = Checking, wp_workers = replicate_mset numWorkers Receiving, workItemsBeingProcessed = 0,
     wp_cause = None, wp_result = None, wp_fetched = {#}, wp_done = {#}, wp_dropped = {#}\<rparr>"

text \<open>The first cause of a cancellation stays.\<close>

definition cancelFetch :: "'e \<Rightarrow> ('w, 'e) work_pool \<Rightarrow> ('w, 'e) work_pool" where
  "cancelFetch e s = (case wp_cause s of None \<Rightarrow> s\<lparr>wp_cause := Some e\<rparr> | Some _ \<Rightarrow> s)"

definition pool_toFetch :: "int \<Rightarrow> int \<Rightarrow> ('w, 'e) work_pool \<Rightarrow> int" where
  "pool_toFetch maxConcurrency maxBatchSize s =
     (let toFetch = maxConcurrency - workItemsBeingProcessed s
      in if maxBatchSize > 0 \<and> toFetch > maxBatchSize then maxBatchSize else toFetch)"

definition pool_cause :: "('e \<Rightarrow> bool) \<Rightarrow> 'e option \<Rightarrow> 'e option" where
  "pool_cause isCanceled cause = (case cause of Some e \<Rightarrow> if isCanceled e then None else Some e | None \<Rightarrow> None)"

text \<open>
  The steps. The parent context may be cancelled at any time; the channel of the workers is closed
  once the fetcher has returned; a worker's signal reaches the fetcher only when that is waiting.
\<close>

inductive pool_step :: "int \<Rightarrow> int \<Rightarrow> (int \<Rightarrow> 'e + 'w list \<Rightarrow> bool) \<Rightarrow> ('w \<Rightarrow> 'e option \<Rightarrow> bool) \<Rightarrow> ('e \<Rightarrow> bool)
    \<Rightarrow> ('w, 'e) work_pool \<Rightarrow> ('w, 'e) work_pool \<Rightarrow> bool"
  for maxConcurrency maxBatchSize :: int and fetches processes isCanceled where
  wp_parent: "pool_step maxConcurrency maxBatchSize fetches processes isCanceled s (cancelFetch e s)"
| wp_check: "wp_fetcher s = Checking \<Longrightarrow>
    pool_step maxConcurrency maxBatchSize fetches processes isCanceled s
      (s\<lparr>wp_fetcher := if wp_cause s = None then Counting else Leaving\<rparr>)"
| wp_count: "wp_fetcher s = Counting \<Longrightarrow>
    pool_step maxConcurrency maxBatchSize fetches processes isCanceled s
      (s\<lparr>wp_fetcher := if pool_toFetch maxConcurrency maxBatchSize s = 0 then Selecting
          else Fetching (pool_toFetch maxConcurrency maxBatchSize s)\<rparr>)"
| wp_select: "wp_fetcher s = Selecting \<Longrightarrow>
    pool_step maxConcurrency maxBatchSize fetches processes isCanceled s (s\<lparr>wp_fetcher := Waiting\<rparr>)"
| wp_wait_done: "wp_fetcher s = Waiting \<Longrightarrow> wp_cause s \<noteq> None \<Longrightarrow>
    pool_step maxConcurrency maxBatchSize fetches processes isCanceled s (s\<lparr>wp_fetcher := Leaving\<rparr>)"
| wp_spuriousWakeup: "wp_fetcher s = Waiting \<Longrightarrow>
    pool_step maxConcurrency maxBatchSize fetches processes isCanceled s (s\<lparr>wp_fetcher := Checking\<rparr>)"
| wp_slept: "wp_fetcher s = Sleeping \<Longrightarrow>
    pool_step maxConcurrency maxBatchSize fetches processes isCanceled s (s\<lparr>wp_fetcher := Checking\<rparr>)"
| wp_fetch_error: "wp_fetcher s = Fetching n \<Longrightarrow> fetches n (Inl e) \<Longrightarrow>
    pool_step maxConcurrency maxBatchSize fetches processes isCanceled s ((cancelFetch e s)\<lparr>wp_fetcher := Leaving\<rparr>)"
| wp_fetch: "wp_fetcher s = Fetching n \<Longrightarrow> fetches n (Inr work) \<Longrightarrow>
    pool_step maxConcurrency maxBatchSize fetches processes isCanceled s
      (s\<lparr>wp_fetcher := if work = [] then Sleeping else Passing work, wp_fetched := wp_fetched s + mset work\<rparr>)"
| wp_pass: "wp_fetcher s = Passing (w # work) \<Longrightarrow> wp_workers s = add_mset Receiving M \<Longrightarrow>
    pool_step maxConcurrency maxBatchSize fetches processes isCanceled s
      (s\<lparr>wp_fetcher := Passing work, wp_workers := add_mset (Starting w) M\<rparr>)"
| wp_drop: "wp_fetcher s = Passing (w # work) \<Longrightarrow> wp_cause s \<noteq> None \<Longrightarrow>
    pool_step maxConcurrency maxBatchSize fetches processes isCanceled s
      (s\<lparr>wp_fetcher := Leaving, wp_dropped := wp_dropped s + mset (w # work)\<rparr>)"
| wp_passed: "wp_fetcher s = Passing [] \<Longrightarrow>
    pool_step maxConcurrency maxBatchSize fetches processes isCanceled s (s\<lparr>wp_fetcher := Checking\<rparr>)"
| wp_leave: "wp_fetcher s = Leaving \<Longrightarrow>
    pool_step maxConcurrency maxBatchSize fetches processes isCanceled s
      (s\<lparr>wp_fetcher := Returned, wp_result := pool_cause isCanceled (wp_cause s)\<rparr>)"
| wp_incr: "wp_workers s = add_mset (Starting w) M \<Longrightarrow>
    pool_step maxConcurrency maxBatchSize fetches processes isCanceled s
      (s\<lparr>workItemsBeingProcessed := workItemsBeingProcessed s + 1, wp_workers := add_mset (Processing w) M\<rparr>)"
| wp_process: "wp_workers s = add_mset (Processing w) M \<Longrightarrow> processes w r \<Longrightarrow>
    pool_step maxConcurrency maxBatchSize fetches processes isCanceled s
      ((case r of None \<Rightarrow> s | Some e \<Rightarrow> cancelFetch e s)\<lparr>wp_workers := add_mset (Finishing w) M\<rparr>)"
| wp_decr: "wp_workers s = add_mset (Finishing w) M \<Longrightarrow>
    pool_step maxConcurrency maxBatchSize fetches processes isCanceled s
      (s\<lparr>workItemsBeingProcessed := workItemsBeingProcessed s - 1, wp_workers := add_mset Signalling M,
         wp_done := add_mset w (wp_done s)\<rparr>)"
| wp_signal: "wp_workers s = add_mset Signalling M \<Longrightarrow>
    pool_step maxConcurrency maxBatchSize fetches processes isCanceled s
      (s\<lparr>wp_fetcher := if wp_fetcher s = Waiting then Sleeping else wp_fetcher s, wp_workers := add_mset Receiving M\<rparr>)"
| wp_exit: "wp_workers s = add_mset Receiving M \<Longrightarrow> wp_fetcher s = Returned \<Longrightarrow>
    pool_step maxConcurrency maxBatchSize fetches processes isCanceled s (s\<lparr>wp_workers := add_mset Exited M\<rparr>)"

abbreviation pool_steps where
  "pool_steps mx b fetches processes isCanceled \<equiv> (pool_step mx b fetches processes isCanceled)\<^sup>*\<^sup>*"


section \<open>Invariant\<close>

primrec worker_items :: "'w pool_worker \<Rightarrow> 'w multiset" where
  "worker_items Receiving = {#}"
| "worker_items (Starting w) = {#w#}"
| "worker_items (Processing w) = {#w#}"
| "worker_items (Finishing w) = {#w#}"
| "worker_items Signalling = {#}"
| "worker_items Exited = {#}"

primrec counted :: "'w pool_worker \<Rightarrow> bool" where
  "counted Receiving = False"
| "counted (Starting w) = False"
| "counted (Processing w) = True"
| "counted (Finishing w) = True"
| "counted Signalling = False"
| "counted Exited = False"

definition items_with_workers :: "'w pool_worker multiset \<Rightarrow> 'w multiset" where
  "items_with_workers M = (\<Sum>p\<in>#M. worker_items p)"

definition busy :: "'w pool_worker multiset \<Rightarrow> nat" where
  "busy M = size (filter_mset counted M)"

primrec items_pending :: "'w fetcher \<Rightarrow> 'w list" where
  "items_pending Checking = []"
| "items_pending Counting = []"
| "items_pending Selecting = []"
| "items_pending Waiting = []"
| "items_pending Sleeping = []"
| "items_pending (Fetching n) = []"
| "items_pending (Passing work) = work"
| "items_pending Leaving = []"
| "items_pending Returned = []"

text \<open>Fetched, but neither finished nor dropped.\<close>

definition in_flight :: "('w, 'e) work_pool \<Rightarrow> 'w multiset" where
  "in_flight s = mset (items_pending (wp_fetcher s)) + items_with_workers (wp_workers s)"

lemma items_with_workers_simps [simp]: "items_with_workers {#} = {#}"
  "items_with_workers (add_mset p M) = worker_items p + items_with_workers M"
  by (simp_all add: items_with_workers_def)

lemma busy_simps [simp]: "busy {#} = 0" "busy (add_mset p M) = (if counted p then Suc (busy M) else busy M)"
  by (simp_all add: busy_def)

lemma busy_le: "busy M \<le> size M"
  by (simp add: busy_def size_filter_mset_lesseq)

lemma items_with_workers_le: "size (items_with_workers M) \<le> size M"
proof (induction M)
  case (add p M)
  then show ?case by (cases p) auto
qed simp

definition pool_ok :: "int \<Rightarrow> ('w, 'e) work_pool \<Rightarrow> bool" where
  "pool_ok mx s \<longleftrightarrow> int (size (wp_workers s)) = mx
     \<and> workItemsBeingProcessed s = int (busy (wp_workers s))
     \<and> wp_fetched s = wp_done s + in_flight s + wp_dropped s
     \<and> (wp_dropped s \<noteq> {#} \<or> wp_fetcher s \<in> {Leaving, Returned} \<longrightarrow> wp_cause s \<noteq> None)
     \<and> (Exited \<in># wp_workers s \<longrightarrow> wp_fetcher s = Returned)
     \<and> (\<forall>n. wp_fetcher s = Fetching n \<longrightarrow> 0 < n \<and> n \<le> mx)"

lemma cancelFetch_fields [simp]:
  "wp_fetcher (cancelFetch e s) = wp_fetcher s" "wp_workers (cancelFetch e s) = wp_workers s"
  "workItemsBeingProcessed (cancelFetch e s) = workItemsBeingProcessed s" "wp_fetched (cancelFetch e s) = wp_fetched s"
  "wp_done (cancelFetch e s) = wp_done s" "wp_dropped (cancelFetch e s) = wp_dropped s" "wp_result (cancelFetch e s) = wp_result s"
  "wp_cause (cancelFetch e s) \<noteq> None" "wp_cause s = Some c \<Longrightarrow> wp_cause (cancelFetch e s) = Some c"
  by (simp_all add: cancelFetch_def split: option.split)

text \<open>The counter never exceeds the limit, so what is left to fetch is not negative.\<close>

lemma pool_toFetch_bounds:
  assumes "pool_ok mx s"
  shows "0 \<le> pool_toFetch mx b s" "pool_toFetch mx b s \<le> mx"
proof -
  have "0 \<le> workItemsBeingProcessed s" "workItemsBeingProcessed s \<le> mx"
    using assms busy_le [of "wp_workers s"] by (simp_all add: pool_ok_def)
  then show "0 \<le> pool_toFetch mx b s" "pool_toFetch mx b s \<le> mx" by (auto simp: pool_toFetch_def Let_def)
qed

lemma pool_ok_start: "0 \<le> mx \<Longrightarrow> pool_ok mx (pool_start (nat mx))"
proof -
  have "items_with_workers (replicate_mset n Receiving) = {#}" "busy (replicate_mset n (Receiving :: 'w pool_worker)) = 0"
    for n by (induction n) simp_all
  then show "0 \<le> mx \<Longrightarrow> pool_ok mx (pool_start (nat mx))" by (auto simp: pool_ok_def pool_start_def in_flight_def)
qed

lemma pool_ok_step:
  assumes "pool_step mx b fetches processes isCanceled s s'" "pool_ok mx s"
  shows "pool_ok mx s'"
  using assms(1)
proof cases
  case wp_count
  with assms(2) pool_toFetch_bounds [OF assms(2), of b] show ?thesis by (auto simp: pool_ok_def in_flight_def)
next
  case (wp_process w M r)
  with assms(2) show ?thesis by (cases r) (auto simp: pool_ok_def in_flight_def)
qed (use assms(2) in \<open>auto simp: pool_ok_def in_flight_def split: if_splits\<close>)

lemma pool_ok_steps:
  assumes "pool_steps mx b fetches processes isCanceled s s'" "pool_ok mx s"
  shows "pool_ok mx s'"
  using assms by (induction rule: rtranclp_induct) (blast intro: pool_ok_step)+

text \<open>What the documentation of the fetch function asks for: it returns at most as many items as were asked for.\<close>

definition fetch_bounded :: "(int \<Rightarrow> 'e + 'w list \<Rightarrow> bool) \<Rightarrow> bool" where
  "fetch_bounded fetches \<longleftrightarrow> (\<forall>n work. fetches n (Inr work) \<longrightarrow> int (length work) \<le> n)"

lemma pending_bound_step:
  assumes "pool_step mx b fetches processes isCanceled s s'" "fetch_bounded fetches" "pool_ok mx s"
    "int (length (items_pending (wp_fetcher s))) \<le> mx"
  shows "int (length (items_pending (wp_fetcher s'))) \<le> mx"
  using assms(1)
proof cases
  case (wp_fetch n work)
  then have "int (length work) \<le> mx" using assms(2,3) by (force simp: fetch_bounded_def pool_ok_def)
  with wp_fetch show ?thesis by simp
next
  case (wp_process w M r)
  with assms(4) show ?thesis by (cases r) auto
qed (use assms(4) in auto)

lemma pending_bound:
  assumes "pool_steps mx b fetches processes isCanceled s s'" "fetch_bounded fetches" "pool_ok mx s"
    "int (length (items_pending (wp_fetcher s))) \<le> mx"
  shows "int (length (items_pending (wp_fetcher s'))) \<le> mx"
  using assms
proof (induction rule: rtranclp_induct)
  case (step s1 s2)
  then show ?case by (blast intro: pending_bound_step pool_ok_steps)
qed simp

text \<open>C16. In every state of the pool, every item that was fetched is exactly once either finished, or
  on its way, or dropped, and items are dropped only once the context is cancelled. At most
  \<open>maxConcurrency\<close> items are with the workers, the counter is the number of those whose processing has
  begun and not been marked as finished, and if fetching keeps to the number it is asked for, at
  most twice \<open>maxConcurrency\<close> items are on their way.
\<close>

theorem pool_accounts:
  assumes "0 < mx" "fetch_bounded fetches" "pool_steps mx b fetches processes isCanceled (pool_start (nat mx)) s"
  shows "wp_fetched s = wp_done s + in_flight s + wp_dropped s \<and> (wp_dropped s \<noteq> {#} \<longrightarrow> wp_cause s \<noteq> None)
    \<and> int (size (items_with_workers (wp_workers s))) \<le> mx \<and> workItemsBeingProcessed s = int (busy (wp_workers s))
    \<and> int (size (in_flight s)) \<le> 2 * mx"
proof -
  have ok: "pool_ok mx s" using pool_ok_steps [OF assms(3) pool_ok_start] assms(1) by simp
  have p: "int (length (items_pending (wp_fetcher s))) \<le> mx"
    using pending_bound [OF assms(3,2) pool_ok_start] assms(1) by (simp add: pool_start_def)
  have "int (size (items_with_workers (wp_workers s))) \<le> mx"
    using ok items_with_workers_le [of "wp_workers s"] by (simp add: pool_ok_def)
  moreover from this p have "int (size (in_flight s)) \<le> 2 * mx" by (simp add: in_flight_def)
  ultimately show ?thesis using ok by (simp add: pool_ok_def)
qed


section \<open>Runs\<close>

text \<open>Phases in which a number of workers take the same step, one after the other.\<close>

lemma phase_pass:
  "pool_steps mx b fetches processes isCanceled
     (s\<lparr>wp_fetcher := Passing (replicate n w), wp_workers := replicate_mset n Receiving + M\<rparr>)
     (s\<lparr>wp_fetcher := Passing [], wp_workers := replicate_mset n (Starting w) + M\<rparr>)"
proof (induction n arbitrary: M)
  case (Suc n)
  have "pool_step mx b fetches processes isCanceled
     (s\<lparr>wp_fetcher := Passing (replicate (Suc n) w), wp_workers := replicate_mset (Suc n) Receiving + M\<rparr>)
     (s\<lparr>wp_fetcher := Passing (replicate n w), wp_workers := replicate_mset n Receiving + add_mset (Starting w) M\<rparr>)"
    using wp_pass [of "s\<lparr>wp_fetcher := Passing (replicate (Suc n) w), wp_workers := replicate_mset (Suc n) Receiving + M\<rparr>"]
    by simp
  with Suc [of "add_mset (Starting w) M"] show ?case by (simp add: converse_rtranclp_into_rtranclp)
qed simp

lemma phase_incr:
  "pool_steps mx b fetches processes isCanceled
     (s\<lparr>workItemsBeingProcessed := c, wp_workers := replicate_mset n (Starting w) + M\<rparr>)
     (s\<lparr>workItemsBeingProcessed := c + int n, wp_workers := replicate_mset n (Processing w) + M\<rparr>)"
proof (induction n arbitrary: M c)
  case (Suc n)
  have "pool_step mx b fetches processes isCanceled
     (s\<lparr>workItemsBeingProcessed := c, wp_workers := replicate_mset (Suc n) (Starting w) + M\<rparr>)
     (s\<lparr>workItemsBeingProcessed := c + 1, wp_workers := replicate_mset n (Starting w) + add_mset (Processing w) M\<rparr>)"
    using wp_incr [of "s\<lparr>workItemsBeingProcessed := c, wp_workers := replicate_mset (Suc n) (Starting w) + M\<rparr>"] by simp
  with Suc [of "add_mset (Processing w) M" "c + 1"] show ?case by (simp add: converse_rtranclp_into_rtranclp add.assoc)
qed simp

lemma phase_process:
  "processes w None \<Longrightarrow> pool_steps mx b fetches processes isCanceled
     (s\<lparr>wp_workers := replicate_mset n (Processing w) + M\<rparr>) (s\<lparr>wp_workers := replicate_mset n (Finishing w) + M\<rparr>)"
proof (induction n arbitrary: M)
  case (Suc n)
  have "pool_step mx b fetches processes isCanceled
     (s\<lparr>wp_workers := replicate_mset (Suc n) (Processing w) + M\<rparr>)
     (s\<lparr>wp_workers := replicate_mset n (Processing w) + add_mset (Finishing w) M\<rparr>)"
    using wp_process [of "s\<lparr>wp_workers := replicate_mset (Suc n) (Processing w) + M\<rparr>" w _ processes None] Suc.prems by simp
  with Suc.IH [of "add_mset (Finishing w) M"] Suc.prems show ?case by (simp add: converse_rtranclp_into_rtranclp)
qed simp

lemma phase_decr:
  "pool_steps mx b fetches processes isCanceled
     (s\<lparr>workItemsBeingProcessed := c, wp_workers := replicate_mset n (Finishing w) + M, wp_done := D\<rparr>)
     (s\<lparr>workItemsBeingProcessed := c - int n, wp_workers := replicate_mset n Signalling + M, wp_done := replicate_mset n w + D\<rparr>)"
proof (induction n arbitrary: M c D)
  case (Suc n)
  have "pool_step mx b fetches processes isCanceled
     (s\<lparr>workItemsBeingProcessed := c, wp_workers := replicate_mset (Suc n) (Finishing w) + M, wp_done := D\<rparr>)
     (s\<lparr>workItemsBeingProcessed := c - 1, wp_workers := replicate_mset n (Finishing w) + add_mset Signalling M,
        wp_done := add_mset w D\<rparr>)"
    using wp_decr [of "s\<lparr>workItemsBeingProcessed := c, wp_workers := replicate_mset (Suc n) (Finishing w) + M, wp_done := D\<rparr>"]
    by simp
  with Suc [where M = "add_mset Signalling M" and c = "c - 1" and D = "add_mset w D"] show ?case
    by (simp add: converse_rtranclp_into_rtranclp algebra_simps)
qed simp

lemma phase_signal:
  "wp_fetcher s \<noteq> Waiting \<Longrightarrow> pool_steps mx b fetches processes isCanceled
     (s\<lparr>wp_workers := replicate_mset n Signalling + M\<rparr>) (s\<lparr>wp_workers := replicate_mset n Receiving + M\<rparr>)"
proof (induction n arbitrary: M)
  case (Suc n)
  have "pool_step mx b fetches processes isCanceled
     (s\<lparr>wp_workers := replicate_mset (Suc n) Signalling + M\<rparr>)
     (s\<lparr>wp_workers := replicate_mset n Signalling + add_mset Receiving M\<rparr>)"
    using wp_signal [of "s\<lparr>wp_workers := replicate_mset (Suc n) Signalling + M\<rparr>"] Suc.prems by simp
  with Suc.IH [of "add_mset Receiving M"] Suc.prems show ?case by (simp add: converse_rtranclp_into_rtranclp)
qed simp

text \<open>One round: as many items as there are workers are fetched and passed on.\<close>

definition one_round :: "int \<Rightarrow> 'w \<Rightarrow> ('w, 'e) work_pool" where
  "one_round mx w = (pool_start (nat mx))\<lparr>wp_workers := replicate_mset (nat mx) (Starting w), wp_fetched := replicate_mset (nat mx) w\<rparr>"

lemma fetch_round:
  assumes "0 < mx" "pool_toFetch mx b s = mx" "wp_fetcher s = Checking" "wp_cause s = None" "fetches mx (Inr (replicate (nat mx) w))"
  shows "pool_steps mx b fetches processes isCanceled s
    (s\<lparr>wp_fetcher := Passing (replicate (nat mx) w), wp_fetched := wp_fetched s + replicate_mset (nat mx) w\<rparr>)"
proof -
  have "pool_step mx b fetches processes isCanceled s (s\<lparr>wp_fetcher := Counting\<rparr>)"
    using wp_check [of s] assms(3,4) by simp
  moreover have "pool_step mx b fetches processes isCanceled (s\<lparr>wp_fetcher := Counting\<rparr>) (s\<lparr>wp_fetcher := Fetching mx\<rparr>)"
    using wp_count [of "s\<lparr>wp_fetcher := Counting\<rparr>" mx b] assms(1,2) by (simp add: pool_toFetch_def)
  moreover have "pool_step mx b fetches processes isCanceled (s\<lparr>wp_fetcher := Fetching mx\<rparr>)
      (s\<lparr>wp_fetcher := Passing (replicate (nat mx) w), wp_fetched := wp_fetched s + replicate_mset (nat mx) w\<rparr>)"
    using wp_fetch [of "s\<lparr>wp_fetcher := Fetching mx\<rparr>" mx fetches "replicate (nat mx) w"] assms(1,5) by simp
  ultimately show ?thesis by (meson converse_rtranclp_into_rtranclp rtranclp.rtrancl_refl)
qed

lemma one_round_reached:
  fixes fetches :: "int \<Rightarrow> 'e + 'w list \<Rightarrow> bool"
  assumes "0 < mx" "b \<le> 0 \<or> mx \<le> b" "fetches mx (Inr (replicate (nat mx) w))"
  shows "pool_steps mx b fetches processes isCanceled (pool_start (nat mx)) (one_round mx w)"
proof -
  let ?s = "(pool_start (nat mx) :: ('w, 'e) work_pool)\<lparr>wp_fetched := replicate_mset (nat mx) w\<rparr>"
  have "pool_steps mx b fetches processes isCanceled (pool_start (nat mx))
      (?s\<lparr>wp_fetcher := Passing (replicate (nat mx) w), wp_workers := replicate_mset (nat mx) Receiving + {#}\<rparr>)"
    using fetch_round [of mx b "pool_start (nat mx)"] assms by (auto simp: pool_start_def pool_toFetch_def)
  moreover have "pool_step mx b fetches processes isCanceled
      (?s\<lparr>wp_fetcher := Passing [], wp_workers := replicate_mset (nat mx) (Starting w) + {#}\<rparr>) (one_round mx w)"
    using wp_passed [of "?s\<lparr>wp_fetcher := Passing [], wp_workers := replicate_mset (nat mx) (Starting w) + {#}\<rparr>"]
    by (simp add: one_round_def pool_start_def)
  ultimately show ?thesis using phase_pass [where s = ?s and n = "nat mx" and w = w and M = "{#}"]
    by (meson rtranclp_trans rtranclp.rtrancl_into_rtrancl)
qed

text \<open>
  The bound of twice \<open>maxConcurrency\<close> is reached: all workers have received an item and none has
  incremented the counter yet, so that the fetcher asks for \<open>maxConcurrency\<close> items more.
\<close>

theorem pool_overfetches:
  fixes fetches :: "int \<Rightarrow> 'e + 'w list \<Rightarrow> bool"
  assumes "0 < mx" "b \<le> 0 \<or> mx \<le> b" "fetches mx (Inr (replicate (nat mx) w))"
  shows "\<exists>s. pool_steps mx b fetches processes isCanceled (pool_start (nat mx)) s \<and> int (size (in_flight s)) = 2 * mx"
proof -
  let ?s = "(one_round mx w :: ('w, 'e) work_pool)\<lparr>wp_fetcher := Passing (replicate (nat mx) w),
    wp_fetched := wp_fetched (one_round mx w :: ('w, 'e) work_pool) + replicate_mset (nat mx) w\<rparr>"
  have "pool_steps mx b fetches processes isCanceled (one_round mx w) ?s"
    by (rule fetch_round) (use assms in \<open>auto simp: one_round_def pool_start_def pool_toFetch_def\<close>)
  with one_round_reached [where fetches = fetches, OF assms] have "pool_steps mx b fetches processes isCanceled (pool_start (nat mx)) ?s"
    by (rule rtranclp_trans)
  moreover have "items_with_workers (replicate_mset n (Starting w)) = replicate_mset n w" for n by (induction n) simp_all
  then have "int (size (in_flight ?s)) = 2 * mx" using assms(1) by (simp add: in_flight_def one_round_def)
  ultimately show ?thesis by blast
qed

text \<open>
  The race that the comment on the spurious wakeup describes is real: the fetcher waits for a
  worker to finish while all of them are idle and no item is left, so that only the ticker or the
  parent context wakes it.
\<close>

theorem pool_lost_wakeup:
  fixes fetches :: "int \<Rightarrow> 'e + 'w list \<Rightarrow> bool"
  assumes "0 < mx" "b \<le> 0 \<or> mx \<le> b" "fetches mx (Inr (replicate (nat mx) w))" "processes w None"
  shows "\<exists>s. pool_steps mx b fetches processes isCanceled (pool_start (nat mx)) s
    \<and> wp_fetcher s = Waiting \<and> wp_workers s = replicate_mset (nat mx) Receiving \<and> in_flight s = {#} \<and> wp_cause s = None"
proof -
  let ?n = "nat mx"
  define s where "s = (one_round mx w :: ('w, 'e) work_pool)\<lparr>workItemsBeingProcessed := mx, wp_workers := replicate_mset ?n (Processing w) + {#}\<rparr>"
  define s1 where "s1 = s\<lparr>wp_fetcher := Selecting\<rparr>"
  define s2 where "s2 = s1\<lparr>wp_workers := replicate_mset ?n (Finishing w) + {#}\<rparr>"
  define s3 where "s3 = s2\<lparr>workItemsBeingProcessed := mx - int ?n, wp_workers := replicate_mset ?n Signalling + {#},
    wp_done := replicate_mset ?n w + {#}\<rparr>"
  define s4 where "s4 = s3\<lparr>wp_workers := replicate_mset ?n Receiving + {#}\<rparr>"
  let ?R = "pool_steps mx b fetches processes isCanceled"
  have "?R (one_round mx w) s" using phase_incr [where s = "one_round mx w" and c = 0 and n = ?n and w = w and M = "{#}"] assms(1)
    by (simp add: s_def one_round_def pool_start_def)
  moreover have "pool_step mx b fetches processes isCanceled s (s\<lparr>wp_fetcher := Counting\<rparr>)"
    using wp_check [of s] by (simp add: s_def one_round_def pool_start_def)
  moreover have "pool_toFetch mx b (s\<lparr>wp_fetcher := Counting\<rparr>) = 0" by (simp add: s_def pool_toFetch_def)
  then have "pool_step mx b fetches processes isCanceled (s\<lparr>wp_fetcher := Counting\<rparr>) s1"
    using wp_count [of "s\<lparr>wp_fetcher := Counting\<rparr>" mx b] by (simp add: s1_def)
  moreover have "?R s1 s2" using phase_process [where s = s1 and M = "{#}" and n = ?n and w = w] assms(4)
    by (simp add: s1_def s2_def s_def one_round_def pool_start_def)
  moreover have "?R s2 s3" using phase_decr [where s = s2 and M = "{#}" and n = ?n and w = w and c = mx and D = "{#}"]
    by (simp add: s1_def s2_def s3_def s_def one_round_def pool_start_def)
  moreover have "?R s3 s4" using phase_signal [where s = s3 and M = "{#}" and n = ?n]
    by (simp add: s1_def s2_def s3_def s4_def s_def one_round_def pool_start_def)
  moreover have "pool_step mx b fetches processes isCanceled s4 (s4\<lparr>wp_fetcher := Waiting\<rparr>)"
    using wp_select [of s4] by (simp add: s1_def s2_def s3_def s4_def)
  ultimately have "?R (pool_start ?n) (s4\<lparr>wp_fetcher := Waiting\<rparr>)"
    using one_round_reached [where fetches = fetches, OF assms(1-3)] by (meson rtranclp_trans rtranclp.rtrancl_into_rtrancl)
  moreover have "items_with_workers (replicate_mset k Receiving) = {#}" for k by (induction k) simp_all
  then have "in_flight (s4\<lparr>wp_fetcher := Waiting\<rparr>) = {#}" by (simp add: s4_def in_flight_def)
  ultimately show ?thesis
    by (intro exI [of _ "s4\<lparr>wp_fetcher := Waiting\<rparr>"]) (simp add: s4_def s3_def s2_def s1_def s_def one_round_def pool_start_def)
qed


section \<open>Ending\<close>

primrec fetcher_rank :: "'w fetcher \<Rightarrow> nat" where
  "fetcher_rank Checking = 2"
| "fetcher_rank Counting = 6"
| "fetcher_rank Selecting = 4"
| "fetcher_rank Waiting = 3"
| "fetcher_rank Sleeping = 3"
| "fetcher_rank (Fetching n) = 5"
| "fetcher_rank (Passing work) = 3"
| "fetcher_rank Leaving = 1"
| "fetcher_rank Returned = 0"

primrec worker_rank :: "'w pool_worker \<Rightarrow> nat" where
  "worker_rank Receiving = 1"
| "worker_rank (Starting w) = 5"
| "worker_rank (Processing w) = 4"
| "worker_rank (Finishing w) = 3"
| "worker_rank Signalling = 2"
| "worker_rank Exited = 0"

definition pool_rank :: "('w, 'e) work_pool \<Rightarrow> nat" where
  "pool_rank s = fetcher_rank (wp_fetcher s) + (\<Sum>p\<in>#wp_workers s. worker_rank p)"

text \<open>That fetching and processing return, and that processing can succeed.\<close>

definition fetch_returns :: "(int \<Rightarrow> 'e + 'w list \<Rightarrow> bool) \<Rightarrow> bool" where
  "fetch_returns fetches \<longleftrightarrow> (\<forall>n > 0. \<exists>r. fetches n r)"

definition process_returns :: "('w \<Rightarrow> 'e option \<Rightarrow> bool) \<Rightarrow> bool" where
  "process_returns processes \<longleftrightarrow> (\<forall>w. \<exists>r. processes w r)"

definition process_succeeds :: "('w \<Rightarrow> 'e option \<Rightarrow> bool) \<Rightarrow> bool" where
  "process_succeeds processes \<longleftrightarrow> (\<forall>w. processes w None)"

text \<open>Once the context is cancelled the fetcher leaves its loop, unless fetching itself does not return.\<close>

lemma fetcher_leaves:
  assumes "wp_cause s = Some c" "wp_fetcher s \<noteq> Returned" "fetch_returns fetches" "pool_ok mx s"
  shows "\<exists>s'. pool_step mx b fetches processes isCanceled s s' \<and> pool_rank s' < pool_rank s \<and> wp_cause s' = Some c"
proof (cases "wp_fetcher s")
  case Checking
  show ?thesis by (rule exI, rule conjI, rule wp_check [OF Checking]) (use assms(1) Checking in \<open>simp add: pool_rank_def\<close>)
next
  case Counting
  show ?thesis by (rule exI, rule conjI, rule wp_count [OF Counting]) (use assms(1) Counting in \<open>simp add: pool_rank_def\<close>)
next
  case Selecting
  show ?thesis by (rule exI, rule conjI, rule wp_select [OF Selecting]) (use assms(1) Selecting in \<open>simp add: pool_rank_def\<close>)
next
  case Waiting
  have "wp_cause s \<noteq> None" using assms(1) by simp
  from wp_wait_done [OF Waiting this] show ?thesis
    by (intro exI conjI, assumption) (use assms(1) Waiting in \<open>simp_all add: pool_rank_def\<close>)
next
  case Sleeping
  show ?thesis by (rule exI, rule conjI, rule wp_slept [OF Sleeping]) (use assms(1) Sleeping in \<open>simp add: pool_rank_def\<close>)
next
  case (Fetching n)
  with assms(4) have "0 < n" by (simp add: pool_ok_def)
  with assms(3) obtain r where r: "fetches n r" by (auto simp: fetch_returns_def)
  show ?thesis
  proof (cases r)
    case (Inl e)
    show ?thesis by (rule exI, rule conjI, rule wp_fetch_error [where fetches = fetches, OF Fetching r [unfolded Inl]])
      (use assms(1) Fetching in \<open>simp add: pool_rank_def\<close>)
  next
    case (Inr work)
    show ?thesis by (rule exI, rule conjI, rule wp_fetch [where fetches = fetches, OF Fetching r [unfolded Inr]])
      (use assms(1) Fetching in \<open>simp add: pool_rank_def\<close>)
  qed
next
  case (Passing work)
  show ?thesis
  proof (cases work)
    case Nil
    show ?thesis by (rule exI, rule conjI, rule wp_passed [OF Passing [unfolded Nil]])
      (use assms(1) Passing in \<open>simp add: pool_rank_def\<close>)
  next
    case (Cons w ws)
    have "wp_cause s \<noteq> None" using assms(1) by simp
    from wp_drop [OF Passing [unfolded Cons] this] show ?thesis
      by (intro exI conjI, assumption) (use assms(1) Passing in \<open>simp_all add: pool_rank_def\<close>)
  qed
next
  case Leaving
  show ?thesis by (rule exI, rule conjI, rule wp_leave [OF Leaving]) (use assms(1) Leaving in \<open>simp add: pool_rank_def\<close>)
qed (use assms(2) in simp)

text \<open>Then each worker finishes the item it has and exits.\<close>

lemma workers_exit:
  assumes "wp_cause s = Some c" "wp_fetcher s = Returned" "process_returns processes" "\<exists>p\<in>#wp_workers s. p \<noteq> Exited"
  shows "\<exists>s'. pool_step mx b fetches processes isCanceled s s' \<and> pool_rank s' < pool_rank s \<and> wp_cause s' = Some c
    \<and> wp_fetcher s' = Returned \<and> wp_result s' = wp_result s"
proof -
  from assms(4) obtain p where "p \<in># wp_workers s" "p \<noteq> Exited" by blast
  then obtain M where p: "wp_workers s = add_mset p M" "p \<noteq> Exited" by (meson multi_member_split)
  show ?thesis
  proof (cases p)
    case Receiving
    show ?thesis by (rule exI, rule conjI, rule wp_exit [OF p(1) [unfolded Receiving] assms(2)])
      (use p assms(1,2) Receiving in \<open>simp add: pool_rank_def\<close>)
  next
    case (Starting w)
    show ?thesis by (rule exI, rule conjI, rule wp_incr [OF p(1) [unfolded Starting]])
      (use p assms(1,2) Starting in \<open>simp add: pool_rank_def\<close>)
  next
    case (Processing w)
    with p assms(3) obtain r where r: "processes w r" by (auto simp: process_returns_def)
    let ?s' = "(case r of None \<Rightarrow> s | Some e \<Rightarrow> cancelFetch e s)\<lparr>wp_workers := add_mset (Finishing w) M\<rparr>"
    from p r Processing have "pool_step mx b fetches processes isCanceled s ?s'" by (auto intro: wp_process)
    moreover have "pool_rank ?s' < pool_rank s" using p Processing by (cases r) (simp_all add: pool_rank_def)
    moreover have "wp_cause ?s' = Some c" "wp_fetcher ?s' = Returned" "wp_result ?s' = wp_result s"
      using assms(1,2) by (cases r; simp)+
    ultimately show ?thesis by blast
  next
    case (Finishing w)
    show ?thesis by (rule exI, rule conjI, rule wp_decr [OF p(1) [unfolded Finishing]])
      (use p assms(1,2) Finishing in \<open>simp add: pool_rank_def\<close>)
  next
    case Signalling
    show ?thesis by (rule exI, rule conjI, rule wp_signal [OF p(1) [unfolded Signalling]])
      (use p assms(1,2) Signalling in \<open>simp add: pool_rank_def\<close>)
  qed (use p in simp)
qed

lemma pool_shutdown_steps:
  assumes "fetch_returns fetches" "process_returns processes" "pool_ok mx s" "wp_cause s = Some c"
  shows "\<exists>s'. pool_steps mx b fetches processes isCanceled s s' \<and> wp_fetcher s' = Returned
    \<and> (\<forall>p\<in>#wp_workers s'. p = Exited) \<and> wp_cause s' = Some c"
  using assms(3,4)
proof (induction "pool_rank s" arbitrary: s rule: less_induct)
  case less
  show ?case
  proof (cases "wp_fetcher s = Returned \<and> (\<forall>p\<in>#wp_workers s. p = Exited)")
    case True
    with less.prems show ?thesis by blast
  next
    case False
    have "\<exists>s'. pool_step mx b fetches processes isCanceled s s' \<and> pool_rank s' < pool_rank s \<and> wp_cause s' = Some c"
    proof (cases "wp_fetcher s = Returned")
      case True
      with False workers_exit [OF less.prems(2) True assms(2)] show ?thesis by blast
    next
      case False
      from fetcher_leaves [OF less.prems(2) False assms(1) less.prems(1)] show ?thesis by blast
    qed
    then obtain s1 where s1: "pool_step mx b fetches processes isCanceled s s1" "pool_rank s1 < pool_rank s" "wp_cause s1 = Some c"
      by blast
    from less.hyps [OF s1(2) pool_ok_step [OF s1(1) less.prems(1)] s1(3)] s1(1) show ?thesis
      by (meson converse_rtranclp_into_rtranclp)
  qed
qed

lemma pool_result_step:
  assumes "pool_step mx b fetches processes isCanceled s s'" "pool_ok mx s"
    "wp_fetcher s = Returned \<longrightarrow> wp_result s = pool_cause isCanceled (wp_cause s)"
  shows "wp_fetcher s' = Returned \<longrightarrow> wp_result s' = pool_cause isCanceled (wp_cause s')"
  using assms(1)
proof cases
  case (wp_process w M r)
  with assms(2,3) show ?thesis by (cases r) (auto simp: pool_ok_def)
qed (use assms(2,3) in \<open>auto simp: pool_ok_def\<close>)

lemma pool_result:
  assumes "pool_steps mx b fetches processes isCanceled s s'" "pool_ok mx s"
    "wp_fetcher s = Returned \<longrightarrow> wp_result s = pool_cause isCanceled (wp_cause s)"
  shows "wp_fetcher s' = Returned \<longrightarrow> wp_result s' = pool_cause isCanceled (wp_cause s')"
  using assms
proof (induction rule: rtranclp_induct)
  case (step s1 s2)
  from pool_result_step [OF step(2) pool_ok_steps [OF step(1,4)]] step show ?case by blast
qed simp

lemma all_exited:
  assumes "\<forall>p\<in>#M. p = Exited"
  shows "items_with_workers M = {#}" "busy M = 0"
  using assms by (induction M) auto

text \<open>C22. Once the context is cancelled, by its parent, a fetch that failed or a worker that failed,
  the pool can always come to its end, if fetching and processing return: the function returns, with
  the first cause unless it is a cancellation, every worker exits, the counter is back at zero, and
  every item was finished or dropped, those that a worker had received being finished.
\<close>

theorem pool_shuts_down:
  assumes "0 < mx" "fetch_returns fetches" "process_returns processes"
    and reach: "pool_steps mx b fetches processes isCanceled (pool_start (nat mx)) s" and c: "wp_cause s = Some c"
  shows "\<exists>s'. pool_steps mx b fetches processes isCanceled s s' \<and> wp_fetcher s' = Returned
    \<and> wp_result s' = (if isCanceled c then None else Some c) \<and> (\<forall>p\<in>#wp_workers s'. p = Exited)
    \<and> workItemsBeingProcessed s' = 0 \<and> wp_fetched s' = wp_done s' + wp_dropped s'"
proof -
  have ok: "pool_ok mx s" using pool_ok_steps [OF reach pool_ok_start] assms(1) by simp
  from pool_shutdown_steps [OF assms(2,3) ok c] obtain s' where
    s': "pool_steps mx b fetches processes isCanceled s s'" "wp_fetcher s' = Returned" "\<forall>p\<in>#wp_workers s'. p = Exited"
      "wp_cause s' = Some c" by blast
  have "pool_steps mx b fetches processes isCanceled (pool_start (nat mx)) s'" using reach s'(1) by (rule rtranclp_trans)
  from pool_result [OF this pool_ok_start] assms(1) s'(2,4) have "wp_result s' = pool_cause isCanceled (Some c)"
    by (simp add: pool_start_def)
  moreover have "pool_ok mx s'" using pool_ok_steps [OF s'(1) ok] .
  ultimately show ?thesis using s' all_exited [OF s'(3)]
    by (intro exI [of _ s']) (simp add: pool_ok_def pool_cause_def in_flight_def)
qed


section \<open>Finishing\<close>

definition work_rank :: "('w, 'e) work_pool \<Rightarrow> nat" where
  "work_rank s = 5 * length (items_pending (wp_fetcher s)) + (\<Sum>p\<in>#wp_workers s. worker_rank p)"

lemma worker_advances:
  assumes "process_succeeds processes" "p \<in># wp_workers s" "p \<noteq> Receiving" "p \<noteq> Exited"
  shows "\<exists>s'. pool_step mx b fetches processes isCanceled s s' \<and> work_rank s' < work_rank s
    \<and> wp_cause s' = wp_cause s \<and> wp_fetched s' = wp_fetched s"
proof -
  from assms(2) obtain M where p: "wp_workers s = add_mset p M" by (meson multi_member_split)
  show ?thesis
  proof (cases p)
    case (Starting w)
    show ?thesis by (rule exI, rule conjI, rule wp_incr [OF p [unfolded Starting]]) (use p Starting in \<open>simp add: work_rank_def\<close>)
  next
    case (Processing w)
    have n: "processes w None" using assms(1) by (simp add: process_succeeds_def)
    show ?thesis by (rule exI, rule conjI, rule wp_process [where processes = processes, OF p [unfolded Processing] n])
      (use p Processing in \<open>simp add: work_rank_def\<close>)
  next
    case (Finishing w)
    show ?thesis by (rule exI, rule conjI, rule wp_decr [OF p [unfolded Finishing]]) (use p Finishing in \<open>simp add: work_rank_def\<close>)
  next
    case Signalling
    show ?thesis by (rule exI, rule conjI, rule wp_signal [OF p [unfolded Signalling]]) (use p Signalling in \<open>simp add: work_rank_def\<close>)
  qed (use assms(3,4) in simp_all)
qed

lemma idle_items: "\<not> (\<exists>p\<in>#M. p \<noteq> Receiving) \<Longrightarrow> items_with_workers M = {#}"
  by (induction M) auto

lemma work_advances:
  assumes "0 < mx" "process_succeeds processes" "pool_ok mx s" "in_flight s \<noteq> {#}" "wp_cause s = None"
  shows "\<exists>s'. pool_step mx b fetches processes isCanceled s s' \<and> work_rank s' < work_rank s
    \<and> wp_cause s' = wp_cause s \<and> wp_fetched s' = wp_fetched s"
proof (cases "\<exists>p\<in>#wp_workers s. p \<noteq> Receiving")
  case True
  moreover have "Exited \<notin># wp_workers s" using assms(3,5) by (auto simp: pool_ok_def)
  ultimately show ?thesis using worker_advances [OF assms(2)] by metis
next
  case False
  then have "items_with_workers (wp_workers s) = {#}" by (rule idle_items)
  with assms(4) have "items_pending (wp_fetcher s) \<noteq> []" by (simp add: in_flight_def)
  then obtain w work where f: "wp_fetcher s = Passing (w # work)"
    by (cases "wp_fetcher s") (auto simp: neq_Nil_conv)
  have "wp_workers s \<noteq> {#}" using assms(1,3) by (auto simp: pool_ok_def)
  with False obtain M where M: "wp_workers s = add_mset Receiving M" by (metis multiset_cases union_single_eq_member)
  show ?thesis by (rule exI, rule conjI, rule wp_pass [OF f M]) (simp add: work_rank_def f M)
qed

text \<open>C23. As long as the context is not cancelled nothing that was fetched is lost, and no waiting of the
  fetcher holds it up: if processing can succeed, every state has a continuation in which exactly
  the items fetched so far are finished, also the items not yet passed to a worker, and the pool is
  still running.
\<close>

theorem pool_finishes:
  assumes "0 < mx" "process_succeeds processes"
    and reach: "pool_steps mx b fetches processes isCanceled (pool_start (nat mx)) s" and "wp_cause s = None"
  shows "\<exists>s'. pool_steps mx b fetches processes isCanceled s s' \<and> wp_cause s' = None
    \<and> wp_fetched s' = wp_fetched s \<and> wp_done s' = wp_fetched s"
proof -
  have "pool_ok mx s" using pool_ok_steps [OF reach pool_ok_start] assms(1) by simp
  then show ?thesis using assms(4)
  proof (induction "work_rank s" arbitrary: s rule: less_induct)
    case less
    show ?case
    proof (cases "in_flight s = {#}")
      case True
      with less.prems show ?thesis by (intro exI [of _ s]) (auto simp: pool_ok_def)
    next
      case False
      from work_advances [where b = b and fetches = fetches and isCanceled = isCanceled, OF assms(1,2) less.prems(1) False less.prems(2)] obtain s1 where
        s1: "pool_step mx b fetches processes isCanceled s s1" "work_rank s1 < work_rank s"
          "wp_cause s1 = None" "wp_fetched s1 = wp_fetched s" using less.prems(2) by auto
      from less.hyps [OF s1(2) pool_ok_step [OF s1(1) less.prems(1)] s1(3)] s1(1,4) show ?thesis
        by (metis converse_rtranclp_into_rtranclp)
    qed
  qed
qed

text \<open>Two workers, a source that always has work, and processing that may succeed or fail.\<close>

definition plenty :: "int \<Rightarrow> nat + nat list \<Rightarrow> bool" where
  "plenty n r \<longleftrightarrow> 0 \<le> n \<and> r = Inr (replicate (nat n) 1)"

lemma plenty_ok: "fetch_bounded plenty" "fetch_returns plenty" "plenty 2 (Inr (replicate (nat 2) 1))"
  by (auto simp: fetch_bounded_def fetch_returns_def plenty_def)

lemma plenty_round: "pool_steps 2 0 plenty (\<lambda>w r. True) (\<lambda>e. e = 0) (pool_start (nat 2)) (one_round 2 1)"
  using one_round_reached [of 2 0 plenty 1] plenty_ok(3) by simp

lemma plenty_failed:
  "pool_steps 2 0 plenty (\<lambda>w r. True) (\<lambda>e. e = 0) (pool_start (nat 2)) (cancelFetch 7 (one_round 2 1))"
  using plenty_round wp_parent by (rule rtranclp.rtrancl_into_rtrancl)

theorem pool_accounts_witness:
  "\<exists>s. pool_steps 2 0 plenty (\<lambda>w r. True) (\<lambda>e. e = 0) (pool_start (nat 2)) s \<and> size (in_flight s) = 4
     \<and> wp_fetched s = wp_done s + in_flight s + wp_dropped s"
proof -
  from pool_overfetches [of 2 0 plenty 1 "\<lambda>w r. True" "\<lambda>e. e = 0"] plenty_ok(3) obtain s where
    s: "pool_steps 2 0 plenty (\<lambda>w r. True) (\<lambda>e. e = 0) (pool_start (nat 2)) s" "int (size (in_flight s)) = 2 * 2" by auto
  from pool_accounts [OF _ plenty_ok(1) s(1)] s show ?thesis by (intro exI [of _ s]) simp
qed

theorem pool_shuts_down_witness:
  "\<exists>s'. pool_steps 2 0 plenty (\<lambda>w r. True) (\<lambda>e. e = 0) (cancelFetch 7 (one_round 2 1)) s' \<and> wp_result s' = Some 7
     \<and> wp_fetched s' = wp_done s' + wp_dropped s'"
  using pool_shuts_down [OF _ plenty_ok(2) _ plenty_failed, of 7]
  by (simp add: process_returns_def cancelFetch_def one_round_def pool_start_def) blast

theorem pool_finishes_witness:
  "\<exists>s'. pool_steps 2 0 plenty (\<lambda>w r. True) (\<lambda>e. e = 0) (one_round 2 1) s' \<and> wp_done s' = {#1, 1#}"
  using pool_finishes [OF _ _ plenty_round]
  by (simp add: process_succeeds_def one_round_def pool_start_def numeral_2_eq_2) blast


section \<open>One routine\<close>

text \<open>
  With no concurrency the items are processed where they are fetched. What the contexts and the two
  functions answer is given per round, and per item of a round; a run is given the number of its
  rounds. The result is what was processed, and what is returned if the function returns.
\<close>

fun single_items :: "(nat \<Rightarrow> bool) \<Rightarrow> (nat \<Rightarrow> 'w \<Rightarrow> 'e option) \<Rightarrow> nat \<Rightarrow> 'w list \<Rightarrow> 'w list \<times> 'e option option" where
  "single_items handler_err process j [] = ([], None)"
| "single_items handler_err process j (w # work) =
     (if handler_err j then ([], Some None)
      else case process j w of
        Some e \<Rightarrow> ([w], Some (Some e))
      | None \<Rightarrow> (let (log, r) = single_items handler_err process (j + 1) work in (w # log, r)))"

fun workInSingleRoutine :: "(nat \<Rightarrow> bool) \<Rightarrow> (nat \<Rightarrow> 'e + 'w list) \<Rightarrow> (nat \<Rightarrow> nat \<Rightarrow> bool) \<Rightarrow> (nat \<Rightarrow> nat \<Rightarrow> 'w \<Rightarrow> 'e option)
    \<Rightarrow> nat \<Rightarrow> nat \<Rightarrow> 'w list \<times> 'e option option" where
  "workInSingleRoutine fetch_err fetched handler_err process i 0 = ([], None)"
| "workInSingleRoutine fetch_err fetched handler_err process i (Suc rounds) =
     (if fetch_err i then ([], Some None)
      else case fetched i of
        Inl e \<Rightarrow> ([], Some (Some e))
      | Inr work \<Rightarrow> (case single_items (handler_err i) (process i) 0 work of
            (log, Some r) \<Rightarrow> (log, Some r)
          | (log, None) \<Rightarrow> (let (log', r) = workInSingleRoutine fetch_err fetched handler_err process (i + 1) rounds in (log @ log', r))))"

definition round_items :: "(nat \<Rightarrow> 'e + 'w list) \<Rightarrow> nat \<Rightarrow> 'w list" where
  "round_items fetched i = (case fetched i of Inl e \<Rightarrow> [] | Inr work \<Rightarrow> work)"

lemma single_items_prefix: "prefix (fst (single_items h p j work)) work"
  "snd (single_items h p j work) = None \<Longrightarrow> fst (single_items h p j work) = work"
  by (induction h p j work rule: single_items.induct) (auto split: option.splits if_splits prod.splits)

text \<open>
  The items are processed one at a time and in the order they were fetched: as long as the function
  does not return, all of them are, and otherwise those before the one that ended it.
\<close>

theorem single_in_order:
  "prefix (fst (workInSingleRoutine fe f he p i n)) (concat (map (round_items f) [i..<i + n]))
   \<and> (snd (workInSingleRoutine fe f he p i n) = None \<longrightarrow>
       fst (workInSingleRoutine fe f he p i n) = concat (map (round_items f) [i..<i + n]))"
proof (induction n arbitrary: i)
  case (Suc n)
  have c: "concat (map (round_items f) [i..<i + Suc n]) = round_items f i @ concat (map (round_items f) [i + 1..<(i + 1) + n])"
    by (subst upt_conv_Cons) simp_all
  show ?case
  proof (cases "f i")
    case (Inr work)
    obtain log r where s: "single_items (he i) (p i) 0 work = (log, r)" by fastforce
    from single_items_prefix [of "he i" "p i" 0 work] s have l: "prefix log work" "r = None \<Longrightarrow> log = work" by simp_all
    define T where "T = concat (map (round_items f) [i + 1..<(i + 1) + n])"
    have "round_items f i = work" by (simp add: round_items_def Inr)
    with Suc [of "i + 1", folded T_def] l Inr s show ?thesis unfolding c T_def [symmetric]
      by (cases r) (auto split: prod.splits)
  qed (auto simp: c round_items_def)
qed simp


section \<open>A routine per item\<close>

text \<open>Without a limit every item gets a goroutine of its own; a worker that fails cancels the fetching only.\<close>

record ('w, 'e) infinite_pool =
  ip_fetching :: bool
  ip_running :: "'w multiset"
  ip_cause :: "'e option"
  ip_result :: "'e option option"
  ip_fetched :: "'w multiset"
  ip_done :: "'w multiset"

definition infinite_start :: "('w, 'e) infinite_pool" where
  "infinite_start = \<lparr>ip_fetching = False, ip_running = {#}, ip_cause = None, ip_result = None, ip_fetched = {#}, ip_done = {#}\<rparr>"

definition ip_cancel :: "'e \<Rightarrow> ('w, 'e) infinite_pool \<Rightarrow> ('w, 'e) infinite_pool" where
  "ip_cancel e s = (case ip_cause s of None \<Rightarrow> s\<lparr>ip_cause := Some e\<rparr> | Some _ \<Rightarrow> s)"

inductive infinite_step :: "(int \<Rightarrow> 'e + 'w list \<Rightarrow> bool) \<Rightarrow> ('w \<Rightarrow> 'e option \<Rightarrow> bool) \<Rightarrow> ('e \<Rightarrow> bool) \<Rightarrow> int
    \<Rightarrow> ('w, 'e) infinite_pool \<Rightarrow> ('w, 'e) infinite_pool \<Rightarrow> bool"
  for fetches processes isCanceled maxBatchSize where
  ip_parent: "infinite_step fetches processes isCanceled maxBatchSize s (ip_cancel e s)"
| ip_check: "ip_result s = None \<Longrightarrow> \<not> ip_fetching s \<Longrightarrow> ip_cause s = None \<Longrightarrow>
    infinite_step fetches processes isCanceled maxBatchSize s (s\<lparr>ip_fetching := True\<rparr>)"
| ip_fetch: "ip_fetching s \<Longrightarrow> fetches maxBatchSize (Inr work) \<Longrightarrow>
    infinite_step fetches processes isCanceled maxBatchSize s
      (s\<lparr>ip_fetching := False, ip_running := ip_running s + mset work, ip_fetched := ip_fetched s + mset work\<rparr>)"
| ip_fetch_error: "ip_fetching s \<Longrightarrow> fetches maxBatchSize (Inl e) \<Longrightarrow>
    infinite_step fetches processes isCanceled maxBatchSize s
      ((ip_cancel e s)\<lparr>ip_fetching := False, ip_result := Some (pool_cause isCanceled (ip_cause (ip_cancel e s)))\<rparr>)"
| ip_stop: "ip_result s = None \<Longrightarrow> \<not> ip_fetching s \<Longrightarrow> ip_cause s \<noteq> None \<Longrightarrow>
    infinite_step fetches processes isCanceled maxBatchSize s (s\<lparr>ip_result := Some (pool_cause isCanceled (ip_cause s))\<rparr>)"
| ip_work: "ip_running s = add_mset w M \<Longrightarrow> processes w r \<Longrightarrow>
    infinite_step fetches processes isCanceled maxBatchSize s
      ((case r of None \<Rightarrow> s | Some e \<Rightarrow> ip_cancel e s)\<lparr>ip_running := M, ip_done := add_mset w (ip_done s)\<rparr>)"

lemma ip_cancel_fields [simp]:
  "ip_running (ip_cancel e s) = ip_running s" "ip_fetched (ip_cancel e s) = ip_fetched s" "ip_done (ip_cancel e s) = ip_done s"
  "ip_result (ip_cancel e s) = ip_result s"
  by (simp_all add: ip_cancel_def split: option.split)

text \<open>Without a limit no item is dropped, whatever ends the fetching.\<close>

theorem infinite_keeps_all:
  assumes "(infinite_step fetches processes isCanceled b)\<^sup>*\<^sup>* infinite_start s"
  shows "ip_fetched s = ip_running s + ip_done s"
  using assms
proof (induction rule: rtranclp_induct)
  case base
  show ?case by (simp add: infinite_start_def)
next
  case (step s1 s2)
  from step(2) step(3) show ?case by (cases rule: infinite_step.cases) (auto split: option.splits)
qed

end
