(* ===== verification/Transport.thy ===== *)
theory Transport
  imports Go_Text "HOL-Library.AList"
begin

text \<open>
  Metadata on a request (\<open>runtimes/go/appruntime/apisdk/api/transport\<close>: \<open>transport.go\<close>, \<open>http.go\<close>, \<open>meta.go\<close>).
  The interface \<open>Transport\<close> is a locale; its one implementation keeps the metadata in HTTP headers. A
  header map is the list of its entries in the order in which a range loop visits them, with the
  part of \<open>net/http\<close> and \<open>net/textproto\<close> that puts header names into their canonical form.
\<close>

section \<open>HTTP headers\<close>

type_synonym Header = "(string \<times> string list) list"

definition validHeaderFieldByte :: "char \<Rightarrow> bool" where
  "validHeaderFieldByte c = (let n = of_char c :: nat in
     48 \<le> n \<and> n \<le> 57 \<or> 65 \<le> n \<and> n \<le> 90 \<or> 97 \<le> n \<and> n \<le> 122 \<or> n \<in> {33, 35, 36, 37, 38, 39, 42, 43, 45, 46, 94, 95, 96, 124, 126})"

definition char_upper :: "char \<Rightarrow> char" where
  "char_upper c = (let n = of_char c :: nat in if 97 \<le> n \<and> n \<le> 122 then char_of (n - 32) else c)"

definition char_lower :: "char \<Rightarrow> char" where
  "char_lower c = (let n = of_char c :: nat in if 65 \<le> n \<and> n \<le> 90 then char_of (n + 32) else c)"

fun canonical_loop :: "bool \<Rightarrow> string \<Rightarrow> string" where
  "canonical_loop upper [] = []"
| "canonical_loop upper (c # s) =
     (let c' = (if upper then char_upper c else char_lower c) in c' # canonical_loop (c' = CHR ''-'') s)"

definition CanonicalHeaderKey :: "string \<Rightarrow> string" where
  "CanonicalHeaderKey s = (if list_all validHeaderFieldByte s then canonical_loop True s else s)"

definition Header_Values :: "Header \<Rightarrow> string \<Rightarrow> string list" where
  "Header_Values h key = (case map_of h (CanonicalHeaderKey key) of None \<Rightarrow> [] | Some vs \<Rightarrow> vs)"

definition Header_Get :: "Header \<Rightarrow> string \<Rightarrow> string" where
  "Header_Get h key = (case Header_Values h key of [] \<Rightarrow> [] | v # _ \<Rightarrow> v)"

definition Header_Set :: "Header \<Rightarrow> string \<Rightarrow> string \<Rightarrow> Header" where
  "Header_Set h key v = AList.update (CanonicalHeaderKey key) [v] h"


section \<open>Metadata in headers\<close>

definition TraceParentKey :: string where "TraceParentKey = ''Traceparent''"

definition TraceStateKey :: string where "TraceStateKey = ''Tracestate''"

definition CorrelationIDKey :: string where "CorrelationIDKey = ''Correlation-ID''"

definition metaKeyToHTTPHeader :: "string \<Rightarrow> string" where
  "metaKeyToHTTPHeader key =
     (if key = TraceParentKey then ''traceparent''
      else if key = TraceStateKey then ''tracestate''
      else if key = CorrelationIDKey then ''X-Correlation-ID''
      else ''X-Encore-Meta-'' @ key)"

definition SetMeta :: "string \<Rightarrow> string \<Rightarrow> Header \<Rightarrow> Header" where
  "SetMeta key value h = Header_Set h (metaKeyToHTTPHeader key) value"

definition ReadMetaValues :: "string \<Rightarrow> Header \<Rightarrow> string list" where
  "ReadMetaValues key h = Header_Values h (metaKeyToHTTPHeader key)"

text \<open>The value and whether one was found: an empty value counts as none.\<close>

definition ReadMeta :: "string \<Rightarrow> Header \<Rightarrow> string option" where
  "ReadMeta key h = (let value = Header_Get h (metaKeyToHTTPHeader key) in if value = [] then None else Some value)"

definition header_meta_key :: "string \<Rightarrow> string option" where
  "header_meta_key key =
     (let key = CanonicalHeaderKey key
      in if key = ''Traceparent'' then Some TraceParentKey
         else if key = ''Tracestate'' then Some TraceStateKey
         else if key = ''X-Correlation-Id'' then Some CorrelationIDKey
         else if HasPrefix key ''X-Encore-Meta-'' then Some (drop 14 key)
         else None)"

definition ListMetaKeys :: "Header \<Rightarrow> string list" where
  "ListMetaKeys h = sort (List.map_filter (header_meta_key \<circ> fst) h)"


section \<open>Canonical names\<close>

lemma upper_lower_code:
  "of_char (char_upper c) = (if 97 \<le> (of_char c :: nat) \<and> (of_char c :: nat) \<le> 122 then of_char c - 32 else of_char c :: nat)"
  "of_char (char_lower c) = (if 65 \<le> (of_char c :: nat) \<and> (of_char c :: nat) \<le> 90 then of_char c + 32 else of_char c :: nat)"
  by (auto simp: char_upper_def char_lower_def Let_def)

lemma char_eq_code: "c = d \<longleftrightarrow> (of_char c :: nat) = of_char d"
  by simp

lemma char_case_idem [simp]: "char_upper (char_upper c) = char_upper c" "char_lower (char_lower c) = char_lower c"
  unfolding char_eq_code upper_lower_code by (simp_all split: if_split, linarith+)

lemma validHeaderFieldByte_case [simp]:
  "validHeaderFieldByte (char_upper c) = validHeaderFieldByte c" "validHeaderFieldByte (char_lower c) = validHeaderFieldByte c"
  unfolding validHeaderFieldByte_def Let_def upper_lower_code
  by (cases "97 \<le> (of_char c :: nat) \<and> (of_char c :: nat) \<le> 122"; simp; linarith)
    (cases "65 \<le> (of_char c :: nat) \<and> (of_char c :: nat) \<le> 90"; simp; linarith)

lemma canonical_loop_idem [simp]: "canonical_loop u (canonical_loop u s) = canonical_loop u s"
  by (induction u s rule: canonical_loop.induct) (auto simp: Let_def)

lemma canonical_loop_valid [simp]: "list_all validHeaderFieldByte (canonical_loop u s) = list_all validHeaderFieldByte s"
  by (induction u s rule: canonical_loop.induct) (auto simp: Let_def)

lemma CanonicalHeaderKey_idem [simp]: "CanonicalHeaderKey (CanonicalHeaderKey s) = CanonicalHeaderKey s"
  by (simp add: CanonicalHeaderKey_def)

lemma canonical_loop_Nil_iff [simp]: "canonical_loop u s = [] \<longleftrightarrow> s = []"
  by (cases s) (simp_all add: Let_def)

lemma canonical_loop_append:
  "canonical_loop u (s @ r) = canonical_loop u s @ canonical_loop (if s = [] then u else last (canonical_loop u s) = CHR ''-'') r"
  by (induction u s rule: canonical_loop.induct) (auto simp: Let_def)

lemma prefix_plain: "list_all validHeaderFieldByte ''X-Encore-Meta-''" "canonical_loop True ''X-Encore-Meta-'' = ''X-Encore-Meta-''"
  by code_simp+

lemma prefix_canonical:
  "list_all validHeaderFieldByte (''X-Encore-Meta-'' @ k) = list_all validHeaderFieldByte k"
  "canonical_loop True (''X-Encore-Meta-'' @ k) = ''X-Encore-Meta-'' @ canonical_loop True k"
  unfolding canonical_loop_append list_all_append prefix_plain(2) using prefix_plain(1) by simp_all

definition meta_header :: "string \<Rightarrow> string" where
  "meta_header k = CanonicalHeaderKey (metaKeyToHTTPHeader k)"

definition meta_listed :: "string \<Rightarrow> string" where
  "meta_listed k = the (header_meta_key (metaKeyToHTTPHeader k))"

lemma CanonicalHeaderKey_prefix: "CanonicalHeaderKey (''X-Encore-Meta-'' @ k) = ''X-Encore-Meta-'' @ (if list_all validHeaderFieldByte k then canonical_loop True k else k)"
  unfolding CanonicalHeaderKey_def prefix_canonical by simp

lemma special_headers:
  "CanonicalHeaderKey ''traceparent'' = ''Traceparent''" "CanonicalHeaderKey ''tracestate'' = ''Tracestate''"
  "CanonicalHeaderKey ''X-Correlation-ID'' = ''X-Correlation-Id''"
  "CanonicalHeaderKey ''Traceparent'' = ''Traceparent''" "CanonicalHeaderKey ''Tracestate'' = ''Tracestate''"
  by code_simp+

lemma header_meta_key_header: "header_meta_key (metaKeyToHTTPHeader k) = Some (meta_listed k)"
proof -
  have "header_meta_key (metaKeyToHTTPHeader k) \<noteq> None"
    by (auto simp: header_meta_key_def metaKeyToHTTPHeader_def special_headers
      CanonicalHeaderKey_prefix [simplified] HasPrefix_iff Let_def)
  then show ?thesis by (auto simp: meta_listed_def)
qed

text \<open>A listed name is read from the header it was listed for, or from the trace header of that name.\<close>

lemma header_meta_key_canonical: "header_meta_key (CanonicalHeaderKey h) = header_meta_key h"
  by (simp add: header_meta_key_def)

lemma canonical_id:
  "CanonicalHeaderKey (''X-Encore-Meta-'' @ x) = ''X-Encore-Meta-'' @ x" if "CanonicalHeaderKey h = ''X-Encore-Meta-'' @ x"
  using CanonicalHeaderKey_idem [of h] unfolding that .

lemma not_correlation:
  assumes "CanonicalHeaderKey h = ''X-Encore-Meta-'' @ x"
  shows "x \<noteq> ''Correlation-ID''"
proof
  assume "x = ''Correlation-ID''"
  moreover have "CanonicalHeaderKey (''X-Encore-Meta-'' @ ''Correlation-ID'') \<noteq> ''X-Encore-Meta-'' @ ''Correlation-ID''" by code_simp
  ultimately show False using canonical_id [OF assms] by simp
qed

lemma listed_reads:
  assumes "header_meta_key h = Some x"
  shows "header_meta_key (metaKeyToHTTPHeader x) = Some x"
proof -
  have h: "CanonicalHeaderKey h \<in> {''Traceparent'', ''Tracestate'', ''X-Correlation-Id''} \<and> x \<in> {TraceParentKey, TraceStateKey, CorrelationIDKey}
      \<or> CanonicalHeaderKey h = ''X-Encore-Meta-'' @ x"
    using assms by (auto simp: header_meta_key_def HasPrefix_iff Let_def split: if_splits)
  show ?thesis
  proof (cases "x \<in> {TraceParentKey, TraceStateKey, CorrelationIDKey}")
    case True
    then show ?thesis
      by (auto simp: header_meta_key_def metaKeyToHTTPHeader_def TraceParentKey_def TraceStateKey_def CorrelationIDKey_def special_headers)
  next
    case False
    with h have c: "CanonicalHeaderKey h = ''X-Encore-Meta-'' @ x" by blast
    from False have "metaKeyToHTTPHeader x = ''X-Encore-Meta-'' @ x" by (simp add: metaKeyToHTTPHeader_def)
    then show ?thesis using header_meta_key_canonical [of h] assms unfolding c by simp
  qed
qed

lemma listed_header_eq:
  assumes "header_meta_key h = Some x" "meta_header x = meta_header k"
  shows "x = meta_listed k"
proof -
  have "header_meta_key (meta_header x) = Some x" using listed_reads [OF assms(1)] by (simp add: meta_header_def header_meta_key_canonical)
  moreover have "header_meta_key (meta_header k) = Some (meta_listed k)"
    using header_meta_key_header by (simp add: meta_header_def header_meta_key_canonical)
  ultimately show ?thesis using assms(2) by simp
qed


text \<open>A key of our own is kept under its canonical name, after the prefix.\<close>

lemma meta_plain:
  assumes "k \<noteq> TraceParentKey" "k \<noteq> TraceStateKey" "k \<noteq> CorrelationIDKey"
  shows "meta_header k = ''X-Encore-Meta-'' @ CanonicalHeaderKey k" "meta_listed k = CanonicalHeaderKey k"
  using assms CanonicalHeaderKey_prefix [of k]
  by (simp_all add: meta_header_def meta_listed_def header_meta_key_def metaKeyToHTTPHeader_def CanonicalHeaderKey_def [of k] HasPrefix_iff)

lemma meta_special:
  "meta_header TraceParentKey = ''Traceparent''" "meta_header TraceStateKey = ''Tracestate''"
  "meta_header CorrelationIDKey = ''X-Correlation-Id''"
  "meta_listed TraceParentKey = TraceParentKey" "meta_listed TraceStateKey = TraceStateKey" "meta_listed CorrelationIDKey = CorrelationIDKey"
  by (simp_all add: meta_header_def meta_listed_def metaKeyToHTTPHeader_def special_headers header_meta_key_def
      TraceParentKey_def TraceStateKey_def CorrelationIDKey_def)


section \<open>The interface\<close>

text \<open>
  What a client of \<open>Transport\<close> relies on: reading after setting, the keys that are listed after
  setting, and that a listed key is read from where it is set. \<open>place\<close> says where a key is kept and
  \<open>listed\<close> under which name it is listed.
\<close>

locale meta_transport =
  fixes set_meta :: "string \<Rightarrow> string \<Rightarrow> 't \<Rightarrow> 't"
    and read_values :: "string \<Rightarrow> 't \<Rightarrow> string list"
    and list_keys :: "'t \<Rightarrow> string list"
    and place :: "string \<Rightarrow> string"
    and listed :: "string \<Rightarrow> string"
  assumes read_set: "read_values k' (set_meta k v t) = (if place k' = place k then [v] else read_values k' t)"
    and list_set: "filter (\<lambda>x. x \<noteq> listed k) (list_keys (set_meta k v t)) = filter (\<lambda>x. x \<noteq> listed k) (list_keys t)"
    and listed_place: "x \<in> set (list_keys t) \<Longrightarrow> place x = place k \<Longrightarrow> x = listed k"
begin

text \<open>The keys and values that stay after some keys are left out.\<close>

definition entries :: "string set \<Rightarrow> 't \<Rightarrow> (string \<times> string list) list" where
  "entries S t = map (\<lambda>k. (k, read_values k t)) (filter (\<lambda>k. k \<notin> S) (list_keys t))"

lemma list_set_filter:
  assumes "listed k \<in> S"
  shows "filter (\<lambda>x. x \<notin> S) (list_keys (set_meta k v t)) = filter (\<lambda>x. x \<notin> S) (list_keys t)"
proof -
  have "filter (\<lambda>x. x \<notin> S) xs = filter (\<lambda>x. x \<notin> S) (filter (\<lambda>x. x \<noteq> listed k) xs)" for xs
    using assms by (auto intro: filter_cong)
  then show ?thesis using list_set [of k v t] by metis
qed

text \<open>Setting one of the keys that are left out changes nothing about the others.\<close>

lemma entries_set:
  assumes "listed k \<in> S"
  shows "entries S (set_meta k v t) = entries S t"
proof -
  have "read_values x (set_meta k v t) = read_values x t" if "x \<in> set (filter (\<lambda>x. x \<notin> S) (list_keys t))" for x
    using that assms listed_place [of x t k] by (auto simp: read_set)
  then show ?thesis by (simp add: entries_def list_set_filter [OF assms])
qed

definition readable :: "string set \<Rightarrow> 't \<Rightarrow> bool" where
  "readable S t \<longleftrightarrow> (\<forall>x\<in>set (list_keys t). x \<notin> S \<longrightarrow> read_values x t \<noteq> [])"

lemma keys_after_set: "x \<in> set (list_keys (set_meta k v t)) \<Longrightarrow> x = listed k \<or> x \<in> set (list_keys t)"
proof -
  assume "x \<in> set (list_keys (set_meta k v t))"
  then have "x \<noteq> listed k \<Longrightarrow> x \<in> set (filter (\<lambda>x. x \<noteq> listed k) (list_keys (set_meta k v t)))" by simp
  then show "x = listed k \<or> x \<in> set (list_keys t)" unfolding list_set by auto
qed

lemma readable_set:
  assumes "readable S t" "place (listed k) = place k"
  shows "readable S (set_meta k v t)"
  using assms keys_after_set [of _ k v t] by (auto simp: readable_def read_set)

end

lemma map_filter_update:
  "List.map_filter f (map fst (AList.update k v h)) =
     List.map_filter f (map fst h) @ (if k \<in> fst ` set h then [] else List.map_filter f [k])"
  by (simp add: update_keys List.map_filter_def image_iff)

lemma ListMetaKeys_map: "ListMetaKeys h = sort (List.map_filter header_meta_key (map fst h))"
  by (simp add: ListMetaKeys_def List.map_filter_def filter_map comp_def)

interpretation http: meta_transport SetMeta ReadMetaValues ListMetaKeys meta_header meta_listed
proof
  fix k k' v :: string and t :: Header
  show "ReadMetaValues k' (SetMeta k v t) = (if meta_header k' = meta_header k then [v] else ReadMetaValues k' t)"
    by (simp add: ReadMetaValues_def SetMeta_def Header_Values_def Header_Set_def meta_header_def update_conv)
  show "filter (\<lambda>x. x \<noteq> meta_listed k) (ListMetaKeys (SetMeta k v t)) = filter (\<lambda>x. x \<noteq> meta_listed k) (ListMetaKeys t)"
    by (simp add: ListMetaKeys_map SetMeta_def Header_Set_def map_filter_update filter_sort map_filter_simps
        header_meta_key_canonical header_meta_key_header)
next
  fix x k :: string and t :: Header
  assume "x \<in> set (ListMetaKeys t)" "meta_header x = meta_header k"
  moreover from this(1) obtain h where "header_meta_key h = Some x" by (auto simp: ListMetaKeys_def List.map_filter_def)
  ultimately show "x = meta_listed k" using listed_header_eq by blast
qed

end
