(* ===== verification/Svc_Auth.thy ===== *)
theory Svc_Auth
  imports Transport
begin

text \<open>
  Authentication of calls between services (\<open>runtimes/go/appruntime/apisdk/api/svcauth\<close>). The packages
  \<open>platform-sdk/pkg/auth\<close> and \<open>x/crypto/sha3\<close> are not part of the repository: what the code calls of them
  is a parameter, \<open>auth_lib\<close>, and what it relies on are hypotheses of the lemmas. Times are
  nanoseconds.
\<close>

section \<open>Signing and verifying\<close>

record auth_Key =
  KeyID :: nat
  KeyData :: string

text \<open>
  \<open>SigningComponents\<close> of the two headers, \<open>SignForVerification\<close>, \<open>Sign\<close> at a time of the clock, the
  operation hash of an internal API call over a payload, and the hash over the metadata.
\<close>

record auth_lib =
  al_SigningComponents :: "string \<Rightarrow> string \<Rightarrow> (nat \<times> string \<times> string \<times> int \<times> string) option"
  al_SignForVerification :: "auth_Key \<Rightarrow> string \<Rightarrow> string \<Rightarrow> int \<Rightarrow> string \<Rightarrow> string \<times> string"
  al_Sign :: "auth_Key \<Rightarrow> string \<Rightarrow> string \<Rightarrow> int \<Rightarrow> string \<Rightarrow> string \<times> string"
  al_NewOperationHash :: "string \<Rightarrow> string option"
  al_sha3 :: "string \<Rightarrow> string"

datatype auth_err = ErrNoAuthorizationHeader | ErrNoDateHeader | ErrSigningComponents | ErrAuthenticationExpired
  | ErrAuthenticationFailed | ErrReadMetadata | ErrOperationHash | ErrUnknownMethod string

record encoreAuth =
  ea_appSlug :: string
  ea_envName :: string
  ea_keys :: "auth_Key list"
  ea_latestKey :: auth_Key

datatype ServiceAuth = Noop | EncoreAuth encoreAuth

definition ecAuthHashHeader :: string where "ecAuthHashHeader = ''Svc-Auth''"

definition ecDateHeader :: string where "ecDateHeader = ''Date''"

definition AuthMethodMetaKey :: string where "AuthMethodMetaKey = ''Svc-Auth-Method''"

definition zero_Key :: auth_Key where "zero_Key = \<lparr>KeyID = 0, KeyData = []\<rparr>"

definition newEncoreAuth :: "string \<Rightarrow> string \<Rightarrow> auth_Key list \<Rightarrow> encoreAuth" where
  "newEncoreAuth appSlug envName keys = \<lparr>ea_appSlug = appSlug, ea_envName = envName, ea_keys = keys,
     ea_latestKey = fold (\<lambda>key latest. if KeyID latest < KeyID key then key else latest) keys zero_Key\<rparr>"

text \<open>What the hash does not cover: the authentication itself, and what load balancers may change.\<close>

definition unsigned_keys :: "string set" where
  "unsigned_keys = {AuthMethodMetaKey, ecAuthHashHeader, ecDateHeader, TraceParentKey, TraceStateKey}"

definition hash_line :: "string \<times> string \<Rightarrow> string" where
  "hash_line kv = fst kv @ ''='' @ snd kv @ [CHR 0x0A]"

primrec hash_loop :: "Header \<Rightarrow> string list \<Rightarrow> string option" where
  "hash_loop req [] = Some []"
| "hash_loop req (key # keys) =
     (if key \<in> unsigned_keys then hash_loop req keys
      else let values = ReadMetaValues key req
        in if values = [] then None
           else case hash_loop req keys of
               None \<Rightarrow> None
             | Some rest \<Rightarrow> Some (concat (map (\<lambda>v. hash_line (key, v)) (sort values)) @ rest))"

definition buildOpHash :: "auth_lib \<Rightarrow> Header \<Rightarrow> auth_err + string" where
  "buildOpHash lib req =
     (case hash_loop req (ListMetaKeys req) of
        None \<Rightarrow> Inl ErrReadMetadata
      | Some content \<Rightarrow> (case al_NewOperationHash lib (al_sha3 lib content) of None \<Rightarrow> Inl ErrOperationHash | Some h \<Rightarrow> Inr h))"

definition allowedClockSkew :: int where "allowedClockSkew = 2 * 60 * 1000000000"

definition ea_verify :: "auth_lib \<Rightarrow> int \<Rightarrow> encoreAuth \<Rightarrow> Header \<Rightarrow> auth_err option" where
  "ea_verify lib now ea req =
     (case ReadMeta ecAuthHashHeader req of
        None \<Rightarrow> Some ErrNoAuthorizationHeader
      | Some authorization \<Rightarrow> (case ReadMeta ecDateHeader req of
          None \<Rightarrow> Some ErrNoDateHeader
        | Some date \<Rightarrow> (case al_SigningComponents lib authorization date of
            None \<Rightarrow> Some ErrSigningComponents
          | Some (keyID, appSlug, envName, timestamp, opHash) \<Rightarrow>
              (let diff = now - timestamp;
                   key = (case find (\<lambda>k. KeyID k = keyID) (ea_keys ea) of None \<Rightarrow> zero_Key | Some k \<Rightarrow> k)
               in if diff > allowedClockSkew \<or> diff < - allowedClockSkew then Some ErrAuthenticationExpired
                  else if KeyID key = 0 then Some ErrAuthenticationFailed
                  else if al_SignForVerification lib key appSlug envName timestamp opHash \<noteq> (authorization, date)
                    then Some ErrAuthenticationFailed
                  else case buildOpHash lib req of
                      Inl err \<Rightarrow> Some err
                    | Inr expectedOpHash \<Rightarrow> if expectedOpHash \<noteq> opHash then Some ErrAuthenticationFailed else None))))"

definition ea_sign :: "auth_lib \<Rightarrow> int \<Rightarrow> encoreAuth \<Rightarrow> Header \<Rightarrow> auth_err + Header" where
  "ea_sign lib now ea req =
     (case buildOpHash lib req of
        Inl err \<Rightarrow> Inl err
      | Inr opHash \<Rightarrow>
          (let (authorization, date) = al_Sign lib (ea_latestKey ea) (ea_appSlug ea) (ea_envName ea) now opHash
           in Inr (SetMeta ecDateHeader date (SetMeta ecAuthHashHeader authorization req))))"

primrec sa_method :: "ServiceAuth \<Rightarrow> string" where
  "sa_method Noop = ''noop''"
| "sa_method (EncoreAuth ea) = ''encore-auth''"

primrec sa_verify :: "auth_lib \<Rightarrow> int \<Rightarrow> ServiceAuth \<Rightarrow> Header \<Rightarrow> auth_err option" where
  "sa_verify lib now Noop req = None"
| "sa_verify lib now (EncoreAuth ea) req = ea_verify lib now ea req"

primrec sa_sign :: "auth_lib \<Rightarrow> int \<Rightarrow> ServiceAuth \<Rightarrow> Header \<Rightarrow> auth_err + Header" where
  "sa_sign lib now Noop req = Inr req"
| "sa_sign lib now (EncoreAuth ea) req = ea_sign lib now ea req"

definition Sign :: "auth_lib \<Rightarrow> int \<Rightarrow> ServiceAuth \<Rightarrow> Header \<Rightarrow> auth_err + Header" where
  "Sign lib now m req =
     (case sa_sign lib now m req of
        Inl err \<Rightarrow> Inl err
      | Inr req' \<Rightarrow> Inr (SetMeta AuthMethodMetaKey (sa_method m) req'))"

definition Verify :: "auth_lib \<Rightarrow> int \<Rightarrow> Header \<Rightarrow> ServiceAuth list \<Rightarrow> auth_err + bool" where
  "Verify lib now req loadedAuthMethods =
     (case ReadMeta AuthMethodMetaKey req of
        None \<Rightarrow> Inr False
      | Some m \<Rightarrow> (case find (\<lambda>am. sa_method am = m) loadedAuthMethods of
          None \<Rightarrow> Inl (ErrUnknownMethod m)
        | Some am \<Rightarrow> (case sa_verify lib now am req of Some err \<Rightarrow> Inl err | None \<Rightarrow> Inr True)))"

text \<open>The methods a configuration names; the maps of the code are keyed by the method, so that a method is loaded once.\<close>

definition load_method :: "string \<Rightarrow> string \<Rightarrow> auth_Key list \<Rightarrow> string \<Rightarrow> auth_err + ServiceAuth" where
  "load_method appSlug envName keys m =
     (if m = ''noop'' then Inr Noop
      else if m = ''encore-auth'' then Inr (EncoreAuth (newEncoreAuth appSlug envName keys))
      else Inl (ErrUnknownMethod m))"

fun load_all :: "string \<Rightarrow> string \<Rightarrow> auth_Key list \<Rightarrow> string list \<Rightarrow> (string \<times> ServiceAuth) list \<Rightarrow> auth_err + (string \<times> ServiceAuth) list" where
  "load_all appSlug envName keys [] loaded = Inr loaded"
| "load_all appSlug envName keys (m # ms) loaded =
     (case load_method appSlug envName keys m of
        Inl err \<Rightarrow> Inl err
      | Inr sa \<Rightarrow> load_all appSlug envName keys ms (AList.update m sa loaded))"

definition LoadMethods :: "string \<Rightarrow> string \<Rightarrow> auth_Key list \<Rightarrow> string list \<Rightarrow> string list
    \<Rightarrow> auth_err + (string \<times> ServiceAuth) list \<times> (string \<times> ServiceAuth) list" where
  "LoadMethods appSlug envName keys serviceAuth serviceDiscovery =
     (case load_all appSlug envName keys serviceAuth [] of
        Inl err \<Rightarrow> Inl err
      | Inr inbound \<Rightarrow> (case load_all appSlug envName keys serviceDiscovery [] of
          Inl err \<Rightarrow> Inl err
        | Inr outbound \<Rightarrow> Inr (inbound, outbound)))"


section \<open>What the hash covers\<close>

definition hash_entries :: "(string \<times> string list) list \<Rightarrow> string option" where
  "hash_entries es = (if \<exists>e\<in>set es. snd e = [] then None
     else Some (concat (map (\<lambda>(k, vs). concat (map (\<lambda>v. hash_line (k, v)) (sort vs))) es)))"

definition signed_entries :: "Header \<Rightarrow> (string \<times> string list) list" where
  "signed_entries req = http.entries unsigned_keys req"

lemma hash_loop_entries: "hash_loop req keys = hash_entries (map (\<lambda>k. (k, ReadMetaValues k req)) (filter (\<lambda>k. k \<notin> unsigned_keys) keys))"
  by (induction keys) (auto simp: hash_entries_def Let_def split: option.splits)

lemma buildOpHash_entries:
  "buildOpHash lib req = (case hash_entries (signed_entries req) of
     None \<Rightarrow> Inl ErrReadMetadata
   | Some content \<Rightarrow> (case al_NewOperationHash lib (al_sha3 lib content) of None \<Rightarrow> Inl ErrOperationHash | Some h \<Rightarrow> Inr h))"
  by (simp add: buildOpHash_def hash_loop_entries signed_entries_def http.entries_def)

lemmas meta_key_defs = AuthMethodMetaKey_def ecAuthHashHeader_def ecDateHeader_def TraceParentKey_def TraceStateKey_def CorrelationIDKey_def

lemma auth_names:
  "CanonicalHeaderKey AuthMethodMetaKey = AuthMethodMetaKey" "CanonicalHeaderKey ecAuthHashHeader = ecAuthHashHeader"
  "CanonicalHeaderKey ecDateHeader = ecDateHeader"
  by code_simp+

lemma auth_headers:
  "meta_header AuthMethodMetaKey = ''X-Encore-Meta-Svc-Auth-Method''" "meta_header ecAuthHashHeader = ''X-Encore-Meta-Svc-Auth''"
  "meta_header ecDateHeader = ''X-Encore-Meta-Date''"
  "meta_listed AuthMethodMetaKey = AuthMethodMetaKey" "meta_listed ecAuthHashHeader = ecAuthHashHeader"
  "meta_listed ecDateHeader = ecDateHeader"
  using auth_names by (simp_all add: meta_plain meta_key_defs)

lemma unsigned_listed: "k \<in> unsigned_keys \<Longrightarrow> meta_listed k \<in> unsigned_keys"
  by (auto simp: unsigned_keys_def auth_headers meta_special)

lemma signed_entries_set: "k \<in> unsigned_keys \<Longrightarrow> signed_entries (SetMeta k v req) = signed_entries req"
  unfolding signed_entries_def by (rule http.entries_set) (rule unsigned_listed)

lemma buildOpHash_set: "k \<in> unsigned_keys \<Longrightarrow> buildOpHash lib (SetMeta k v req) = buildOpHash lib req"
  by (simp add: buildOpHash_entries signed_entries_set)

lemma ReadMeta_values: "ReadMeta k req = (case ReadMetaValues k req of [] \<Rightarrow> None | v # _ \<Rightarrow> if v = [] then None else Some v)"
  by (simp add: ReadMeta_def ReadMetaValues_def Header_Get_def Let_def split: list.split)

lemma ReadMeta_set: "ReadMeta k' (SetMeta k v req) = (if meta_header k' = meta_header k then if v = [] then None else Some v else ReadMeta k' req)"
  by (simp add: ReadMeta_values http.read_set)


section \<open>A signature is accepted\<close>

text \<open>
  What the code relies on of the package: the headers that \<open>Sign\<close> makes are not empty, their components
  are those that were signed, with a time within the allowed skew of the verifying clock, and
  signing these components again makes the same headers.
\<close>

definition signs_for :: "auth_lib \<Rightarrow> encoreAuth \<Rightarrow> int \<Rightarrow> int \<Rightarrow> bool" where
  "signs_for lib ea now now' \<longleftrightarrow> (\<forall>h authorization date.
     al_Sign lib (ea_latestKey ea) (ea_appSlug ea) (ea_envName ea) now h = (authorization, date) \<longrightarrow> authorization \<noteq> [] \<and> date \<noteq> []
     \<and> (\<exists>ts. al_SigningComponents lib authorization date = Some (KeyID (ea_latestKey ea), ea_appSlug ea, ea_envName ea, ts, h)
         \<and> \<bar>now' - ts\<bar> \<le> allowedClockSkew
         \<and> al_SignForVerification lib (ea_latestKey ea) (ea_appSlug ea) (ea_envName ea) ts h = (authorization, date)))"

lemma auth_headers_differ:
  "meta_header AuthMethodMetaKey \<noteq> meta_header ecAuthHashHeader" "meta_header AuthMethodMetaKey \<noteq> meta_header ecDateHeader"
  "meta_header ecAuthHashHeader \<noteq> meta_header ecDateHeader"
  by (simp_all add: auth_headers)

lemma auth_keys_unsigned: "AuthMethodMetaKey \<in> unsigned_keys" "ecAuthHashHeader \<in> unsigned_keys" "ecDateHeader \<in> unsigned_keys"
  by (simp_all add: unsigned_keys_def)

lemmas auth_reads = ReadMeta_set auth_headers_differ auth_headers_differ [symmetric]

text \<open>
  The receiver has loaded the method the sender uses; with keys, its newest key is known to the
  receiver under its number.
\<close>

definition verifies :: "auth_lib \<Rightarrow> int \<Rightarrow> int \<Rightarrow> ServiceAuth \<Rightarrow> ServiceAuth list \<Rightarrow> bool" where
  "verifies lib now now' m methods \<longleftrightarrow> (\<exists>m''. find (\<lambda>am. sa_method am = sa_method m) methods = Some m''
     \<and> (case m of Noop \<Rightarrow> m'' = Noop
        | EncoreAuth ea \<Rightarrow> signs_for lib ea now now' \<and> KeyID (ea_latestKey ea) \<noteq> 0 \<and> (\<exists>ea'. m'' = EncoreAuth ea'
            \<and> find (\<lambda>k. KeyID k = KeyID (ea_latestKey ea)) (ea_keys ea') = Some (ea_latestKey ea))))"

lemma sign_verify:
  assumes s: "Sign lib now m req = Inr req'" and v: "verifies lib now now' m methods"
  shows "Verify lib now' req' methods = Inr True"
proof -
  obtain r where r: "sa_sign lib now m req = Inr r" "req' = SetMeta AuthMethodMetaKey (sa_method m) r"
    using s by (auto simp: Sign_def split: sum.splits)
  have "sa_method m \<noteq> []" by (cases m) simp_all
  then have rm: "ReadMeta AuthMethodMetaKey req' = Some (sa_method m)" by (simp add: r(2) auth_reads)
  from v obtain m'' where f: "find (\<lambda>am. sa_method am = sa_method m) methods = Some m''"
    and key: "case m of Noop \<Rightarrow> m'' = Noop | EncoreAuth ea \<Rightarrow> signs_for lib ea now now' \<and> KeyID (ea_latestKey ea) \<noteq> 0
      \<and> (\<exists>ea'. m'' = EncoreAuth ea' \<and> find (\<lambda>k. KeyID k = KeyID (ea_latestKey ea)) (ea_keys ea') = Some (ea_latestKey ea))"
    unfolding verifies_def by blast
  have "sa_verify lib now' m'' req' = None"
  proof (cases m)
    case Noop
    with key show ?thesis by simp
  next
    case (EncoreAuth ea)
    with key obtain ea' where ea': "m'' = EncoreAuth ea'" "KeyID (ea_latestKey ea) \<noteq> 0"
      "find (\<lambda>k. KeyID k = KeyID (ea_latestKey ea)) (ea_keys ea') = Some (ea_latestKey ea)" by auto
    from r(1) EncoreAuth obtain h where h: "buildOpHash lib req = Inr h" by (auto simp: ea_sign_def split: sum.splits)
    obtain authorization date where ad: "al_Sign lib (ea_latestKey ea) (ea_appSlug ea) (ea_envName ea) now h = (authorization, date)"
      by fastforce
    have sf: "signs_for lib ea now now'" using key EncoreAuth by simp
    from sf [unfolded signs_for_def, rule_format, OF ad] obtain ts where ts: "authorization \<noteq> []" "date \<noteq> []"
      "al_SigningComponents lib authorization date = Some (KeyID (ea_latestKey ea), ea_appSlug ea, ea_envName ea, ts, h)"
      "\<bar>now' - ts\<bar> \<le> allowedClockSkew"
      "al_SignForVerification lib (ea_latestKey ea) (ea_appSlug ea) (ea_envName ea) ts h = (authorization, date)"
      by blast
    have r': "req' = SetMeta AuthMethodMetaKey (sa_method m) (SetMeta ecDateHeader date (SetMeta ecAuthHashHeader authorization req))"
      using r EncoreAuth h ad by (simp add: ea_sign_def)
    have "buildOpHash lib req' = Inr h" by (simp add: r' buildOpHash_set auth_keys_unsigned h)
    moreover have "ReadMeta ecAuthHashHeader req' = Some authorization" "ReadMeta ecDateHeader req' = Some date"
      using ts(1,2) by (simp_all add: r' auth_reads)
    ultimately show ?thesis using ts(3-5) ea' by (auto simp: ea_verify_def Let_def)
  qed
  with rm f show ?thesis by (simp add: Verify_def)
qed


section \<open>What an accepted signature says\<close>

definition hash_token :: "string \<Rightarrow> bool" where
  "hash_token k \<longleftrightarrow> CHR ''='' \<notin> set k \<and> CHR 0x0A \<notin> set k"

definition hash_value :: "string \<Rightarrow> bool" where
  "hash_value v \<longleftrightarrow> CHR 0x0A \<notin> set v"

lemma split_unique:
  assumes "a @ c # b = a' @ c # b'" "c \<notin> set a" "c \<notin> set a'"
  shows "a = a' \<and> b = b'"
  using assms by (induction a arbitrary: a') (auto simp: Cons_eq_append_conv)

lemma hash_line_inj:
  assumes "hash_line kv @ r = hash_line kv' @ r'" "hash_token (fst kv)" "hash_token (fst kv')" "hash_value (snd kv)" "hash_value (snd kv')"
  shows "kv = kv' \<and> r = r'"
proof -
  have "fst kv @ CHR ''='' # (snd kv @ CHR 0x0A # r) = fst kv' @ CHR ''='' # (snd kv' @ CHR 0x0A # r')"
    using assms(1) by (simp add: hash_line_def)
  from split_unique [OF this] assms(2,3) have 1: "fst kv = fst kv'" "snd kv @ CHR 0x0A # r = snd kv' @ CHR 0x0A # r'"
    by (auto simp: hash_token_def)
  from split_unique [OF 1(2)] assms(4,5) 1(1) show ?thesis by (auto simp: hash_value_def prod_eq_iff)
qed

lemma hash_lines_inj:
  assumes "concat (map hash_line xs) = concat (map hash_line ys)"
    "\<And>kv. kv \<in> set xs \<union> set ys \<Longrightarrow> hash_token (fst kv) \<and> hash_value (snd kv)"
  shows "xs = ys"
  using assms
proof (induction xs arbitrary: ys)
  case Nil
  then show ?case by (cases ys) (auto simp: hash_line_def)
next
  case (Cons x xs)
  show ?case
  proof (cases ys)
    case Nil
    with Cons.prems show ?thesis by (auto simp: hash_line_def)
  next
    case (Cons y ys')
    with Cons.prems hash_line_inj [of x "concat (map hash_line xs)" y "concat (map hash_line ys')"]
    have "x = y" "concat (map hash_line xs) = concat (map hash_line ys')" by simp_all
    with Cons.IH [of ys'] Cons.prems(2) Cons show ?thesis by simp
  qed
qed

text \<open>The pairs of a key and a value that the hash covers, in the order of the hash.\<close>

definition signed_lines :: "Header \<Rightarrow> (string \<times> string) list" where
  "signed_lines req = concat (map (\<lambda>(k, vs). map (Pair k) (sort vs)) (signed_entries req))"

lemma lines_concat:
  "concat (map hash_line (concat (map (\<lambda>(k, vs). map (Pair k) (sort vs)) es))) =
     concat (map (\<lambda>(k, vs). concat (map (\<lambda>v. hash_line (k, v)) (sort vs))) es)"
  by (induction es) (auto simp: comp_def)

lemma hash_entries_lines:
  "hash_entries (signed_entries req) = Some content \<Longrightarrow> content = concat (map hash_line (signed_lines req))"
  by (auto simp: hash_entries_def signed_lines_def lines_concat split: if_splits)


text \<open>A package to try the theorems on: the headers are the operation hash, marked, and a time.\<close>

definition plain_lib :: auth_lib where
  "plain_lib = \<lparr>
     al_SigningComponents = (\<lambda>a d. Some (1, ''app'', ''env'', int (length d), drop 1 a)),
     al_SignForVerification = (\<lambda>key app env ts h. (CHR ''k'' # h, replicate (nat ts) CHR ''1'')),
     al_Sign = (\<lambda>key app env now h. (CHR ''k'' # h, ''1'')),
     al_NewOperationHash = Some,
     al_sha3 = id\<rparr>"

definition plain_auth :: encoreAuth where
  "plain_auth = newEncoreAuth ''app'' ''env'' [\<lparr>KeyID = 1, KeyData = ''secret''\<rparr>]"

definition plain_request :: Header where
  "plain_request = [(''X-Encore-Meta-Userid'', [''u'']), (''X-Encore-Meta-Svc-Auth'', [''kUserid=u'' @ [CHR 0x0A]]),
     (''X-Encore-Meta-Date'', [''1'']), (''X-Encore-Meta-Svc-Auth-Method'', [''encore-auth''])]"

lemma plain_verified: "Verify plain_lib 1 plain_request [EncoreAuth plain_auth] = Inr True"
  by code_simp

lemma plain_lines: "signed_lines plain_request = [(''Userid'', ''u'')]"
  by (simp add: signed_lines_def signed_entries_def http.entries_def) code_simp


end
