(* ===== verification/Call_Meta.thy ===== *)
theory Call_Meta
  imports Svc_Auth Types_UUID
begin

text \<open>
  What a call between services carries (\<open>runtimes/go/appruntime/apisdk/api\<close>: \<open>callers.go\<close>, \<open>call_meta.go\<close>, the
  proxy of \<open>gateway.go\<close> and \<open>extractCallMeta\<close> of \<open>server.go\<close>; \<open>shared/cloudtrace/extractors.go\<close>). The
  encoding of authentication data as JSON is a parameter. A failure leaves the request as far as
  it was written.
\<close>

section \<open>Numbers in headers (strconv)\<close>

definition digit_char :: "nat \<Rightarrow> char" where
  "digit_char d = (if d < 10 then char_of (48 + d) else char_of (87 + d))"

definition digit_value :: "char \<Rightarrow> nat option" where
  "digit_value c = (let n = of_char c :: nat in
     if 48 \<le> n \<and> n \<le> 57 then Some (n - 48)
     else if 97 \<le> n \<and> n \<le> 122 then Some (n - 87)
     else if 65 \<le> n \<and> n \<le> 90 then Some (n - 55)
     else None)"

function FormatUint :: "nat \<Rightarrow> nat \<Rightarrow> string" where
  "FormatUint base n = (if n < base \<or> base < 2 then [digit_char n] else FormatUint base (n div base) @ [digit_char (n mod base)])"
  by pat_completeness auto
termination by (relation "measure snd") auto

declare FormatUint.simps [simp del]

fun digits_value :: "nat \<Rightarrow> nat \<Rightarrow> string \<Rightarrow> nat option" where
  "digits_value base n [] = Some n"
| "digits_value base n (c # s) = (case digit_value c of
       None \<Rightarrow> None
     | Some d \<Rightarrow> if base \<le> d then None else digits_value base (n * base + d) s)"

definition ParseUint :: "nat \<Rightarrow> string \<Rightarrow> uint64 option" where
  "ParseUint base s = (if s = [] then None
     else case digits_value base 0 s of None \<Rightarrow> None | Some n \<Rightarrow> if n < 2 ^ 64 then Some (of_nat n) else None)"


section \<open>Callers\<close>

datatype Caller = ApiCaller string string | PubSubCaller string string string | AppCaller string
  | GatewayCaller string | EncoreCaller string

primrec CallerString :: "Caller \<Rightarrow> string" where
  "CallerString (ApiCaller serviceName endpoint) = ''api:'' @ serviceName @ ''.'' @ endpoint"
| "CallerString (PubSubCaller topic subscription messageID) = ''pubsub:'' @ topic @ '':'' @ subscription @ '':'' @ messageID"
| "CallerString (AppCaller deployID) = ''app:'' @ deployID"
| "CallerString (GatewayCaller gatewayName) = ''gateway:'' @ gatewayName @ ''.none''"
| "CallerString (EncoreCaller p) = ''encore:'' @ p"

primrec PrivateAPIAccess :: "Caller \<Rightarrow> bool" where
  "PrivateAPIAccess (ApiCaller s e) = True"
| "PrivateAPIAccess (PubSubCaller t s m) = True"
| "PrivateAPIAccess (AppCaller d) = True"
| "PrivateAPIAccess (GatewayCaller g) = False"
| "PrivateAPIAccess (EncoreCaller p) = True"

definition ParseCallerString :: "string \<Rightarrow> Caller option" where
  "ParseCallerString callerStr =
     (if HasPrefix callerStr ''api:'' then
        (case Cut (drop 4 callerStr) CHR ''.'' of None \<Rightarrow> None | Some (service, endpoint) \<Rightarrow> Some (ApiCaller service endpoint))
      else if HasPrefix callerStr ''pubsub:'' then
        (case Cut (drop 7 callerStr) CHR '':'' of
           None \<Rightarrow> None
         | Some (topic, subscriptionAndMsgId) \<Rightarrow> (case Cut subscriptionAndMsgId CHR '':'' of
             None \<Rightarrow> None
           | Some (subscription, msgId) \<Rightarrow> Some (PubSubCaller topic subscription msgId)))
      else if HasPrefix callerStr ''app:'' then Some (AppCaller (drop 4 callerStr))
      else if HasPrefix callerStr ''gateway:'' then
        (case Cut (drop 8 callerStr) CHR ''.'' of
           None \<Rightarrow> Some (GatewayCaller (drop 8 callerStr))
         | Some (gateway, _) \<Rightarrow> Some (GatewayCaller gateway))
      else if HasPrefix callerStr ''encore:'' then Some (EncoreCaller (drop 7 callerStr))
      else None)"


section \<open>Call metadata\<close>

type_synonym TraceID = bytes
type_synonym SpanID = bytes

definition zero_TraceID :: TraceID where "zero_TraceID = replicate 16 0"

definition zero_SpanID :: SpanID where "zero_SpanID = replicate 8 0"

record 'd InternalCallMeta =
  ic_Caller :: Caller
  ic_AuthUID :: string
  ic_AuthData :: "'d option"

record 'd CallMeta =
  cm_TraceID :: TraceID
  cm_SpanID :: SpanID
  cm_ParentSpanID :: SpanID
  cm_ParentEventID :: uint64
  cm_CorrelationID :: string
  cm_TraceSampled :: bool
  cm_Internal :: "'d InternalCallMeta option"

definition zero_CallMeta :: "'d CallMeta" where
  "zero_CallMeta = \<lparr>cm_TraceID = zero_TraceID, cm_SpanID = zero_SpanID, cm_ParentSpanID = zero_SpanID, cm_ParentEventID = 0,
     cm_CorrelationID = [], cm_TraceSampled = False, cm_Internal = None\<rparr>"

text \<open>
  What a server knows: the cloud it runs in, the methods to sign and to verify calls with, the JSON
  encoding of authentication data.
\<close>

record 'd meta_server =
  ms_EnvCloud :: string
  ms_outboundSvcAuth :: "(string \<times> ServiceAuth) list"
  ms_inboundSvcAuth :: "(string \<times> ServiceAuth) list"
  ms_Marshal :: "'d \<Rightarrow> string option"
  ms_Unmarshal :: "string \<Rightarrow> 'd option"

datatype meta_err = ErrMetaVersion | ErrVerify auth_err | ErrNoInternalAuth | ErrCallerString | ErrUnmarshal
  | ErrMarshal | ErrNoAuthMethod | ErrSign auth_err

definition eventTraceStateEventIDKey :: string where "eventTraceStateEventIDKey = ''encore/event-id''"

definition eventTraceStateSpanIDKey :: string where "eventTraceStateSpanIDKey = ''encore/span-id''"

definition callerMetaName :: string where "callerMetaName = ''Caller''"

definition calleeMetaName :: string where "calleeMetaName = ''Callee''"

definition traceparent_of :: "'d CallMeta \<Rightarrow> string" where
  "traceparent_of meta = ''00-'' @ hex_encode (cm_TraceID meta) @ ''-'' @ hex_encode (cm_ParentSpanID meta) @ ''-''
     @ (if cm_TraceSampled meta then ''01'' else ''00'')"

definition tracestate_of :: "'d meta_server \<Rightarrow> 'd CallMeta \<Rightarrow> string" where
  "tracestate_of server meta =
     (let eventID = FormatUint 36 (unat (cm_ParentEventID meta))
      in if ms_EnvCloud server = ''gcp'' \<or> ms_EnvCloud server = ''encore''
         then eventTraceStateSpanIDKey @ ''='' @ hex_encode (cm_ParentSpanID meta) @ '','' @ eventTraceStateEventIDKey @ ''='' @ eventID
         else eventTraceStateEventIDKey @ ''='' @ eventID)"

definition add_trace :: "'d meta_server \<Rightarrow> 'd CallMeta \<Rightarrow> Header \<Rightarrow> Header" where
  "add_trace server meta req =
     (if cm_TraceID meta = zero_TraceID then req
      else let req = SetMeta TraceParentKey (traceparent_of meta) req
        in if cm_ParentSpanID meta = zero_SpanID then req else SetMeta TraceStateKey (tracestate_of server meta) req)"

definition sign_request :: "auth_lib \<Rightarrow> int \<Rightarrow> ServiceAuth \<Rightarrow> Header \<Rightarrow> Header \<times> meta_err option" where
  "sign_request lib now targetAuth req =
     (case Sign lib now targetAuth req of Inl e \<Rightarrow> (req, Some (ErrSign e)) | Inr req' \<Rightarrow> (req', None))"

definition add_internal :: "auth_lib \<Rightarrow> int \<Rightarrow> 'd meta_server \<Rightarrow> string \<Rightarrow> 'd InternalCallMeta \<Rightarrow> Header \<Rightarrow> Header \<times> meta_err option" where
  "add_internal lib now server authMethod internal req =
     (let req = SetMeta callerMetaName (CallerString (ic_Caller internal)) req;
          (req, err) =
            (if ic_AuthUID internal = [] then (req, None)
             else let req = SetMeta ''UserID'' (ic_AuthUID internal) req
               in case ic_AuthData internal of
                   None \<Rightarrow> (req, None)
                 | Some d \<Rightarrow> (case ms_Marshal server d of
                     None \<Rightarrow> (req, Some ErrMarshal)
                   | Some authData \<Rightarrow> (SetMeta ''AuthData'' authData req, None)))
      in if err \<noteq> None then (req, err)
         else case map_of (ms_outboundSvcAuth server) authMethod of
             None \<Rightarrow> (req, Some ErrNoAuthMethod)
           | Some targetAuth \<Rightarrow> sign_request lib now targetAuth req)"

definition AddToRequest :: "auth_lib \<Rightarrow> int \<Rightarrow> 'd meta_server \<Rightarrow> string \<Rightarrow> 'd CallMeta \<Rightarrow> Header \<Rightarrow> Header \<times> meta_err option" where
  "AddToRequest lib now server authMethod meta req =
     (let req = SetMeta ''Version'' ''1'' req;
          req = add_trace server meta req;
          req = (if cm_CorrelationID meta = [] then req else SetMeta CorrelationIDKey (cm_CorrelationID meta) req)
      in case cm_Internal meta of
           None \<Rightarrow> (req, None)
         | Some internal \<Rightarrow> add_internal lib now server authMethod internal req)"

definition parseTraceParent :: "string \<Rightarrow> TraceID \<times> SpanID \<times> bool \<times> bool" where
  "parseTraceParent s =
     (if length s \<noteq> 55 \<or> take 2 s \<noteq> ''00'' \<or> s ! 2 \<noteq> CHR ''-'' \<or> s ! 35 \<noteq> CHR ''-'' \<or> s ! 52 \<noteq> CHR ''-''
      then (zero_TraceID, zero_SpanID, False, False)
      else case hex_decode (take 32 (drop 3 s)) of
          (_, Some _) \<Rightarrow> (zero_TraceID, zero_SpanID, False, False)
        | (traceID, None) \<Rightarrow> (case hex_decode (take 16 (drop 36 s)) of
            (_, Some _) \<Rightarrow> (zero_TraceID, zero_SpanID, False, False)
          | (spanID, None) \<Rightarrow> (case hex_decode (take 2 (drop 53 s)) of
              (_, Some _) \<Rightarrow> (zero_TraceID, zero_SpanID, False, False)
            | (flags, None) \<Rightarrow> (traceID, spanID, hd flags AND 1 = 1, True))))"

text \<open>The fields of a trace state; nothing is returned when a field of ours does not parse.\<close>

fun trace_fields :: "string list \<Rightarrow> uint64 \<times> SpanID \<Rightarrow> (uint64 \<times> SpanID) option" where
  "trace_fields [] st = Some st"
| "trace_fields (field # fs) (eventID, parentSpanID) =
     (case Split CHR ''='' field of
        [k, v] \<Rightarrow>
          (if k = eventTraceStateSpanIDKey then
             (case hex_decode v of
                (spanIDBytes, None) \<Rightarrow> if length spanIDBytes = 8 then trace_fields fs (eventID, spanIDBytes) else None
              | (_, Some _) \<Rightarrow> None)
           else if k = eventTraceStateEventIDKey then
             (case ParseUint 36 v of None \<Rightarrow> None | Some e \<Rightarrow> trace_fields fs (e, parentSpanID))
           else trace_fields fs (eventID, parentSpanID))
      | _ \<Rightarrow> trace_fields fs (eventID, parentSpanID))"

definition parseTraceState :: "string list \<Rightarrow> uint64 \<times> SpanID \<times> bool" where
  "parseTraceState headerValues =
     (case trace_fields (concat (map (Split CHR '','') headerValues)) (0, zero_SpanID) of
        None \<Rightarrow> (0, zero_SpanID, False)
      | Some (eventID, parentSpanID) \<Rightarrow> (eventID, parentSpanID, eventID \<noteq> 0))"

definition read_internal :: "'d meta_server \<Rightarrow> Caller \<Rightarrow> Header \<Rightarrow> meta_err + 'd InternalCallMeta" where
  "read_internal server caller req =
     (case ReadMeta ''UserID'' req of
        None \<Rightarrow> Inr \<lparr>ic_Caller = caller, ic_AuthUID = [], ic_AuthData = None\<rparr>
      | Some uid \<Rightarrow> (case ReadMeta ''AuthData'' req of
          None \<Rightarrow> Inr \<lparr>ic_Caller = caller, ic_AuthUID = uid, ic_AuthData = None\<rparr>
        | Some data \<Rightarrow> (case ms_Unmarshal server data of
            None \<Rightarrow> Inl ErrUnmarshal
          | Some d \<Rightarrow> Inr \<lparr>ic_Caller = caller, ic_AuthUID = uid, ic_AuthData = Some d\<rparr>)))"

definition read_trace :: "Caller \<Rightarrow> Header \<Rightarrow> 'd CallMeta \<Rightarrow> 'd CallMeta" where
  "read_trace caller req meta =
     (case ReadMeta TraceParentKey req of
        None \<Rightarrow> meta
      | Some traceParent \<Rightarrow>
          (let (traceID, parentSpanID, sampled, _) = parseTraceParent traceParent;
               parentSpanID = (case caller of GatewayCaller _ \<Rightarrow> zero_SpanID | _ \<Rightarrow> parentSpanID);
               meta = meta\<lparr>cm_TraceID := traceID, cm_ParentSpanID := parentSpanID, cm_TraceSampled := sampled\<rparr>;
               traceState = ReadMetaValues TraceStateKey req
           in if traceState = [] then meta
              else let (parentEventID, parentSpanID, ok) = parseTraceState traceState
                in if \<not> ok then meta
                   else let meta = meta\<lparr>cm_ParentEventID := parentEventID\<rparr>
                     in if parentSpanID = zero_SpanID then meta else meta\<lparr>cm_ParentSpanID := parentSpanID\<rparr>))"

text \<open>The length that is compared with 64 is that of the metadata read so far, which is empty.\<close>

definition read_correlation :: "Header \<Rightarrow> 'd CallMeta \<Rightarrow> 'd CallMeta" where
  "read_correlation req meta =
     (case ReadMeta CorrelationIDKey req of
        None \<Rightarrow> meta
      | Some correlationID \<Rightarrow>
          if length (cm_CorrelationID meta) > 64 then meta\<lparr>cm_CorrelationID := take 64 correlationID\<rparr>
          else meta\<lparr>cm_CorrelationID := correlationID\<rparr>)"

definition MetaFromRequest :: "auth_lib \<Rightarrow> int \<Rightarrow> 'd meta_server \<Rightarrow> Header \<Rightarrow> meta_err + 'd CallMeta" where
  "MetaFromRequest lib now server req =
     (if ReadMeta ''Version'' req \<noteq> None \<and> ReadMeta ''Version'' req \<noteq> Some ''1'' then Inl ErrMetaVersion
      else case ReadMeta callerMetaName req of
          None \<Rightarrow> Inr (read_correlation req zero_CallMeta)
        | Some callerStr \<Rightarrow> (case Verify lib now req (map snd (ms_inboundSvcAuth server)) of
            Inl e \<Rightarrow> Inl (ErrVerify e)
          | Inr isInternalCall \<Rightarrow>
              if \<not> isInternalCall then Inl ErrNoInternalAuth
              else case ParseCallerString callerStr of
                  None \<Rightarrow> Inl ErrCallerString
                | Some caller \<Rightarrow> (case read_internal server caller req of
                    Inl e \<Rightarrow> Inl e
                  | Inr internal \<Rightarrow> Inr (read_correlation req (read_trace caller req (zero_CallMeta\<lparr>cm_Internal := Some internal\<rparr>))))))"

text \<open>The gateway: what it adds to the metadata of a request, and to the request that it proxies.\<close>

definition gateway_meta :: "string \<Rightarrow> 'd option \<Rightarrow> 'd CallMeta \<Rightarrow> 'd CallMeta" where
  "gateway_meta uid userData meta =
     meta\<lparr>cm_Internal := Some \<lparr>ic_Caller = GatewayCaller ''api-gateway'', ic_AuthUID = uid, ic_AuthData = userData\<rparr>\<rparr>"

definition gateway_rewrite :: "auth_lib \<Rightarrow> int \<Rightarrow> 'd meta_server \<Rightarrow> string \<Rightarrow> string \<Rightarrow> 'd CallMeta \<Rightarrow> Header \<Rightarrow> Header \<times> meta_err option" where
  "gateway_rewrite lib now server authMethod callee meta out =
     AddToRequest lib now server authMethod meta (SetMeta calleeMetaName callee out)"

definition IsServiceToService :: "'d CallMeta \<Rightarrow> bool" where
  "IsServiceToService meta \<longleftrightarrow> cm_Internal meta \<noteq> None"

definition cm_PrivateAPIAccess :: "'d CallMeta \<Rightarrow> bool" where
  "cm_PrivateAPIAccess meta = (case cm_Internal meta of None \<Rightarrow> False | Some i \<Rightarrow> PrivateAPIAccess (ic_Caller i))"


section \<open>What is written is read\<close>

lemma digit_value_char: "d < 36 \<Longrightarrow> digit_value (digit_char d) = Some d"
  by (auto simp: digit_value_def digit_char_def)

lemma digits_value_append:
  "digits_value base n (s @ r) = (case digits_value base n s of None \<Rightarrow> None | Some m \<Rightarrow> digits_value base m r)"
  by (induction base n s rule: digits_value.induct) (auto split: option.splits)

lemma FormatUint_value: "2 \<le> base \<Longrightarrow> base \<le> 36 \<Longrightarrow> digits_value base 0 (FormatUint base n) = Some n"
proof (induction base n rule: FormatUint.induct)
  case (1 base n)
  show ?case
  proof (cases "n < base")
    case True
    with 1 show ?thesis by (simp add: FormatUint.simps [of base n] digit_value_char)
  next
    case False
    with 1 have "digits_value base 0 (FormatUint base (n div base)) = Some (n div base)" by simp
    moreover have "n mod base < base" "n mod base < 36" using 1 mod_less_divisor [of base n] by linarith+
    ultimately show ?thesis using 1 False
      by (simp add: FormatUint.simps [of base n] digits_value_append digit_value_char not_le)
  qed
qed

lemma FormatUint_chars: "2 \<le> base \<Longrightarrow> c \<in> set (FormatUint base n) \<Longrightarrow> \<exists>d<base. c = digit_char d"
proof (induction base n rule: FormatUint.induct)
  case (1 base n)
  moreover have "n mod base < base" using 1 by simp
  ultimately show ?case by (cases "n < base") (auto simp: FormatUint.simps [of base n] intro: exI [of _ "n mod base"])
qed

lemma FormatUint_neq_Nil [simp]: "FormatUint base n \<noteq> []"
  by (subst FormatUint.simps) simp

lemma ParseUint_FormatUint: "ParseUint 36 (FormatUint 36 (unat x)) = Some x"
proof -
  have "unat x < 2 ^ 64" using unsigned_less [of x] by simp
  then show ?thesis by (simp add: ParseUint_def FormatUint_value)
qed

text \<open>Callers whose parts do not contain what separates them.\<close>

primrec caller_ok :: "Caller \<Rightarrow> bool" where
  "caller_ok (ApiCaller serviceName endpoint) = (CHR ''.'' \<notin> set serviceName)"
| "caller_ok (PubSubCaller topic subscription messageID) = (CHR '':'' \<notin> set topic \<and> CHR '':'' \<notin> set subscription)"
| "caller_ok (AppCaller deployID) = True"
| "caller_ok (GatewayCaller gatewayName) = (CHR ''.'' \<notin> set gatewayName)"
| "caller_ok (EncoreCaller p) = True"

lemma Cut_first: "c \<notin> set a \<Longrightarrow> Cut (a @ c # b) c = Some (a, b)"
  by (simp add: Cut_Some_iff)

lemma ParseCallerString_CallerString: "caller_ok c \<Longrightarrow> ParseCallerString (CallerString c) = Some c"
  by (cases c) (simp_all add: ParseCallerString_def HasPrefix_iff Cut_first)

lemma CallerString_neq_Nil [simp]: "CallerString c \<noteq> []"
  by (cases c) simp_all

lemma Split_single: "sep \<notin> set s \<Longrightarrow> Split sep s = [s]"
  by (induction s) auto

lemma Split_first: "sep \<notin> set s \<Longrightarrow> Split sep (s @ sep # r) = s # Split sep r"
  by (induction s) auto

lemma hex_decode_encode: "hex_decode (hex_encode bs) = (bs, None)"
  by (simp add: hex_decode_iff tolower_hex_encode)

lemma hexdigit_hex: "\<exists>d<16. hexdigit (drop_bit 4 b) = digit_char d" "\<exists>d<16. hexdigit (b AND 0x0F) = digit_char d" for b :: byte
proof -
  have "\<exists>d<16. hexdigit n = digit_char d" if "n < 16" for n :: byte
    using that hexdigit_char [OF that] by (intro exI [of _ "unat n"]) (auto simp: digit_char_def word_less_nat_alt)
  with nibble_bounds show "\<exists>d<16. hexdigit (drop_bit 4 b) = digit_char d" "\<exists>d<16. hexdigit (b AND 0x0F) = digit_char d" by blast+
qed

lemma digit_char_plain: "d < 36 \<Longrightarrow> digit_char d \<notin> {CHR ''='', CHR '',''}"
proof -
  have "list_all (\<lambda>d. digit_char d \<noteq> CHR ''='' \<and> digit_char d \<noteq> CHR '','') [0..<36]" by code_simp
  then show "d < 36 \<Longrightarrow> digit_char d \<notin> {CHR ''='', CHR '',''}" by (simp add: list_all_iff)
qed

lemma hex_encode_chars: "c \<in> set (hex_encode bs) \<Longrightarrow> \<exists>d<16. c = digit_char d"
proof (induction bs)
  case (Cons b bs)
  obtain d e where "d < 16" "hexdigit (drop_bit 4 b) = digit_char d" "e < 16" "hexdigit (b AND 0x0F) = digit_char e"
    using hexdigit_hex [of b] by blast
  with Cons show ?case by auto
qed simp

lemma plain_chars:
  "CHR ''='' \<notin> set (hex_encode bs)" "CHR '','' \<notin> set (hex_encode bs)"
  "CHR ''='' \<notin> set (FormatUint 36 n)" "CHR '','' \<notin> set (FormatUint 36 n)"
proof -
  have "c \<notin> set (hex_encode bs) \<and> c \<notin> set (FormatUint 36 n)" if "c \<in> {CHR ''='', CHR '',''}" for c
  proof -
    have "\<not> (\<exists>d<36. c = digit_char d)" using digit_char_plain that by auto
    moreover from this have "\<not> (\<exists>d<16. c = digit_char d)" using order_less_trans [of _ "16 :: nat" 36] by auto
    ultimately show ?thesis using hex_encode_chars [of c bs] FormatUint_chars [of 36 c n, simplified] by blast
  qed
  then show "CHR ''='' \<notin> set (hex_encode bs)" "CHR '','' \<notin> set (hex_encode bs)"
    "CHR ''='' \<notin> set (FormatUint 36 n)" "CHR '','' \<notin> set (FormatUint 36 n)" by simp_all
qed

lemma parseTraceParent_traceparent:
  assumes "length (cm_TraceID meta) = 16" "length (cm_ParentSpanID meta) = 8"
  shows "parseTraceParent (traceparent_of meta) = (cm_TraceID meta, cm_ParentSpanID meta, cm_TraceSampled meta, True)"
proof -
  let ?f = "if cm_TraceSampled meta then ''01'' else ''00''"
  have f: "hex_decode ?f = ([if cm_TraceSampled meta then 1 else 0], None)"
    by (cases "cm_TraceSampled meta"; simp; code_simp)
  have parts: "take 32 (drop 3 (traceparent_of meta)) = hex_encode (cm_TraceID meta)"
    "take 16 (drop 36 (traceparent_of meta)) = hex_encode (cm_ParentSpanID meta)" "take 2 (drop 53 (traceparent_of meta)) = ?f"
    "length (traceparent_of meta) = 55" "take 2 (traceparent_of meta) = ''00''" "traceparent_of meta ! 2 = CHR ''-''"
    "traceparent_of meta ! 35 = CHR ''-''" "traceparent_of meta ! 52 = CHR ''-''"
    using assms by (simp_all add: traceparent_of_def nth_append)
  show ?thesis unfolding parseTraceParent_def parts f hex_decode_encode by simp
qed

lemma parseTraceState_tracestate:
  assumes "length (cm_ParentSpanID meta) = 8"
  shows "\<exists>sp. parseTraceState [tracestate_of server meta] = (cm_ParentEventID meta, sp, cm_ParentEventID meta \<noteq> 0)
    \<and> sp \<in> {zero_SpanID, cm_ParentSpanID meta}"
proof -
  have keys: "CHR '','' \<notin> set eventTraceStateSpanIDKey" "CHR '','' \<notin> set eventTraceStateEventIDKey"
    "CHR ''='' \<notin> set eventTraceStateSpanIDKey" "CHR ''='' \<notin> set eventTraceStateEventIDKey" "eventTraceStateSpanIDKey \<noteq> eventTraceStateEventIDKey"
    by code_simp+
  have ev: "Split CHR ''='' (eventTraceStateEventIDKey @ ''='' @ FormatUint 36 n) = [eventTraceStateEventIDKey, FormatUint 36 n]" for n
    using keys plain_chars by (simp add: Split_first Split_single)
  have sp: "Split CHR ''='' (eventTraceStateSpanIDKey @ ''='' @ hex_encode bs) = [eventTraceStateSpanIDKey, hex_encode bs]" for bs
    using keys plain_chars by (simp add: Split_first Split_single)
  have e1: "Split CHR '','' (eventTraceStateEventIDKey @ ''='' @ FormatUint 36 n) = [eventTraceStateEventIDKey @ ''='' @ FormatUint 36 n]" for n
    using keys plain_chars by (intro Split_single) simp
  have s1: "Split CHR '','' (eventTraceStateSpanIDKey @ ''='' @ hex_encode bs @ '','' @ r) =
      (eventTraceStateSpanIDKey @ ''='' @ hex_encode bs) # Split CHR '','' r" for bs r
    using keys plain_chars Split_first [of "CHR '',''" "eventTraceStateSpanIDKey @ ''='' @ hex_encode bs" r] by simp
  let ?ev = "eventTraceStateEventIDKey @ ''='' @ FormatUint 36 (unat (cm_ParentEventID meta))"
  let ?sp = "eventTraceStateSpanIDKey @ ''='' @ hex_encode (cm_ParentSpanID meta)"
  have fe: "trace_fields [?ev] (0, x) = Some (cm_ParentEventID meta, x)" for x
    using keys(5) by (simp only: trace_fields.simps ev) (simp add: ParseUint_FormatUint)
  have fs: "trace_fields [?sp, ?ev] (0, zero_SpanID) = Some (cm_ParentEventID meta, cm_ParentSpanID meta)"
    using assms by (simp only: trace_fields.simps(2) [of ?sp] sp) (simp only: list.case hex_decode_encode prod.case option.case fe, simp)
  have "tracestate_of server meta \<in> {?ev, ?sp @ '','' @ ?ev}" by (simp add: tracestate_of_def Let_def)
  then show ?thesis
  proof
    assume "tracestate_of server meta = ?ev"
    then have "parseTraceState [tracestate_of server meta] = (cm_ParentEventID meta, zero_SpanID, cm_ParentEventID meta \<noteq> 0)"
      by (simp only: parseTraceState_def list.map concat.simps e1 append_Nil2 fe option.case prod.case)
    then show ?thesis by simp
  next
    assume "tracestate_of server meta \<in> {?sp @ '','' @ ?ev}"
    then have "tracestate_of server meta = eventTraceStateSpanIDKey @ ''='' @ hex_encode (cm_ParentSpanID meta) @ '','' @ ?ev" by simp
    then have "parseTraceState [tracestate_of server meta] = (cm_ParentEventID meta, cm_ParentSpanID meta, cm_ParentEventID meta \<noteq> 0)"
      by (simp only: parseTraceState_def list.map concat.simps s1 e1 append_Nil2 fs option.case prod.case)
    then show ?thesis by simp
  qed
qed


section \<open>The request that is sent\<close>

lemma meta_names:
  "CanonicalHeaderKey ''Version'' = ''Version''" "CanonicalHeaderKey ''Caller'' = ''Caller''" "CanonicalHeaderKey ''Callee'' = ''Callee''"
  "CanonicalHeaderKey ''UserID'' = ''Userid''" "CanonicalHeaderKey ''AuthData'' = ''Authdata''"
  "CanonicalHeaderKey ''Userid'' = ''Userid''" "CanonicalHeaderKey ''Authdata'' = ''Authdata''"
  by code_simp+

lemmas name_defs = meta_key_defs callerMetaName_def calleeMetaName_def

lemma meta_headers:
  "meta_header ''Version'' = ''X-Encore-Meta-Version''" "meta_header callerMetaName = ''X-Encore-Meta-Caller''"
  "meta_header calleeMetaName = ''X-Encore-Meta-Callee''" "meta_header ''UserID'' = ''X-Encore-Meta-Userid''"
  "meta_header ''AuthData'' = ''X-Encore-Meta-Authdata''"
  by (simp_all add: meta_plain meta_names name_defs)

lemmas all_headers = meta_headers auth_headers meta_special

lemma meta_proper:
  "\<forall>k\<in>{TraceParentKey, TraceStateKey, CorrelationIDKey, ''Version'', callerMetaName, calleeMetaName, ''UserID'', ''AuthData''}.
     meta_header (meta_listed k) = meta_header k"
  by (simp add: meta_special) (simp add: meta_plain meta_names name_defs)

lemma Sign_reads:
  assumes "Sign lib now m req = Inr req'"
    "meta_header k \<noteq> meta_header AuthMethodMetaKey" "meta_header k \<noteq> meta_header ecAuthHashHeader" "meta_header k \<noteq> meta_header ecDateHeader"
  shows "ReadMetaValues k req' = ReadMetaValues k req"
  using assms by (cases m) (auto simp: Sign_def ea_sign_def http.read_set Let_def split: sum.splits prod.splits)

lemma Sign_readable:
  assumes "http.readable unsigned_keys req" "\<And>p. al_NewOperationHash lib p \<noteq> None"
  shows "\<exists>req'. Sign lib now m req = Inr req'"
proof -
  have "hash_entries (signed_entries req) \<noteq> None"
    using assms(1) by (auto simp: hash_entries_def signed_entries_def http.entries_def http.readable_def)
  then obtain h where "buildOpHash lib req = Inr h" using assms(2) by (fastforce simp: buildOpHash_entries split: option.splits)
  then show ?thesis by (cases m) (auto simp: Sign_def ea_sign_def split: prod.splits)
qed

text \<open>The request as it is signed.\<close>

definition unsigned_request :: "'d meta_server \<Rightarrow> 'd CallMeta \<Rightarrow> 'd InternalCallMeta \<Rightarrow> Header \<Rightarrow> Header" where
  "unsigned_request server meta i req =
     (let r = add_trace server meta (SetMeta ''Version'' ''1'' req);
          r = (if cm_CorrelationID meta = [] then r else SetMeta CorrelationIDKey (cm_CorrelationID meta) r);
          r = SetMeta callerMetaName (CallerString (ic_Caller i)) r
      in if ic_AuthUID i = [] then r
         else let r = SetMeta ''UserID'' (ic_AuthUID i) r
           in case ic_AuthData i of None \<Rightarrow> r | Some d \<Rightarrow> SetMeta ''AuthData'' (the (ms_Marshal server d)) r)"

lemma add_internal_signed:
  assumes "\<And>d. ic_AuthUID i \<noteq> [] \<Longrightarrow> ic_AuthData i = Some d \<Longrightarrow> ms_Marshal server d \<noteq> None"
    "map_of (ms_outboundSvcAuth server) am = Some sa"
  shows "add_internal lib now server am i req =
    (let r = SetMeta callerMetaName (CallerString (ic_Caller i)) req;
         r = (if ic_AuthUID i = [] then r
              else let r = SetMeta ''UserID'' (ic_AuthUID i) r
                in case ic_AuthData i of None \<Rightarrow> r | Some d \<Rightarrow> SetMeta ''AuthData'' (the (ms_Marshal server d)) r)
     in sign_request lib now sa r)"
proof (cases "ic_AuthUID i = []")
  case True
  with assms(2) show ?thesis by (simp add: add_internal_def Let_def)
next
  case False
  then show ?thesis using assms by (cases "ic_AuthData i") (auto simp: add_internal_def Let_def)
qed

lemma AddToRequest_signed:
  assumes "cm_Internal meta = Some i" "\<And>d. ic_AuthUID i \<noteq> [] \<Longrightarrow> ic_AuthData i = Some d \<Longrightarrow> ms_Marshal server d \<noteq> None"
    "map_of (ms_outboundSvcAuth server) am = Some sa"
  shows "AddToRequest lib now server am meta req = sign_request lib now sa (unsigned_request server meta i req)"
  using assms(1) add_internal_signed [OF assms(2,3)] by (simp add: AddToRequest_def unsigned_request_def Let_def)

lemma unsigned_readable:
  assumes "http.readable unsigned_keys req"
  shows "http.readable unsigned_keys (unsigned_request server meta i req)"
  using assms meta_proper unfolding unsigned_request_def add_trace_def Let_def
  by (auto intro!: http.readable_set split: option.split)

lemma unsigned_reads:
  assumes "r = unsigned_request server meta i req"
  shows "ReadMetaValues ''Version'' r = [''1'']" "ReadMetaValues callerMetaName r = [CallerString (ic_Caller i)]"
    "ReadMetaValues ''UserID'' r = (if ic_AuthUID i = [] then ReadMetaValues ''UserID'' req else [ic_AuthUID i])"
    "ReadMetaValues ''AuthData'' r = (if ic_AuthUID i = [] then ReadMetaValues ''AuthData'' req
       else case ic_AuthData i of None \<Rightarrow> ReadMetaValues ''AuthData'' req | Some d \<Rightarrow> [the (ms_Marshal server d)])"
    "ReadMetaValues CorrelationIDKey r =
       (if cm_CorrelationID meta = [] then ReadMetaValues CorrelationIDKey req else [cm_CorrelationID meta])"
    "ReadMetaValues TraceParentKey r =
       (if cm_TraceID meta = zero_TraceID then ReadMetaValues TraceParentKey req else [traceparent_of meta])"
    "ReadMetaValues TraceStateKey r = (if cm_TraceID meta = zero_TraceID \<or> cm_ParentSpanID meta = zero_SpanID
       then ReadMetaValues TraceStateKey req else [tracestate_of server meta])"
  unfolding assms unsigned_request_def add_trace_def Let_def
  by (simp_all add: http.read_set all_headers split: option.split)


section \<open>The request that is received\<close>

lemma received:
  assumes "Sign lib now sa r = Inr req'" "verifies lib now now' sa (map snd (ms_inboundSvcAuth S'))"
    and r: "r = unsigned_request S meta i req" and c: "caller_ok (ic_Caller i)"
  shows "MetaFromRequest lib now' S' req' = (case read_internal S' (ic_Caller i) r of
      Inl e \<Rightarrow> Inl e
    | Inr internal \<Rightarrow> Inr (read_correlation r (read_trace (ic_Caller i) r (zero_CallMeta\<lparr>cm_Internal := Some internal\<rparr>))))"
proof -
  have same: "ReadMetaValues k req' = ReadMetaValues k r"
    if "k \<in> {''Version'', callerMetaName, ''UserID'', ''AuthData'', TraceParentKey, TraceStateKey, CorrelationIDKey}" for k
    using that by (intro Sign_reads [OF assms(1)]) (auto simp: all_headers)
  then have eq: "ReadMeta ''UserID'' req' = ReadMeta ''UserID'' r" "ReadMeta ''AuthData'' req' = ReadMeta ''AuthData'' r"
    "ReadMeta TraceParentKey req' = ReadMeta TraceParentKey r" "ReadMetaValues TraceStateKey req' = ReadMetaValues TraceStateKey r"
    "ReadMeta CorrelationIDKey req' = ReadMeta CorrelationIDKey r"
    by (simp_all add: ReadMeta_values)
  then have rd: "read_internal S' cl req' = (read_internal S' cl r :: meta_err + 'a InternalCallMeta)"
    "read_correlation req' mt = read_correlation r mt" "read_trace cl req' mt = read_trace cl r mt" for cl and mt :: "'a CallMeta"
    by (simp_all only: read_internal_def read_correlation_def read_trace_def eq)
  have "ReadMeta ''Version'' req' = Some ''1''" "ReadMeta callerMetaName req' = Some (CallerString (ic_Caller i))"
    using unsigned_reads(1,2) [OF r] same by (simp_all add: ReadMeta_values)
  with sign_verify [OF assms(1,2)] ParseCallerString_CallerString [OF c] show ?thesis
    by (simp add: MetaFromRequest_def rd split: sum.split)
qed

text \<open>Metadata that a request can carry; nothing of a trace without its identifier.\<close>

definition meta_ok :: "'d CallMeta \<Rightarrow> bool" where
  "meta_ok meta \<longleftrightarrow> length (cm_TraceID meta) = 16 \<and> length (cm_ParentSpanID meta) = 8 \<and> cm_SpanID meta = zero_SpanID
     \<and> (cm_TraceID meta = zero_TraceID \<longrightarrow> cm_ParentSpanID meta = zero_SpanID \<and> \<not> cm_TraceSampled meta)
     \<and> (cm_ParentSpanID meta = zero_SpanID \<longrightarrow> cm_ParentEventID meta = 0)"

lemma read_trace_sent:
  assumes ok: "meta_ok meta" and gw: "\<And>g. cl = GatewayCaller g \<Longrightarrow> cm_ParentSpanID meta = zero_SpanID"
    and r: "r = unsigned_request S meta i req" and e: "ReadMetaValues TraceParentKey req = []" "ReadMetaValues TraceStateKey req = []"
    and z: "cm_TraceID m = zero_TraceID" "cm_ParentSpanID m = zero_SpanID" "\<not> cm_TraceSampled m" "cm_ParentEventID m = 0"
  shows "read_trace cl r m = m\<lparr>cm_TraceID := cm_TraceID meta, cm_ParentSpanID := cm_ParentSpanID meta,
    cm_TraceSampled := cm_TraceSampled meta, cm_ParentEventID := cm_ParentEventID meta\<rparr>"
proof (cases "cm_TraceID meta = zero_TraceID")
  case True
  then have "ReadMeta TraceParentKey r = None" using unsigned_reads(6) [OF r] e by (simp add: ReadMeta_values)
  with True ok z show ?thesis by (simp add: read_trace_def meta_ok_def)
next
  case False
  have tp: "ReadMeta TraceParentKey r = Some (traceparent_of meta)"
    using False unsigned_reads(6) [OF r] by (simp add: ReadMeta_values traceparent_of_def)
  have pt: "parseTraceParent (traceparent_of meta) = (cm_TraceID meta, cm_ParentSpanID meta, cm_TraceSampled meta, True)"
    using ok by (intro parseTraceParent_traceparent) (simp_all add: meta_ok_def)
  have g: "(case cl of GatewayCaller _ \<Rightarrow> zero_SpanID | _ \<Rightarrow> cm_ParentSpanID meta) = cm_ParentSpanID meta"
    using gw by (cases cl) simp_all
  show ?thesis
  proof (cases "cm_ParentSpanID meta = zero_SpanID")
    case True
    then have "ReadMetaValues TraceStateKey r = []" using unsigned_reads(7) [OF r] e by simp
    with True ok z show ?thesis by (cases cl; cases m) (simp_all add: read_trace_def tp pt meta_ok_def)
  next
    case nz: False
    have ts: "ReadMetaValues TraceStateKey r = [tracestate_of S meta]" using unsigned_reads(7) [OF r] False nz by simp
    from parseTraceState_tracestate [of meta S] ok obtain sp where
      "parseTraceState [tracestate_of S meta] = (cm_ParentEventID meta, sp, cm_ParentEventID meta \<noteq> 0)"
      "sp \<in> {zero_SpanID, cm_ParentSpanID meta}" by (auto simp: meta_ok_def)
    with nz z show ?thesis by (cases m) (auto simp: read_trace_def tp pt g ts Let_def)
  qed
qed

lemma read_keeps_internal: "cm_Internal (read_correlation q (read_trace cl q m)) = cm_Internal m"
  by (auto simp: read_correlation_def read_trace_def Let_def split: option.splits prod.splits)

lemma no_meta_values:
  assumes "ListMetaKeys req = []"
  shows "ReadMetaValues k req = []"
proof (rule ccontr)
  assume "ReadMetaValues k req \<noteq> []"
  then obtain vs where "(meta_header k, vs) \<in> set req"
    by (auto simp: ReadMetaValues_def Header_Values_def meta_header_def split: option.splits dest: map_of_SomeD)
  moreover have "header_meta_key (meta_header k) = Some (meta_listed k)"
    using header_meta_key_header by (simp add: meta_header_def header_meta_key_canonical)
  ultimately have "meta_listed k \<in> set (ListMetaKeys req)" by (force simp: ListMetaKeys_def List.map_filter_def)
  with assms show False by simp
qed


text \<open>Two servers of one application, and a call between them.\<close>

definition plain_server :: "string meta_server" where
  "plain_server = \<lparr>ms_EnvCloud = ''gcp'', ms_outboundSvcAuth = [(''encore-auth'', EncoreAuth plain_auth)],
     ms_inboundSvcAuth = [(''encore-auth'', EncoreAuth plain_auth)], ms_Marshal = Some, ms_Unmarshal = Some\<rparr>"

definition plain_internal :: "string InternalCallMeta" where
  "plain_internal = \<lparr>ic_Caller = ApiCaller ''orders'' ''Ship'', ic_AuthUID = ''u1'', ic_AuthData = Some ''{}''\<rparr>"

definition plain_meta :: "string CallMeta" where
  "plain_meta = \<lparr>cm_TraceID = replicate 16 7, cm_SpanID = zero_SpanID, cm_ParentSpanID = replicate 8 5, cm_ParentEventID = 1000,
     cm_CorrelationID = ''order-17'', cm_TraceSampled = True,
     cm_Internal = Some plain_internal\<rparr>"

lemma plain_verifies: "verifies plain_lib 1 1 (EncoreAuth plain_auth) (map snd (ms_inboundSvcAuth plain_server))"
  by (simp add: verifies_def plain_server_def plain_auth_def newEncoreAuth_def zero_Key_def signs_for_def plain_lib_def allowedClockSkew_def)



lemma plain_out: "ListMetaKeys [(''X-Encore-Meta-Userid'', [''admin''])] = [''Userid'']"
  "ReadMetaValues ''Userid'' [(''X-Encore-Meta-Userid'', [''admin''])] = [''admin'']"
  "ReadMeta ''UserID'' [(''X-Encore-Meta-Userid'', [''admin''])] = Some ''admin''"
  "ReadMeta ''AuthData'' [(''X-Encore-Meta-Userid'', [''admin''])] = None"
  by code_simp+


end
