(* ===== verification/Cloud_Trace.thy ===== *)
theory Cloud_Trace
  imports Call_Meta
begin

text \<open>
  Trace identifiers that the cloud put on a request (\<open>shared/cloudtrace/extractors.go\<close>), and how an
  incoming request gets its metadata from them (\<open>extractCallMeta\<close> of \<open>apisdk/api/server.go\<close>). Warnings
  that are only logged are left out; the random identifier is an argument.
\<close>

record TraceContext =
  tc_TraceID :: TraceID
  tc_SpanID :: SpanID

definition hex_id :: "nat \<Rightarrow> string \<Rightarrow> bytes option" where
  "hex_id n s = (case hex_decode s of (bs, None) \<Rightarrow> if length bs = n then Some bs else None | (_, Some _) \<Rightarrow> None)"

definition parseB3Headers :: "Header \<Rightarrow> TraceContext option" where
  "parseB3Headers r =
     (let traceIDHex = Header_Get r ''X-B3-TraceId''; spanIDHex = Header_Get r ''X-B3-SpanId''
      in if traceIDHex = [] \<or> spanIDHex = [] then None
         else case (hex_id 16 traceIDHex, hex_id 8 spanIDHex) of
             (Some traceID, Some spanID) \<Rightarrow> Some \<lparr>tc_TraceID = traceID, tc_SpanID = spanID\<rparr>
           | _ \<Rightarrow> None)"

definition parseB3SingleHeader :: "Header \<Rightarrow> TraceContext option" where
  "parseB3SingleHeader r =
     (case Split CHR ''-'' (Header_Get r ''b3'') of
        p # q # _ \<Rightarrow> (case (hex_id 16 p, hex_id 8 q) of
            (Some traceID, Some spanID) \<Rightarrow> Some \<lparr>tc_TraceID = traceID, tc_SpanID = spanID\<rparr>
          | _ \<Rightarrow> None)
      | _ \<Rightarrow> None)"

definition be_bytes64 :: "uint64 \<Rightarrow> bytes" where
  "be_bytes64 x = map (\<lambda>i. ucast (drop_bit (8 * (7 - i)) x)) [0..<8]"

definition parseGCloudTraceContext :: "Header \<Rightarrow> TraceContext option" where
  "parseGCloudTraceContext r =
     (case Cut (Header_Get r ''X-Cloud-Trace-Context'') CHR ''/'' of
        None \<Rightarrow> None
      | Some (traceIDHex, rest) \<Rightarrow>
          (let spanIDDecStr = (case Cut rest CHR '';'' of None \<Rightarrow> rest | Some (s, _) \<Rightarrow> s)
           in case hex_decode traceIDHex of
                (_, Some _) \<Rightarrow> None
              | (traceID, None) \<Rightarrow> (case ParseUint 10 spanIDDecStr of
                  None \<Rightarrow> None
                | Some spanIDDec \<Rightarrow> if length traceID = 16 then Some \<lparr>tc_TraceID = traceID, tc_SpanID = be_bytes64 spanIDDec\<rparr> else None)))"

definition aws_root :: "string list \<Rightarrow> string" where
  "aws_root parts = fold (\<lambda>part traceIDHex. case Split CHR ''='' part of
       [k, v] \<Rightarrow> if k = ''Root'' then (case Split CHR ''-'' v of [_, _, t] \<Rightarrow> t | _ \<Rightarrow> traceIDHex) else traceIDHex
     | _ \<Rightarrow> traceIDHex) parts []"

text \<open>The context that is built from the header is not what is returned.\<close>

definition parseAWSXRayTraceContext :: "Header \<Rightarrow> TraceContext option" where
  "parseAWSXRayTraceContext r =
     (let traceIDHex = aws_root (Split CHR '';'' (Header_Get r ''X-Amzn-Trace-Id''))
      in if traceIDHex = [] then None
         else case hex_id 16 traceIDHex of None \<Rightarrow> None | Some traceID \<Rightarrow> None)"

definition cloud_parseTraceParent :: "Header \<Rightarrow> TraceContext option" where
  "cloud_parseTraceParent r =
     (case Split CHR ''-'' (Header_Get r ''traceparent'') of
        _ # p # _ # _ \<Rightarrow> (case hex_id 16 p of
            Some traceID \<Rightarrow> Some \<lparr>tc_TraceID = traceID, tc_SpanID = zero_SpanID\<rparr>
          | None \<Rightarrow> None)
      | _ \<Rightarrow> None)"

fun first_context :: "(Header \<Rightarrow> TraceContext option) list \<Rightarrow> Header \<Rightarrow> TraceContext" where
  "first_context [] req = \<lparr>tc_TraceID = zero_TraceID, tc_SpanID = zero_SpanID\<rparr>"
| "first_context (extractor # extractors) req =
     (case extractor req of Some traceContext \<Rightarrow> traceContext | None \<Rightarrow> first_context extractors req)"

definition ExtractCloudTraceIDs :: "Header \<Rightarrow> TraceContext" where
  "ExtractCloudTraceIDs req = first_context [parseB3Headers, parseB3SingleHeader, cloud_parseTraceParent] req"

definition extractCallMeta :: "auth_lib \<Rightarrow> int \<Rightarrow> 'd meta_server \<Rightarrow> TraceID \<Rightarrow> Header \<Rightarrow> meta_err + 'd CallMeta" where
  "extractCallMeta lib now server genTraceID req =
     (case MetaFromRequest lib now server req of
        Inl e \<Rightarrow> Inl e
      | Inr meta \<Rightarrow>
          (let cloudGeneratedTraceIDs = ExtractCloudTraceIDs req;
               meta = (if cm_TraceID meta = zero_TraceID then meta\<lparr>cm_TraceID := tc_TraceID cloudGeneratedTraceIDs\<rparr> else meta);
               meta = meta\<lparr>cm_SpanID := tc_SpanID cloudGeneratedTraceIDs\<rparr>
           in if cm_TraceID meta = zero_TraceID then Inr (meta\<lparr>cm_TraceID := genTraceID, cm_ParentSpanID := zero_SpanID\<rparr>) else Inr meta))"


section \<open>Identifiers are well-formed\<close>

lemma hex_id_length: "hex_id n s = Some bs \<Longrightarrow> length bs = n"
  by (auto simp: hex_id_def split: prod.splits option.splits if_splits)

definition context_ok :: "TraceContext \<Rightarrow> bool" where
  "context_ok c \<longleftrightarrow> length (tc_TraceID c) = 16 \<and> length (tc_SpanID c) = 8"

lemma extractors_ok:
  "parseB3Headers r = Some c \<Longrightarrow> context_ok c" "parseB3SingleHeader r = Some c \<Longrightarrow> context_ok c"
  "cloud_parseTraceParent r = Some c \<Longrightarrow> context_ok c" "parseGCloudTraceContext r = Some c \<Longrightarrow> context_ok c"
  by (auto simp: parseB3Headers_def parseB3SingleHeader_def cloud_parseTraceParent_def parseGCloudTraceContext_def Let_def
      context_ok_def zero_SpanID_def be_bytes64_def dest!: hex_id_length split: if_splits option.splits list.splits prod.splits)

lemma ExtractCloudTraceIDs_ok: "context_ok (ExtractCloudTraceIDs req)"
  using extractors_ok by (auto simp: ExtractCloudTraceIDs_def context_ok_def zero_TraceID_def zero_SpanID_def split: option.split)

theorem aws_context_never_used: "parseAWSXRayTraceContext r = None"
  by (simp add: parseAWSXRayTraceContext_def Let_def split: option.split)

lemma parseTraceParent_ok:
  "parseTraceParent s = (t, p, sampled, ok) \<Longrightarrow> length t = 16 \<and> length p = 8"
proof -
  have d: "hex_decode s = (bs, None) \<Longrightarrow> 2 * length bs = length s" for s bs
    by (metis hex_decode_iff length_hex_encode length_map)
  show "parseTraceParent s = (t, p, sampled, ok) \<Longrightarrow> length t = 16 \<and> length p = 8"
    by (auto simp: parseTraceParent_def zero_TraceID_def zero_SpanID_def split: if_splits prod.splits option.splits dest!: d)
qed

lemma trace_fields_ok: "trace_fields fs (e, p) = Some (e', p') \<Longrightarrow> length p = 8 \<Longrightarrow> length p' = 8"
  by (induction fs "(e, p)" arbitrary: e p rule: trace_fields.induct)
    (auto split: list.splits if_splits prod.splits option.splits)

lemma parseTraceState_ok: "parseTraceState vs = (e, p, ok) \<Longrightarrow> length p = 8"
  by (auto simp: parseTraceState_def zero_SpanID_def split: option.splits dest: trace_fields_ok)

definition ids_ok :: "'d CallMeta \<Rightarrow> bool" where
  "ids_ok m \<longleftrightarrow> length (cm_TraceID m) = 16 \<and> length (cm_SpanID m) = 8 \<and> length (cm_ParentSpanID m) = 8"

lemma ids_ok_zero: "ids_ok zero_CallMeta" "ids_ok (zero_CallMeta\<lparr>cm_Internal := x\<rparr>)"
  by (simp_all add: ids_ok_def zero_CallMeta_def zero_TraceID_def zero_SpanID_def)

lemma ids_ok_read:
  "ids_ok m \<Longrightarrow> ids_ok (read_correlation r m)" "ids_ok m \<Longrightarrow> ids_ok (read_trace cl r m)"
  by (auto simp: ids_ok_def read_correlation_def read_trace_def Let_def zero_SpanID_def split: option.splits prod.splits Caller.splits
        dest: parseTraceParent_ok parseTraceState_ok)

lemma MetaFromRequest_ids: "MetaFromRequest lib now S req = Inr m \<Longrightarrow> ids_ok m"
  by (auto simp: MetaFromRequest_def ids_ok_zero ids_ok_read split: if_splits option.splits sum.splits)


lemma bare_extract: "extractCallMeta plain_lib 1 plain_server (replicate 16 9) [] = Inr (zero_CallMeta\<lparr>cm_TraceID := replicate 16 9\<rparr>)"
  by (simp add: extractCallMeta_def MetaFromRequest_def ReadMeta_def Header_Get_def Header_Values_def read_correlation_def
      ExtractCloudTraceIDs_def parseB3Headers_def parseB3SingleHeader_def cloud_parseTraceParent_def zero_CallMeta_def Let_def)


end
