(* ===== verification/Req_Track.thy ===== *)
theory Req_Track
  imports Call_Meta
begin

text \<open>
  Which request a goroutine works for (\<open>runtimes/go/appruntime/shared/reqtrack\<close>: \<open>impl.go\<close>, \<open>reqtrack.go\<close>,
  \<open>impl_app.go\<close>, \<open>trace_stream.go\<close>). Operations and trace logs are shared between goroutines and live in
  stores; what is attached to a goroutine is its own. A panic is a value, and a count of references,
  an \<open>int32\<close>, is an integer, as no program has two thousand million running requests. The streaming of a log is
  recorded as started, its end as a count; the consumer of a log is the subject of the theories on
  the trace log.
\<close>

section \<open>State\<close>

record auth_pair =
  ap_UserID :: string
  ap_AuthData :: "string option"

record model_Request =
  mr_TraceID :: TraceID
  mr_SpanID :: SpanID
  mr_ParentSpanID :: SpanID
  mr_ParentTraceID :: TraceID
  mr_ExtCorrelationID :: string
  mr_Traced :: bool
  mr_SvcNum :: nat
  mr_RPCData :: "auth_pair option"
  mr_Test :: "auth_pair option"

record encoreG =
  g_op :: nat
  g_req :: "model_Request option"
  g_goctr :: uint32

record encoreOp =
  op_trace :: "nat option"
  op_refs :: int
  op_goidCtr :: uint32

record lazyTraceInit =
  lt_done :: nat
  lt_streams :: nat

record RequestTracker =
  rt_trace :: bool
  rt_ops :: "nat \<Rightarrow> encoreOp"
  rt_next_op :: nat
  rt_logs :: "nat \<Rightarrow> lazyTraceInit"
  rt_next_log :: nat
  rt_gs :: "nat \<Rightarrow> encoreG option"
  rt_next_g :: nat

text \<open>A tracker, with or without a provider of trace logs, and one goroutine.\<close>

definition reqtrack_New :: "bool \<Rightarrow> RequestTracker" where
  "reqtrack_New traceProvider = \<lparr>rt_trace = traceProvider, rt_ops = (\<lambda>_. \<lparr>op_trace = None, op_refs = 0, op_goidCtr = 0\<rparr>), rt_next_op = 0,
     rt_logs = (\<lambda>_. \<lparr>lt_done = 0, lt_streams = 0\<rparr>), rt_next_log = 0, rt_gs = (\<lambda>_. None), rt_next_g = 1\<rparr>"


section \<open>Operations\<close>

definition upd_op :: "nat \<Rightarrow> (encoreOp \<Rightarrow> encoreOp) \<Rightarrow> RequestTracker \<Rightarrow> RequestTracker" where
  "upd_op a f t = t\<lparr>rt_ops := (rt_ops t)(a := f (rt_ops t a))\<rparr>"

definition set_g :: "nat \<Rightarrow> encoreG option \<Rightarrow> RequestTracker \<Rightarrow> RequestTracker" where
  "set_g g e t = t\<lparr>rt_gs := (rt_gs t)(g := e)\<rparr>"

definition initStream :: "nat \<Rightarrow> RequestTracker \<Rightarrow> RequestTracker" where
  "initStream l t = (if lt_streams (rt_logs t l) = 0 then t\<lparr>rt_logs := (rt_logs t)(l := (rt_logs t l)\<lparr>lt_streams := 1\<rparr>)\<rparr> else t)"

definition lt_MarkDone :: "nat \<Rightarrow> RequestTracker \<Rightarrow> RequestTracker" where
  "lt_MarkDone l t = initStream l (t\<lparr>rt_logs := (rt_logs t)(l := (rt_logs t l)\<lparr>lt_done := lt_done (rt_logs t l) + 1\<rparr>)\<rparr>)"

text \<open>Making a log panics without a provider; the log is made before the swap that may drop it.\<close>

definition beginTracing :: "nat \<Rightarrow> RequestTracker \<Rightarrow> string + RequestTracker" where
  "beginTracing op t =
     (if \<not> rt_trace t then Inl ''invalid memory address or nil pointer dereference''
      else let l = rt_next_log t;
               t = t\<lparr>rt_logs := (rt_logs t)(l := \<lparr>lt_done = 0, lt_streams = 0\<rparr>), rt_next_log := l + 1\<rparr>
        in Inr (if op_trace (rt_ops t op) = None then upd_op op (\<lambda>o'. o'\<lparr>op_trace := Some l\<rparr>) t else t))"

definition newOp :: "bool \<Rightarrow> RequestTracker \<Rightarrow> string + nat \<times> RequestTracker" where
  "newOp trace t =
     (let op = rt_next_op t;
          t1 = t\<lparr>rt_ops := (rt_ops t)(op := \<lparr>op_trace = None, op_refs = 1, op_goidCtr = 0\<rparr>), rt_next_op := op + 1\<rparr>
      in if trace \<and> rt_trace t then (case beginTracing op t1 of Inl p \<Rightarrow> Inl p | Inr t2 \<Rightarrow> Inr (op, t2)) else Inr (op, t1))"

definition tagG :: "nat \<Rightarrow> nat \<Rightarrow> model_Request option \<Rightarrow> RequestTracker \<Rightarrow> string + RequestTracker" where
  "tagG g op req t =
     (if rt_gs t g \<noteq> None then Inl ''encore.tagG: goroutine already part of another operation''
      else let goctr = op_goidCtr (rt_ops t op) + 1
        in Inr (set_g g (Some \<lparr>g_op = op, g_req = req, g_goctr = goctr\<rparr>) (upd_op op (\<lambda>o'. o'\<lparr>op_goidCtr := goctr\<rparr>) t)))"

definition beginOp :: "nat \<Rightarrow> bool \<Rightarrow> RequestTracker \<Rightarrow> string + RequestTracker" where
  "beginOp g trace t = (case newOp trace t of Inl p \<Rightarrow> Inl p | Inr (op, t') \<Rightarrow> tagG g op None t')"

definition incRef :: "nat \<Rightarrow> RequestTracker \<Rightarrow> RequestTracker" where
  "incRef op t = upd_op op (\<lambda>o'. o'\<lparr>op_refs := op_refs o' + 1\<rparr>) t"

definition decRef :: "nat \<Rightarrow> RequestTracker \<Rightarrow> RequestTracker" where
  "decRef op t =
     (let t = upd_op op (\<lambda>o'. o'\<lparr>op_refs := op_refs o' - 1\<rparr>) t
      in if op_refs (rt_ops t op) = 0 then (case op_trace (rt_ops t op) of None \<Rightarrow> t | Some l \<Rightarrow> lt_MarkDone l t) else t)"

definition finishOp :: "nat \<Rightarrow> RequestTracker \<Rightarrow> string + RequestTracker" where
  "finishOp g t = (case rt_gs t g of
       None \<Rightarrow> Inl ''encore.finishOp: goroutine not in an operation''
     | Some e \<Rightarrow> Inr (set_g g None (decRef (g_op e) t)))"

definition beginReq :: "nat \<Rightarrow> model_Request \<Rightarrow> bool \<Rightarrow> RequestTracker \<Rightarrow> string + RequestTracker" where
  "beginReq g req trace t =
     (case rt_gs t g of
        None \<Rightarrow> (case newOp trace t of Inl p \<Rightarrow> Inl p | Inr (op, t') \<Rightarrow> tagG g op (Some req) t')
      | Some e \<Rightarrow>
          if g_req e \<noteq> None then Inl ''encore.beginReq: request already running''
          else let t = set_g g (Some (e\<lparr>g_req := Some req\<rparr>)) (incRef (g_op e) t)
            in if trace \<and> op_trace (rt_ops t (g_op e)) = None then beginTracing (g_op e) t else Inr t)"

definition finishReq :: "nat \<Rightarrow> RequestTracker \<Rightarrow> string + RequestTracker" where
  "finishReq g t = (case rt_gs t g of
       None \<Rightarrow> Inl ''encore.finishReq: goroutine not in an operation''
     | Some e \<Rightarrow> if g_req e = None then Inl ''encore.finishReq: no current request''
         else Inr (set_g g (Some (e\<lparr>g_req := None\<rparr>)) (decRef (g_op e) t)))"

definition clearReq :: "nat \<Rightarrow> RequestTracker \<Rightarrow> string + RequestTracker" where
  "clearReq g t = (case rt_gs t g of
       None \<Rightarrow> Inl ''encore.replaceReq: goroutine not in an operation''
     | Some e \<Rightarrow> if g_req e = None then Inl ''encore.replaceReq: no current request''
         else Inr (set_g g (Some (e\<lparr>g_req := None\<rparr>)) t))"

text \<open>The current request; handing out the log of the operation starts its streaming.\<close>

definition currentReq :: "nat \<Rightarrow> RequestTracker \<Rightarrow> (model_Request option \<times> nat option \<times> uint32 \<times> nat) \<times> RequestTracker" where
  "currentReq g t = (case rt_gs t g of
       None \<Rightarrow> ((None, None, 0, 0), t)
     | Some e \<Rightarrow>
         (let tr = op_trace (rt_ops t (g_op e));
              t' = (case tr of None \<Rightarrow> t | Some l \<Rightarrow> initStream l t)
          in ((g_req e, tr, g_goctr e, case g_req e of None \<Rightarrow> 0 | Some r \<Rightarrow> mr_SvcNum r), t')))"

definition inherit_auth :: "auth_pair \<Rightarrow> auth_pair \<Rightarrow> auth_pair" where
  "inherit_auth nextData prev =
     \<lparr>ap_UserID = (if ap_UserID nextData = [] then ap_UserID prev else ap_UserID nextData),
      ap_AuthData = (if ap_AuthData nextData = None then ap_AuthData prev else ap_AuthData nextData)\<rparr>"

definition copyReqInfoFromParent :: "model_Request \<Rightarrow> model_Request \<Rightarrow> model_Request" where
  "copyReqInfoFromParent nxt prev = nxt\<lparr>
     mr_RPCData := (case mr_RPCData nxt of
         None \<Rightarrow> None
       | Some nextData \<Rightarrow> (case mr_RPCData prev of
           Some prevData \<Rightarrow> Some (inherit_auth nextData prevData)
         | None \<Rightarrow> (case mr_Test prev of Some test \<Rightarrow> Some (inherit_auth nextData test) | None \<Rightarrow> Some nextData))),
     mr_TraceID := (if mr_TraceID prev = zero_TraceID then mr_TraceID nxt else mr_TraceID prev),
     mr_ParentSpanID := (if mr_ParentSpanID nxt = zero_SpanID then mr_SpanID prev else mr_ParentSpanID nxt),
     mr_ParentTraceID := (if mr_ParentTraceID nxt = zero_TraceID then mr_ParentTraceID prev else mr_ParentTraceID nxt),
     mr_ExtCorrelationID := (if mr_ExtCorrelationID nxt = [] then mr_ExtCorrelationID prev else mr_ExtCorrelationID nxt),
     mr_Test := (if mr_Test nxt = None then mr_Test prev else mr_Test nxt),
     mr_Traced := mr_Traced prev\<rparr>"

definition BeginRequest :: "nat \<Rightarrow> model_Request \<Rightarrow> RequestTracker \<Rightarrow> string + RequestTracker" where
  "BeginRequest g req t =
     (case currentReq g t of
        ((None, _), t) \<Rightarrow> beginReq g req (mr_Traced req) t
      | ((Some prev, _), t) \<Rightarrow>
          (let req = copyReqInfoFromParent req prev
           in case clearReq g t of Inl p \<Rightarrow> Inl p | Inr t \<Rightarrow> beginReq g req (mr_Traced req) t))"

text \<open>A \<open>go\<close> statement: the new goroutine works for the request of the one that started it.\<close>

definition startEncoreG :: "nat \<Rightarrow> RequestTracker \<Rightarrow> RequestTracker" where
  "startEncoreG g t =
     (let new = rt_next_g t; t1 = t\<lparr>rt_next_g := new + 1\<rparr>
      in case rt_gs t g of
           None \<Rightarrow> set_g new None t1
         | Some src \<Rightarrow>
             (let goctr = op_goidCtr (rt_ops t (g_op src)) + 1
              in set_g new (Some (src\<lparr>g_goctr := goctr\<rparr>)) (upd_op (g_op src) (\<lambda>o'. o'\<lparr>op_goidCtr := goctr\<rparr>) t1)))"


section \<open>Runs\<close>

datatype track_event = BeginOperation nat | FinishOperation nat | Begin_Request nat model_Request | FinishRequest nat
  | Current nat | Go nat

fun track_exec :: "track_event \<Rightarrow> RequestTracker \<Rightarrow> string + RequestTracker" where
  "track_exec (BeginOperation g) t = beginOp g False t"
| "track_exec (FinishOperation g) t = finishOp g t"
| "track_exec (Begin_Request g req) t = BeginRequest g req t"
| "track_exec (FinishRequest g) t = finishReq g t"
| "track_exec (Current g) t = Inr (snd (currentReq g t))"
| "track_exec (Go g) t = Inr (startEncoreG g t)"

text \<open>
  What each goroutine has begun and not finished: an operation, a request. The callers keep to
  this: an operation is begun outside any other, and finished by who began it after its own
  request; a goroutine has one request of its own at a time, begins it while the operation it
  works for is running, and finishes only that; a request is traced only if there is a provider.
\<close>

type_synonym duties = "nat \<Rightarrow> bool \<times> bool"

fun track_allowed :: "track_event \<Rightarrow> duties \<Rightarrow> RequestTracker \<Rightarrow> bool" where
  "track_allowed (BeginOperation g) own t \<longleftrightarrow> g < rt_next_g t \<and> rt_gs t g = None"
| "track_allowed (FinishOperation g) own t \<longleftrightarrow> fst (own g) \<and> \<not> snd (own g)"
| "track_allowed (Begin_Request g req) own t \<longleftrightarrow> g < rt_next_g t \<and> \<not> snd (own g) \<and> (mr_Traced req \<longrightarrow> rt_trace t)
     \<and> (case rt_gs t g of None \<Rightarrow> True | Some e \<Rightarrow> 0 < op_refs (rt_ops t (g_op e)))"
| "track_allowed (FinishRequest g) own t \<longleftrightarrow> snd (own g)"
| "track_allowed (Current g) own t \<longleftrightarrow> True"
| "track_allowed (Go g) own t \<longleftrightarrow> g < rt_next_g t"

fun track_duties :: "track_event \<Rightarrow> duties \<Rightarrow> duties" where
  "track_duties (BeginOperation g) own = own(g := (True, False))"
| "track_duties (FinishOperation g) own = own(g := (False, False))"
| "track_duties (Begin_Request g req) own = own(g := (fst (own g), True))"
| "track_duties (FinishRequest g) own = own(g := (fst (own g), False))"
| "track_duties (Current g) own = own"
| "track_duties (Go g) own = own"

inductive track_run :: "bool \<Rightarrow> RequestTracker \<Rightarrow> duties \<Rightarrow> bool" for traceProvider where
  track_start: "track_run traceProvider (reqtrack_New traceProvider) (\<lambda>_. (False, False))"
| track_event: "track_run traceProvider t own \<Longrightarrow> track_allowed e own t \<Longrightarrow> track_exec e t = Inr t' \<Longrightarrow>
    track_run traceProvider t' (track_duties e own)"


section \<open>Invariant\<close>

definition duty :: "duties \<Rightarrow> RequestTracker \<Rightarrow> nat \<Rightarrow> nat \<Rightarrow> int" where
  "duty own t op g = (case rt_gs t g of None \<Rightarrow> 0
     | Some e \<Rightarrow> if g_op e = op then of_bool (fst (own g)) + of_bool (snd (own g)) else 0)"

text \<open>The operations and requests of an operation that are running.\<close>

definition running :: "duties \<Rightarrow> RequestTracker \<Rightarrow> nat \<Rightarrow> int" where
  "running own t op = (\<Sum>g<rt_next_g t. duty own t op g)"

definition tag_ok :: "duties \<Rightarrow> RequestTracker \<Rightarrow> nat \<Rightarrow> bool" where
  "tag_ok own t g \<longleftrightarrow> (rt_gs t g = None \<longrightarrow> own g = (False, False))
     \<and> (\<forall>e. rt_gs t g = Some e \<longrightarrow> g < rt_next_g t \<and> g_op e < rt_next_op t \<and> (snd (own g) \<longrightarrow> g_req e \<noteq> None)
         \<and> (\<forall>r. g_req e = Some r \<longrightarrow> mr_Traced r \<longrightarrow> rt_trace t))"

text \<open>The log of an operation is marked as done, once, exactly when nothing of the operation is running.\<close>

definition op_ok :: "duties \<Rightarrow> RequestTracker \<Rightarrow> nat \<Rightarrow> bool" where
  "op_ok own t op \<longleftrightarrow> op_refs (rt_ops t op) = running own t op
     \<and> (\<forall>l. op_trace (rt_ops t op) = Some l \<longrightarrow> l < rt_next_log t \<and> lt_done (rt_logs t l) = (if op_refs (rt_ops t op) = 0 then 1 else 0))"

definition own_logs :: "RequestTracker \<Rightarrow> bool" where
  "own_logs t \<longleftrightarrow> (\<forall>op<rt_next_op t. \<forall>op'<rt_next_op t. \<forall>l. op_trace (rt_ops t op) = Some l \<and> op_trace (rt_ops t op') = Some l \<longrightarrow> op = op')"

text \<open>A log is streamed at most once, and that has begun when it is marked as done.\<close>

definition stream_ok :: "lazyTraceInit \<Rightarrow> bool" where
  "stream_ok x \<longleftrightarrow> lt_streams x \<le> 1 \<and> (0 < lt_done x \<longrightarrow> lt_streams x = 1)"

definition track_ok :: "duties \<Rightarrow> RequestTracker \<Rightarrow> bool" where
  "track_ok own t \<longleftrightarrow> (\<forall>g. tag_ok own t g) \<and> (\<forall>op<rt_next_op t. op_ok own t op) \<and> own_logs t \<and> (\<forall>l. stream_ok (rt_logs t l))"

lemma track_okD:
  assumes "track_ok own t"
  shows "tag_ok own t g" "op < rt_next_op t \<Longrightarrow> op_ok own t op" "own_logs t" "stream_ok (rt_logs t l)"
  using assms by (simp_all add: track_ok_def)

lemma track_okI:
  assumes "\<And>g. tag_ok own t g" "\<And>op. op < rt_next_op t \<Longrightarrow> op_ok own t op" "own_logs t" "\<And>l. stream_ok (rt_logs t l)"
  shows "track_ok own t"
  using assms by (simp add: track_ok_def)

lemma sum_change:
  fixes f f' :: "nat \<Rightarrow> int"
  assumes "g < n" "\<And>h. h \<noteq> g \<Longrightarrow> f' h = f h"
  shows "(\<Sum>h<n. f' h) = (\<Sum>h<n. f h) + (f' g - f g)"
proof -
  have "(\<Sum>h\<in>{..<n} - {g}. f' h) = (\<Sum>h\<in>{..<n} - {g}. f h)" using assms(2) by (intro sum.cong) auto
  then show ?thesis using assms(1) by (simp add: sum.remove [of "{..<n}" g])
qed

lemma running_change:
  assumes "g < rt_next_g t" "rt_next_g t' = rt_next_g t" "\<And>h. h \<noteq> g \<Longrightarrow> rt_gs t' h = rt_gs t h" "\<And>h. h \<noteq> g \<Longrightarrow> own' h = own h"
  shows "running own' t' op = running own t op + (duty own' t' op g - duty own t op g)"
  unfolding running_def assms(2) by (rule sum_change) (use assms in \<open>auto simp: duty_def\<close>)

lemma running_same: "rt_next_g t' = rt_next_g t \<Longrightarrow> rt_gs t' = rt_gs t \<Longrightarrow> running own t' op = running own t op"
  by (simp add: running_def duty_def)

lemma duty_nonneg: "0 \<le> duty own t op g"
  by (auto simp: duty_def split: option.split)

lemma duty_le_running: "g < rt_next_g t \<Longrightarrow> duty own t op g \<le> running own t op"
  unfolding running_def by (rule member_le_sum) (auto simp: duty_nonneg)

lemma initStream_fields [simp]:
  "rt_ops (initStream l t) = rt_ops t" "rt_gs (initStream l t) = rt_gs t" "rt_next_op (initStream l t) = rt_next_op t"
  "rt_next_g (initStream l t) = rt_next_g t" "rt_next_log (initStream l t) = rt_next_log t" "rt_trace (initStream l t) = rt_trace t"
  "lt_done (rt_logs (initStream l t) k) = lt_done (rt_logs t k)"
  "lt_streams (rt_logs (initStream l t) k) = (if k = l \<and> lt_streams (rt_logs t k) = 0 then 1 else lt_streams (rt_logs t k))"
  by (auto simp: initStream_def)

lemma upd_op_fields [simp]:
  "rt_ops (upd_op a f t) = (rt_ops t)(a := f (rt_ops t a))" "rt_gs (upd_op a f t) = rt_gs t" "rt_next_op (upd_op a f t) = rt_next_op t"
  "rt_next_g (upd_op a f t) = rt_next_g t" "rt_next_log (upd_op a f t) = rt_next_log t" "rt_trace (upd_op a f t) = rt_trace t"
  "rt_logs (upd_op a f t) = rt_logs t"
  by (simp_all add: upd_op_def)

lemma incRef_fields [simp]:
  "rt_ops (incRef a t) = (rt_ops t)(a := (rt_ops t a)\<lparr>op_refs := op_refs (rt_ops t a) + 1\<rparr>)" "rt_gs (incRef a t) = rt_gs t"
  "rt_next_op (incRef a t) = rt_next_op t" "rt_next_g (incRef a t) = rt_next_g t" "rt_next_log (incRef a t) = rt_next_log t"
  "rt_trace (incRef a t) = rt_trace t" "rt_logs (incRef a t) = rt_logs t"
  by (simp_all add: incRef_def)

lemma set_g_fields [simp]:
  "rt_ops (set_g g e t) = rt_ops t" "rt_gs (set_g g e t) = (rt_gs t)(g := e)" "rt_next_op (set_g g e t) = rt_next_op t"
  "rt_next_g (set_g g e t) = rt_next_g t" "rt_next_log (set_g g e t) = rt_next_log t" "rt_trace (set_g g e t) = rt_trace t"
  "rt_logs (set_g g e t) = rt_logs t"
  by (simp_all add: set_g_def)

text \<open>What changes nothing about a goroutine, an operation, the owners of the logs.\<close>

lemma tag_ok_same:
  assumes "tag_ok own t g" "rt_gs t' g = rt_gs t g" "own' g = own g" "rt_next_g t \<le> rt_next_g t'" "rt_next_op t \<le> rt_next_op t'" "rt_trace t' = rt_trace t"
  shows "tag_ok own' t' g"
  using assms by (auto simp: tag_ok_def)

lemma op_ok_same:
  assumes "op_ok own t op" "running own' t' op = running own t op" "op_refs (rt_ops t' op) = op_refs (rt_ops t op)"
    "op_trace (rt_ops t' op) = op_trace (rt_ops t op)" "rt_next_log t \<le> rt_next_log t'"
    "\<And>l. l < rt_next_log t \<Longrightarrow> op_trace (rt_ops t op) = Some l \<Longrightarrow> lt_done (rt_logs t' l) = lt_done (rt_logs t l)"
  shows "op_ok own' t' op"
  using assms by (auto simp: op_ok_def)

lemma own_logs_same:
  assumes "own_logs t" "rt_next_op t' = rt_next_op t" "\<And>op. op_trace (rt_ops t' op) = op_trace (rt_ops t op)"
  shows "own_logs t'"
  using assms by (simp add: own_logs_def)

lemma track_ok_initStream:
  assumes ok: "track_ok own t"
  shows "track_ok own (initStream l t)"
proof (rule track_okI)
  fix g show "tag_ok own (initStream l t) g" by (rule tag_ok_same [OF track_okD(1) [OF ok]]) simp_all
next
  fix op assume "op < rt_next_op (initStream l t)"
  then show "op_ok own (initStream l t) op" by (intro op_ok_same [OF track_okD(2) [OF ok]] running_same) simp_all
next
  show "own_logs (initStream l t)" by (rule own_logs_same [OF track_okD(3) [OF ok]]) simp_all
next
  fix k show "stream_ok (rt_logs (initStream l t) k)"
    using track_okD(4) [OF ok, of k] by (auto simp: stream_ok_def)
qed

lemma track_ok_current: "track_ok own t \<Longrightarrow> track_ok own (snd (currentReq g t))"
  by (cases "rt_gs t g"; cases "op_trace (rt_ops t (g_op (the (rt_gs t g))))") (simp_all add: currentReq_def track_ok_initStream)

lemma currentReq_fields [simp]:
  "rt_ops (snd (currentReq g t)) = rt_ops t" "rt_gs (snd (currentReq g t)) = rt_gs t" "rt_next_g (snd (currentReq g t)) = rt_next_g t"
  "rt_trace (snd (currentReq g t)) = rt_trace t" "fst (fst (currentReq g t)) = (case rt_gs t g of None \<Rightarrow> None | Some e \<Rightarrow> g_req e)"
  by (cases "rt_gs t g"; cases "op_trace (rt_ops t (g_op (the (rt_gs t g))))"; simp add: currentReq_def)+

text \<open>A goroutine that gives up the request it did not begin.\<close>

lemma track_ok_clear:
  assumes ok: "track_ok own t" and e: "rt_gs t g = Some e" "\<not> snd (own g)"
  shows "track_ok own (set_g g (Some (e\<lparr>g_req := None\<rparr>)) t)" (is "track_ok own ?t")
proof (rule track_okI)
  fix h show "tag_ok own ?t h"
  proof (cases "h = g")
    case True
    with track_okD(1) [OF ok, of g] e show ?thesis by (simp add: tag_ok_def)
  qed (intro tag_ok_same [OF track_okD(1) [OF ok]], simp_all)
next
  have d: "duty own ?t op h = duty own t op h" for op h using e by (auto simp: duty_def)
  fix op assume "op < rt_next_op ?t"
  then show "op_ok own ?t op" by (intro op_ok_same [OF track_okD(2) [OF ok]]) (simp_all add: running_def d)
next
  show "own_logs ?t" by (rule own_logs_same [OF track_okD(3) [OF ok]]) simp_all
qed (simp add: track_okD(4) [OF ok])

text \<open>Something of an operation that is running begins to run.\<close>

lemma track_ok_inc:
  assumes ok: "track_ok own t" and e: "rt_gs t g = Some e" "\<not> snd (own g)" "0 < op_refs (rt_ops t (g_op e))" "mr_Traced r \<longrightarrow> rt_trace t"
  shows "track_ok (own(g := (fst (own g), True))) (set_g g (Some (e\<lparr>g_req := Some r\<rparr>)) (incRef (g_op e) t))" (is "track_ok ?own ?t")
proof -
  have g: "g < rt_next_g t" "g_op e < rt_next_op t" using track_okD(1) [OF ok, of g] e(1) by (simp_all add: tag_ok_def)
  have r: "running ?own ?t op = running own t op + (if op = g_op e then 1 else 0)" for op
    by (subst running_change [OF g(1), of ?t ?own own]) (use e in \<open>auto simp: duty_def\<close>)
  show ?thesis
  proof (rule track_okI)
    fix h show "tag_ok ?own ?t h"
    proof (cases "h = g")
      case True
      with track_okD(1) [OF ok, of g] e show ?thesis by (simp add: tag_ok_def)
    qed (intro tag_ok_same [OF track_okD(1) [OF ok]], simp_all)
  next
    fix op assume "op < rt_next_op ?t"
    then have "op_ok own t op" using track_okD(2) [OF ok] by (simp add:)
    then show "op_ok ?own ?t op" using e(3)
      by (cases "op = g_op e") (simp_all add: op_ok_def r)
  next
    show "own_logs ?t" by (rule own_logs_same [OF track_okD(3) [OF ok]]) simp_all
  qed (simp add: track_okD(4) [OF ok])
qed

text \<open>Something of an operation ends; if it was the last, the log is marked as done.\<close>

lemma lt_MarkDone_fields [simp]:
  "rt_ops (lt_MarkDone l t) = rt_ops t" "rt_gs (lt_MarkDone l t) = rt_gs t" "rt_next_op (lt_MarkDone l t) = rt_next_op t"
  "rt_next_g (lt_MarkDone l t) = rt_next_g t" "rt_next_log (lt_MarkDone l t) = rt_next_log t" "rt_trace (lt_MarkDone l t) = rt_trace t"
  "lt_done (rt_logs (lt_MarkDone l t) k) = lt_done (rt_logs t k) + of_bool (l = k)"
  "lt_streams (rt_logs (lt_MarkDone l t) k) = (if k = l \<and> lt_streams (rt_logs t k) = 0 then 1 else lt_streams (rt_logs t k))"
  by (simp_all add: lt_MarkDone_def)

lemma decRef_cases:
  "decRef a t = upd_op a (\<lambda>o'. o'\<lparr>op_refs := op_refs o' - 1\<rparr>) t \<and> \<not> (op_refs (rt_ops t a) = 1 \<and> (\<exists>l. op_trace (rt_ops t a) = Some l))
   \<or> (\<exists>l. op_refs (rt_ops t a) = 1 \<and> op_trace (rt_ops t a) = Some l
       \<and> decRef a t = lt_MarkDone l (upd_op a (\<lambda>o'. o'\<lparr>op_refs := op_refs o' - 1\<rparr>) t))"
  unfolding decRef_def Let_def by (cases "op_trace (rt_ops t a)"; cases "op_refs (rt_ops t a) = 1") simp_all

lemma decRef_fields [simp]:
  "rt_ops (decRef a t) = (rt_ops t)(a := (rt_ops t a)\<lparr>op_refs := op_refs (rt_ops t a) - 1\<rparr>)" "rt_gs (decRef a t) = rt_gs t"
  "rt_next_op (decRef a t) = rt_next_op t" "rt_next_g (decRef a t) = rt_next_g t" "rt_next_log (decRef a t) = rt_next_log t"
  "rt_trace (decRef a t) = rt_trace t"
  "lt_done (rt_logs (decRef a t) l) = lt_done (rt_logs t l) + of_bool (op_refs (rt_ops t a) = 1 \<and> op_trace (rt_ops t a) = Some l)"
  using decRef_cases [of a t] by (elim disjE exE conjE; simp)+

lemma decRef_streams: "stream_ok (rt_logs t l) \<Longrightarrow> stream_ok (rt_logs (decRef a t) l)"
  using decRef_cases [of a t] by (elim disjE exE conjE) (auto simp: stream_ok_def)

lemma track_ok_dec:
  assumes ok: "track_ok own t" and e: "rt_gs t g = Some e"
    and d: "of_bool (fst (own g)) + of_bool (snd (own g)) = 1 + (of_bool (fst d) + of_bool (snd d) :: int)"
    and e': "e' = None \<and> d = (False, False) \<or> e' = Some (e\<lparr>g_req := None\<rparr>) \<and> \<not> snd d"
  shows "track_ok (own(g := d)) (set_g g e' (decRef (g_op e) t))" (is "track_ok ?own ?t")
proof -
  have g: "g < rt_next_g t" "g_op e < rt_next_op t" using track_okD(1) [OF ok, of g] e by (simp_all add: tag_ok_def)
  have du: "duty ?own ?t op g = duty own t op g - (if op = g_op e then 1 else 0)" for op
    using e d e' by (auto simp: duty_def)
  have r: "running ?own ?t op = running own t op - (if op = g_op e then 1 else 0)" for op
    by (subst running_change [OF g(1), of ?t ?own own]) (use du in \<open>auto\<close>)
  have "duty own t (g_op e) g = 1 + (of_bool (fst d) + of_bool (snd d))" using e d by (simp add: duty_def)
  then have pos: "0 < running own t (g_op e)" using duty_le_running [OF g(1), of own "g_op e"] by (auto simp: of_bool_def split: if_splits)
  show ?thesis
  proof (rule track_okI)
    fix h show "tag_ok ?own ?t h"
    proof (cases "h = g")
      case True
      with track_okD(1) [OF ok, of g] e e' show ?thesis by (auto simp: tag_ok_def)
    qed (intro tag_ok_same [OF track_okD(1) [OF ok]], simp_all)
  next
    fix op assume "op < rt_next_op ?t"
    then have op: "op < rt_next_op t" by simp
    show "op_ok ?own ?t op"
    proof (cases "op = g_op e")
      case True
      with track_okD(2) [OF ok op] pos show ?thesis by (auto simp: op_ok_def r)
    next
      case False
      then have "op_trace (rt_ops t op) = Some l \<Longrightarrow> op_trace (rt_ops t (g_op e)) \<noteq> Some l" for l
        using track_okD(3) [OF ok] op g(2) by (auto simp: own_logs_def)
      with False show ?thesis by (intro op_ok_same [OF track_okD(2) [OF ok op]]) (simp_all add: r)
    qed
  next
    show "own_logs ?t" by (rule own_logs_same [OF track_okD(3) [OF ok]]) simp_all
  qed (use track_okD(4) [OF ok] in \<open>simp add: decRef_streams\<close>)
qed

text \<open>An operation that is running gets a log.\<close>

lemma track_ok_tracing:
  assumes ok: "track_ok own t" and op: "op < rt_next_op t" "op_refs (rt_ops t op) \<noteq> 0" "op_trace (rt_ops t op) = None" "rt_trace t"
  shows "\<exists>t'. beginTracing op t = Inr t' \<and> track_ok own t'"
proof -
  let ?l = "rt_next_log t"
  let ?t = "upd_op op (\<lambda>o'. o'\<lparr>op_trace := Some ?l\<rparr>) (t\<lparr>rt_logs := (rt_logs t)(?l := \<lparr>lt_done = 0, lt_streams = 0\<rparr>), rt_next_log := ?l + 1\<rparr>)"
  have r: "running own ?t o' = running own t o'" for o' by (rule running_same) simp_all
  have fresh: "op_trace (rt_ops t o') \<noteq> Some ?l" if "o' < rt_next_op t" for o'
    using track_okD(2) [OF ok that] by (auto simp: op_ok_def)
  have "track_ok own ?t"
  proof (rule track_okI)
    fix h show "tag_ok own ?t h" by (rule tag_ok_same [OF track_okD(1) [OF ok]]) simp_all
  next
    fix o' assume "o' < rt_next_op ?t"
    then have o': "o' < rt_next_op t" by simp
    show "op_ok own ?t o'"
    proof (cases "o' = op")
      case True
      with track_okD(2) [OF ok o'] op(2) show ?thesis unfolding op_ok_def r by simp
    next
      case False
      then show ?thesis by (intro op_ok_same [OF track_okD(2) [OF ok o']], unfold r) simp_all
    qed
  next
    show "own_logs ?t" using track_okD(3) [OF ok] fresh by (auto simp: own_logs_def)
  next
    fix l show "stream_ok (rt_logs ?t l)" using track_okD(4) [OF ok, of l] by (simp add: stream_ok_def)
  qed
  moreover have "beginTracing op t = Inr ?t" using op(3,4) by (simp add: beginTracing_def Let_def)
  ultimately show ?thesis by blast
qed

text \<open>A new operation, with the goroutine that begins it.\<close>

definition fresh_op :: "nat \<Rightarrow> model_Request option \<Rightarrow> RequestTracker \<Rightarrow> RequestTracker" where
  "fresh_op g req t = set_g g (Some \<lparr>g_op = rt_next_op t, g_req = req, g_goctr = 1\<rparr>)
     (t\<lparr>rt_ops := (rt_ops t)(rt_next_op t := \<lparr>op_trace = None, op_refs = 1, op_goidCtr = 1\<rparr>), rt_next_op := rt_next_op t + 1\<rparr>)"

lemma fresh_op_fields [simp]:
  "rt_ops (fresh_op g req t) = (rt_ops t)(rt_next_op t := \<lparr>op_trace = None, op_refs = 1, op_goidCtr = 1\<rparr>)"
  "rt_gs (fresh_op g req t) = (rt_gs t)(g := Some \<lparr>g_op = rt_next_op t, g_req = req, g_goctr = 1\<rparr>)"
  "rt_next_op (fresh_op g req t) = rt_next_op t + 1" "rt_next_g (fresh_op g req t) = rt_next_g t"
  "rt_next_log (fresh_op g req t) = rt_next_log t" "rt_trace (fresh_op g req t) = rt_trace t" "rt_logs (fresh_op g req t) = rt_logs t"
  by (simp_all add: fresh_op_def)

lemma newOp_tagG:
  assumes "rt_gs t g = None"
  shows "(case newOp trace t of Inl p \<Rightarrow> Inl p | Inr (op, t') \<Rightarrow> tagG g op req t') =
    (if trace \<and> rt_trace t then beginTracing (rt_next_op t) (fresh_op g req t) else Inr (fresh_op g req t))"
  using assms by (simp add: newOp_def tagG_def beginTracing_def fresh_op_def upd_op_def set_g_def Let_def)

lemma track_ok_fresh:
  assumes ok: "track_ok own t" and g: "g < rt_next_g t" "rt_gs t g = None"
    and d: "of_bool (fst d) + of_bool (snd d) = (1 :: int)" "snd d \<longrightarrow> req \<noteq> None" "\<And>r. req = Some r \<Longrightarrow> mr_Traced r \<Longrightarrow> rt_trace t"
  shows "track_ok (own(g := d)) (fresh_op g req t)" (is "track_ok ?own ?t")
proof -
  have old: "duty own t (rt_next_op t) h = 0" for h
    using track_okD(1) [OF ok, of h] by (auto simp: duty_def tag_ok_def split: option.split)
  have du: "duty ?own ?t op g = duty own t op g + (if op = rt_next_op t then 1 else 0)" for op
    using g d(1) by (auto simp: duty_def)
  have r: "running ?own ?t op = running own t op + (if op = rt_next_op t then 1 else 0)" for op
    by (subst running_change [OF g(1), of ?t ?own own]) (use du in \<open>auto\<close>)
  have zero: "running own t (rt_next_op t) = 0" by (simp add: running_def old)
  show ?thesis
  proof (rule track_okI)
    fix h show "tag_ok ?own ?t h"
    proof (cases "h = g")
      case True
      with g d show ?thesis by (simp add: tag_ok_def)
    qed (intro tag_ok_same [OF track_okD(1) [OF ok]], simp_all)
  next
    fix op assume op: "op < rt_next_op ?t"
    show "op_ok ?own ?t op"
    proof (cases "op = rt_next_op t")
      case True
      then show ?thesis by (simp add: op_ok_def r zero)
    next
      case False
      with op have "op < rt_next_op t" by simp
      with False show ?thesis by (intro op_ok_same [OF track_okD(2) [OF ok]]) (simp_all add: r)
    qed
  next
    show "own_logs ?t" using track_okD(3) [OF ok] by (auto simp: own_logs_def less_Suc_eq)
  qed (simp add: track_okD(4) [OF ok])
qed

lemma track_ok_newOp:
  assumes ok: "track_ok own t" and g: "g < rt_next_g t" "rt_gs t g = None"
    and d: "of_bool (fst d) + of_bool (snd d) = (1 :: int)" "snd d \<longrightarrow> req \<noteq> None" "\<And>r. req = Some r \<Longrightarrow> mr_Traced r \<Longrightarrow> rt_trace t"
  shows "\<exists>t'. (case newOp trace t of Inl p \<Rightarrow> Inl p | Inr (op, t') \<Rightarrow> tagG g op req t') = Inr t' \<and> track_ok (own(g := d)) t'"
  using track_ok_tracing [OF track_ok_fresh [OF assms], where op = "rt_next_op t"] track_ok_fresh [OF assms]
  by (simp add: newOp_tagG [OF g(2)])

text \<open>A goroutine that is started owes nothing.\<close>

lemma track_ok_go:
  assumes ok: "track_ok own t"
  shows "track_ok own (startEncoreG g t)" (is "track_ok own ?t")
proof -
  let ?n = "rt_next_g t"
  have none: "rt_gs t ?n = None" using track_okD(1) [OF ok, of ?n] by (auto simp: tag_ok_def)
  then have own: "own ?n = (False, False)" using track_okD(1) [OF ok, of ?n] by (simp add: tag_ok_def)
  have f: "rt_gs ?t h = (if h = ?n then map_option (\<lambda>e. e\<lparr>g_goctr := op_goidCtr (rt_ops t (g_op e)) + 1\<rparr>) (rt_gs t g) else rt_gs t h)"
    "rt_next_g ?t = Suc ?n" "rt_next_op ?t = rt_next_op t" "rt_next_log ?t = rt_next_log t" "rt_trace ?t = rt_trace t" "rt_logs ?t = rt_logs t"
    "op_trace (rt_ops ?t op) = op_trace (rt_ops t op)" "op_refs (rt_ops ?t op) = op_refs (rt_ops t op)" for h op
    by (cases "rt_gs t g"; simp add: startEncoreG_def Let_def)+
  have du: "duty own ?t op h = duty own t op h" for op h using own none by (auto simp: duty_def f split: option.split)
  have r: "running own ?t op = running own t op" for op
    using none by (simp add: running_def f du) (simp add: duty_def)
  show ?thesis
  proof (rule track_okI)
    fix h show "tag_ok own ?t h"
    proof (cases "h = ?n")
      case True
      with track_okD(1) [OF ok, of g] own show ?thesis by (auto simp: tag_ok_def f)
    qed (intro tag_ok_same [OF track_okD(1) [OF ok]], simp_all add: f)
  next
    fix op assume "op < rt_next_op ?t"
    then have "op < rt_next_op t" by (simp add: f)
    then show "op_ok own ?t op" by (intro op_ok_same [OF track_okD(2) [OF ok]]) (simp_all add: r f)
  next
    show "own_logs ?t" by (rule own_logs_same [OF track_okD(3) [OF ok]]) (simp_all add: f)
  qed (simp add: track_okD(4) [OF ok] f)
qed

text \<open>A request begins in the operation of its goroutine, which is running.\<close>

lemma beginReq_inside:
  assumes ok: "track_ok own t" and e: "rt_gs t g = Some e" "g_req e = None" "\<not> snd (own g)" "0 < op_refs (rt_ops t (g_op e))"
    and r: "mr_Traced r \<longrightarrow> rt_trace t"
  shows "\<exists>t'. beginReq g r (mr_Traced r) t = Inr t' \<and> track_ok (own(g := (fst (own g), True))) t'"
proof -
  let ?t = "set_g g (Some (e\<lparr>g_req := Some r\<rparr>)) (incRef (g_op e) t)"
  have ok': "track_ok (own(g := (fst (own g), True))) ?t" by (rule track_ok_inc [OF ok e(1,3,4) r])
  have op: "g_op e < rt_next_op ?t" using track_okD(1) [OF ok, of g] e(1) by (simp add: tag_ok_def)
  show ?thesis
  proof (cases "mr_Traced r \<and> op_trace (rt_ops t (g_op e)) = None")
    case True
    then show ?thesis using track_ok_tracing [OF ok' op] e r by (simp add: beginReq_def Let_def)
  next
    case False
    then show ?thesis using ok' e by (auto simp: beginReq_def Let_def)
  qed
qed

lemma BeginRequest_cases:
  "rt_gs t g = None \<Longrightarrow> BeginRequest g req t = beginReq g req (mr_Traced req) (snd (currentReq g t))"
  "rt_gs t g = Some e \<Longrightarrow> g_req e = None \<Longrightarrow> BeginRequest g req t = beginReq g req (mr_Traced req) (snd (currentReq g t))"
  "rt_gs t g = Some e \<Longrightarrow> g_req e = Some prev \<Longrightarrow>
     BeginRequest g req t = beginReq g (copyReqInfoFromParent req prev) (mr_Traced prev) (set_g g (Some (e\<lparr>g_req := None\<rparr>)) (snd (currentReq g t)))"
  using currentReq_fields(2,5) [of g t]
  by (cases "currentReq g t"; cases "fst (currentReq g t)"; simp add: BeginRequest_def clearReq_def copyReqInfoFromParent_def Let_def)+

lemma track_ok_request:
  assumes ok: "track_ok own t" and a: "track_allowed (Begin_Request g req) own t"
  shows "\<exists>t'. BeginRequest g req t = Inr t' \<and> track_ok (own(g := (fst (own g), True))) t'"
proof (cases "rt_gs t g")
  case None
  let ?t = "snd (currentReq g t)"
  have ok': "track_ok own ?t" by (rule track_ok_current [OF ok])
  have "own g = (False, False)" using track_okD(1) [OF ok, of g] None by (simp add: tag_ok_def)
  then show ?thesis using None a track_ok_newOp [OF ok', of g "(False, True)" "Some req" "mr_Traced req"]
    by (simp add: BeginRequest_cases beginReq_def)
next
  case (Some e)
  let ?t = "snd (currentReq g t)"
  have ok': "track_ok own ?t" by (rule track_ok_current [OF ok])
  show ?thesis
  proof (cases "g_req e")
    case None
    then show ?thesis using Some a beginReq_inside [OF ok', of g e req] by (simp add: BeginRequest_cases)
  next
    case (Some prev)
    note e = \<open>rt_gs t g = Some e\<close>
    let ?u = "set_g g (Some (e\<lparr>g_req := None\<rparr>)) ?t"
    have "track_ok own ?u" using track_ok_clear [OF ok', of g e] e a by simp
    from beginReq_inside [OF this, of g "e\<lparr>g_req := None\<rparr>" "copyReqInfoFromParent req prev"]
    show ?thesis using e a Some track_okD(1) [OF ok, of g]
      by (simp add: BeginRequest_cases(3) [OF e Some] copyReqInfoFromParent_def tag_ok_def)
  qed
qed

lemma track_ok_step:
  assumes ok: "track_ok own t" and a: "track_allowed e own t"
  shows "\<exists>t'. track_exec e t = Inr t' \<and> track_ok (track_duties e own) t'"
proof (cases e)
  case (BeginOperation g)
  then show ?thesis using a track_ok_newOp [OF ok, of g "(True, False)" None False] by (simp add: beginOp_def)
next
  case (FinishOperation g)
  then obtain x where x: "rt_gs t g = Some x" using a track_okD(1) [OF ok, of g] by (cases "rt_gs t g") (auto simp: tag_ok_def)
  show ?thesis using FinishOperation a track_ok_dec [OF ok x, of "(False, False)" None] by (simp add: finishOp_def x)
next
  case (Begin_Request g req)
  then show ?thesis using track_ok_request [OF ok, of g req] a by simp
next
  case (FinishRequest g)
  then obtain x where x: "rt_gs t g = Some x" "g_req x \<noteq> None"
    using a track_okD(1) [OF ok, of g] by (cases "rt_gs t g") (auto simp: tag_ok_def)
  show ?thesis using FinishRequest a track_ok_dec [OF ok x(1), of "(fst (own g), False)" "Some (x\<lparr>g_req := None\<rparr>)"]
    by (simp add: finishReq_def x)
next
  case (Current g)
  then show ?thesis using track_ok_current [OF ok] by simp
next
  case (Go g)
  then show ?thesis using track_ok_go [OF ok] by simp
qed

lemma track_ok_New: "track_ok (\<lambda>_. (False, False)) (reqtrack_New p)"
  by (simp add: track_ok_def tag_ok_def own_logs_def stream_ok_def reqtrack_New_def)

lemma track_run_ok: "track_run p t own \<Longrightarrow> track_ok own t"
proof (induction rule: track_run.induct)
  case (track_event t own e t')
  then show ?case using track_ok_step [of own t e] by auto
qed (rule track_ok_New)

text \<open>A goroutine keeps its operation when it begins a request, and works for that request.\<close>

lemma beginTracing_fields:
  assumes "beginTracing op t = Inr t'"
  shows "rt_gs t' = rt_gs t" "op_trace (rt_ops t op) = Some l \<Longrightarrow> op_trace (rt_ops t' op) = Some l"
  using assms by (auto simp: beginTracing_def Let_def split: if_splits)

lemma beginTracing_traces: "beginTracing op t = Inr t' \<Longrightarrow> \<exists>l. op_trace (rt_ops t' op) = Some l"
  by (auto simp: beginTracing_def Let_def split: if_splits)

lemma beginReq_keeps:
  assumes "beginReq g r tr t = Inr t'" "rt_gs t g = Some e"
  shows "rt_gs t' g = Some (e\<lparr>g_req := Some r\<rparr>)" "op_trace (rt_ops t (g_op e)) = Some l \<Longrightarrow> op_trace (rt_ops t' (g_op e)) = Some l"
    "tr \<Longrightarrow> \<exists>l. op_trace (rt_ops t' (g_op e)) = Some l"
  using assms beginTracing_traces [of "g_op e" "set_g g (Some (e\<lparr>g_req := Some r\<rparr>)) (incRef (g_op e) t)" t']
    beginTracing_fields [of "g_op e" "set_g g (Some (e\<lparr>g_req := Some r\<rparr>)) (incRef (g_op e) t)" t']
  by (auto simp: beginReq_def Let_def split: if_splits)

section \<open>Properties\<close>



section \<open>Runs that are evaluated\<close>

definition a_request :: "bool \<Rightarrow> byte \<Rightarrow> string \<Rightarrow> model_Request" where
  "a_request traced span user = \<lparr>mr_TraceID = replicate 16 7, mr_SpanID = replicate 8 span, mr_ParentSpanID = zero_SpanID,
     mr_ParentTraceID = zero_TraceID, mr_ExtCorrelationID = [], mr_Traced = traced, mr_SvcNum = 1,
     mr_RPCData = Some \<lparr>ap_UserID = user, ap_AuthData = None\<rparr>, mr_Test = None\<rparr>"

fun track_events :: "track_event list \<Rightarrow> RequestTracker \<Rightarrow> string + RequestTracker" where
  "track_events [] t = Inr t"
| "track_events (e # es) t = (case track_exec e t of Inl p \<Rightarrow> Inl p | Inr t' \<Rightarrow> track_events es t')"

fun track_owned :: "track_event list \<Rightarrow> duties \<Rightarrow> RequestTracker \<Rightarrow> bool" where
  "track_owned [] own t \<longleftrightarrow> True"
| "track_owned (e # es) own t \<longleftrightarrow> track_allowed e own t \<and> (case track_exec e t of Inl p \<Rightarrow> True | Inr t' \<Rightarrow> track_owned es (track_duties e own) t')"

lemma track_run_events:
  "track_run p t own \<Longrightarrow> track_owned es own t \<Longrightarrow> track_events es t = Inr t' \<Longrightarrow> track_run p t' (List.fold track_duties es own)"
proof (induction es arbitrary: t own)
  case (Cons e es)
  then show ?case by (auto split: sum.splits intro: track_event)
qed simp

text \<open>A request, a call that it makes in a second goroutine and that outlives it.\<close>

definition call_events :: "track_event list" where
  "call_events = [BeginOperation 0, Begin_Request 0 (a_request True 1 ''ada''), Go 0, Begin_Request 1 (a_request False 2 []),
     FinishRequest 0, FinishOperation 0, Current 1, FinishRequest 1]"

definition call_state :: "nat \<Rightarrow> RequestTracker" where
  "call_state n = projr (track_events (take n call_events) (reqtrack_New True))"

definition call_own :: "nat \<Rightarrow> duties" where
  "call_own n = List.fold track_duties (take n call_events) (\<lambda>_. (False, False))"

lemma call_run: "track_run True (call_state n) (call_own n)" if "n = 7 \<or> n = 8" for n
proof -
  have "track_owned (take n call_events) (\<lambda>_. (False, False)) (reqtrack_New True)" using that by (elim disjE) (hypsubst, code_simp)+
  moreover have "\<not> isl (track_events (take n call_events) (reqtrack_New True))" using that by (elim disjE) (hypsubst, code_simp)+
  then have "track_events (take n call_events) (reqtrack_New True) = Inr (call_state n)" unfolding call_state_def by (metis isl_def sum.collapse(2))
  ultimately show ?thesis unfolding call_own_def by (rule track_run_events [OF track_start])
qed



text \<open>Tracing that is not enabled, and a caller that samples the request.\<close>

theorem sampled_request_panics:
  "case track_events [BeginOperation 0, Begin_Request 0 (a_request True 1 [])] (reqtrack_New False) of
     Inl p \<Rightarrow> p = ''invalid memory address or nil pointer dereference'' | Inr t \<Rightarrow> False"
  by code_simp

text \<open>A goroutine that outlives the operation it was started in, and then begins a request: the log is marked as done again.\<close>

definition late_state :: RequestTracker where
  "late_state = projr (track_events [BeginOperation 0, Begin_Request 0 (a_request True 1 []), Go 0, FinishRequest 0, FinishOperation 0,
     Begin_Request 1 (a_request True 2 []), FinishRequest 1] (reqtrack_New True))"

theorem late_request_marks_again: "op_trace (rt_ops late_state 0) = Some 0 \<and> lt_done (rt_logs late_state 0) = 2"
  by code_simp

end
