(* ===== verification/Path_Escape.thy ===== *)
theory Path_Escape
  imports Go_Text
begin

text \<open>
  Public addresses of stored objects (\<open>runtimes/go/storage/objects\<close>: \<open>path_escape.go\<close>, and \<open>PublicURL\<close> of
  \<open>bucket.go\<close>). The buffer that \<open>escape\<close> fills is a list of its length; writing beyond its end is a panic,
  here \<open>None\<close>.
\<close>

section \<open>Escaping\<close>

datatype encoding = encodePath | encodePathSegment | encodeHost | encodeZone | encodeUserPassword
  | encodeQueryComponent | encodeFragment

definition alphanum :: "char \<Rightarrow> bool" where
  "alphanum c = (let n = of_char c :: nat in 97 \<le> n \<and> n \<le> 122 \<or> 65 \<le> n \<and> n \<le> 90 \<or> 48 \<le> n \<and> n \<le> 57)"

text \<open>The reserved characters, by the part of the address they stand in; \<open>None\<close>: the switch has no case.\<close>

fun reserved_case :: "encoding \<Rightarrow> char \<Rightarrow> bool option" where
  "reserved_case encodePath c = Some (c = CHR ''?'')"
| "reserved_case encodePathSegment c = Some (c = CHR ''/'' \<or> c = CHR '';'' \<or> c = CHR '','' \<or> c = CHR ''?'')"
| "reserved_case encodeUserPassword c = Some (c = CHR ''@'' \<or> c = CHR ''/'' \<or> c = CHR ''?'' \<or> c = CHR '':'')"
| "reserved_case encodeQueryComponent c = Some True"
| "reserved_case encodeFragment c = Some False"
| "reserved_case encodeHost c = None"
| "reserved_case encodeZone c = None"

definition shouldEscape :: "char \<Rightarrow> encoding \<Rightarrow> bool" where
  "shouldEscape c mode =
     (if alphanum c then False
      else if (mode = encodeHost \<or> mode = encodeZone) \<and> c \<in> set ([CHR 0x27, CHR 0x22] @ ''!$&()*+,;=:[]<>'') then False
      else if c \<in> set ''-_.~'' then False
      else let rest = (if mode = encodeFragment \<and> c \<in> set ''!()*'' then False else True)
        in if c \<in> set ''$&+,/:;=?@'' then (case reserved_case mode c of Some r \<Rightarrow> r | None \<Rightarrow> rest) else rest)"

definition upperhex :: string where "upperhex = ''0123456789ABCDEF''"

definition plus_space :: "char \<Rightarrow> encoding \<Rightarrow> bool" where
  "plus_space c mode \<longleftrightarrow> c = CHR '' '' \<and> mode = encodeQueryComponent"

definition spaceCount :: "encoding \<Rightarrow> string \<Rightarrow> nat" where
  "spaceCount mode s = length (filter (\<lambda>c. shouldEscape c mode \<and> plus_space c mode) s)"

definition hexCount :: "encoding \<Rightarrow> string \<Rightarrow> nat" where
  "hexCount mode s = length (filter (\<lambda>c. shouldEscape c mode \<and> \<not> plus_space c mode) s)"

definition put :: "nat \<Rightarrow> char \<Rightarrow> string \<Rightarrow> string option" where
  "put j c t = (if j < length t then Some (t[j := c]) else None)"

text \<open>The loop that fills the buffer \<open>t\<close> from position \<open>j\<close> on.\<close>

fun escape_loop :: "encoding \<Rightarrow> string \<Rightarrow> nat \<Rightarrow> string \<Rightarrow> string option" where
  "escape_loop mode [] j t = Some t"
| "escape_loop mode (c # s) j t =
     (if plus_space c mode then Option.bind (put j CHR ''+'' t) (escape_loop mode s (j + 1))
      else if shouldEscape c mode then
        Option.bind (put j CHR ''%'' t) (\<lambda>t.
        Option.bind (put (j + 1) (upperhex ! (of_char c div 16)) t) (\<lambda>t.
        Option.bind (put (j + 2) (upperhex ! (of_char c mod 16)) t) (escape_loop mode s (j + 3))))
      else Option.bind (put j c t) (escape_loop mode s (j + 1)))"

text \<open>The buffer is zeroed; without hexadecimal codes the text is copied and its spaces are replaced.\<close>

definition escape :: "string \<Rightarrow> encoding \<Rightarrow> string option" where
  "escape s mode =
     (if spaceCount mode s = 0 \<and> hexCount mode s = 0 then Some s
      else if hexCount mode s = 0 then Some (map (\<lambda>c. if c = CHR '' '' then CHR ''+'' else c) s)
      else escape_loop mode s 0 (replicate (length s + 2 * hexCount mode s) (CHR 0x00)))"

text \<open>The path of the public address of an object, appended to the path of the bucket.\<close>

definition PublicURL :: "string \<Rightarrow> string \<Rightarrow> string option" where
  "PublicURL base object =
     map_option (\<lambda>e. (if base \<noteq> [] \<and> last base = CHR ''/'' then base else base @ ''/'') @ e) (escape object encodePath)"


section \<open>What escaping means\<close>

text \<open>One character, and the reading of escaped text.\<close>

definition escaped_char :: "encoding \<Rightarrow> char \<Rightarrow> string" where
  "escaped_char mode c =
     (if plus_space c mode then ''+''
      else if shouldEscape c mode then [CHR ''%'', upperhex ! (of_char c div 16), upperhex ! (of_char c mod 16)]
      else [c])"

definition hex_val :: "char \<Rightarrow> nat option" where
  "hex_val c = (let n = of_char c :: nat in
     if 48 \<le> n \<and> n \<le> 57 then Some (n - 48) else if 65 \<le> n \<and> n \<le> 70 then Some (n - 55)
     else if 97 \<le> n \<and> n \<le> 102 then Some (n - 87) else None)"

text \<open>Percent decoding of RFC 3986; in a query component a plus sign stands for a space.\<close>

fun percent_decode :: "encoding \<Rightarrow> string \<Rightarrow> string option" where
  "percent_decode mode [] = Some []"
| "percent_decode mode (c # s) =
     (if c = CHR ''%'' then
        (case s of
           h # l # s' \<Rightarrow> (case (hex_val h, hex_val l) of
               (Some a, Some b) \<Rightarrow> map_option (\<lambda>r. char_of (a * 16 + b) # r) (percent_decode mode s')
             | _ \<Rightarrow> None)
         | _ \<Rightarrow> None)
      else map_option (\<lambda>r. (if c = CHR ''+'' \<and> mode = encodeQueryComponent then CHR '' '' else c) # r) (percent_decode mode s))"

lemma put_append: "j = length done \<Longrightarrow> put j c (done @ x # rest) = Some (done @ c # rest)"
  by (simp add: put_def)

lemma hexCount_Cons: "hexCount mode (c # s) = (if shouldEscape c mode \<and> \<not> plus_space c mode then 1 else 0) + hexCount mode s"
  by (simp add: hexCount_def)

lemma plus_space_escaped: "plus_space c mode \<Longrightarrow> shouldEscape c mode"
  by (simp add: plus_space_def shouldEscape_def alphanum_def)

lemma escape_loop_fills:
  "length rest = length s + 2 * hexCount mode s \<Longrightarrow>
   escape_loop mode s (length done) (done @ rest) = Some (done @ concat (map (escaped_char mode) s))"
proof (induction s arbitrary: "done" rest)
  case (Cons c s)
  consider (plus) "plus_space c mode" | (hex) "\<not> plus_space c mode" "shouldEscape c mode"
    | (plain) "\<not> plus_space c mode" "\<not> shouldEscape c mode" by blast
  then show ?case
  proof cases
    case plus
    with Cons.prems obtain x rest' where r: "rest = x # rest'" "length rest' = length s + 2 * hexCount mode s"
      by (cases rest) (auto simp: hexCount_Cons)
    with plus show ?thesis using Cons.IH [of rest' "done @ ''+''"] by (simp add: put_append escaped_char_def)
  next
    case hex
    with Cons.prems obtain x y z rest' where r: "rest = x # y # z # rest'" "length rest' = length s + 2 * hexCount mode s"
      by (auto simp: hexCount_Cons length_Suc_conv)
    let ?h = "upperhex ! (of_char c div 16)" and ?l = "upperhex ! (of_char c mod 16)"
    have "put (length done + 1) ?h (done @ CHR ''%'' # y # z # rest') = Some (done @ CHR ''%'' # ?h # z # rest')"
      "put (length done + 2) ?l (done @ CHR ''%'' # ?h # z # rest') = Some (done @ CHR ''%'' # ?h # ?l # rest')"
      using put_append [of "length done + 1" "done @ ''%''" ?h y] put_append [of "length done + 2" "done @ [CHR ''%'', ?h]" ?l z] by simp_all
    with hex r show ?thesis using Cons.IH [of rest' "done @ [CHR ''%'', ?h, ?l]"] by (simp add: put_append escaped_char_def numeral_3_eq_3)
  next
    case plain
    with Cons.prems obtain x rest' where r: "rest = x # rest'" "length rest' = length s + 2 * hexCount mode s"
      by (cases rest) (auto simp: hexCount_Cons)
    with plain show ?thesis using Cons.IH [of rest' "done @ [c]"] by (simp add: put_append escaped_char_def)
  qed
qed (simp add: hexCount_def)

lemma concat_no_escape: "hexCount mode s = 0 \<Longrightarrow> spaceCount mode s = 0 \<Longrightarrow> concat (map (escaped_char mode) s) = s"
proof (induction s)
  case (Cons c s)
  then show ?case using plus_space_escaped [of c mode] by (auto simp: hexCount_Cons spaceCount_def escaped_char_def split: if_splits)
qed simp

lemma spaceCount_query: "spaceCount mode s \<noteq> 0 \<Longrightarrow> mode = encodeQueryComponent"
  by (cases "mode = encodeQueryComponent") (simp_all add: spaceCount_def plus_space_def)

lemma concat_only_spaces:
  "hexCount encodeQueryComponent s = 0 \<Longrightarrow>
   concat (map (escaped_char encodeQueryComponent) s) = map (\<lambda>c. if c = CHR '' '' then CHR ''+'' else c) s"
proof (induction s)
  case (Cons c s)
  then show ?case by (auto simp: hexCount_Cons escaped_char_def plus_space_def split: if_splits)
qed simp

lemma escape_eq: "escape s mode = Some (concat (map (escaped_char mode) s))"
proof (cases "hexCount mode s = 0")
  case True
  then show ?thesis using concat_no_escape [OF True] spaceCount_query [of mode s] concat_only_spaces [of s] by (auto simp: escape_def)
next
  case False
  then show ?thesis using escape_loop_fills [of "replicate (length s + 2 * hexCount mode s) (CHR 0x00)" s mode "[]"] by (simp add: escape_def)
qed

lemma hex_val_upperhex: "n < 16 \<Longrightarrow> hex_val (upperhex ! n) = Some n"
proof -
  have "list_all (\<lambda>n. hex_val (upperhex ! n) = Some n) [0..<16]" by code_simp
  then show "n < 16 \<Longrightarrow> hex_val (upperhex ! n) = Some n" by (auto simp: list_all_iff)
qed

lemma percent_escaped: "shouldEscape CHR ''%'' mode" "shouldEscape CHR ''+'' encodeQueryComponent"
  by (cases mode; simp add: shouldEscape_def alphanum_def)+

lemma decode_escaped_char: "percent_decode mode (escaped_char mode c @ s) = map_option (\<lambda>r. c # r) (percent_decode mode s)"
proof -
  have b: "of_char c div 16 < (16 :: nat)" using nat_of_char_less_256 [of c] by (simp add: less_mult_imp_div_less)
  have c: "char_of (of_char c div 16 * 16 + of_char c mod 16 :: nat) = c" by simp
  consider (plus) "plus_space c mode" | (hex) "\<not> plus_space c mode" "shouldEscape c mode"
    | (plain) "\<not> plus_space c mode" "\<not> shouldEscape c mode" by blast
  then show ?thesis
  proof cases
    case plain
    then have "c \<noteq> CHR ''%''" "\<not> (c = CHR ''+'' \<and> mode = encodeQueryComponent)" using percent_escaped by auto
    with plain show ?thesis by (auto simp: escaped_char_def)
  qed (simp_all add: escaped_char_def hex_val_upperhex b c plus_space_def)
qed

lemma decode_escaped: "percent_decode mode (concat (map (escaped_char mode) s)) = Some s"
  by (induction s) (simp_all add: decode_escaped_char)

lemma length_escaped: "length (concat (map (escaped_char mode) s)) = length s + 2 * hexCount mode s"
  using plus_space_escaped by (induction s) (simp_all add: hexCount_def escaped_char_def)

lemma escape_length: "escape s mode = Some t \<Longrightarrow> length t = length s + 2 * hexCount mode s"
  using length_escaped [of mode s] by (simp add: escape_eq)

section \<open>Properties\<close>

text \<open>C29. Escaping never writes beyond its buffer, which it fills exactly; the result decodes to the
  text, in every part of an address; and it consists of characters that need no escaping there, of
  escape codes, and of plus signs for spaces in a query.
\<close>

theorem escape_roundtrip:
  "\<exists>t. escape s mode = Some t \<and> percent_decode mode t = Some s \<and> length t = length s + 2 * hexCount mode s
    \<and> (\<forall>c \<in> set t. \<not> shouldEscape c mode \<or> c = CHR ''%'' \<or> c = CHR ''+'' \<and> mode = encodeQueryComponent)"
proof (intro exI conjI)
  show "escape s mode = Some (concat (map (escaped_char mode) s))" by (rule escape_eq)
  show "percent_decode mode (concat (map (escaped_char mode) s)) = Some s" by (rule decode_escaped)
  show "length (concat (map (escaped_char mode) s)) = length s + 2 * hexCount mode s" by (rule length_escaped)
  have "\<not> shouldEscape (upperhex ! n) mode" if "n < 16" for n
  proof -
    have "list_all (\<lambda>n. alphanum (upperhex ! n)) [0..<16]" by code_simp
    then show ?thesis using that by (simp add: list_all_iff shouldEscape_def)
  qed
  moreover have "of_char c div 16 < (16 :: nat)" for c using nat_of_char_less_256 [of c] by (simp add: less_mult_imp_div_less)
  ultimately show "\<forall>c \<in> set (concat (map (escaped_char mode) s)). \<not> shouldEscape c mode \<or> c = CHR ''%'' \<or> c = CHR ''+'' \<and> mode = encodeQueryComponent"
    by (auto simp: escaped_char_def plus_space_def split: if_splits)
qed

text \<open>The witness: a name with a space, a percent sign and a byte beyond ASCII.\<close>

theorem escape_roundtrip_witness:
  "escape [CHR ''a'', CHR '' '', CHR ''%'', CHR 0xE9, CHR ''/''] encodePath = Some ''a%20%25%E9/''
   \<and> percent_decode encodePath ''a%20%25%E9/'' = Some [CHR ''a'', CHR '' '', CHR ''%'', CHR 0xE9, CHR ''/'']"
proof -
  have "escape [CHR ''a'', CHR '' '', CHR ''%'', CHR 0xE9, CHR ''/''] encodePath = Some ''a%20%25%E9/''" by code_simp
  then show ?thesis using escape_roundtrip [of "[CHR ''a'', CHR '' '', CHR ''%'', CHR 0xE9, CHR ''/'']" encodePath] by auto
qed

text \<open>
  The path of an address holds plain text, which is escaped when the address is written. The one
  that \<open>PublicURL\<close> returns has the object's name escaped already, so it is the path of the object only
  if nothing in the name is escaped; otherwise the address leads to the object named by the codes.
\<close>

theorem public_path_plain_iff:
  assumes "base \<noteq> []" "last base = CHR ''/''"
  shows "PublicURL base object = Some (base @ object) \<longleftrightarrow> (\<forall>c \<in> set object. \<not> shouldEscape c encodePath)"
proof
  assume "PublicURL base object = Some (base @ object)"
  with assms have "escape object encodePath = Some object" by (auto simp: PublicURL_def)
  with escape_length [of object encodePath] show "\<forall>c \<in> set object. \<not> shouldEscape c encodePath"
    by (auto simp: hexCount_def plus_space_def filter_empty_conv)
next
  assume "\<forall>c \<in> set object. \<not> shouldEscape c encodePath"
  then have "hexCount encodePath object = 0" "spaceCount encodePath object = 0" by (auto simp: hexCount_def spaceCount_def filter_empty_conv)
  with assms show "PublicURL base object = Some (base @ object)" by (simp add: PublicURL_def escape_def)
qed

end
