(* ===== verification/Cron_Schedule.thy ===== *)
theory Cron_Schedule
  imports Call_Meta "HOL-Library.Signed_Division"
begin

text \<open>
  The schedule of a cron job (\<open>v2/parser/infra/crons/cron.go\<close>): the part of \<open>parseCronJob\<close> that turns the
  decoded configuration into a schedule, with the intervals it allows and the ones it suggests. The
  parser of cron expressions is a third-party package and an argument.
\<close>

section \<open>Intervals\<close>

definition allowed_minutes :: "int list" where
  "allowed_minutes = [
     1, 2, 3, 4, 5, 6, 8, 9, 10, 12, 15, 16, 18, 20, 24, 30, 32, 36, 40, 45,
     48, 60, 72, 80, 90, 96, 120, 144, 160, 180, 240, 288, 360, 480, 720, 1440]"

definition SearchInts :: "int list \<Rightarrow> int \<Rightarrow> nat" where
  "SearchInts a x = search (\<lambda>i. x \<le> a ! i) 0 (length a)"

definition isCronIntervalAllowed :: "int \<Rightarrow> int \<times> bool" where
  "isCronIntervalAllowed val =
     (let idx = SearchInts allowed_minutes val
      in if idx = length allowed_minutes then (allowed_minutes ! (length allowed_minutes - 1), False)
         else if allowed_minutes ! idx = val then (val, True)
         else if idx = 0 then (allowed_minutes ! 0, False)
         else if \<bar>val - allowed_minutes ! (idx - 1)\<bar> < \<bar>val - allowed_minutes ! idx\<bar> then (allowed_minutes ! (idx - 1), False)
         else (allowed_minutes ! idx, False))"

text \<open>\<open>%d\<close>.\<close>

definition format_d :: "int \<Rightarrow> string" where
  "format_d n = (if n < 0 then ''-'' @ FormatUint 10 (nat (- n)) else FormatUint 10 (nat n))"

definition formatMinutes :: "int \<Rightarrow> string" where
  "formatMinutes minutes =
     (if minutes < 60 then format_d minutes @ '' * cron.Minute''
      else if minutes smod 60 = 0 then format_d (minutes sdiv 60) @ '' * cron.Hour''
      else format_d (minutes sdiv 60) @ '' * cron.Hour + '' @ format_d (minutes smod 60) @ '' * cron.Minute'')"

datatype cron_err = ScheduleSetTwice | InvalidSchedule | EveryMustBeInteger int | EveryMustBeOneOrGreater int
  | EveryMustBeLessThan24Hours int | EveryMustBeMultipleOfMinute string string

definition cron_every :: "int \<Rightarrow> cron_err + string" where
  "cron_every every =
     (if every smod 60 \<noteq> 0 then Inl (EveryMustBeInteger every)
      else let minutes = every sdiv 60
        in if minutes < 1 then Inl (EveryMustBeOneOrGreater every)
           else if minutes > 24 * 60 then Inl (EveryMustBeLessThan24Hours minutes)
           else case isCronIntervalAllowed minutes of
               (suggestion, False) \<Rightarrow> Inl (EveryMustBeMultipleOfMinute (formatMinutes minutes) (formatMinutes suggestion))
             | (_, True) \<Rightarrow> Inr (''every:'' @ format_d minutes))"

text \<open>Without an interval and without an expression no case of the switch applies.\<close>

definition cron_schedule :: "(string \<Rightarrow> bool) \<Rightarrow> int \<Rightarrow> string \<Rightarrow> cron_err + string" where
  "cron_schedule parses every schedule =
     (if every \<noteq> 0 \<and> schedule \<noteq> [] then Inl ScheduleSetTwice
      else if schedule \<noteq> [] then if parses schedule then Inr (''schedule:'' @ schedule) else Inl InvalidSchedule
      else if every \<noteq> 0 then cron_every every
      else Inr [])"


section \<open>The intervals that are allowed\<close>

lemma allowed_sorted: "sorted allowed_minutes"
  by (simp add: allowed_minutes_def)

lemma allowed_length: "length allowed_minutes = 36"
  by (simp add: allowed_minutes_def)

lemma small_divisors:
  "list_all (\<lambda>d. 1440 mod d = 0 \<longrightarrow> d \<in> set allowed_minutes \<and> 1440 div d \<in> set allowed_minutes) [1..38]"
  by code_simp

lemma allowed_divide: "list_all (\<lambda>d. 0 < d \<and> 1440 mod d = 0) allowed_minutes"
  by code_simp

lemma allowed_divisors: "d \<in> set allowed_minutes \<longleftrightarrow> 0 < d \<and> d dvd 1440"
proof
  assume "d \<in> set allowed_minutes"
  then show "0 < d \<and> d dvd 1440" using allowed_divide by (auto simp: list_all_iff dvd_eq_mod_eq_0)
next
  assume d: "0 < d \<and> d dvd 1440"
  then obtain e where e: "1440 = d * e" by auto
  then have "0 < d * e" by simp
  with d have "0 < e" by (simp add: zero_less_mult_iff)
  consider "d \<le> 38" | "39 \<le> d" "39 \<le> e" | "e \<le> 38" by linarith
  then show "d \<in> set allowed_minutes"
  proof cases
    case 1
    then have "d \<in> set [1..38]" using d by simp
    with small_divisors d show ?thesis unfolding list_all_iff by (metis dvd_imp_mod_0)
  next
    case 2
    then have "39 * 39 \<le> d * e" by (intro mult_mono) simp_all
    with e show ?thesis by simp
  next
    case 3
    then have "e \<in> set [1..38]" using \<open>0 < e\<close> by simp
    moreover have "1440 mod e = 0" "1440 div e = d" unfolding e using \<open>0 < e\<close> by simp_all
    ultimately show ?thesis using small_divisors unfolding list_all_iff by metis
  qed
qed

lemma SearchInts_spec:
  "SearchInts allowed_minutes x \<le> 36 \<and> (\<forall>i < SearchInts allowed_minutes x. allowed_minutes ! i < x)
   \<and> (\<forall>i < 36. SearchInts allowed_minutes x \<le> i \<longrightarrow> x \<le> allowed_minutes ! i)"
proof -
  have mono: "allowed_minutes ! a \<le> allowed_minutes ! b" if "a \<le> b" "b < 36" for a b
    using sorted_nth_mono [OF allowed_sorted, of a b] that by (simp add: allowed_length)
  have "SearchInts allowed_minutes x \<le> 36 \<and> (\<forall>i < SearchInts allowed_minutes x. \<not> x \<le> allowed_minutes ! i)
      \<and> (SearchInts allowed_minutes x < 36 \<longrightarrow> x \<le> allowed_minutes ! SearchInts allowed_minutes x)"
    unfolding SearchInts_def allowed_length by (rule search_spec) (use mono in \<open>fastforce\<close>)+
  with mono show ?thesis by (meson le_less_trans not_le order.trans)
qed

text \<open>The interval that is suggested is allowed, and none that is allowed is closer.\<close>

lemma interval_allowed:
  assumes "isCronIntervalAllowed m = (s, ok)"
  shows "ok \<longleftrightarrow> 0 < m \<and> m dvd 1440" and "s \<in> set allowed_minutes" and "\<And>d. d \<in> set allowed_minutes \<Longrightarrow> \<bar>m - s\<bar> \<le> \<bar>m - d\<bar>"
proof -
  let ?i = "SearchInts allowed_minutes m"
  have i: "?i \<le> 36" "\<And>j. j < ?i \<Longrightarrow> allowed_minutes ! j < m" "\<And>j. j < 36 \<Longrightarrow> ?i \<le> j \<Longrightarrow> m \<le> allowed_minutes ! j"
    using SearchInts_spec [of m] by auto
  have mono: "allowed_minutes ! a \<le> allowed_minutes ! b" if "a \<le> b" "b < 36" for a b
    using sorted_nth_mono [OF allowed_sorted, of a b] that by (simp add: allowed_length)
  have mem: "d \<in> set allowed_minutes \<longleftrightarrow> (\<exists>j<36. allowed_minutes ! j = d)" for d by (auto simp: in_set_conv_nth allowed_length)
  have here: "m \<in> set allowed_minutes \<longleftrightarrow> ?i < 36 \<and> allowed_minutes ! ?i = m"
  proof
    assume "m \<in> set allowed_minutes"
    then obtain j where j: "j < 36" "allowed_minutes ! j = m" by (auto simp: mem)
    then have "?i \<le> j" using i(2) [of j] by force
    then show "?i < 36 \<and> allowed_minutes ! ?i = m" using j mono [of ?i j] i(3) [of ?i] by simp
  qed (auto simp: mem)
  note c = assms [unfolded isCronIntervalAllowed_def Let_def allowed_length]
  show "ok \<longleftrightarrow> 0 < m \<and> m dvd 1440" unfolding allowed_divisors [symmetric] here using c i(1) by (auto split: if_splits)
  show "s \<in> set allowed_minutes"
  proof (cases "m \<in> set allowed_minutes")
    case True
    then have "s = m" using c here by simp
    with True show ?thesis by simp
  next
    case False
    have "allowed_minutes ! j \<in> set allowed_minutes" if "j < 36" for j using that by (auto simp: mem)
    with False show ?thesis using c i(1) by (auto simp: here split: if_splits)
  qed
  fix d assume "d \<in> set allowed_minutes"
  then obtain j where j: "j < 36" "allowed_minutes ! j = d" by (auto simp: mem)
  have lo: "d \<le> allowed_minutes ! (?i - 1) \<and> allowed_minutes ! (?i - 1) < m" if "j < ?i" using mono [of j "?i - 1"] i(1,2) that j by auto
  have hi: "allowed_minutes ! ?i \<le> d \<and> m \<le> allowed_minutes ! ?i" if "?i \<le> j" using mono [of ?i j] i(3) [of ?i] that j by auto
  have top: "allowed_minutes ! (?i - 1) < m" if "0 < ?i" using i(2) [of "?i - 1"] that by simp
  have up: "m \<le> allowed_minutes ! ?i" if "?i < 36" using i(3) [of ?i] that by simp
  show "\<bar>m - s\<bar> \<le> \<bar>m - d\<bar>"
    using c lo hi top up i(1) j(1) by (cases "j < ?i") (auto split: if_splits)
qed


lemma sdiv_smod_60: "(60 * m) sdiv 60 = m" "(60 * m) smod 60 = 0" for m :: int
  by (simp_all add: signed_divide_int_def signed_modulo_int_def sgn_mult abs_mult mult_sgn_abs)

lemma cron_every_minutes:
  "(cron_every (60 * m) = Inr s \<longleftrightarrow> 0 < m \<and> m dvd 1440 \<and> s = ''every:'' @ format_d m)
   \<and> (cron_every (60 * m) = Inl (EveryMustBeMultipleOfMinute x y) \<longrightarrow>
      0 < m \<and> m \<le> 1440 \<and> \<not> m dvd 1440 \<and> x = formatMinutes m
      \<and> (\<exists>s. y = formatMinutes s \<and> 0 < s \<and> s dvd 1440 \<and> (\<forall>d. 0 < d \<and> d dvd 1440 \<longrightarrow> \<bar>m - s\<bar> \<le> \<bar>m - d\<bar>)))"
proof -
  have le: "m \<le> 1440" if "m dvd 1440" using zdvd_imp_le [OF that] by simp
  obtain g ok where c: "isCronIntervalAllowed m = (g, ok)" by fastforce
  note a = interval_allowed [OF c, unfolded allowed_divisors]
  show ?thesis using a le by (cases ok) (auto simp: cron_every_def sdiv_smod_60 Let_def c)
qed


section \<open>Properties\<close>

text \<open>C28. An interval is accepted exactly when it is a positive number of whole minutes that divides
  the day evenly; one that does not, within a day, is refused with the suggestion of an interval
  that does, and no other such interval is closer.
\<close>

theorem cron_interval_divides_day:
  "(\<forall>s. every \<noteq> 0 \<and> cron_schedule parses every [] = Inr s \<longleftrightarrow>
      (\<exists>m. every = 60 * m \<and> 0 < m \<and> m dvd 1440 \<and> s = ''every:'' @ format_d m))
   \<and> (\<forall>x y. every \<noteq> 0 \<and> cron_schedule parses every [] = Inl (EveryMustBeMultipleOfMinute x y) \<longrightarrow>
      (\<exists>m s. every = 60 * m \<and> 0 < m \<and> m \<le> 1440 \<and> \<not> m dvd 1440 \<and> x = formatMinutes m \<and> y = formatMinutes s
         \<and> 0 < s \<and> s dvd 1440 \<and> (\<forall>d. 0 < d \<and> d dvd 1440 \<longrightarrow> \<bar>m - s\<bar> \<le> \<bar>m - d\<bar>)))"
proof -
  have "every smod 60 = 0 \<longleftrightarrow> (\<exists>m. every = 60 * m)"
    using smod_mult_sdiv_eq [of every 60] sdiv_smod_60(2) by (metis add_0)
  then consider m where "every = 60 * m" | "every smod 60 \<noteq> 0" "\<nexists>m. every = 60 * m" by blast
  then show ?thesis
  proof cases
    case (1 m)
    then show ?thesis using cron_every_minutes [of m] by (auto simp: cron_schedule_def)
  next
    case 2
    then show ?thesis by (auto simp: cron_schedule_def cron_every_def)
  qed
qed

theorem cron_interval_divides_day_witness:
  "cron_schedule (\<lambda>_. False) 5400 [] = Inr ''every:90''
   \<and> cron_schedule (\<lambda>_. False) 420 [] = Inl (EveryMustBeMultipleOfMinute ''7 * cron.Minute'' ''8 * cron.Minute'')
   \<and> (\<exists>m s. 420 = 60 * m \<and> ''8 * cron.Minute'' = formatMinutes s \<and> s dvd 1440 \<and> \<bar>m - s\<bar> \<le> \<bar>m - 6\<bar>)"
proof -
  have c: "cron_schedule (\<lambda>_. False) 420 [] = Inl (EveryMustBeMultipleOfMinute ''7 * cron.Minute'' ''8 * cron.Minute'')" by code_simp
  have "format_d 90 = ''90''" by code_simp
  moreover have "5400 = 60 * (90 :: int) \<and> 90 dvd (1440 :: int)" by simp
  ultimately have "cron_schedule (\<lambda>_. False) 5400 [] = Inr ''every:90''"
    using cron_interval_divides_day [of 5400 "\<lambda>_. False", THEN conjunct1, THEN spec [of _ "''every:90''"]] by fastforce
  moreover obtain m s where m: "420 = 60 * m" "''8 * cron.Minute'' = formatMinutes s" "s dvd 1440"
      "\<And>d. 0 < d \<Longrightarrow> d dvd 1440 \<Longrightarrow> \<bar>m - s\<bar> \<le> \<bar>m - d\<bar>"
    using cron_interval_divides_day [of 420 "\<lambda>_. False", THEN conjunct2, THEN spec, THEN spec, THEN mp, OF conjI [OF _ c]] by auto
  from m(4) [of 6] have "\<bar>m - s\<bar> \<le> \<bar>m - 6\<bar>" by simp
  with m(1-3) c calculation show ?thesis by blast
qed

text \<open>A job that has neither an interval nor an expression is accepted, with an empty schedule.\<close>

theorem no_schedule_accepted: "cron_schedule parses 0 [] = Inr []"
  by (simp add: cron_schedule_def)

end
