(* ===== verification/Spec2Isabelle.thy ===== *)
theory Spec2Isabelle
  imports Trace_Concurrent Stack_Build Api_Endpoint Types_UUID Tar_Stream Meta_Secrets Errs
    Lock_Map Work_Pool Cloud_Trace Req_Track Path_Escape Cron_Schedule
begin

text \<open>
  \<^bold>\<open>A verification development of Afterpiece.\<close>

  Afterpiece turns annotated Go functions into services: its compiler reads the annotations
  (directives) of an application and checks that its endpoints fit together, its runtime executes
  the application, lets its services call each other, and writes a trace of everything it does; its
  daemon reads the traces back, stores them without secrets, and builds images of the application.
  The development covers the parts of this that compute; each has its theories.

  \<^bold>\<open>Tracing.\<close> The runtime writes events into a log (\<open>runtimes/go/appruntime/exported/trace2\<close>); the
  daemon drains it, parses the events (\<open>pkg/traceparser\<close>) and hands them to a store in batches
  (\<open>cli/daemon/engine/trace2/recorder.go\<close>).

  \<^item> \<open>Trace_Log\<close>: \<open>log.go\<close>, the log and the event buffer with every write operation. State of the log
    is the record \<open>Log\<close>, a buffer is its bytes. Integers have their machine width, \<open>Add\<close> drops events
    of 4 GiB and more.
  \<^item> \<open>Trace_Reader\<close>, \<open>Trace_Proto\<close>, \<open>Trace_Parser\<close>: \<open>binreader.go\<close>, the messages of \<open>trace2.proto\<close>, and
    \<open>parser.go\<close>. The reader is a state monad with the sticky error of the source; a panic is a value.
  \<^item> \<open>Trace_Events\<close>, \<open>Trace_HTTP\<close>: \<open>events.go\<close> and \<open>http.go\<close>, one definition per method that writes an
    event.
  \<^item> \<open>Trace_Codec\<close>: for each primitive, reading gives back what was written. The laws are a locale,
    interpreted for every pair of writer and reader; composed formats follow inside it.
  \<^item> \<open>Trace_Logger\<close>, \<open>Trace_Roundtrip\<close>: the interface \<open>Logger\<close> (\<open>logger.go\<close>) as one function of the call,
    and that \<open>ParseEvent\<close> returns the message each call stands for.
  \<^item> \<open>Trace_Robust\<close>: arbitrary streams. The parser never panics, reads a prefix, makes progress, and
    reports truncated events.
  \<^item> \<open>Trace_Recorder\<close>, \<open>Trace_Concurrent\<close>: the two goroutines of \<open>RecordTrace\<close>, and a log used by many
    goroutines at once, as step relations with invariants over all interleavings.
  \<^item> \<open>Stack_Build\<close>: \<open>stack.go\<close>, collecting and filtering stack traces.

  \<^bold>\<open>API endpoints.\<close> A comment \<open>//encore:api public path=/a/:id\<close> becomes a directive, the directive an
  endpoint, and the routes of all endpoints are checked for conflicts (all under \<open>v2\<close>).

  \<^item> \<open>Resource_Path\<close>: \<open>internals/resourcepaths/paths.go\<close> up to \<open>ToProto\<close>. \<open>Parse\<close> accepts exactly the
    texts of well-formed paths, and its errors point into the text.
  \<^item> \<open>Resource_Set\<close>: the type \<open>Set\<close> of the same file. Its trees are values (the source mutates nodes
    that nothing else refers to); what a failing \<open>Add\<close> leaves behind is part of the result. The
    contract of a registry that refuses conflicting entries is the locale \<open>registry\<close>, interpreted for
    \<open>Add\<close>; from it follow the refinement to a plain collection and that accepted routes are
    unambiguous.
  \<^item> \<open>Api_Directive\<close>: \<open>parser/apis/directive\<close>. The two field splitters agree, accepted directives are
    well formed and survive printing and parsing.
  \<^item> \<open>Api_Selector\<close>: \<open>parser/apis/selector\<close>. Sorted slices searched by bisection implement sets.
  \<^item> \<open>Api_Endpoint\<close>: \<open>parser/apis/api/api.go\<close> and the registration loop of \<open>app/validate_apis.go\<close>. It
    composes the four theories above: what an accepted endpoint satisfies, and that the routes of an
    accepted application serve no request twice.

  \<^item> \<open>Cron_Schedule\<close>: \<open>parser/infra/crons/cron.go\<close>, the schedule of a cron job. The intervals accepted are
    those that divide the day, and the ones suggested are the closest of them.

  \<^bold>\<open>Calls between services.\<close> A service adds metadata to a request, signs it, and the service it calls
  verifies and reads it (\<open>runtimes/go/appruntime\<close>).

  \<^item> \<open>Transport\<close>: \<open>apisdk/api/transport\<close>, metadata in HTTP headers. The laws of setting, reading and
    listing are the locale \<open>meta_transport\<close>, interpreted for the headers.
  \<^item> \<open>Svc_Auth\<close>: \<open>apisdk/api/svcauth\<close>. What is signed verifies, and what verifies was signed, for exactly
    its metadata.
  \<^item> \<open>Call_Meta\<close>: \<open>callers.go\<close> and \<open>call_meta.go\<close> of \<open>apisdk/api\<close>, and what \<open>gateway.go\<close> adds to the requests it
    forwards. Composed with the two theories above: the metadata of a call arrives as it was sent;
    a user that a client of the gateway claims arrives as well.
  \<^item> \<open>Cloud_Trace\<close>: \<open>shared/cloudtrace/extractors.go\<close> and \<open>extractCallMeta\<close> of \<open>server.go\<close>. Every request gets
    a trace.
  \<^item> \<open>Req_Track\<close>: \<open>shared/reqtrack\<close>, which request a goroutine works for. A step is one call of a
    goroutine; over all interleavings of goroutines that finish what they begin, reference counts are
    exact and a log is closed once.

  \<^bold>\<open>Work and locks.\<close> Concurrent components as step relations over multisets of calls.

  \<^item> \<open>Work_Pool\<close>: \<open>runtimes/go/pubsub/internal/utils/workers.go\<close>. No item is lost or processed twice, the
    pool can always finish its items and can always be shut down.
  \<^item> \<open>Lock_Map\<close>: \<open>pkg/emulators/storage/gcsutil\<close>. Locks that are made and dropped on demand implement one
    mutex per key.

  \<^bold>\<open>Secrets.\<close> Traces are scrubbed before they are stored (\<open>pkg/scrub\<close>).

  \<^item> \<open>Scrub_Scanner\<close>, \<open>Scrub_JSON\<close>: \<open>scanner.go\<close> and \<open>scrub.go\<close>, on arbitrary bytes.
  \<^item> \<open>Scrub_Text\<close>, \<open>Scrub_Redact\<close>: JSON values as specification, and that scrubbing the text of a value
    replaces exactly what the paths select.
  \<^item> \<open>Meta_Scrub\<close>, \<open>Meta_Secrets\<close>: \<open>metascrub/metascrub.go\<close>, the paths of a schema type. They select exactly
    the sensitive locations of the type; composed with the scrubber, exactly the sensitive fields of
    a value are redacted.

  \<^bold>\<open>Images, errors, identifiers, addresses.\<close>

  \<^item> \<open>Tar_Stream\<close>: \<open>pkg/tarstream\<close> and \<open>Opener\<close> of \<open>pkg/dockerbuild/tarcopy.go\<close>. A stream over memory, files
    and padding refines one sequence of bytes.
  \<^item> \<open>Errs\<close>: \<open>runtimes/go/beta/errs\<close>, wrapping, converting and reporting errors.
  \<^item> \<open>Types_UUID\<close>: \<open>runtimes/go/types/uuid\<close>, with the exact set of accepted notations, round trips
    through text, bytes and database values, and the bits generators set.
  \<^item> \<open>Path_Escape\<close>: \<open>runtimes/go/storage/objects/path_escape.go\<close> and \<open>PublicURL\<close>. Escaping fills its buffer
    exactly and decodes to the text.

  \<^bold>\<open>Shared theories.\<close> \<open>Go_Prelude\<close> has the type names, collections of rewrite rules and generic
  lemmas. \<open>Go_Stdlib\<close> and \<open>Go_Text\<close> model what the source uses of the Go library: integer encodings,
  UTF-8, byte strings, identifiers, request URIs and bisection. Strings of the trace protocol are
  lists of bytes; strings of the compiler and of headers are HOL strings, one character per byte.

  \<^bold>\<open>Bounds and termination.\<close> Loops without a structural measure (the path splitter, the field
  splitter, bisection, the parsing loop) have termination proofs. Two loops of the source need not
  end and have fuel: the scrubber, where twice the length of the input and two more are enough for
  the text of a value (part of \<open>scrub_redacts\<close>; on truncated input it loops forever, a lemma of
  \<open>Scrub_Redact\<close>), and the walk over schema types, where the step limit of the source and two more are
  always enough. The routine of \<open>Work_Pool\<close> that processes one item at a time runs for a given number
  of rounds. Concurrent components are relations, and that they can always finish is a theorem.
  Source positions and reference counts are unbounded integers, as files and programs are far below
  their limits; everything on the wire and every offset keeps its width.

  \<^bold>\<open>Parameters.\<close> Code outside the repository is an argument: the JSON encoding of logged values and of
  authentication data, the function names behind program counters, Unicode tables beyond ASCII (with
  folding orbits and printable runes), the iteration order of Go maps, hash functions, random
  bytes, the signing library, the parser of cron expressions, tar headers and the contents of
  files. The outcome of the schema parser for a declaration and the errors of describing payloads
  are arguments of \<open>Api_Parse\<close>; fetching and processing are arguments of the work pool.

  \<^bold>\<open>Not modelled.\<close> The remaining compiler front end works on syntax trees and types of the Go
  toolchain and generates code; the command line interface and the daemon outside the recorder
  orchestrate processes, files and networks; the remaining runtime consists of servers, generated
  handlers and bindings to third-party clients; the Rust and JavaScript runtimes wrap native
  libraries. Text forms that need formatted times, JSON of nullable UUIDs (a third-party encoder),
  the retry delays of subscriptions (which go through floating-point numbers) and the texts of most
  errors are left out.
\<close>


section \<open>Across components\<close>

text \<open>C3. From the calls on a log to the store of the daemon: when the data drained from a log is given to a
  recorder whose store accepts its writes, then at the end the store has exactly the events the calls stand for, in order.\<close>

theorem calls_reach_store:
  assumes "calls_ok fr js cs" "Logger_runs fr js cs \<lparr>nextEventID = n, the_log = Some NewLog\<rparr> = (eids, s')"
    and "the_log s' = Some l" "Log_GetAndClear cap l = ((data, dn), l')"
    and "CurrentVersion \<le> version"
    and "(recorder_step False EOF ta version)\<^sup>*\<^sup>* (rc_start data) r" "rc_returned r"
  shows "concat (rc_written r) = expected_events fr js ta (zip cs eids)"
proof -
  obtain bs where bs: "the_log s' = Some (NewLog\<lparr>log_data := log_data NewLog @ bs\<rparr>)"
    "\<And>rest. parse_loop EOF ta version (bs @ rest) = (case parse_loop EOF ta version rest of (evs, en) \<Rightarrow>
           (expected_events fr js ta (zip cs eids) @ evs, en))"
    using Logger_runs_parse [OF assms(1) _ assms(2,5), of NewLog EOF ta] by auto
  then have "data = bs" using assms(3,4) by (auto simp: NewLog_def Log_GetAndClear_def)
  with bs(2) [of "[]"] recorder_run_returned [OF assms(6,7)] show ?thesis
    by (simp add: parse_loop_Nil)
qed

theorem calls_reach_store_witness:
  "\<exists>data r. log_data (the (the_log (snd (Logger_run (\<lambda>_. []) (\<lambda>_. Inr []) sample_call 5 sample_state)))) = data
    \<and> (recorder_step False EOF sample_anchor 15)\<^sup>*\<^sup>* (rc_start data) r \<and> rc_returned r
    \<and> concat (rc_written r) = [sample_event]"
proof -
  obtain bs where bs: "snd (Logger_run (\<lambda>_. []) (\<lambda>_. Inr []) sample_call 5 sample_state)
      = sample_state\<lparr>nextEventID := 42, the_log := Some (NewLog\<lparr>log_data := bs\<rparr>)\<rparr>" by (rule sample_parse)
  obtain r where r: "(recorder_step False EOF sample_anchor 15)\<^sup>*\<^sup>* (rc_start bs) r" "rc_returned r"
    by (rule recorder_run_exists)
  have "concat (rc_written r) = expected_events (\<lambda>_. []) (\<lambda>_. Inr []) sample_anchor (zip [(sample_call, 5)] [42])"
    by (rule calls_reach_store [OF sample_calls_ok sample_runs [of "\<lambda>_. []" "\<lambda>_. Inr []", unfolded bs, unfolded sample_state_def] _ _ _ r, where dn = False
        and l = "NewLog\<lparr>log_data := bs\<rparr>" and cap = 0 and l' = "Log_clearDataBuf 0 (NewLog\<lparr>log_data := bs\<rparr>)"])
      (simp_all add: Log_GetAndClear_def NewLog_def)
  then have "concat (rc_written r) = [sample_event]" by (simp only: sample_expected)
  with r bs show ?thesis by auto
qed

end
